(* ===== verification/Ml_Prelude.thy ===== *)
theory Ml_Prelude
  imports Main "HOL-Library.Word" "HOL-Library.Signed_Division"
begin

unbundle bit_operations_syntax

text \<open>
  Shared vocabulary of the development: machine types, memory faults as values, checked reads
  and writes of byte buffers (\<open>memcpy\<close>), and the network byte order conversions
  (\<open>htons\<close>, \<open>htonl\<close>, \<open>ntohs\<close>, \<open>ntohl\<close>) as encoders to and decoders from byte lists.
  A memory error of the C code (a read or write outside an object, a NULL or dangling pointer)
  is a value of \<open>fault\<close>; an operation that may commit one returns \<open>fault + 'a\<close>.
\<close>

section \<open>Machine types and faults\<close>

type_synonym byte = "8 word"
type_synonym u16 = "16 word"
type_synonym u32 = "32 word"

datatype fault = OutOfBounds | NullDeref | UseAfterFree | DivByZero | AssertFail | BadShift

type_synonym 'a res = "fault + 'a"

named_theorems ml_defs \<open>definitions of the small operations the component proofs unfold\<close>
named_theorems ml_inv \<open>preservation of invariants, one rule per operation\<close>

definition res_bind :: "'a res \<Rightarrow> ('a \<Rightarrow> 'b res) \<Rightarrow> 'b res" where
  "res_bind m f = (case m of Inl e \<Rightarrow> Inl e | Inr x \<Rightarrow> f x)"

definition res_map :: "('a \<Rightarrow> 'b) \<Rightarrow> 'a res \<Rightarrow> 'b res" where
  "res_map f m = (case m of Inl e \<Rightarrow> Inl e | Inr x \<Rightarrow> Inr (f x))"

definition check :: "fault \<Rightarrow> bool \<Rightarrow> unit res" where
  "check e b = (if b then Inr () else Inl e)"

definition ok :: "'a res \<Rightarrow> bool" where
  "ok m = (case m of Inl _ \<Rightarrow> False | Inr _ \<Rightarrow> True)"

lemma res_bind_simps [simp]:
  "res_bind (Inl e) f = Inl e"
  "res_bind (Inr x) f = f x"
  by (simp_all add: res_bind_def)

lemma res_map_simps [simp]:
  "res_map g (Inl e) = Inl e"
  "res_map g (Inr x) = Inr (g x)"
  by (simp_all add: res_map_def)

lemma check_simps [simp]:
  "check e True = Inr ()"
  "check e False = Inl e"
  by (simp_all add: check_def)

lemma ok_simps [simp]:
  "\<not> ok (Inl e)"
  "ok (Inr x)"
  by (simp_all add: ok_def)

lemma ok_iff: "ok m \<longleftrightarrow> (\<exists>x. m = Inr x)"
  by (cases m) auto

lemma res_bind_Inr: "res_bind m f = Inr y \<longleftrightarrow> (\<exists>x. m = Inr x \<and> f x = Inr y)"
  by (cases m) auto

lemma res_map_Inr: "res_map g m = Inr y \<longleftrightarrow> (\<exists>x. m = Inr x \<and> y = g x)"
  by (cases m) auto

lemma check_Inr [simp]: "check e b = Inr u \<longleftrightarrow> b"
  by (simp add: check_def)

lemma res_bind_assoc: "res_bind (res_bind m f) g = res_bind m (\<lambda>x. res_bind (f x) g)"
  by (cases m) auto

text \<open>The same for operations that may not return; \<open>None\<close> is a run without end.\<close>

definition opt_bind :: "'a res option \<Rightarrow> ('a \<Rightarrow> 'b res option) \<Rightarrow> 'b res option" where
  "opt_bind m f = (case m of None \<Rightarrow> None | Some (Inl e) \<Rightarrow> Some (Inl e) | Some (Inr x) \<Rightarrow> f x)"

lemma opt_bind_simps [simp]:
  "opt_bind None f = None"
  "opt_bind (Some (Inl e)) f = Some (Inl e)"
  "opt_bind (Some (Inr x)) f = f x"
  by (simp_all add: opt_bind_def)

lemma opt_bind_Inr: "opt_bind m f = Some (Inr y) \<longleftrightarrow> (\<exists>x. m = Some (Inr x) \<and> f x = Some (Inr y))"
  by (auto simp: opt_bind_def split: option.splits sum.splits)

lemma opt_bind_InrE:
  assumes "opt_bind m f = Some (Inr y)" obtains x where "m = Some (Inr x)" "f x = Some (Inr y)"
  using assms by (auto simp: opt_bind_Inr)

lemma opt_bind_mono [partial_function_mono]:
  assumes "mono_option m" "\<And>x. mono_option (\<lambda>f. g x f)"
  shows "mono_option (\<lambda>f. opt_bind (m f) (\<lambda>x. g x f))"
proof -
  have eq: "opt_bind n h = Option.bind n (\<lambda>r. case r of Inl e \<Rightarrow> Some (Inl e) | Inr x \<Rightarrow> h x)" for n h
    by (simp add: opt_bind_def split: option.split sum.split)
  have "mono_option (\<lambda>f. case r of Inl e \<Rightarrow> Some (Inl e) | Inr x \<Rightarrow> g x f)" for r
    by (cases r) (simp_all add: assms(2) option.const_mono)
  then show ?thesis unfolding eq by (rule bind_mono [OF assms(1)])
qed

lemma unat_byte_less: "unat (b :: byte) < 256"
  using unsigned_less [of b, where 'a = nat] by simp

lemma unat_byte_le: "unat (b :: byte) \<le> 255"
  using unat_byte_less [of b] by simp

lemma find_SomeD: "find P xs = Some x \<Longrightarrow> x \<in> set xs \<and> P x"
  by (auto simp: find_Some_iff)

section \<open>Buffers\<close>

text \<open>
  \<open>mem_read buf off n\<close> is the bytes \<open>buf[off] .. buf[off+n-1]\<close>, \<open>mem_write buf off bs\<close>
  overwrites the bytes from \<open>off\<close> on. Offsets and lengths are the values the C expressions
  have, so they may be negative; both fault where the C code leaves the object.
\<close>

definition mem_read :: "byte list \<Rightarrow> int \<Rightarrow> int \<Rightarrow> byte list res" where
  "mem_read buf off n =
     (if 0 \<le> off \<and> 0 \<le> n \<and> off + n \<le> int (length buf)
      then Inr (take (nat n) (drop (nat off) buf)) else Inl OutOfBounds)"

definition mem_write :: "byte list \<Rightarrow> int \<Rightarrow> byte list \<Rightarrow> byte list res" where
  "mem_write buf off bs =
     (if 0 \<le> off \<and> off + int (length bs) \<le> int (length buf)
      then Inr (take (nat off) buf @ bs @ drop (nat off + length bs) buf) else Inl OutOfBounds)"

lemma mem_read_length: "mem_read buf off n = Inr bs \<Longrightarrow> int (length bs) = n"
  by (auto simp: mem_read_def split: if_splits)

lemma mem_write_length: "mem_write buf off bs = Inr buf' \<Longrightarrow> length buf' = length buf"
  by (auto simp: mem_write_def split: if_splits)

lemma mem_write_ok: "ok (mem_write buf off bs) \<longleftrightarrow> 0 \<le> off \<and> off + int (length bs) \<le> int (length buf)"
  by (simp add: mem_write_def)

lemma mem_write_nth:
  assumes "mem_write buf off bs = Inr buf'" and "i < length buf"
  shows "buf' ! i = (if off \<le> int i \<and> int i < off + int (length bs) then bs ! (i - nat off) else buf ! i)"
proof -
  from assms(1) have b: "0 \<le> off" "off + int (length bs) \<le> int (length buf)"
    and eq: "buf' = take (nat off) buf @ bs @ drop (nat off + length bs) buf"
    by (auto simp: mem_write_def split: if_splits)
  show ?thesis
    using b assms(2) unfolding eq by (auto simp: nth_append min_def nat_less_iff)
qed

lemma mem_write_whole: "length bs = length buf \<Longrightarrow> mem_write buf 0 bs = Inr bs"
  by (simp add: mem_write_def)

section \<open>Network byte order\<close>

definition be16 :: "u16 \<Rightarrow> byte list" where
  "be16 w = [ucast (drop_bit 8 w), ucast w]"

definition be32 :: "u32 \<Rightarrow> byte list" where
  "be32 w = [ucast (drop_bit 24 w), ucast (drop_bit 16 w), ucast (drop_bit 8 w), ucast w]"

definition of_be16 :: "byte list \<Rightarrow> u16" where
  "of_be16 bs = push_bit 8 (ucast (bs ! 0)) OR ucast (bs ! 1)"

definition of_be32 :: "byte list \<Rightarrow> u32" where
  "of_be32 bs = push_bit 24 (ucast (bs ! 0)) OR push_bit 16 (ucast (bs ! 1))
     OR push_bit 8 (ucast (bs ! 2)) OR ucast (bs ! 3)"

lemma length_be [simp]: "length (be16 w) = 2" "length (be32 v) = 4"
  by (simp_all add: be16_def be32_def)

lemma of_be16_be16 [simp]: "of_be16 (be16 w @ rest) = w"
  by (rule bit_word_eqI) (auto simp: of_be16_def be16_def bit_simps)

lemma of_be32_be32 [simp]: "of_be32 (be32 w @ rest) = w"
proof (rule bit_word_eqI)
  fix n assume "n < LENGTH(32)"
  then consider "n < 8" | "8 \<le> n" "n < 16" | "16 \<le> n" "n < 24" | "24 \<le> n" "n < 32"
    by fastforce
  then show "bit (of_be32 (be32 w @ rest)) n \<longleftrightarrow> bit w n"
    by cases (auto simp: of_be32_def be32_def bit_simps)
qed

lemma of_be16_be16_only [simp]: "of_be16 (be16 w) = w"
  using of_be16_be16 [of w "[]"] by simp

lemma of_be32_be32_only [simp]: "of_be32 (be32 w) = w"
  using of_be32_be32 [of w "[]"] by simp

lemma byte_bit_ge [simp]: "8 \<le> n \<Longrightarrow> \<not> bit (b :: byte) n"
  using bit_imp_le_length [of b n] by auto

lemma be16_of_be16:
  assumes "length bs = 2" shows "be16 (of_be16 bs) = bs"
proof -
  obtain a b where bs: "bs = [a, b]"
    using assms by (auto simp: length_Suc_conv numeral_2_eq_2)
  show ?thesis
    unfolding bs be16_def of_be16_def
    by (auto intro!: bit_word_eqI simp: bit_simps)
qed

lemma be32_of_be32:
  assumes "length bs = 4" shows "be32 (of_be32 bs) = bs"
proof -
  obtain a b c d where bs: "bs = [a, b, c, d]"
    using assms by (auto simp: length_Suc_conv eval_nat_numeral)
  show ?thesis
    unfolding bs be32_def of_be32_def
    by (auto intro!: bit_word_eqI simp: bit_simps)
qed

section \<open>Conversions to int\<close>

lemma sint_of_int32: "-(2 ^ 31) \<le> x \<Longrightarrow> x < 2 ^ 31 \<Longrightarrow> sint (word_of_int x :: u32) = x"
  using signed_take_bit_int_eq_self [of 31 x] by (simp add: sint_sbintrunc')

text \<open>A wider integer value assigned or cast to an \<open>int\<close> keeps its low 32 bits, read as a signed number.\<close>

definition c_int :: "int \<Rightarrow> int" where
  "c_int x = sint (word_of_int x :: u32)"

lemma c_int_id: "-(2 ^ 31) \<le> x \<Longrightarrow> x < 2 ^ 31 \<Longrightarrow> c_int x = x"
  unfolding c_int_def by (rule sint_of_int32)

lemma c_int_wraps: "2 ^ 31 \<le> x \<Longrightarrow> x < 2 ^ 32 \<Longrightarrow> c_int x = x - 2 ^ 32"
proof -
  assume x: "2 ^ 31 \<le> x" "x < 2 ^ 32"
  have "(word_of_int x :: u32) = word_of_int (x - 2 ^ 32)"
    by (rule word_of_int_eq_iff [THEN iffD2]) (simp add: take_bit_eq_mod flip: mod_diff_right_eq)
  then have "c_int x = c_int (x - 2 ^ 32)" by (simp only: c_int_def)
  also have "\<dots> = x - 2 ^ 32" by (rule c_int_id) (use x in simp_all)
  finally show ?thesis .
qed

section \<open>Systems of steps\<close>

text \<open>
  The contract between a system and its invariant: every step keeps it. What steps reach then has it,
  and what each step from such a state guarantees is guaranteed in every run.
\<close>

locale step_system =
  fixes step :: "'e \<Rightarrow> 's \<Rightarrow> 's \<Rightarrow> bool" and inv :: "'s \<Rightarrow> bool" and guar :: "'e \<Rightarrow> 's \<Rightarrow> 's \<Rightarrow> bool"
  assumes step_inv: "step e s s' \<Longrightarrow> inv s \<Longrightarrow> inv s'"
    and step_guar: "step e s s' \<Longrightarrow> inv s \<Longrightarrow> guar e s s'"
begin

lemma reach_inv: "(\<lambda>s s'. \<exists>e. step e s s')\<^sup>*\<^sup>* s s' \<Longrightarrow> inv s \<Longrightarrow> inv s'"
  by (induction rule: rtranclp_induct) (auto intro: step_inv)

lemma reach_guar: "(\<lambda>s s'. \<exists>e. step e s s')\<^sup>*\<^sup>* s t \<Longrightarrow> inv s \<Longrightarrow> step e t u \<Longrightarrow> guar e t u"
  by (rule step_guar [OF _ reach_inv])

end

end
