(* ===== verification/Inet_Text.thy ===== *)
theory Inet_Text
  imports Ml_Prelude
begin

text \<open>
  Decimal printing (the \<open>%d\<close> and \<open>%u\<close> conversions the code uses) and the dotted-decimal
  conversions of \<open>ml/util/inet_functions/inet_pton.c\<close> and \<open>inet_ntop.c\<close>. A C string is a
  \<open>string\<close> without its terminating NUL; a return of 0 (\<open>inet_pton4\<close>) or NULL
  (\<open>inet_ntop4\<close>) is \<open>None\<close>.
\<close>

section \<open>Decimal printing\<close>

fun dec :: "nat \<Rightarrow> string" where
  "dec n = (if n < 10 then [char_of (48 + n)] else dec (n div 10) @ [char_of (48 + n mod 10)])"

declare dec.simps [simp del]

definition dec_int :: "int \<Rightarrow> string" where
  "dec_int i = (if i < 0 then CHR ''-'' # dec (nat (- i)) else dec (nat i))"

definition digit_val :: "char \<Rightarrow> nat option" where
  "digit_val c = (let n = of_char c in if 48 \<le> n \<and> n \<le> 57 then Some (n - 48) else None)"

definition digit_char :: "nat \<Rightarrow> char" where
  "digit_char d = char_of (48 + d)"

lemma dec_small: "n < 10 \<Longrightarrow> dec n = [digit_char n]"
  by (subst dec.simps) (simp add: digit_char_def)

lemma dec_step: "0 < n \<Longrightarrow> d < 10 \<Longrightarrow> dec (n * 10 + d) = dec n @ [digit_char d]"
  by (subst dec.simps) (simp add: digit_char_def)

lemma dec_nonempty [simp]: "dec n \<noteq> []"
  by (subst dec.simps) simp

lemma of_char_digit: "d < 10 \<Longrightarrow> (of_char (digit_char d) :: nat) = 48 + d"
  by (simp add: digit_char_def take_bit_nat_eq_self)

lemma digit_val_char [simp]: "d < 10 \<Longrightarrow> digit_val (digit_char d) = Some d"
  by (simp add: digit_val_def of_char_digit Let_def)

lemma digit_val_Some: "digit_val c = Some d \<longleftrightarrow> d < 10 \<and> c = digit_char d"
proof
  assume "digit_val c = Some d"
  then have d: "d < 10" "(of_char c :: nat) = 48 + d"
    by (auto simp: digit_val_def Let_def split: if_splits)
  then have "c = char_of (48 + d)" by (metis char_of_char)
  with d show "d < 10 \<and> c = digit_char d" by (simp add: digit_char_def)
qed simp

lemma digit_val_dot [simp]: "digit_val CHR ''.'' = None" "digit_val CHR '':'' = None"
  by (simp_all add: digit_val_def)

lemma dec_digits: "c \<in> set (dec n) \<Longrightarrow> \<exists>d<10. c = digit_char d"
proof (induction n rule: dec.induct)
  case (1 n)
  show ?case
  proof (cases "n < 10")
    case True
    with 1 show ?thesis by (auto simp: dec_small)
  next
    case False
    then have "dec n = dec (n div 10) @ [digit_char (n mod 10)]"
      by (subst dec.simps) (simp add: digit_char_def)
    moreover have "n mod 10 < 10" by simp
    ultimately show ?thesis using 1 False by (metis Un_iff empty_iff insert_iff list.set set_append)
  qed
qed

lemma length_dec_byte: "n \<le> 255 \<Longrightarrow> length (dec n) \<le> 3"
  by (subst dec.simps, subst dec.simps, subst dec.simps) auto

section \<open>inet_ntop4 and inet_pton4\<close>

definition dotted :: "nat list \<Rightarrow> string" where
  "dotted ns = (case ns of [] \<Rightarrow> [] | n # ms \<Rightarrow> dec n @ concat (map (\<lambda>m. CHR ''.'' # dec m) ms))"

text \<open>
  \<open>inet_ntop4\<close> prints into a buffer of 16 characters (\<open>sizeof "255.255.255.255"\<close>), so
  \<open>snprintf\<close> returns the length of the whole text; it refuses when that does not leave room for
  the terminating NUL in the caller's buffer of \<open>sz\<close> characters.
\<close>

definition inet_ntop4 :: "byte list \<Rightarrow> nat \<Rightarrow> string option" where
  "inet_ntop4 src sz =
     (let tmp = dotted (map unat (take 4 src)); l = length tmp
      in if l = 0 \<or> sz \<le> l then None else Some tmp)"

text \<open>
  The loop of \<open>inet_pton4\<close>. \<open>tmp\<close> holds the octets begun so far, its last element is
  \<open>*tp\<close>: assigning \<open>*tp\<close> replaces the last element, \<open>*++tp = 0\<close> appends a zero.
\<close>

fun inet_pton4_loop :: "string \<Rightarrow> nat list \<Rightarrow> bool \<Rightarrow> nat \<Rightarrow> nat list option" where
  "inet_pton4_loop [] tmp saw_digit octets = (if octets < 4 then None else Some tmp)"
| "inet_pton4_loop (ch # src) tmp saw_digit octets =
     (case digit_val ch of
        Some d \<Rightarrow>
          (let new = last tmp * 10 + d in
           if saw_digit \<and> last tmp = 0 then None
           else if new > 255 then None
           else if \<not> saw_digit then
             (if octets + 1 > 4 then None
              else inet_pton4_loop src (butlast tmp @ [new]) True (octets + 1))
           else inet_pton4_loop src (butlast tmp @ [new]) saw_digit octets)
      | None \<Rightarrow>
          (if ch = CHR ''.'' \<and> saw_digit then
             (if octets = 4 then None else inet_pton4_loop src (tmp @ [0]) False octets)
           else None))"

definition inet_pton4 :: "string \<Rightarrow> byte list option" where
  "inet_pton4 src = map_option (map word_of_nat) (inet_pton4_loop src [0] False 0)"

subsection \<open>What the loop accepts\<close>

text \<open>
  The text read so far, as a function of the loop's state: every finished octet followed by a dot,
  then the digits of the current one. The loop succeeds exactly when that text, continued by the
  rest of the input, is the dotted form of the octets it returns.
\<close>

definition pton4_read :: "nat list \<Rightarrow> nat \<Rightarrow> bool \<Rightarrow> string" where
  "pton4_read t c saw = concat (map (\<lambda>n. dec n @ [CHR ''.'']) t) @ (if saw then dec c else [])"

lemma dotted_pton4_read: "dotted (t @ [c]) = pton4_read t c True"
proof (induction t)
  case Nil
  show ?case by (simp add: dotted_def pton4_read_def)
next
  case (Cons n t)
  have "dotted (n # t @ [c]) = dec n @ CHR ''.'' # dotted (t @ [c])"
    by (cases t) (simp_all add: dotted_def)
  with Cons show ?case by (simp add: pton4_read_def)
qed

lemma pton4_loop_sound:
  assumes "inet_pton4_loop src (t @ [c]) saw octets = Some out"
    and "length t + (if saw then 1 else 0) = octets" and "octets \<le> 4"
    and "\<not> saw \<Longrightarrow> c = 0 \<and> octets < 4" and "c \<le> 255" and "\<forall>n \<in> set t. n \<le> 255"
  shows "dotted out = pton4_read t c saw @ src \<and> length out = 4 \<and> (\<forall>n \<in> set out. n \<le> 255)"
  using assms
proof (induction src arbitrary: t c saw octets)
  case Nil
  then have "saw" "octets = 4" "out = t @ [c]"
    by (cases saw; auto split: if_splits)+
  with Nil.prems show ?case by (simp add: dotted_pton4_read)
next
  case (Cons ch src)
  show ?case
  proof (cases "digit_val ch")
    case None
    with Cons.prems(1) have *: "ch = CHR ''.''" "saw" "octets \<noteq> 4"
      "inet_pton4_loop src ((t @ [c]) @ [0]) False octets = Some out"
      by (auto split: if_splits)
    have "dotted out = pton4_read (t @ [c]) 0 False @ src \<and> length out = 4 \<and> (\<forall>n \<in> set out. n \<le> 255)"
      by (rule Cons.IH [OF *(4)]) (use * Cons.prems in auto)
    with * show ?thesis by (simp add: pton4_read_def)
  next
    case (Some d)
    then have d: "d < 10" "ch = digit_char d" by (simp_all add: digit_val_Some)
    show ?thesis
    proof (cases saw)
      case False
      with Some Cons.prems have *: "inet_pton4_loop src (t @ [d]) True (octets + 1) = Some out"
        by (auto simp: Let_def split: if_splits)
      have "dotted out = pton4_read t d True @ src \<and> length out = 4 \<and> (\<forall>n \<in> set out. n \<le> 255)"
        by (rule Cons.IH [OF *]) (use False d Cons.prems in auto)
      with False d show ?thesis by (simp add: pton4_read_def dec_small)
    next
      case True
      with Some Cons.prems have *: "c \<noteq> 0" "c * 10 + d \<le> 255"
        "inet_pton4_loop src (t @ [c * 10 + d]) True octets = Some out"
        by (auto simp: Let_def split: if_splits)
      have "dotted out = pton4_read t (c * 10 + d) True @ src \<and> length out = 4 \<and> (\<forall>n \<in> set out. n \<le> 255)"
        by (rule Cons.IH [OF *(3)]) (use True * Cons.prems in auto)
      with True d * show ?thesis by (simp add: pton4_read_def dec_step)
    qed
  qed
qed

lemma pton4_loop_digits:
  assumes "n \<le> 255" "octets < 4"
  shows "inet_pton4_loop (dec n @ src) (t @ [0]) False octets
           = inet_pton4_loop src (t @ [n]) True (octets + 1)"
proof -
  have step: "0 < c \<Longrightarrow> d < 10 \<Longrightarrow> c * 10 + d \<le> 255 \<Longrightarrow>
      inet_pton4_loop (digit_char d # rest) (t @ [c]) True k
        = inet_pton4_loop rest (t @ [c * 10 + d]) True k" for c d rest k
    by (simp add: Let_def)
  have start: "d < 10 \<Longrightarrow>
      inet_pton4_loop (digit_char d # rest) (t @ [0]) False octets
        = inet_pton4_loop rest (t @ [d]) True (octets + 1)" for d rest
    using assms by (simp add: Let_def)
  have "n < 10 \<or> (10 \<le> n \<and> n < 100) \<or> 100 \<le> n" by auto
  then show ?thesis
  proof (elim disjE)
    assume "n < 10"
    then show ?thesis using start [of n src] by (simp add: dec_small)
  next
    assume n: "10 \<le> n \<and> n < 100"
    then have "dec n = [digit_char (n div 10), digit_char (n mod 10)]"
      using dec_step [of "n div 10" "n mod 10"] dec_small [of "n div 10"]
      by (simp add: div_greater_zero_iff less_mult_imp_div_less)
    with n show ?thesis
      using start [of "n div 10" "digit_char (n mod 10) # src"] step [of "n div 10" "n mod 10"] assms
      by (simp del: inet_pton4_loop.simps add: div_greater_zero_iff less_mult_imp_div_less)
  next
    assume n: "100 \<le> n"
    let ?h = "n div 100" and ?m = "n div 10 mod 10" and ?l = "n mod 10"
    have hm: "?h * 10 + ?m = n div 10"
      using div_mult_mod_eq [of "n div 10" 10] by (simp add: div_mult2_eq [symmetric])
    have nl: "n div 10 * 10 + ?l = n" by (rule div_mult_mod_eq)
    have h: "0 < ?h" "?h < 10" "0 < n div 10" "n div 10 \<le> 255" "?l < 10" "?m < 10"
      using n assms by auto
    have "dec n = [digit_char ?h, digit_char ?m, digit_char ?l]"
      using dec_step [of "n div 10" ?l] dec_step [of ?h ?m] h
      by (simp only: hm nl) (simp add: dec_small)
    then have "inet_pton4_loop (dec n @ src) (t @ [0]) False octets
        = inet_pton4_loop (digit_char ?m # digit_char ?l # src) (t @ [?h]) True (octets + 1)"
      by (simp only: append.simps start [OF h(2)])
    also have "\<dots> = inet_pton4_loop (digit_char ?l # src) (t @ [n div 10]) True (octets + 1)"
      using step [of ?h ?m "digit_char ?l # src" "octets + 1"] h unfolding hm by blast
    also have "\<dots> = inet_pton4_loop src (t @ [n]) True (octets + 1)"
      using step [of "n div 10" ?l src "octets + 1"] h assms(1) unfolding nl by blast
    finally show ?thesis .
  qed
qed

lemma list4_cases: "length xs = 4 \<Longrightarrow> \<exists>a b c d. xs = [a, b, c, d]"
  by (auto simp: length_Suc_conv eval_nat_numeral)

lemma inet_ntop4_16:
  assumes "length bs = 4" shows "inet_ntop4 bs 16 = Some (dotted (map unat bs))"
proof -
  obtain a b c d where bs: "bs = [a, b, c, d]" using list4_cases [OF assms] by blast
  have "length (dotted (map unat bs)) \<le> 15"
    using length_dec_byte [OF unat_byte_le [of a]] length_dec_byte [OF unat_byte_le [of b]]
      length_dec_byte [OF unat_byte_le [of c]] length_dec_byte [OF unat_byte_le [of d]]
    by (simp add: bs dotted_def)
  moreover have "dotted (map unat bs) \<noteq> []" by (simp add: bs dotted_def)
  ultimately show ?thesis
    by (simp add: inet_ntop4_def bs Let_def)
qed

lemma inet_pton4_dotted:
  assumes "length ns = 4" "\<forall>n \<in> set ns. n \<le> 255"
  shows "inet_pton4_loop (dotted ns) [0] False 0 = Some ns"
proof -
  obtain a b c d where ns: "ns = [a, b, c, d]" using list4_cases [OF assms(1)] by blast
  with assms(2) show ?thesis
    using pton4_loop_digits [of a 0 "CHR ''.'' # dec b @ CHR ''.'' # dec c @ CHR ''.'' # dec d" "[]"]
      pton4_loop_digits [of b 1 "CHR ''.'' # dec c @ CHR ''.'' # dec d" "[a]"]
      pton4_loop_digits [of c 2 "CHR ''.'' # dec d" "[a, b]"]
      pton4_loop_digits [of d 3 "[]" "[a, b, c]"]
    by (simp add: dotted_def numeral_2_eq_2 numeral_3_eq_3)
qed

lemma inet_pton4_ntop4: "length bs = 4 \<Longrightarrow> inet_pton4 (dotted (map unat bs)) = Some bs"
  using inet_pton4_dotted [of "map unat bs"] by (auto simp: unat_byte_le inet_pton4_def comp_def)

text \<open>C32: The IPv4 text conversions are exact inverses of each other: \<open>inet_pton4\<close> accepts a
  string and returns the bytes \<open>bs\<close> if and only if \<open>bs\<close> are four bytes whose text, as
  \<open>inet_ntop4\<close> prints it into a 16-character buffer, is that string. In particular it accepts no
  leading zeros, no octet above 255, no missing or extra octet and no trailing characters.\<close>

theorem inet4_text_inverse:
  "inet_pton4 s = Some bs \<longleftrightarrow> length bs = 4 \<and> inet_ntop4 bs 16 = Some s"
proof
  assume "inet_pton4 s = Some bs"
  then obtain out where out: "inet_pton4_loop s ([] @ [0]) False 0 = Some out" "bs = map word_of_nat out"
    by (auto simp: inet_pton4_def)
  have s: "dotted out = s" "length out = 4" "\<forall>n \<in> set out. n \<le> 255"
    using pton4_loop_sound [OF out(1)] by (auto simp: pton4_read_def)
  have "map unat bs = out"
    using s(3) by (auto simp: out(2) comp_def unat_of_nat intro!: map_idI)
  with s out(2) show "length bs = 4 \<and> inet_ntop4 bs 16 = Some s"
    by (simp add: inet_ntop4_16)
next
  assume "length bs = 4 \<and> inet_ntop4 bs 16 = Some s"
  then show "inet_pton4 s = Some bs"
    using inet_pton4_ntop4 [of bs] by (auto simp: inet_ntop4_16)
qed

section \<open>inet_ntop6 and inet_pton6\<close>

text \<open>
  \<open>inet_ntop6\<close>: the 16 bytes are read as eight big-endian words, the longest run of at least
  two zero words is found (\<open>best\<close>; the first of equally long ones), and the words are printed
  in hexadecimal with that run shortened to \<open>::\<close>. A run is a pair (base, len), base -1 for none.
\<close>

definition hex_digit :: "nat \<Rightarrow> char" where
  "hex_digit d = (if d < 10 then char_of (48 + d) else char_of (87 + d))"

fun hex :: "nat \<Rightarrow> string" where
  "hex n = (if n < 16 then [hex_digit n] else hex (n div 16) @ [hex_digit (n mod 16)])"

declare hex.simps [simp del]

type_synonym run = "int \<times> int"

definition ntop6_words :: "byte list \<Rightarrow> nat list" where
  "ntop6_words src = map (\<lambda>i. unat (src ! (2 * i)) * 256 + unat (src ! (2 * i + 1))) [0..<8]"

fun ntop6_scan :: "nat list \<Rightarrow> int \<Rightarrow> run \<Rightarrow> run \<Rightarrow> run \<times> run" where
  "ntop6_scan [] i best cur = (best, cur)"
| "ntop6_scan (w # ws) i best cur =
     (if w = 0 then
        (if fst cur = -1 then ntop6_scan ws (i + 1) best (i, 1)
         else ntop6_scan ws (i + 1) best (fst cur, snd cur + 1))
      else if fst cur \<noteq> -1 then
        ntop6_scan ws (i + 1)
          (if fst best = -1 \<or> snd cur > snd best then cur else best) (-1, snd cur)
      else ntop6_scan ws (i + 1) best cur)"

definition ntop6_best :: "nat list \<Rightarrow> run" where
  "ntop6_best ws =
     (let (best, cur) = ntop6_scan ws 0 (-1, 0) (-1, 0);
          best1 = (if fst cur \<noteq> -1 \<and> (fst best = -1 \<or> snd cur > snd best) then cur else best)
      in if fst best1 \<noteq> -1 \<and> snd best1 < 2 then (-1, snd best1) else best1)"

fun ntop6_format :: "byte list \<Rightarrow> nat list \<Rightarrow> run \<Rightarrow> nat list \<Rightarrow> string \<Rightarrow> string option" where
  "ntop6_format src ws best [] tp = Some tp"
| "ntop6_format src ws best (i # is) tp =
     (if fst best \<noteq> -1 \<and> int i \<ge> fst best \<and> int i < fst best + snd best then
        ntop6_format src ws best is (if int i = fst best then tp @ '':'' else tp)
      else
        (let tp1 = (if i \<noteq> 0 then tp @ '':'' else tp) in
         if i = 6 \<and> fst best = 0 \<and> (snd best = 6 \<or> (snd best = 7 \<and> ws ! 7 \<noteq> 1)
              \<or> (snd best = 5 \<and> ws ! 5 = 65535)) then
           (case inet_ntop4 (drop 12 src) (46 - length tp1) of
              None \<Rightarrow> None | Some t \<Rightarrow> Some (tp1 @ t))
         else ntop6_format src ws best is (tp1 @ hex (ws ! i))))"

definition inet_ntop6 :: "byte list \<Rightarrow> nat \<Rightarrow> string option" where
  "inet_ntop6 src sz =
     (let ws = ntop6_words src; best = ntop6_best ws in
      case ntop6_format src ws best [0..<8] [] of
        None \<Rightarrow> None
      | Some tp \<Rightarrow>
          (let tp1 = (if fst best \<noteq> -1 \<and> fst best + snd best = 8 then tp @ '':'' else tp)
           in if length tp1 + 1 > sz then None else Some tp1))"

text \<open>
  \<open>inet_pton6\<close>. The loop's variables are \<open>tmp\<close> (16 bytes), the index \<open>tp\<close>, the index
  \<open>colonp\<close> of the double colon, the start \<open>curtok\<close> of the current token and
  \<open>seen_xdigits\<close>, \<open>val\<close>; \<open>val\<close> never exceeds 16 bits, since a fifth digit is refused.
\<close>

record pton6_st =
  p6_tmp :: "nat list"
  p6_tp :: nat
  p6_colonp :: "nat option"
  p6_seen :: nat
  p6_val :: nat

definition xdigit_val :: "char \<Rightarrow> nat option" where
  "xdigit_val c =
     (let n = of_char c in
      if 48 \<le> n \<and> n \<le> 57 then Some (n - 48)
      else if 97 \<le> n \<and> n \<le> 102 then Some (n - 87)
      else if 65 \<le> n \<and> n \<le> 70 then Some (n - 55) else None)"

definition pton6_put :: "pton6_st \<Rightarrow> pton6_st" where
  "pton6_put st = st\<lparr> p6_tmp := (p6_tmp st)[p6_tp st := p6_val st div 256,
                                          p6_tp st + 1 := p6_val st mod 256],
                     p6_tp := p6_tp st + 2, p6_seen := 0, p6_val := 0 \<rparr>"

fun inet_pton6_loop :: "string \<Rightarrow> string \<Rightarrow> pton6_st \<Rightarrow> pton6_st option" where
  "inet_pton6_loop [] curtok st = Some st"
| "inet_pton6_loop (ch # src) curtok st =
     (case xdigit_val ch of
        Some d \<Rightarrow>
          (if p6_seen st + 1 > 4 then None
           else inet_pton6_loop src curtok
                  (st\<lparr> p6_val := p6_val st * 16 + d, p6_seen := p6_seen st + 1 \<rparr>))
      | None \<Rightarrow>
          (if ch = CHR '':'' then
             (if p6_seen st = 0 then
                (if p6_colonp st \<noteq> None then None
                 else inet_pton6_loop src src (st\<lparr> p6_colonp := Some (p6_tp st) \<rparr>))
              else if src = [] then None
              else if p6_tp st + 2 > 16 then None
              else inet_pton6_loop src src (pton6_put st))
           else if ch = CHR ''.'' \<and> p6_tp st + 4 \<le> 16 then
             (case inet_pton4_loop curtok [0] False 0 of
                None \<Rightarrow> None
              | Some bs \<Rightarrow>
                  Some (st\<lparr> p6_tmp := take (p6_tp st) (p6_tmp st) @ bs @ drop (p6_tp st + 4) (p6_tmp st),
                            p6_tp := p6_tp st + 4, p6_seen := 0 \<rparr>))
           else None))"

definition inet_pton6 :: "string \<Rightarrow> byte list option" where
  "inet_pton6 src0 =
     (if src0 \<noteq> [] \<and> hd src0 = CHR '':'' \<and> (tl src0 = [] \<or> hd (tl src0) \<noteq> CHR '':'') then None
      else
       (let src = (if src0 \<noteq> [] \<and> hd src0 = CHR '':'' then tl src0 else src0) in
        case inet_pton6_loop src src
               \<lparr> p6_tmp = replicate 16 0, p6_tp = 0, p6_colonp = None, p6_seen = 0, p6_val = 0 \<rparr> of
          None \<Rightarrow> None
        | Some st \<Rightarrow>
            (if p6_seen st \<noteq> 0 \<and> p6_tp st + 2 > 16 then None
             else
              (let st1 = (if p6_seen st \<noteq> 0 then pton6_put st else st) in
               case p6_colonp st1 of
                 None \<Rightarrow>
                   (if p6_tp st1 \<noteq> 16 then None else Some (map word_of_nat (p6_tmp st1)))
               | Some c \<Rightarrow>
                   (if p6_tp st1 = 16 then None
                    else Some (map word_of_nat
                           (take c (p6_tmp st1) @ replicate (16 - p6_tp st1) 0
                            @ take (p6_tp st1 - c) (drop c (p6_tmp st1)))))))))"

text \<open>
  After the loop \<open>inet_pton6\<close> moves the bytes from \<open>colonp\<close> to \<open>tp\<close> to the end of the
  address and leaves zeros behind, which is the concatenation above.
\<close>

end
