(* ===== verification/Sock_Addr.thy ===== *)
theory Sock_Addr
  imports Inet_Text
begin

text \<open>
  Socket addresses (\<open>ml/util/udpSocket.c\<close>: \<open>init_sockaddr\<close>, \<open>get_sockaddr_port\<close>,
  \<open>get_sockaddr_ip\<close>) and socket IDs (\<open>ml/ml.c\<close>: their text form, comparison and hash). A
  \<open>sockaddr_storage\<close> is its family and the 126 bytes after it, so that the IPv4 and IPv6 views of
  the union overlap as they do in memory and an address can be put on the wire byte by byte.
  \<open>getaddrinfo\<close> with \<open>AI_NUMERICHOST\<close>, which \<open>address_family\<close> calls, is the parameter
  \<open>gai\<close>: the family of a numeric host text, \<open>AF_UNSPEC\<close> when the call fails.
\<close>

section \<open>sockaddr_storage\<close>

record sockaddr =
  ss_family :: u16
  ss_data :: "byte list"

definition AF_UNSPEC :: u16 where "AF_UNSPEC = 0"
definition AF_INET :: u16 where "AF_INET = 2"
definition AF_INET6 :: u16 where "AF_INET6 = 10"

lemma af_distinct [simp]:
  "AF_INET \<noteq> AF_INET6" "AF_INET6 \<noteq> AF_INET" "AF_UNSPEC \<noteq> AF_INET" "AF_UNSPEC \<noteq> AF_INET6"
  "AF_INET \<noteq> AF_UNSPEC" "AF_INET6 \<noteq> AF_UNSPEC"
  by (simp_all add: AF_UNSPEC_def AF_INET_def AF_INET6_def)

type_synonym gai = "string option \<Rightarrow> u16"

definition zero_sockaddr :: sockaddr where
  "zero_sockaddr = \<lparr> ss_family = 0, ss_data = replicate 126 0 \<rparr>"

definition put_bytes :: "byte list \<Rightarrow> nat \<Rightarrow> byte list \<Rightarrow> byte list" where
  "put_bytes buf off bs = take off buf @ bs @ drop (off + length bs) buf"

lemma length_put_bytes [simp]: "off + length bs \<le> length buf \<Longrightarrow> length (put_bytes buf off bs) = length buf"
  by (simp add: put_bytes_def)

lemma put_bytes_at:
  "off + length bs \<le> length buf \<Longrightarrow> take (length bs) (drop off (put_bytes buf off bs)) = bs"
  by (simp add: put_bytes_def)

lemma put_bytes_before: "off + length bs \<le> length buf \<Longrightarrow> n \<le> off \<Longrightarrow> take n (put_bytes buf off bs) = take n buf"
  by (simp add: put_bytes_def)

text \<open>
  \<open>init_sockaddr\<close> fills an existing structure; its result is the status of \<open>inet_pton\<close>. The
  bytes it does not write keep their value, as the bytes of an unknown family's address do.
\<close>

definition init_sockaddr :: "gai \<Rightarrow> sockaddr \<Rightarrow> int \<Rightarrow> string option \<Rightarrow> sockaddr \<times> int" where
  "init_sockaddr gai addr port ipaddr =
     (let fam = gai ipaddr; a = addr\<lparr> ss_family := fam \<rparr>;
          with_port = a\<lparr> ss_data := put_bytes (ss_data a) 0 (be16 (word_of_int port)) \<rparr>
      in if fam = AF_INET then
           (case Option.bind ipaddr inet_pton4 of
              None \<Rightarrow> (with_port, 0)
            | Some bs \<Rightarrow> (with_port\<lparr> ss_data := put_bytes (ss_data with_port) 2 bs \<rparr>, 1))
         else if fam = AF_INET6 then
           (case ipaddr of
              None \<Rightarrow> (with_port\<lparr> ss_data := put_bytes (ss_data with_port) 6 (replicate 16 0) \<rparr>, 1)
            | Some s \<Rightarrow>
                (case inet_pton6 s of
                   None \<Rightarrow> (with_port, 0)
                 | Some bs \<Rightarrow> (with_port\<lparr> ss_data := put_bytes (ss_data with_port) 6 bs \<rparr>, 1)))
         else (a, 0))"

definition get_sockaddr_port :: "sockaddr \<Rightarrow> int" where
  "get_sockaddr_port addr =
     (if ss_family addr = AF_INET \<or> ss_family addr = AF_INET6 then uint (of_be16 (take 2 (ss_data addr)))
      else -1)"

text \<open>
  \<open>get_sockaddr_ip\<close> writes the text into \<open>dst\<close>; when \<open>inet_ntop\<close> refuses, \<open>dst\<close> keeps its
  contents. \<open>addr_str_len\<close> is the macro \<open>ADDRESS_STR_LEN\<close>, the size every caller passes.
\<close>

definition get_sockaddr_ip :: "sockaddr \<Rightarrow> string \<Rightarrow> nat \<Rightarrow> string" where
  "get_sockaddr_ip addr dst n =
     (if ss_family addr = AF_INET then
        (case inet_ntop4 (take 4 (drop 2 (ss_data addr))) n of None \<Rightarrow> dst | Some s \<Rightarrow> s)
      else if ss_family addr = AF_INET6 then
        (case inet_ntop6 (take 16 (drop 6 (ss_data addr))) n of None \<Rightarrow> dst | Some s \<Rightarrow> s)
      else [])"

definition addr_str_len :: "sockaddr \<Rightarrow> nat" where
  "addr_str_len addr = (if ss_family addr = AF_INET then 16 else 46)"

definition ip_text :: "sockaddr \<Rightarrow> string" where
  "ip_text addr = get_sockaddr_ip addr [] (addr_str_len addr)"

section \<open>Comparing addresses\<close>

text \<open>
  \<open>strcmp\<close> as the C library of the target computes it: the difference of the first two bytes
  that differ (the terminating NUL is 0). \<open>mlCompareAddr\<close> combines three of its results with the
  bitwise \<open>&\<close>.
\<close>

fun strcmp :: "string \<Rightarrow> string \<Rightarrow> int" where
  "strcmp [] [] = 0"
| "strcmp [] (b # bs) = - of_char b"
| "strcmp (a # as) [] = of_char a"
| "strcmp (a # as) (b # bs) = (if a = b then strcmp as bs else of_char a - of_char b)"

definition mlCompareAddr :: "sockaddr \<Rightarrow> sockaddr \<Rightarrow> int" where
  "mlCompareAddr addr1 addr2 =
     (let buff1 = ip_text addr1; buff2 = ip_text addr2
      in strcmp buff1 buff2 AND strcmp buff1 [] AND strcmp buff2 [])"

section \<open>Socket IDs\<close>

record socket_ID =
  internal_addr :: sockaddr
  external_addr :: sockaddr

text \<open>
  \<open>mlSocketIDToString\<close>. The statement \<open>if (external_port = -1) external_port = internal_port;\<close>
  is an assignment whose value -1 is true, so the printed external port is always the internal one.
  The model keeps the two statements.
\<close>

definition socketid_port_printed :: "int \<Rightarrow> int \<Rightarrow> int" where
  "socketid_port_printed internal_port external_port0 =
     (let external_port = (-1 :: int) in if external_port \<noteq> 0 then internal_port else external_port)"

definition socketid_text :: "gai \<Rightarrow> socket_ID \<Rightarrow> string" where
  "socketid_text gai sid =
     (let int_ip = ip_text (internal_addr sid);
          ext_ip0 = ip_text (external_addr sid);
          int_port = get_sockaddr_port (internal_addr sid);
          ext_port0 = get_sockaddr_port (external_addr sid);
          ext_ip = (if ext_ip0 = [] then int_ip else ext_ip0);
          ext_port = socketid_port_printed int_port ext_port0;
          delim = (if gai (Some int_ip) = AF_INET then CHR '':'' else CHR ''_'')
      in int_ip @ delim # dec_int int_port @ CHR ''-'' # ext_ip @ delim # dec_int ext_port)"

definition mlSocketIDToString :: "gai \<Rightarrow> socket_ID \<Rightarrow> nat \<Rightarrow> string" where
  "mlSocketIDToString gai sid len = take (len - 1) (socketid_text gai sid)"

definition mlCompareSocketIDs :: "gai \<Rightarrow> socket_ID \<Rightarrow> socket_ID \<Rightarrow> int" where
  "mlCompareSocketIDs gai sock1 sock2 =
     strcmp (mlSocketIDToString gai sock1 500) (mlSocketIDToString gai sock2 500)"

definition mlCompareSocketIDsByPort :: "socket_ID option \<Rightarrow> socket_ID option \<Rightarrow> int" where
  "mlCompareSocketIDsByPort sock1 sock2 =
     (case (sock1, sock2) of
        (Some s1, Some s2) \<Rightarrow>
          (let p1 = get_sockaddr_port (internal_addr s1); p2 = get_sockaddr_port (internal_addr s2);
               q1 = get_sockaddr_port (external_addr s1); q2 = get_sockaddr_port (external_addr s2)
           in if p1 > 0 \<and> p2 > 0 \<and> p1 \<noteq> p2 then 1
              else if q1 > 0 \<and> q2 > 0 \<and> q1 \<noteq> q2 then 1 else 0)
      | _ \<Rightarrow> 1)"

definition mlHashSocketID :: "socket_ID \<Rightarrow> int" where
  "mlHashSocketID sock =
     get_sockaddr_port (internal_addr sock) + get_sockaddr_port (external_addr sock)"

definition internal_connect_plausible :: "socket_ID \<Rightarrow> socket_ID \<Rightarrow> bool" where
  "internal_connect_plausible sock1 sock2 \<longleftrightarrow>
     mlCompareAddr (external_addr sock1) (external_addr sock2) = 0"

text \<open>
  \<open>mlStringToSocketID\<close>: every delimiter and the first dash become blanks, then
  \<open>sscanf "%s %d %s %d"\<close> reads the four fields. \<open>None\<close> stands for a field \<open>sscanf\<close> could not
  read: the code then uses uninitialised variables.
\<close>

definition is_blank :: "char \<Rightarrow> bool" where
  "is_blank c \<longleftrightarrow> c \<in> {CHR '' '', CHR 0x09, CHR 0x0A, CHR 0x0B, CHR 0x0C, CHR 0x0D}"

fun scan_digits :: "string \<Rightarrow> nat \<Rightarrow> nat \<times> string" where
  "scan_digits [] n = (n, [])"
| "scan_digits (c # cs) n =
     (case digit_val c of Some d \<Rightarrow> scan_digits cs (n * 10 + d) | None \<Rightarrow> (n, c # cs))"

definition scan_word :: "string \<Rightarrow> (string \<times> string) option" where
  "scan_word s =
     (let s1 = dropWhile is_blank s; w = takeWhile (\<lambda>c. \<not> is_blank c) s1
      in if w = [] then None else Some (w, dropWhile (\<lambda>c. \<not> is_blank c) s1))"

definition scan_int :: "string \<Rightarrow> (int \<times> string) option" where
  "scan_int s =
     (let s1 = dropWhile is_blank s;
          (neg, s2) = (case s1 of c # cs \<Rightarrow> if c = CHR ''-'' then (True, cs)
                                  else if c = CHR ''+'' then (False, cs) else (False, s1)
                       | [] \<Rightarrow> (False, []))
      in if s2 = [] \<or> digit_val (hd s2) = None then None
         else (let (n, rest) = scan_digits s2 0 in Some (if neg then - int n else int n, rest)))"

text \<open>\<open>strtol\<close> stops at the ends of the range of \<open>long\<close>.\<close>

definition clamp :: "int \<Rightarrow> int" where "clamp n = max (- (2 ^ 63)) (min n (2 ^ 63 - 1))"

text \<open>What \<open>fgets\<close> reads from a file of text \<open>t\<close>, call by call, into a buffer of \<open>k + 1\<close> characters.\<close>

function fgets_lines :: "nat \<Rightarrow> string \<Rightarrow> string list" where
  "fgets_lines k t =
     (if t = [] \<or> k = 0 then []
      else let l = takeWhile (\<lambda>c. c \<noteq> CHR 0x0A) t;
               n = min k (if length l < length t then Suc (length l) else length l)
           in take n t # fgets_lines k (drop n t))"
  by pat_completeness auto
termination
proof (relation "measure (\<lambda>(_, t). length t)", simp)
  fix k :: nat and t l :: string and n
  assume t: "\<not> (t = [] \<or> k = 0)" and l: "l = takeWhile (\<lambda>c. c \<noteq> CHR 0x0A) t"
    and n: "n = min k (if length l < length t then Suc (length l) else length l)"
  have "0 < length t" using t by simp
  moreover have "0 < n" using t n by (cases "length l < length t") auto
  ultimately show "((k, drop n t), (k, t)) \<in> measure (\<lambda>(_, t). length t)" by simp
qed

declare fgets_lines.simps [simp del]

fun blank_first :: "char \<Rightarrow> string \<Rightarrow> string" where
  "blank_first x [] = []"
| "blank_first x (c # cs) = (if c = x then CHR '' '' # cs else c # blank_first x cs)"

definition zero_socketid :: socket_ID where
  "zero_socketid = \<lparr> internal_addr = zero_sockaddr, external_addr = zero_sockaddr \<rparr>"

definition mlStringToSocketID :: "gai \<Rightarrow> string \<Rightarrow> socket_ID option" where
  "mlStringToSocketID gai str =
     (let delim = (if CHR ''_'' \<in> set str then CHR ''_'' else CHR '':'');
          s = blank_first (CHR ''-'') (map (\<lambda>c. if c = delim then CHR '' '' else c) str)
      in Option.bind (scan_word s) (\<lambda>(int_ip, s1).
         Option.bind (scan_int s1) (\<lambda>(int_port, s2).
         Option.bind (scan_word s2) (\<lambda>(ext_ip, s3).
         Option.bind (scan_int s3) (\<lambda>(ext_port, s4).
           Some \<lparr> internal_addr = fst (init_sockaddr gai zero_sockaddr int_port (Some int_ip)),
                  external_addr = fst (init_sockaddr gai zero_sockaddr ext_port (Some ext_ip)) \<rparr>)))))"

section \<open>What the comparisons decide\<close>

lemma strcmp_eq_0: "strcmp a b = 0 \<longleftrightarrow> a = b"
  if "CHR 0x00 \<notin> set a" "CHR 0x00 \<notin> set b"
  using that
proof (induction a b rule: strcmp.induct)
  case (2 b bs)
  then show ?case by (cases b) auto
next
  case (3 a as)
  then show ?case by (cases a) auto
qed auto

lemma strcmp_refl [simp]: "strcmp a a = 0"
  by (induction a) auto

lemma mlCompareAddr_same: "ip_text a = ip_text b \<Longrightarrow> mlCompareAddr a b = 0"
  by (simp add: mlCompareAddr_def)

text \<open>An IPv4 address as \<open>init_sockaddr\<close> builds it from zeroed memory.\<close>

definition ipv4_sockaddr :: "byte list \<Rightarrow> u16 \<Rightarrow> sockaddr" where
  "ipv4_sockaddr bs port =
     \<lparr> ss_family = AF_INET, ss_data = be16 port @ bs @ replicate 120 0 \<rparr>"

lemma ip_text_ipv4: "length bs = 4 \<Longrightarrow> ip_text (ipv4_sockaddr bs p) = dotted (map unat bs)"
  by (simp add: ip_text_def get_sockaddr_ip_def ipv4_sockaddr_def addr_str_len_def inet_ntop4_16)

lemma port_ipv4 [simp]: "get_sockaddr_port (ipv4_sockaddr bs p) = uint p"
  by (simp add: get_sockaddr_port_def ipv4_sockaddr_def)

lemma init_sockaddr_ipv4:
  assumes "length bs = 4" "gai (Some (dotted (map unat bs))) = AF_INET"
  shows "init_sockaddr gai zero_sockaddr (uint p) (Some (dotted (map unat bs))) = (ipv4_sockaddr bs p, 1)"
proof -
  have "inet_pton4 (dotted (map unat bs)) = Some bs"
    using assms(1) by (rule inet_pton4_ntop4)
  moreover have "take 2 (be16 p) = be16 p" by (simp add: be16_def)
  ultimately show ?thesis
    using assms by (simp add: init_sockaddr_def Let_def ipv4_sockaddr_def zero_sockaddr_def put_bytes_def)
qed

section \<open>Parsing a printed socket ID\<close>

lemma digit_char_neq: "digit_val c = None \<Longrightarrow> d < 10 \<Longrightarrow> digit_char d \<noteq> c"
  by (metis digit_val_char option.distinct(1))

lemma dotted_chars:
  assumes "c \<in> set (dotted ns)" shows "(\<exists>d<10. c = digit_char d) \<or> c = CHR ''.''"
proof (cases ns)
  case Nil
  with assms show ?thesis by (simp add: dotted_def)
next
  case (Cons n ms)
  with assms have "c \<in> set (dec n) \<or> c = CHR ''.'' \<or> (\<exists>m \<in> set ms. c \<in> set (dec m))"
    by (auto simp: dotted_def split: if_splits)
  with dec_digits show ?thesis by blast
qed

lemma not_in_dec: "digit_val c = None \<Longrightarrow> c \<notin> set (dec n)"
  using dec_digits digit_char_neq by blast

lemma not_in_dotted: "digit_val c = None \<Longrightarrow> c \<noteq> CHR ''.'' \<Longrightarrow> c \<notin> set (dotted ns)"
  using dotted_chars digit_char_neq by blast

lemma blank_digit_val: "is_blank c \<Longrightarrow> digit_val c = None \<and> c \<noteq> CHR ''.''"
  by (auto simp: is_blank_def digit_val_def)

lemma scan_digits_dec: "scan_digits (dec n @ rest) 0 = scan_digits rest n"
proof (induction n arbitrary: rest rule: dec.induct)
  case (1 n)
  show ?case
  proof (cases "n < 10")
    case True
    then show ?thesis by (simp add: dec_small)
  next
    case False
    then have d: "dec n = dec (n div 10) @ [digit_char (n mod 10)]"
      by (subst dec.simps) (simp add: digit_char_def)
    have "n div 10 * 10 + n mod 10 = n" by (rule div_mult_mod_eq)
    with 1 [OF False] show ?thesis by (simp add: d)
  qed
qed

lemma scan_digits_stop: "rest = [] \<or> digit_val (hd rest) = None \<Longrightarrow> scan_digits rest n = (n, rest)"
  by (cases rest) auto

lemma scan_int_dec:
  assumes "rest = [] \<or> digit_val (hd rest) = None"
  shows "scan_int (CHR '' '' # dec n @ rest) = Some (int n, rest)"
proof -
  obtain d cs where dn: "dec n = digit_char d # cs" "d < 10"
    using dec_digits [of "hd (dec n)" n] by (cases "dec n") auto
  then have nb: "\<not> is_blank (digit_char d)" "digit_char d \<noteq> CHR ''-''" "digit_char d \<noteq> CHR ''+''"
    using blank_digit_val [of "digit_char d"] digit_char_neq [of _ d]
    by (auto simp: digit_val_def)
  have "scan_digits (digit_char d # cs @ rest) 0 = (n, rest)"
    using scan_digits_dec [of n rest] scan_digits_stop [OF assms, of n] dn by simp
  with dn nb show ?thesis
    by (simp add: scan_int_def Let_def is_blank_def)
qed

lemma takeWhile_no: "\<forall>c \<in> set w. P c \<Longrightarrow> \<not> P x \<Longrightarrow> takeWhile P (w @ x # r) = w"
  and dropWhile_no: "\<forall>c \<in> set w. P c \<Longrightarrow> \<not> P x \<Longrightarrow> dropWhile P (w @ x # r) = x # r"
  by (induction w) auto

lemma scan_word_text:
  assumes "w \<noteq> []" "\<forall>c \<in> set w. \<not> is_blank c"
  shows "scan_word (w @ CHR '' '' # r) = Some (w, CHR '' '' # r)"
    and "scan_word (CHR '' '' # w @ CHR '' '' # r) = Some (w, CHR '' '' # r)"
proof -
  have b: "is_blank CHR '' ''" by (simp add: is_blank_def)
  from assms have "dropWhile is_blank (w @ CHR '' '' # r) = w @ CHR '' '' # r"
    by (cases w) auto
  then show "scan_word (w @ CHR '' '' # r) = Some (w, CHR '' '' # r)"
    and "scan_word (CHR '' '' # w @ CHR '' '' # r) = Some (w, CHR '' '' # r)"
    using assms b takeWhile_no [of w "\<lambda>c. \<not> is_blank c" "CHR '' ''" r]
      dropWhile_no [of w "\<lambda>c. \<not> is_blank c" "CHR '' ''" r]
    by (simp_all add: scan_word_def Let_def)
qed

lemma blank_first_at: "x \<notin> set a \<Longrightarrow> blank_first x (a @ x # b) = a @ CHR '' '' # b"
  by (induction a) auto

lemma map_unchanged: "x \<notin> set a \<Longrightarrow> map (\<lambda>c. if c = x then y else c) a = a"
  by (induction a) auto

lemma dotted_nonempty: "ns \<noteq> [] \<Longrightarrow> dotted ns \<noteq> []"
  by (cases ns) (simp_all add: dotted_def)

text \<open>
  A concrete \<open>gai\<close> with the documented behaviour of \<open>getaddrinfo\<close> on numeric texts, for the
  witnesses: the family is the one whose \<open>inet_pton\<close> accepts the text.
\<close>

definition numeric_gai :: gai where
  "numeric_gai host =
     (case host of None \<Rightarrow> AF_UNSPEC
      | Some s \<Rightarrow> if inet_pton4 s \<noteq> None then AF_INET else if inet_pton6 s \<noteq> None then AF_INET6 else AF_UNSPEC)"

lemma numeric_gai_dotted: "length (bs :: byte list) = 4 \<Longrightarrow> numeric_gai (Some (dotted (map unat bs))) = AF_INET"
  by (simp add: numeric_gai_def inet_pton4_ntop4)

text \<open>C33: A socket ID of two IPv4 addresses, printed by \<open>mlSocketIDToString\<close> and parsed by
  \<open>mlStringToSocketID\<close>, comes back with both IP addresses and the internal port, but its external
  port is replaced by the internal one. \<open>gai\<close> is only assumed to classify dotted texts as IPv4.\<close>

theorem socketid_text_roundtrip:
  assumes "\<And>bs :: byte list. length bs = 4 \<Longrightarrow> gai (Some (dotted (map unat bs))) = AF_INET"
    and "length a = 4" and "length b = 4"
  shows "mlStringToSocketID gai (socketid_text gai
           \<lparr> internal_addr = ipv4_sockaddr a p, external_addr = ipv4_sockaddr b q \<rparr>)
       = Some \<lparr> internal_addr = ipv4_sockaddr a p, external_addr = ipv4_sockaddr b p \<rparr>"
proof -
  let ?a = "dotted (map unat a)" and ?b = "dotted (map unat b)" and ?p = "dec (nat (uint p))"
  have g: "gai (Some ?a) = AF_INET" "gai (Some ?b) = AF_INET" by (simp_all add: assms)
  have ne: "?a \<noteq> []" "?b \<noteq> []" using assms by (auto intro!: dotted_nonempty)
  have dv: "digit_val CHR '':'' = None" "digit_val CHR ''_'' = None" "digit_val CHR ''-'' = None"
    by (simp_all add: digit_val_def)
  have printed: "socketid_text gai \<lparr> internal_addr = ipv4_sockaddr a p, external_addr = ipv4_sockaddr b q \<rparr>
      = ?a @ CHR '':'' # ?p @ CHR ''-'' # ?b @ CHR '':'' # ?p"
    using assms(2,3) ne g
    by (simp add: socketid_text_def Let_def ip_text_ipv4 socketid_port_printed_def dec_int_def)
  have un: "CHR ''_'' \<notin> set (?a @ CHR '':'' # ?p @ CHR ''-'' # ?b @ CHR '':'' # ?p)"
    using dv by (simp add: not_in_dotted not_in_dec)
  have blanks: "blank_first CHR ''-'' (map (\<lambda>c. if c = CHR '':'' then CHR '' '' else c)
        (?a @ CHR '':'' # ?p @ CHR ''-'' # ?b @ CHR '':'' # ?p))
      = ?a @ CHR '' '' # ?p @ CHR '' '' # ?b @ CHR '' '' # ?p"
    using dv blank_first_at [of "CHR ''-''" "?a @ CHR '' '' # ?p" "?b @ CHR '' '' # ?p"]
    by (simp add: map_unchanged not_in_dotted not_in_dec)
  have nb: "\<forall>c \<in> set ?a. \<not> is_blank c" "\<forall>c \<in> set ?b. \<not> is_blank c"
    using blank_digit_val not_in_dotted by blast+
  have bd: "digit_val CHR '' '' = None" by (simp add: digit_val_def)
  have pp: "int (nat (uint p)) = uint p" by simp
  show ?thesis
    unfolding printed mlStringToSocketID_def Let_def
    using un blanks scan_word_text(1) [OF ne(1) nb(1)] scan_word_text(2) [OF ne(2) nb(2)]
      scan_int_dec [of "CHR '' '' # ?b @ CHR '' '' # ?p" "nat (uint p)"]
      scan_int_dec [of "[]" "nat (uint p)"] bd
      init_sockaddr_ipv4 [of a gai p] init_sockaddr_ipv4 [of b gai p] g assms(2,3)
    by (simp del: nat_0_le) 
qed

lemma socketid_text_roundtrip_witness:
  "mlStringToSocketID numeric_gai (socketid_text numeric_gai
     \<lparr> internal_addr = ipv4_sockaddr [10,0,0,1] 6666, external_addr = ipv4_sockaddr [192,168,7,255] 5555 \<rparr>)
   = Some \<lparr> internal_addr = ipv4_sockaddr [10,0,0,1] 6666, external_addr = ipv4_sockaddr [192,168,7,255] 6666 \<rparr>"
  by (rule socketid_text_roundtrip) (simp_all add: numeric_gai_dotted)

text \<open>\<open>mlCompareSocketIDs\<close> does not see the external port: two IDs of IPv4 addresses that differ
  only there compare as equal, although \<open>mlCompareSocketIDsByPort\<close> tells them apart.\<close>

theorem compare_ignores_external_port:
  assumes "length a = 4" and "length b = 4" and "q \<noteq> q'" "0 < q" "0 < q'"
  shows "mlCompareSocketIDs gai \<lparr> internal_addr = ipv4_sockaddr a p, external_addr = ipv4_sockaddr b q \<rparr>
           \<lparr> internal_addr = ipv4_sockaddr a p, external_addr = ipv4_sockaddr b q' \<rparr> = 0
         \<and> mlCompareSocketIDsByPort (Some \<lparr> internal_addr = ipv4_sockaddr a p, external_addr = ipv4_sockaddr b q \<rparr>)
           (Some \<lparr> internal_addr = ipv4_sockaddr a p, external_addr = ipv4_sockaddr b q' \<rparr>) = 1"
  using assms
  by (simp add: mlCompareSocketIDs_def mlSocketIDToString_def mlCompareSocketIDsByPort_def word_less_def word_uint_eq_iff
      socketid_text_def socketid_port_printed_def ip_text_ipv4)

lemma compare_ignores_external_port_witness:
  "mlCompareSocketIDs numeric_gai
     \<lparr> internal_addr = ipv4_sockaddr [10,0,0,1] 6666, external_addr = ipv4_sockaddr [192,168,7,255] 5555 \<rparr>
     \<lparr> internal_addr = ipv4_sockaddr [10,0,0,1] 6666, external_addr = ipv4_sockaddr [192,168,7,255] 5556 \<rparr> = 0"
  using compare_ignores_external_port [of "[10,0,0,1]" "[192,168,7,255]" 5555 5556 numeric_gai 6666]
  by simp

end
