(* ===== verification/Packet_Queue.thy ===== *)
theory Packet_Queue
  imports Sock_Addr
begin

text \<open>
  The transmit and retransmit queues of \<open>ml/util/queueManagement.c\<close>, on an explicit heap: a
  \<open>PacketContainer\<close> lives at an address, the queues are linked through its \<open>next\<close> field, and
  \<open>malloc\<close> / \<open>free\<close> extend and shrink the heap. Dereferencing NULL or a freed container is a
  fault. The loops that may not end are \<open>partial_function (option)\<close>: \<open>None\<close> is a loop that runs
  for ever. The answers of \<open>gettimeofday\<close> are the arguments \<open>now\<close> and \<open>now2\<close>.
\<close>

section \<open>Containers and queues\<close>

record timeval =
  tv_sec :: int
  tv_usec :: int

type_synonym ptr = "nat option"

record packet =
  udpSocket :: int
  iov :: "byte list list"
  iovlen :: int
  socketaddr :: sockaddr
  pktLen :: int
  timeStamp :: timeval
  nxt :: ptr
  priority :: byte

record queues =
  heap :: "nat \<Rightarrow> packet option"
  next_addr :: nat
  tx_head :: ptr
  tx_tail :: ptr
  tx_size :: int
  rtx_head :: ptr
  rtx_tail :: ptr
  rtx_size :: int
  TXmaxSize :: int
  RTXmaxSize :: int
  maxTimeToHold :: timeval
  sentRTXDataPktCounter :: nat

datatype error_code = OK | MSGLEN | FAILURE | THROTTLE

definition init_queues :: queues where
  "init_queues =
     \<lparr> heap = (\<lambda>_. None), next_addr = 0, tx_head = None, tx_tail = None, tx_size = 0,
       rtx_head = None, rtx_tail = None, rtx_size = 0, TXmaxSize = 9000000, RTXmaxSize = 9000000,
       maxTimeToHold = \<lparr> tv_sec = 5, tv_usec = 0 \<rparr>, sentRTXDataPktCounter = 0 \<rparr>"

definition deref :: "'a queues_scheme \<Rightarrow> ptr \<Rightarrow> packet res" where
  "deref s p = (case p of None \<Rightarrow> Inl NullDeref
                | Some a \<Rightarrow> (case heap s a of None \<Rightarrow> Inl UseAfterFree | Some k \<Rightarrow> Inr k))"

definition set_next :: "ptr \<Rightarrow> ptr \<Rightarrow> 'a queues_scheme \<Rightarrow> 'a queues_scheme res" where
  "set_next p q s = res_map (\<lambda>k. s\<lparr> heap := (heap s)(the p \<mapsto> k\<lparr> nxt := q \<rparr>) \<rparr>) (deref s p)"

section \<open>Operations\<close>

definition iov_len :: "byte list list \<Rightarrow> int" where
  "iov_len v = int (length (v ! 0)) + int (length (v ! 1)) + int (length (v ! 2)) + int (length (v ! 3))"

definition createPacketContainer ::
  "int \<Rightarrow> byte list list \<Rightarrow> int \<Rightarrow> sockaddr \<Rightarrow> byte \<Rightarrow> 'a queues_scheme \<Rightarrow> nat \<times> 'a queues_scheme" where
  "createPacketContainer uSoc ioVector iovl sockAddress prior s =
     (let a = next_addr s;
          k = \<lparr> udpSocket = uSoc, iov = take (nat iovl) ioVector, iovlen = iovl,
                socketaddr = sockAddress, pktLen = iov_len ioVector,
                timeStamp = \<lparr> tv_sec = 0, tv_usec = 0 \<rparr>, nxt = None, priority = prior \<rparr>
      in (a, s\<lparr> heap := (heap s)(a \<mapsto> k), next_addr := a + 1 \<rparr>))"

definition destroyPacketContainer :: "ptr \<Rightarrow> 'a queues_scheme \<Rightarrow> 'a queues_scheme res" where
  "destroyPacketContainer p s =
     (case p of None \<Rightarrow> Inr s
      | Some a \<Rightarrow> res_map (\<lambda>_. s\<lparr> heap := (heap s)(a := None) \<rparr>) (deref s p))"

definition addPacketTXqueue :: "nat \<Rightarrow> 'a queues_scheme \<Rightarrow> (error_code \<times> 'a queues_scheme) res" where
  "addPacketTXqueue packet s =
     res_bind (deref s (Some packet)) (\<lambda>k.
       if tx_size s + pktLen k > TXmaxSize s then
         res_map (\<lambda>s1. (THROTTLE, s1)) (destroyPacketContainer (Some packet) s)
       else
         (let s1 = s\<lparr> tx_size := tx_size s + pktLen k \<rparr> in
          if tx_head s1 = None then
            Inr (OK, s1\<lparr> tx_head := Some packet, tx_tail := Some packet \<rparr>)
          else
            res_map (\<lambda>s2. (OK, s2\<lparr> tx_tail := Some packet \<rparr>))
              (set_next (tx_tail s1) (Some packet) s1)))"

definition takePacketToSend :: "'a queues_scheme \<Rightarrow> (ptr \<times> 'a queues_scheme) res" where
  "takePacketToSend s =
     (case tx_head s of None \<Rightarrow> Inr (None, s)
      | Some a \<Rightarrow>
          res_bind (deref s (Some a)) (\<lambda>k.
            (let s1 = s\<lparr> tx_size := tx_size s - pktLen k, tx_head := nxt k \<rparr> in
             res_map (\<lambda>s2. (Some a, if tx_head s2 = None then s2\<lparr> tx_tail := None \<rparr> else s2))
               (set_next (Some a) None s1))))"

definition isQueueEmpty :: "'a queues_scheme \<Rightarrow> bool" where
  "isQueueEmpty s \<longleftrightarrow> tx_head s = None"

definition getFirstPacketSize :: "'a queues_scheme \<Rightarrow> int res" where
  "getFirstPacketSize s =
     (case tx_head s of None \<Rightarrow> Inr 0 | Some a \<Rightarrow> res_map pktLen (deref s (Some a)))"

text \<open>
  \<open>removeOldestPacket\<close> returns 1 on an empty queue. It does not reset \<open>tail\<close> when it removes the
  last container: the tail then dangles until the next \<open>addPacketRTXqueue\<close>, which looks at \<open>head\<close>
  first.
\<close>

definition removeOldestPacket :: "'a queues_scheme \<Rightarrow> (int \<times> 'a queues_scheme) res" where
  "removeOldestPacket s =
     (case rtx_head s of None \<Rightarrow> Inr (1, s)
      | Some a \<Rightarrow>
          res_bind (deref s (Some a)) (\<lambda>k.
            res_map (\<lambda>s1. (0, s1))
              (destroyPacketContainer (Some a)
                 (s\<lparr> rtx_size := rtx_size s - pktLen k, rtx_head := nxt k \<rparr>))))"

partial_function (option) rtx_expire :: "timeval \<Rightarrow> ptr \<Rightarrow> 'a queues_scheme \<Rightarrow> 'a queues_scheme res option" where
  "rtx_expire now tmp s =
     (case tmp of None \<Rightarrow> Some (Inr s)
      | Some a \<Rightarrow>
          (case deref s (Some a) of Inl e \<Rightarrow> Some (Inl e)
           | Inr k \<Rightarrow>
               if tv_sec now - tv_sec (timeStamp k) > tv_sec (maxTimeToHold s) then
                 (case removeOldestPacket s of Inl e \<Rightarrow> Some (Inl e)
                  | Inr (_, s1) \<Rightarrow> rtx_expire now (nxt k) s1)
               else Some (Inr s)))"

partial_function (option) rtx_shrink :: "int \<Rightarrow> 'a queues_scheme \<Rightarrow> 'a queues_scheme res option" where
  "rtx_shrink len s =
     (if rtx_size s + len > RTXmaxSize s then
        (case removeOldestPacket s of Inl e \<Rightarrow> Some (Inl e) | Inr (_, s1) \<Rightarrow> rtx_shrink len s1)
      else Some (Inr s))"

definition rtx_append :: "timeval \<Rightarrow> nat \<Rightarrow> 'a queues_scheme \<Rightarrow> 'a queues_scheme res" where
  "rtx_append now packet s =
     res_bind (deref s (Some packet)) (\<lambda>k.
       (let s1 = s\<lparr> heap := (heap s)(packet \<mapsto> k\<lparr> timeStamp := now, nxt := None \<rparr>),
                    rtx_size := rtx_size s + pktLen k \<rparr> in
        if rtx_head s1 = None then
          Inr (s1\<lparr> rtx_head := Some packet, rtx_tail := Some packet \<rparr>)
        else
          res_map (\<lambda>s2. s2\<lparr> rtx_tail := Some packet \<rparr>) (set_next (rtx_tail s1) (Some packet) s1)))"

definition addPacketRTXqueue :: "timeval \<Rightarrow> timeval \<Rightarrow> nat \<Rightarrow> 'a queues_scheme \<Rightarrow> 'a queues_scheme res option" where
  "addPacketRTXqueue now now2 packet s =
     (case deref s (Some packet) of Inl e \<Rightarrow> Some (Inl e)
      | Inr k \<Rightarrow>
          (case rtx_expire now (rtx_head s) s of None \<Rightarrow> None
           | Some (Inl e) \<Rightarrow> Some (Inl e)
           | Some (Inr s1) \<Rightarrow>
               (case rtx_shrink (pktLen k) s1 of None \<Rightarrow> None
                | Some (Inl e) \<Rightarrow> Some (Inl e)
                | Some (Inr s2) \<Rightarrow> Some (rtx_append now2 packet s2))))"

definition setQueuesParams :: "int \<Rightarrow> int \<Rightarrow> timeval \<Rightarrow> 'a queues_scheme \<Rightarrow> 'a queues_scheme" where
  "setQueuesParams TXsize RTXsize maxTTHold s =
     s\<lparr> TXmaxSize := TXsize, RTXmaxSize := RTXsize, maxTimeToHold := maxTTHold \<rparr>"

section \<open>Linked lists on the heap\<close>

fun chain :: "(nat \<Rightarrow> packet option) \<Rightarrow> ptr \<Rightarrow> nat list \<Rightarrow> bool" where
  "chain h p [] \<longleftrightarrow> p = None"
| "chain h p (a # as) \<longleftrightarrow> p = Some a \<and> (\<exists>k. h a = Some k \<and> chain h (nxt k) as)"

definition len_at :: "(nat \<Rightarrow> packet option) \<Rightarrow> nat \<Rightarrow> int" where
  "len_at h a = (case h a of None \<Rightarrow> 0 | Some k \<Rightarrow> pktLen k)"

definition total_len :: "(nat \<Rightarrow> packet option) \<Rightarrow> nat list \<Rightarrow> int" where
  "total_len h as = sum_list (map (len_at h) as)"

definition packet_ok :: "packet \<Rightarrow> bool" where
  "packet_ok k \<longleftrightarrow> length (iov k) = 4 \<and> pktLen k = iov_len (iov k)"

lemma packet_ok_upd [simp]:
  "packet_ok (k\<lparr> nxt := q \<rparr>) = packet_ok k"
  "packet_ok (k\<lparr> timeStamp := t \<rparr>) = packet_ok k"
  by (simp_all add: packet_ok_def)

lemma packet_ok_len: "packet_ok k \<Longrightarrow> 0 \<le> pktLen k"
  by (simp add: packet_ok_def iov_len_def)

text \<open>
  The queue invariant: every container has its four buffers and their total length; the transmit list is \<open>xs\<close> and the retransmit list \<open>ys\<close>, disjoint,
  without repetition and inside the allocated heap; the sizes count exactly the bytes queued;
  the tail pointer is the last container (for the retransmit queue only when it is not empty).
\<close>

definition queues_inv :: "'a queues_scheme \<Rightarrow> nat list \<Rightarrow> nat list \<Rightarrow> bool" where
  "queues_inv s xs ys \<longleftrightarrow>
     chain (heap s) (tx_head s) xs \<and> chain (heap s) (rtx_head s) ys
     \<and> distinct (xs @ ys)
     \<and> tx_tail s = (if xs = [] then None else Some (last xs))
     \<and> (ys \<noteq> [] \<longrightarrow> rtx_tail s = Some (last ys))
     \<and> tx_size s = total_len (heap s) xs \<and> rtx_size s = total_len (heap s) ys
     \<and> (\<forall>a k. heap s a = Some k \<longrightarrow> a < next_addr s \<and> packet_ok k)"

lemma chain_nth_head: "chain h p as \<Longrightarrow> p = (case as of [] \<Rightarrow> None | a # _ \<Rightarrow> Some a)"
  by (cases as) auto

lemma chain_alloc: "chain h p as \<Longrightarrow> a \<in> set as \<Longrightarrow> h a \<noteq> None"
  by (induction as arbitrary: p) auto

lemma chain_cong: "(\<And>a. a \<in> set as \<Longrightarrow> h' a = h a) \<Longrightarrow> chain h' p as = chain h p as"
  by (induction as arbitrary: p) auto

lemma chain_upd_other [simp]: "a \<notin> set as \<Longrightarrow> chain (h(a := k)) p as = chain h p as"
  by (rule chain_cong) auto

lemma len_at_upd_other [simp]: "a \<noteq> b \<Longrightarrow> len_at (h(a := k)) b = len_at h b"
  by (simp add: len_at_def)

lemma total_len_upd_other [simp]: "a \<notin> set as \<Longrightarrow> total_len (h(a := k)) as = total_len h as"
  unfolding total_len_def by (rule arg_cong [where f = sum_list]) (auto simp: len_at_def)

lemma total_len_simps [simp]:
  "total_len h [] = 0"
  "total_len h (a # as) = len_at h a + total_len h as"
  "total_len h (as @ bs) = total_len h as + total_len h bs"
  by (simp_all add: total_len_def)

lemma total_len_next:
  "h b = Some k \<Longrightarrow> total_len (h(b \<mapsto> k\<lparr> nxt := q \<rparr>)) as = total_len h as"
  unfolding total_len_def by (rule arg_cong [where f = sum_list]) (auto simp: len_at_def)

lemma total_len_stamp:
  "h b = Some k \<Longrightarrow> total_len (h(b \<mapsto> k\<lparr> timeStamp := t, nxt := q \<rparr>)) as = total_len h as"
  unfolding total_len_def by (rule arg_cong [where f = sum_list]) (auto simp: len_at_def)

lemma total_len_nonneg: "(\<And>a k. h a = Some k \<Longrightarrow> 0 \<le> pktLen k) \<Longrightarrow> 0 \<le> total_len h as"
  unfolding total_len_def by (intro sum_list_nonneg) (auto simp: len_at_def split: option.splits)

text \<open>Linking a fresh last element behind the last container of a list.\<close>

lemma chain_snoc:
  assumes "chain h p (as @ [b])" "distinct (as @ [b])" "h b = Some k"
    and "h c = Some k'" "nxt k' = None" "c \<notin> set (as @ [b])"
  shows "chain (h(b \<mapsto> k\<lparr> nxt := Some c \<rparr>)) p (as @ [b, c])"
  using assms by (induction as arbitrary: p) auto

lemma set_next_Some: "heap s b = Some k \<Longrightarrow>
    set_next (Some b) q s = Inr (s\<lparr> heap := (heap s)(b \<mapsto> k\<lparr> nxt := q \<rparr>) \<rparr>)"
  by (simp add: set_next_def deref_def)

lemma deref_Some: "heap s b = Some k \<Longrightarrow> deref s (Some b) = Inr k"
  by (simp add: deref_def)

lemma total_len_ge_0: "queues_inv s xs ys \<Longrightarrow> 0 \<le> total_len (heap s) as"
  by (rule total_len_nonneg) (auto simp: queues_inv_def dest: packet_ok_len)

lemma same_next [simp]: "\<exists>q. (k :: packet) = k\<lparr> nxt := q \<rparr>"
  by (rule exI [of _ "nxt k"]) simp

section \<open>The transmit queue is a bounded FIFO\<close>

lemma addPacketTXqueue_inv:
  assumes inv: "queues_inv s xs ys" and k: "heap s a = Some k" "nxt k = None"
    and new: "a \<notin> set xs" "a \<notin> set ys" and fits: "tx_size s + pktLen k \<le> TXmaxSize s"
  shows "\<exists>s'. addPacketTXqueue a s = Inr (OK, s') \<and> queues_inv s' (xs @ [a]) ys
            \<and> (\<forall>b k'. heap s b = Some k' \<longrightarrow> (\<exists>q. heap s' b = Some (k'\<lparr> nxt := q \<rparr>)))"
proof (cases xs rule: rev_cases)
  case Nil
  let ?s = "s\<lparr> tx_size := tx_size s + pktLen k, tx_head := Some a, tx_tail := Some a \<rparr>"
  have "addPacketTXqueue a s = Inr (OK, ?s)"
    using inv k fits Nil by (simp add: addPacketTXqueue_def deref_Some queues_inv_def)
  moreover have "queues_inv ?s [a] ys"
    using inv k new Nil by (auto simp: queues_inv_def len_at_def)
  moreover have "\<forall>b k'. heap s b = Some k' \<longrightarrow> (\<exists>q. heap ?s b = Some (k'\<lparr> nxt := q \<rparr>))"
    by simp
  ultimately show ?thesis using Nil by (intro exI [of _ ?s]) simp
next
  case (snoc zs b)
  then obtain kb where kb: "heap s b = Some kb"
    using inv chain_alloc [of "heap s" "tx_head s" xs b] by (auto simp: queues_inv_def)
  have head: "tx_head s \<noteq> None" "tx_tail s = Some b"
    using inv snoc by (auto simp: queues_inv_def dest: chain_nth_head split: list.splits)
  let ?h = "(heap s)(b \<mapsto> kb\<lparr> nxt := Some a \<rparr>)"
  let ?s = "s\<lparr> tx_size := tx_size s + pktLen k, heap := ?h, tx_tail := Some a \<rparr>"
  have ab: "a \<noteq> b" "b \<notin> set ys" using inv new snoc by (auto simp: queues_inv_def)
  have "addPacketTXqueue a s = Inr (OK, ?s)"
    using k kb head fits by (auto simp: addPacketTXqueue_def deref_def set_next_def Let_def)
  moreover have "chain ?h (tx_head s) (zs @ [b, a])"
    using inv snoc k kb new by (intro chain_snoc) (auto simp: queues_inv_def)
  then have "queues_inv ?s (xs @ [a]) ys"
    using inv k kb new snoc ab by (auto simp: queues_inv_def total_len_next len_at_def)
  moreover have "\<forall>c k'. heap s c = Some k' \<longrightarrow> (\<exists>q. heap ?s c = Some (k'\<lparr> nxt := q \<rparr>))"
    using kb by auto
  ultimately show ?thesis by (intro exI [of _ ?s]) simp
qed

lemma addPacketTXqueue_full:
  assumes inv: "queues_inv s xs ys" and k: "heap s a = Some k"
    and new: "a \<notin> set xs" "a \<notin> set ys" and full: "TXmaxSize s < tx_size s + pktLen k"
  shows "\<exists>s'. addPacketTXqueue a s = Inr (THROTTLE, s') \<and> queues_inv s' xs ys \<and> heap s' a = None"
  using assms
  by (auto simp: addPacketTXqueue_def destroyPacketContainer_def deref_def queues_inv_def)

lemma takePacketToSend_inv:
  assumes inv: "queues_inv s (a # xs) ys"
  shows "\<exists>s' k. takePacketToSend s = Inr (Some a, s') \<and> queues_inv s' xs ys
           \<and> heap s a = Some k \<and> heap s' = (heap s)(a \<mapsto> k\<lparr> nxt := None \<rparr>)
           \<and> TXmaxSize s' = TXmaxSize s"
proof -
  obtain k where k: "heap s a = Some k" "chain (heap s) (nxt k) xs" "tx_head s = Some a"
    using inv by (auto simp: queues_inv_def)
  let ?s1 = "s\<lparr> tx_size := tx_size s - pktLen k, tx_head := nxt k,
                heap := (heap s)(a \<mapsto> k\<lparr> nxt := None \<rparr>) \<rparr>"
  let ?s = "if nxt k = None then ?s1\<lparr> tx_tail := None \<rparr> else ?s1"
  have "takePacketToSend s = Inr (Some a, ?s)"
    using k by (simp add: takePacketToSend_def deref_def set_next_def Let_def)
  moreover have "nxt k = None \<longleftrightarrow> xs = []"
    using k(2) by (auto dest: chain_nth_head split: list.splits)
  then have "queues_inv ?s xs ys"
    using inv k by (auto simp: queues_inv_def len_at_def total_len_next)
  ultimately show ?thesis using k by (intro exI [of _ ?s]) auto
qed

lemma takePacketToSend_empty: "queues_inv s [] ys \<Longrightarrow> takePacketToSend s = Inr (None, s)"
  by (simp add: queues_inv_def takePacketToSend_def)

subsection \<open>The queue's contract\<close>

text \<open>
  What the rate limiter relies on: \<open>rep s cs\<close> says that the queue state \<open>s\<close> holds the packets
  \<open>cs\<close>, oldest first. \<open>run_queue\<close> runs a sequence of operations and collects what they return;
  inside the contract it returns what \<open>run_spec\<close>, a list with a byte bound, returns.
\<close>

datatype 'c qop = Enq 'c | Deq
datatype 'c qout = Enqueued error_code | Dequeued "'c option"

fun run_queue :: "('c \<Rightarrow> 's \<Rightarrow> (error_code \<times> 's) res) \<Rightarrow> ('s \<Rightarrow> ('c option \<times> 's) res)
    \<Rightarrow> 'c qop list \<Rightarrow> 's \<Rightarrow> ('c qout list \<times> 's) res" where
  "run_queue enq deq [] s = Inr ([], s)"
| "run_queue enq deq (Enq c # ops) s =
     res_bind (enq c s) (\<lambda>(r, s1).
       res_map (\<lambda>(out, s2). (Enqueued r # out, s2)) (run_queue enq deq ops s1))"
| "run_queue enq deq (Deq # ops) s =
     res_bind (deq s) (\<lambda>(r, s1).
       res_map (\<lambda>(out, s2). (Dequeued r # out, s2)) (run_queue enq deq ops s1))"

fun run_spec :: "('c \<Rightarrow> int) \<Rightarrow> int \<Rightarrow> 'c qop list \<Rightarrow> 'c list \<Rightarrow> 'c qout list \<times> 'c list" where
  "run_spec len bound [] cs = ([], cs)"
| "run_spec len bound (Enq c # ops) cs =
     (if bound < sum_list (map len cs) + len c
      then (let (out, ds) = run_spec len bound ops cs in (Enqueued THROTTLE # out, ds))
      else (let (out, ds) = run_spec len bound ops (cs @ [c]) in (Enqueued OK # out, ds)))"
| "run_spec len bound (Deq # ops) cs =
     (case cs of
        [] \<Rightarrow> (let (out, ds) = run_spec len bound ops [] in (Dequeued None # out, ds))
      | c # cs' \<Rightarrow> (let (out, ds) = run_spec len bound ops cs' in (Dequeued (Some c) # out, ds)))"

locale bounded_fifo =
  fixes rep :: "'s \<Rightarrow> 'c list \<Rightarrow> bool"
    and wf :: "'c \<Rightarrow> bool"
    and len :: "'c \<Rightarrow> int"
    and bound :: "'s \<Rightarrow> int"
    and enq :: "'c \<Rightarrow> 's \<Rightarrow> (error_code \<times> 's) res"
    and deq :: "'s \<Rightarrow> ('c option \<times> 's) res"
  assumes enq_fits: "rep s cs \<Longrightarrow> wf c \<Longrightarrow> sum_list (map len cs) + len c \<le> bound s \<Longrightarrow>
      \<exists>s'. enq c s = Inr (OK, s') \<and> rep s' (cs @ [c]) \<and> bound s' = bound s"
    and enq_full: "rep s cs \<Longrightarrow> wf c \<Longrightarrow> bound s < sum_list (map len cs) + len c \<Longrightarrow>
      \<exists>s'. enq c s = Inr (THROTTLE, s') \<and> rep s' cs \<and> bound s' = bound s"
    and deq_empty: "rep s [] \<Longrightarrow> deq s = Inr (None, s)"
    and deq_first: "rep s (c # cs) \<Longrightarrow>
      \<exists>s'. deq s = Inr (Some c, s') \<and> rep s' cs \<and> bound s' = bound s"
begin

lemma run_refines:
  assumes "rep s cs" "\<forall>c. Enq c \<in> set ops \<longrightarrow> wf c"
  shows "\<exists>s'. run_queue enq deq ops s = Inr (fst (run_spec len (bound s) ops cs), s')
            \<and> rep s' (snd (run_spec len (bound s) ops cs)) \<and> bound s' = bound s"
  using assms
proof (induction ops arbitrary: s cs)
  case Nil
  then show ?case by simp
next
  case (Cons x ops)
  show ?case
  proof (cases x)
    case (Enq c)
    then have "wf c" using Cons.prems(2) by simp
    show ?thesis
    proof (cases "bound s < sum_list (map len cs) + len c")
      case True
      obtain s1 where s1: "enq c s = Inr (THROTTLE, s1)" "rep s1 cs" "bound s1 = bound s"
        using enq_full [OF Cons.prems(1) \<open>wf c\<close> True] by blast
      with Cons.IH [OF s1(2)] Cons.prems(2) Enq True show ?thesis
        by (auto simp: split_beta)
    next
      case False
      then obtain s1 where s1: "enq c s = Inr (OK, s1)" "rep s1 (cs @ [c])" "bound s1 = bound s"
        using enq_fits [OF Cons.prems(1) \<open>wf c\<close>] by force
      with Cons.IH [OF s1(2)] Cons.prems(2) Enq False show ?thesis
        by (auto simp: split_beta)
    qed
  next
    case Deq
    show ?thesis
    proof (cases cs)
      case Nil
      with deq_empty Cons.prems Cons.IH [of s "[]"] Deq show ?thesis
        by (auto simp: split_beta)
    next
      case (Cons c cs')
      obtain s1 where s1: "deq s = Inr (Some c, s1)" "rep s1 cs'" "bound s1 = bound s"
        using deq_first Cons.prems(1) Cons by blast
      with Cons.IH [OF s1(2)] Cons.prems(2) Deq Cons show ?thesis
        by (auto simp: split_beta)
    qed
  qed
qed

end

subsection \<open>The transmit queue provides it\<close>

type_synonym content = "int \<times> byte list list \<times> sockaddr \<times> byte"

definition content :: "packet \<Rightarrow> content" where
  "content k = (udpSocket k, iov k, socketaddr k, priority k)"

definition content_len :: "content \<Rightarrow> int" where
  "content_len c = (case c of (_, v, _, _) \<Rightarrow> iov_len v)"

definition content_wf :: "content \<Rightarrow> bool" where
  "content_wf c \<longleftrightarrow> (case c of (_, v, _, _) \<Rightarrow> length v = 4)"

definition tx_rep :: "'a queues_scheme \<Rightarrow> content list \<Rightarrow> bool" where
  "tx_rep s cs \<longleftrightarrow> (\<exists>xs ys. queues_inv s xs ys \<and> map (\<lambda>a. map_option content (heap s a)) xs = map Some cs)"

definition tx_enqueue :: "content \<Rightarrow> 'a queues_scheme \<Rightarrow> (error_code \<times> 'a queues_scheme) res" where
  "tx_enqueue c s =
     (case c of (uSoc, v, addr, prior) \<Rightarrow>
        (let (a, s1) = createPacketContainer uSoc v 4 addr prior s in addPacketTXqueue a s1))"

definition tx_dequeue :: "'a queues_scheme \<Rightarrow> (content option \<times> 'a queues_scheme) res" where
  "tx_dequeue s =
     res_bind (takePacketToSend s) (\<lambda>(p, s1).
       case p of None \<Rightarrow> Inr (None, s1)
       | Some a \<Rightarrow> res_map (\<lambda>k. (Some (content k), s1)) (deref s1 (Some a)))"

lemma createPacketContainer_inv:
  assumes "queues_inv s xs ys" "length v = 4" "createPacketContainer u v 4 addr pr s = (a, s1)"
  shows "queues_inv s1 xs ys" "a \<notin> set xs" "a \<notin> set ys"
    and "\<exists>k. heap s1 = (heap s)(a \<mapsto> k) \<and> nxt k = None \<and> content k = (u, v, addr, pr)
              \<and> pktLen k = iov_len v"
    and "heap s a = None" and "tx_size s1 = tx_size s" "TXmaxSize s1 = TXmaxSize s"
proof -
  have a: "a = next_addr s" using assms(3) by (simp add: createPacketContainer_def Let_def)
  have free: "heap s a = None"
    using assms(1) a by (cases "heap s a") (auto simp: queues_inv_def)
  then show "a \<notin> set xs" "a \<notin> set ys" "heap s a = None"
    using assms(1) chain_alloc [of "heap s" "tx_head s" xs a] chain_alloc [of "heap s" "rtx_head s" ys a]
    by (auto simp: queues_inv_def)
  with assms free show "queues_inv s1 xs ys"
    by (auto simp: createPacketContainer_def Let_def queues_inv_def packet_ok_def less_Suc_eq split: if_splits)
  show "\<exists>k. heap s1 = (heap s)(a \<mapsto> k) \<and> nxt k = None \<and> content k = (u, v, addr, pr)
              \<and> pktLen k = iov_len v"
    and "tx_size s1 = tx_size s" "TXmaxSize s1 = TXmaxSize s"
    using assms(2,3) by (auto simp: createPacketContainer_def Let_def content_def)
qed

lemma content_next [simp]: "content (k\<lparr> nxt := q \<rparr>) = content k"
  by (simp add: content_def)

lemma total_len_content:
  assumes "queues_inv s xs ys" "map (\<lambda>a. map_option content (heap s a)) as = map Some cs"
  shows "total_len (heap s) as = sum_list (map content_len cs)"
  using assms(2)
proof (induction as arbitrary: cs)
  case (Cons a as)
  then obtain c cs' where cs: "cs = c # cs'" "map_option content (heap s a) = Some c" by auto
  then obtain k where k: "heap s a = Some k" "c = content k" by auto
  then have "len_at (heap s) a = content_len c"
    using assms(1) by (auto simp: queues_inv_def packet_ok_def len_at_def content_len_def content_def)
  with Cons cs show ?case by simp
qed simp

lemma map_content_eq:
  assumes "map (\<lambda>a. map_option content (heap s a)) xs = map Some cs"
    and "\<And>a. a \<in> set xs \<Longrightarrow> map_option content (heap s' a) = map_option content (heap s a)"
  shows "map (\<lambda>a. map_option content (heap s' a)) xs = map Some cs"
  using assms by (metis (mono_tags, lifting) map_eq_conv)

lemma tx_enqueue_fits:
  assumes "tx_rep s cs" "content_wf c" "sum_list (map content_len cs) + content_len c \<le> TXmaxSize s"
  shows "\<exists>s'. tx_enqueue c s = Inr (OK, s') \<and> tx_rep s' (cs @ [c]) \<and> TXmaxSize s' = TXmaxSize s"
proof -
  obtain u v addr pr where c: "c = (u, v, addr, pr)" by (cases c)
  obtain xs ys where inv: "queues_inv s xs ys"
    and cs: "map (\<lambda>a. map_option content (heap s a)) xs = map Some cs"
    using assms(1) by (auto simp: tx_rep_def)
  obtain a s1 where s1: "createPacketContainer u v 4 addr pr s = (a, s1)" by fastforce
  have v: "length v = 4" using assms(2) by (simp add: c content_wf_def)
  note new = createPacketContainer_inv [OF inv v s1]
  then obtain k where k: "heap s1 = (heap s)(a \<mapsto> k)" "nxt k = None" "content k = c" "pktLen k = iov_len v"
    using c by auto
  have fits: "tx_size s1 + pktLen k \<le> TXmaxSize s1"
    using assms(3) total_len_content [OF inv cs] inv new(6,7) k c
    by (simp add: queues_inv_def content_len_def)
  obtain s' where s': "addPacketTXqueue a s1 = Inr (OK, s')" "queues_inv s' (xs @ [a]) ys"
    "\<forall>b k'. heap s1 b = Some k' \<longrightarrow> (\<exists>q. heap s' b = Some (k'\<lparr> nxt := q \<rparr>))"
    using addPacketTXqueue_inv [OF new(1) _ k(2) new(2,3) fits] k(1) by auto
  have keep: "map_option content (heap s' b) = map_option content (heap s b)" if "b \<in> set xs" for b
  proof -
    have "b \<noteq> a" "heap s b \<noteq> None"
      using that new(2) inv chain_alloc by (auto simp: queues_inv_def)
    then obtain kb where "heap s b = Some kb" "heap s1 b = Some kb" using k(1) by auto
    then show ?thesis using s'(3) by fastforce
  qed
  obtain q where "heap s' a = Some (k\<lparr> nxt := q \<rparr>)"
    using s'(3) [rule_format, of a k] k(1) by auto
  then have "map_option content (heap s' a) = Some c"
    using k(3) by simp
  with map_content_eq [OF cs keep]
  have "tx_rep s' (cs @ [c])"
    unfolding tx_rep_def using s'(2) by (intro exI [of _ "xs @ [a]"] exI [of _ ys]) simp
  moreover have "TXmaxSize s' = TXmaxSize s"
    using s'(1) new(7) by (auto simp: addPacketTXqueue_def res_bind_Inr res_map_Inr set_next_def Let_def
        destroyPacketContainer_def split: if_splits)
  ultimately show ?thesis using s1 s'(1) by (simp add: c tx_enqueue_def)
qed

lemma tx_enqueue_full:
  assumes "tx_rep s cs" "content_wf c" "TXmaxSize s < sum_list (map content_len cs) + content_len c"
  shows "\<exists>s'. tx_enqueue c s = Inr (THROTTLE, s') \<and> tx_rep s' cs \<and> TXmaxSize s' = TXmaxSize s"
proof -
  obtain u v addr pr where c: "c = (u, v, addr, pr)" by (cases c)
  obtain xs ys where inv: "queues_inv s xs ys"
    and cs: "map (\<lambda>a. map_option content (heap s a)) xs = map Some cs"
    using assms(1) by (auto simp: tx_rep_def)
  obtain a s1 where s1: "createPacketContainer u v 4 addr pr s = (a, s1)" by fastforce
  have v: "length v = 4" using assms(2) by (simp add: c content_wf_def)
  note new = createPacketContainer_inv [OF inv v s1]
  then obtain k where k: "heap s1 = (heap s)(a \<mapsto> k)" "pktLen k = iov_len v" by auto
  have full: "TXmaxSize s1 < tx_size s1 + pktLen k"
    using assms(3) total_len_content [OF inv cs] inv new(6,7) k c
    by (simp add: queues_inv_def content_len_def)
  let ?s = "s1\<lparr> heap := (heap s1)(a := None) \<rparr>"
  have "addPacketTXqueue a s1 = Inr (THROTTLE, ?s)"
    using full k by (simp add: addPacketTXqueue_def destroyPacketContainer_def deref_def)
  moreover have "queues_inv ?s xs ys"
    using new(1-3) by (auto simp: queues_inv_def)
  moreover have "map (\<lambda>b. map_option content (heap ?s b)) xs = map Some cs"
    by (rule map_content_eq [OF cs]) (use new(2) k(1) in auto)
  ultimately have "addPacketTXqueue a s1 = Inr (THROTTLE, ?s) \<and> tx_rep ?s cs \<and> TXmaxSize ?s = TXmaxSize s"
    using new(7) unfolding tx_rep_def by auto
  then show ?thesis using s1 by (auto simp: c tx_enqueue_def)
qed

lemma tx_dequeue_first:
  assumes "tx_rep s (c # cs)"
  shows "\<exists>s'. tx_dequeue s = Inr (Some c, s') \<and> tx_rep s' cs \<and> TXmaxSize s' = TXmaxSize s"
proof -
  obtain a xs ys where inv: "queues_inv s (a # xs) ys"
    and cs: "map_option content (heap s a) = Some c" "map (\<lambda>a. map_option content (heap s a)) xs = map Some cs"
    using assms by (auto simp: tx_rep_def map_eq_Cons_conv)
  obtain s' k where s': "takePacketToSend s = Inr (Some a, s')" "queues_inv s' xs ys"
    "heap s a = Some k" "heap s' = (heap s)(a \<mapsto> k\<lparr> nxt := None \<rparr>)" "TXmaxSize s' = TXmaxSize s"
    using takePacketToSend_inv [OF inv] by blast
  have "map (\<lambda>a. map_option content (heap s' a)) xs = map Some cs"
    by (rule map_content_eq [OF cs(2)]) (use s' in auto)
  then have "tx_rep s' cs" unfolding tx_rep_def using s'(2) by blast
  moreover have "tx_dequeue s = Inr (Some c, s')"
    using s' cs(1) by (simp add: tx_dequeue_def deref_def)
  ultimately show ?thesis using s'(5) by blast
qed

interpretation txq: bounded_fifo tx_rep content_wf content_len TXmaxSize tx_enqueue tx_dequeue
proof (unfold_locales, goal_cases)
  case (1 s cs c) then show ?case by (rule tx_enqueue_fits)
next
  case (2 s cs c) then show ?case by (rule tx_enqueue_full)
next
  case (3 s) then show ?case
    by (auto simp: tx_rep_def tx_dequeue_def dest: takePacketToSend_empty)
next
  case (4 s c cs) then show ?case by (rule tx_dequeue_first)
qed

lemma init_queues_inv: "queues_inv init_queues [] []"
  by (simp add: queues_inv_def init_queues_def)

lemma init_queues_rep: "tx_rep init_queues []"
  unfolding tx_rep_def using init_queues_inv by force

text \<open>C11: Run from the initial state, any sequence of enqueue and dequeue operations on the
  pointer-linked transmit queue never dereferences a NULL or freed container and returns exactly
  what a plain list with the byte bound \<open>TXmaxSize\<close> returns: packets leave in the order they
  entered with their contents unchanged, and an enqueue is refused exactly when it would exceed
  the bound.\<close>

theorem tx_queue_is_bounded_fifo:
  assumes "\<forall>c. Enq c \<in> set ops \<longrightarrow> content_wf c"
  shows "\<exists>s'. run_queue tx_enqueue tx_dequeue ops init_queues
           = Inr (fst (run_spec content_len 9000000 ops []), s')
         \<and> tx_rep s' (snd (run_spec content_len 9000000 ops []))"
  using txq.run_refines [OF init_queues_rep assms] by (auto simp: init_queues_def)

lemma tx_queue_is_bounded_fifo_witness:
  "\<exists>s'. run_queue tx_enqueue tx_dequeue
       [Enq (3, [[], [1], [2], [3,4]], zero_sockaddr, 0), Enq (3, [[], [5], [6], [7]], zero_sockaddr, 0), Deq, Deq, Deq]
       init_queues
     = Inr ([Enqueued OK, Enqueued OK, Dequeued (Some (3, [[], [1], [2], [3,4]], zero_sockaddr, 0)),
             Dequeued (Some (3, [[], [5], [6], [7]], zero_sockaddr, 0)), Dequeued None], s')"
  using tx_queue_is_bounded_fifo
    [of "[Enq (3, [[], [1], [2], [3,4]], zero_sockaddr, 0), Enq (3, [[], [5], [6], [7]], zero_sockaddr, 0), Deq, Deq, Deq]"]
  by (auto simp: content_wf_def content_len_def iov_len_def eval_nat_numeral)

section \<open>The retransmit queue\<close>

lemma removeOldestPacket_inv:
  assumes inv: "queues_inv s xs (a # ys)"
  shows "\<exists>s' k. heap s a = Some k \<and> removeOldestPacket s = Inr (0, s') \<and> queues_inv s' xs ys
           \<and> heap s' = (heap s)(a := None) \<and> rtx_head s' = nxt k
           \<and> RTXmaxSize s' = RTXmaxSize s \<and> maxTimeToHold s' = maxTimeToHold s
           \<and> rtx_size s' = rtx_size s - pktLen k"
proof -
  obtain k where k: "heap s a = Some k" "chain (heap s) (nxt k) ys" "rtx_head s = Some a"
    using inv by (auto simp: queues_inv_def)
  let ?s = "s\<lparr> rtx_size := rtx_size s - pktLen k, rtx_head := nxt k, heap := (heap s)(a := None) \<rparr>"
  have "removeOldestPacket s = Inr (0, ?s)"
    using k by (simp add: removeOldestPacket_def destroyPacketContainer_def deref_def)
  moreover have "queues_inv ?s xs ys"
    using inv k by (auto simp: queues_inv_def len_at_def)
  ultimately show ?thesis using k by (intro exI [of _ ?s] exI [of _ k]) simp
qed

lemma removeOldestPacket_empty: "rtx_head s = None \<Longrightarrow> removeOldestPacket s = Inr (1, s)"
  by (simp add: removeOldestPacket_def)

lemma rtx_expire_inv:
  assumes "queues_inv s xs ys"
  shows "\<exists>s' ys'. rtx_expire now (rtx_head s) s = Some (Inr s') \<and> queues_inv s' xs ys'
           \<and> (\<exists>gone. ys = gone @ ys') \<and> RTXmaxSize s' = RTXmaxSize s
           \<and> (\<forall>b. b \<notin> set ys \<longrightarrow> heap s' b = heap s b)"
  using assms
proof (induction ys arbitrary: s)
  case Nil
  then have "rtx_expire now (rtx_head s) s = Some (Inr s)"
    by (subst rtx_expire.simps) (simp add: queues_inv_def)
  with Nil show ?case by auto
next
  case (Cons b ys)
  obtain s1 kb where s1: "heap s b = Some kb" "removeOldestPacket s = Inr (0, s1)" "queues_inv s1 xs ys"
    "heap s1 = (heap s)(b := None)" "rtx_head s1 = nxt kb" "RTXmaxSize s1 = RTXmaxSize s"
    using removeOldestPacket_inv [OF Cons.prems(1)] by blast
  have hd: "rtx_head s = Some b" using Cons.prems(1) by (simp add: queues_inv_def)
  show ?case
  proof (cases "tv_sec now - tv_sec (timeStamp kb) > tv_sec (maxTimeToHold s)")
    case True
    then have step: "rtx_expire now (rtx_head s) s = rtx_expire now (rtx_head s1) s1"
      using s1 hd by (subst rtx_expire.simps) (simp add: deref_def)
    from Cons.IH [OF s1(3)] obtain s' ys' gone where *: "rtx_expire now (rtx_head s1) s1 = Some (Inr s')"
      "queues_inv s' xs ys'" "ys = gone @ ys'" "RTXmaxSize s' = RTXmaxSize s1"
      "\<forall>c. c \<notin> set ys \<longrightarrow> heap s' c = heap s1 c" by blast
    have "b # ys = (b # gone) @ ys'" using *(3) by simp
    with * s1(4,6) show ?thesis unfolding step by (metis fun_upd_other list.set_intros)
  next
    case False
    then have "rtx_expire now (rtx_head s) s = Some (Inr s)"
      using s1(1) hd by (subst rtx_expire.simps) (simp add: deref_def)
    with Cons.prems show ?thesis by auto
  qed
qed

lemma rtx_shrink_inv:
  assumes "queues_inv s xs ys" "len \<le> RTXmaxSize s"
  shows "\<exists>s' ys'. rtx_shrink len s = Some (Inr s') \<and> queues_inv s' xs ys'
           \<and> (\<exists>gone. ys = gone @ ys') \<and> RTXmaxSize s' = RTXmaxSize s
           \<and> (\<forall>b. b \<notin> set ys \<longrightarrow> heap s' b = heap s b) \<and> rtx_size s' + len \<le> RTXmaxSize s'"
  using assms
proof (induction ys arbitrary: s)
  case Nil
  then have "rtx_size s + len \<le> RTXmaxSize s" by (simp add: queues_inv_def)
  then have "rtx_shrink len s = Some (Inr s)" by (subst rtx_shrink.simps) simp
  with Nil \<open>rtx_size s + len \<le> RTXmaxSize s\<close> show ?case by auto
next
  case (Cons b ys)
  show ?case
  proof (cases "rtx_size s + len > RTXmaxSize s")
    case True
    obtain s1 kb where s1: "heap s b = Some kb" "removeOldestPacket s = Inr (0, s1)" "queues_inv s1 xs ys"
      "heap s1 = (heap s)(b := None)" "RTXmaxSize s1 = RTXmaxSize s"
      using removeOldestPacket_inv [OF Cons.prems(1)] by blast
    then have step: "rtx_shrink len s = rtx_shrink len s1"
      using True by (subst rtx_shrink.simps) simp
    from Cons.IH [OF s1(3)] Cons.prems(2) s1(5) obtain s' ys' gone where *: "rtx_shrink len s1 = Some (Inr s')"
      "queues_inv s' xs ys'" "ys = gone @ ys'" "RTXmaxSize s' = RTXmaxSize s1"
      "\<forall>c. c \<notin> set ys \<longrightarrow> heap s' c = heap s1 c" "rtx_size s' + len \<le> RTXmaxSize s'" by auto
    have "b # ys = (b # gone) @ ys'" using *(3) by simp
    with * s1(4,5) show ?thesis unfolding step by (metis fun_upd_other list.set_intros)
  next
    case False
    then have "rtx_shrink len s = Some (Inr s)" by (subst rtx_shrink.simps) simp
    with False Cons.prems show ?thesis by auto
  qed
qed

lemma rtx_shrink_empty_loops:
  assumes "rtx_head s = None" "rtx_size s + len > RTXmaxSize s"
  shows "rtx_shrink len s = None"
proof (rule ccontr)
  assume "rtx_shrink len s \<noteq> None"
  then obtain r where r: "rtx_shrink len s = Some r" by auto
  have "\<not> (rtx_head s = None \<and> rtx_size s + len > RTXmaxSize s)"
  proof (rule rtx_shrink.raw_induct [where P = "\<lambda>len s r. \<not> (rtx_head s = None \<and> rtx_size s + len > RTXmaxSize s)", OF _ r])
    fix f :: "int \<Rightarrow> 'a queues_scheme \<Rightarrow> 'a queues_scheme res option" and len s r
    assume IH: "\<And>len s r. f len s = Some r \<Longrightarrow> \<not> (rtx_head s = None \<and> rtx_size s + len > RTXmaxSize s)"
      and eq: "(if rtx_size s + len > RTXmaxSize s then
          (case removeOldestPacket s of Inl e \<Rightarrow> Some (Inl e) | Inr (x, s1) \<Rightarrow> f len s1)
        else Some (Inr s)) = Some r"
    show "\<not> (rtx_head s = None \<and> rtx_size s + len > RTXmaxSize s)"
      using eq IH [of len s r] by (auto simp: removeOldestPacket_empty)
  qed
  with assms show False by simp
qed

lemma rtx_shrink_oversize_loops:
  assumes "queues_inv s xs ys" "RTXmaxSize s < len"
  shows "rtx_shrink len s = None"
  using assms
proof (induction ys arbitrary: s)
  case Nil
  then show ?case by (intro rtx_shrink_empty_loops) (auto simp: queues_inv_def)
next
  case (Cons b ys)
  obtain s1 kb where s1: "removeOldestPacket s = Inr (0, s1)" "queues_inv s1 xs ys"
    "RTXmaxSize s1 = RTXmaxSize s"
    using removeOldestPacket_inv [OF Cons.prems(1)] by blast
  have "0 \<le> rtx_size s"
    using Cons.prems(1) total_len_ge_0 [OF Cons.prems(1), of "b # ys"] by (simp add: queues_inv_def)
  then have "rtx_shrink len s = rtx_shrink len s1"
    using s1 Cons.prems(2) by (subst rtx_shrink.simps) simp
  with Cons.IH [OF s1(2)] s1(3) Cons.prems(2) show ?case by simp
qed

lemma rtx_append_inv:
  assumes inv: "queues_inv s xs ys" and k: "heap s a = Some k" and new: "a \<notin> set xs" "a \<notin> set ys"
  shows "\<exists>s'. rtx_append now a s = Inr s' \<and> queues_inv s' xs (ys @ [a])
            \<and> rtx_size s' = rtx_size s + pktLen k \<and> RTXmaxSize s' = RTXmaxSize s
            \<and> (\<forall>b \<in> set xs. heap s' b = heap s b)"
proof (cases ys rule: rev_cases)
  case Nil
  let ?s = "s\<lparr> heap := (heap s)(a \<mapsto> k\<lparr> timeStamp := now, nxt := None \<rparr>),
               rtx_size := rtx_size s + pktLen k, rtx_head := Some a, rtx_tail := Some a \<rparr>"
  have "rtx_append now a s = Inr ?s"
    using inv k Nil by (simp add: rtx_append_def deref_Some queues_inv_def)
  moreover have "queues_inv ?s xs [a]"
    using inv k new Nil by (auto simp: queues_inv_def len_at_def total_len_stamp)
  moreover have "\<forall>b \<in> set xs. heap ?s b = heap s b" using new by auto
  ultimately show ?thesis using Nil by (intro exI [of _ ?s]) simp
next
  case (snoc zs b)
  then obtain kb where kb: "heap s b = Some kb"
    using inv chain_alloc [of "heap s" "rtx_head s" ys b] by (auto simp: queues_inv_def)
  have head: "rtx_head s \<noteq> None" "rtx_tail s = Some b"
    using inv snoc by (auto simp: queues_inv_def dest: chain_nth_head split: list.splits)
  have ab: "a \<noteq> b" "b \<notin> set xs" using inv new snoc by (auto simp: queues_inv_def)
  let ?k = "k\<lparr> timeStamp := now, nxt := None \<rparr>"
  let ?h = "(heap s)(a \<mapsto> ?k)"
  let ?h' = "?h(b \<mapsto> kb\<lparr> nxt := Some a \<rparr>)"
  let ?s = "s\<lparr> heap := ?h', rtx_size := rtx_size s + pktLen k, rtx_tail := Some a \<rparr>"
  have "rtx_append now a s = Inr ?s"
    using k kb head ab by (auto simp: rtx_append_def deref_def set_next_def Let_def)
  moreover have "chain ?h' (rtx_head s) (zs @ [b, a])"
  proof (rule chain_snoc)
    show "chain ?h (rtx_head s) (zs @ [b])" using inv snoc new by (simp add: queues_inv_def)
    show "?h b = Some kb" using kb ab by simp
  qed (use inv snoc new in \<open>auto simp: queues_inv_def\<close>)
  moreover have "queues_inv ?s xs (ys @ [a])"
  proof -
    have "total_len ?h' as = total_len (heap s) as" for as
      using k kb ab by (subst total_len_next) (auto simp: total_len_stamp)
    moreover have "len_at ?h' a = pktLen k" "len_at ?h' b = len_at (heap s) b"
      using ab kb by (simp_all add: len_at_def)
    ultimately show ?thesis
      using inv k kb new snoc ab \<open>chain ?h' (rtx_head s) (zs @ [b, a])\<close>
      by (auto simp: queues_inv_def)
  qed
  moreover have "\<forall>c \<in> set xs. heap ?s c = heap s c" using new ab by auto
  ultimately show ?thesis by (intro exI [of _ ?s]) simp
qed

lemma addPacketRTXqueue_inv:
  assumes inv: "queues_inv s xs ys" and k: "heap s a = Some k" and new: "a \<notin> set xs" "a \<notin> set ys"
    and fits: "pktLen k \<le> RTXmaxSize s"
  shows "\<exists>s' ys'. addPacketRTXqueue now now2 a s = Some (Inr s') \<and> queues_inv s' xs (ys' @ [a])
       \<and> (\<exists>gone. ys = gone @ ys') \<and> rtx_size s' \<le> RTXmaxSize s' \<and> RTXmaxSize s' = RTXmaxSize s
       \<and> (\<forall>b \<in> set xs. heap s' b = heap s b)"
proof -
  obtain s1 ys1 g1 where s1: "rtx_expire now (rtx_head s) s = Some (Inr s1)" "queues_inv s1 xs ys1"
    "ys = g1 @ ys1" "RTXmaxSize s1 = RTXmaxSize s" "\<forall>b. b \<notin> set ys \<longrightarrow> heap s1 b = heap s b"
    using rtx_expire_inv [OF inv] by blast
  obtain s2 ys2 g2 where s2: "rtx_shrink (pktLen k) s1 = Some (Inr s2)" "queues_inv s2 xs ys2"
    "ys1 = g2 @ ys2" "RTXmaxSize s2 = RTXmaxSize s1" "\<forall>b. b \<notin> set ys1 \<longrightarrow> heap s2 b = heap s1 b"
    "rtx_size s2 + pktLen k \<le> RTXmaxSize s2"
    using rtx_shrink_inv [OF s1(2), of "pktLen k"] s1(4) fits by auto
  have k2: "heap s2 a = Some k" using s1(3,5) s2(3,5) new k by auto
  obtain s3 where s3: "rtx_append now2 a s2 = Inr s3" "queues_inv s3 xs (ys2 @ [a])"
    "rtx_size s3 = rtx_size s2 + pktLen k" "RTXmaxSize s3 = RTXmaxSize s2"
    "\<forall>b \<in> set xs. heap s3 b = heap s2 b"
    using rtx_append_inv [OF s2(2) k2 new(1)] s1(3) s2(3) new(2) by auto
  have "addPacketRTXqueue now now2 a s = Some (Inr s3)"
    using k s1(1) s2(1) s3(1) by (simp add: addPacketRTXqueue_def deref_def)
  moreover have "\<forall>b \<in> set xs. heap s3 b = heap s b"
  proof
    fix b assume b: "b \<in> set xs"
    then have "b \<notin> set ys" using inv by (auto simp: queues_inv_def)
    with b show "heap s3 b = heap s b" using s3(5) s2(5) s1(3,5) by auto
  qed
  ultimately show ?thesis using s1(3,4) s2(3,4,6) s3(2-4) by auto
qed

text \<open>C30: Adding a sent packet to the retransmit queue: if the packet is larger than the queue's
  byte bound, the loop that makes room removes every container and then runs for ever; otherwise the
  call returns without touching a freed container, the queue becomes a suffix of the old one (the
  oldest packets are dropped first) followed by the packet, and its size respects the bound. The
  transmit queue is not affected.\<close>

theorem rtx_queue_add:
  assumes inv: "queues_inv s xs ys" and k: "heap s a = Some k" and new: "a \<notin> set xs" "a \<notin> set ys"
  shows "if RTXmaxSize s < pktLen k then addPacketRTXqueue now now2 a s = None
         else (\<exists>s' ys'. addPacketRTXqueue now now2 a s = Some (Inr s') \<and> queues_inv s' xs (ys' @ [a])
                 \<and> (\<exists>gone. ys = gone @ ys') \<and> rtx_size s' \<le> RTXmaxSize s')"
proof (cases "RTXmaxSize s < pktLen k")
  case True
  obtain s1 ys1 where s1: "rtx_expire now (rtx_head s) s = Some (Inr s1)" "queues_inv s1 xs ys1"
    "RTXmaxSize s1 = RTXmaxSize s"
    using rtx_expire_inv [OF inv] by blast
  with True have "rtx_shrink (pktLen k) s1 = None"
    using rtx_shrink_oversize_loops [OF s1(2)] by simp
  with True s1(1) k show ?thesis by (simp add: addPacketRTXqueue_def deref_def)
next
  case False
  with addPacketRTXqueue_inv [OF assms] show ?thesis by fastforce
qed

lemma rtx_queue_add_witness:
  "(let s = snd (createPacketContainer 3 [[], [1], [2], [3]] 4 zero_sockaddr 0 init_queues);
        t = \<lparr> tv_sec = 9, tv_usec = 1 \<rparr>
    in \<exists>s' ys'. addPacketRTXqueue t t 0 s = Some (Inr s') \<and> queues_inv s' [] (ys' @ [0]))"
  using rtx_queue_add [OF createPacketContainer_inv(1) [OF init_queues_inv, of "[[], [1], [2], [3]]" 3 zero_sockaddr 0], of 0
      "snd (createPacketContainer 3 [[], [1], [2], [3]] 4 zero_sockaddr 0 init_queues)" 0
      "\<lparr> udpSocket = 3, iov = [[], [1], [2], [3]], iovlen = 4, socketaddr = zero_sockaddr, pktLen = 3,
         timeStamp = \<lparr> tv_sec = 0, tv_usec = 0 \<rparr>, nxt = None, priority = 0 \<rparr>"
      "\<lparr> tv_sec = 9, tv_usec = 1 \<rparr>" "\<lparr> tv_sec = 9, tv_usec = 1 \<rparr>"]
  by (auto simp: createPacketContainer_def init_queues_def Let_def iov_len_def eval_nat_numeral)
    (metis append_Nil)

end
