(* ===== verification/Rate_Limiter.thy ===== *)
theory Rate_Limiter
  imports Packet_Queue
begin

text \<open>
  The token bucket of \<open>ml/util/rateLimiter.c\<close>, with \<open>sendPacket\<close> (\<open>ml/ml.c\<close>) and
  \<open>sendPacketFinal\<close> (\<open>ml/util/udpSocket.c\<close>), through which every datagram leaves. What the code
  asks of the operating system is in the record \<open>env\<close>: the successive answers of \<open>gettimeofday\<close>,
  the answer of \<open>sendmsg\<close> given the datagrams sent so far, and the callback of the monitoring layer
  that fills a packet header. The build has \<open>RTX\<close> defined (the default of \<open>build_all.sh\<close>).
\<close>

section \<open>State and environment\<close>

record rate = queues +
  bucket_size :: int
  drain_rate :: int
  bytes_in_bucket :: int
  bib_then :: timeval
  ticks :: nat
  wire :: "(int \<times> byte list list \<times> sockaddr) list"
  planned :: "timeval list"

type_synonym datagram = "int \<times> byte list list \<times> sockaddr"

datatype errno = EMSGSIZE | Other_errno

record env =
  clock :: "nat \<Rightarrow> timeval"
  net :: "datagram list \<Rightarrow> datagram \<Rightarrow> errno option"
  send_pkt_inf :: "(byte list list \<Rightarrow> byte list) option"

text \<open>
  \<open>planned\<close> is the list of free-space events scheduled and not yet fired, \<open>wire\<close> the datagrams
  accepted by the system, \<open>ticks\<close> the number of \<open>gettimeofday\<close> calls made.
\<close>

definition gettimeofday :: "'e env_scheme \<Rightarrow> 'a rate_scheme \<Rightarrow> timeval \<times> 'a rate_scheme" where
  "gettimeofday env s = (clock env (ticks s), s\<lparr> ticks := ticks s + 1 \<rparr>)"

section \<open>Sending a datagram\<close>

definition sendPacketFinal ::
  "'e env_scheme \<Rightarrow> int \<Rightarrow> byte list list \<Rightarrow> sockaddr \<Rightarrow> 'a rate_scheme \<Rightarrow> error_code \<times> 'a rate_scheme" where
  "sendPacketFinal env sock v addr s =
     (case net env (wire s) (sock, v, addr) of
        Some EMSGSIZE \<Rightarrow> (MSGLEN, s)
      | Some Other_errno \<Rightarrow> (FAILURE, s)
      | None \<Rightarrow> (OK, s\<lparr> wire := wire s @ [(sock, v, addr)] \<rparr>))"

text \<open>
  \<open>sendPacket\<close> lets the monitoring layer fill the packet header, \<open>iov[1]\<close>, when the callback is
  registered and the header is not empty; the header is zeroed first and keeps its length. It returns
  the buffers it sent as well, since it writes into the caller's.
\<close>

definition fill_pkt_header :: "'e env_scheme \<Rightarrow> byte list list \<Rightarrow> byte list list" where
  "fill_pkt_header env v =
     (case send_pkt_inf env of None \<Rightarrow> v
      | Some cb \<Rightarrow>
          if length (v ! 1) = 0 then v
          else (let zero = replicate (length (v ! 1)) 0
                in v[1 := take (length (v ! 1)) (cb (v[1 := zero]) @ zero)]))"

definition sendPacket ::
  "'e env_scheme \<Rightarrow> int \<Rightarrow> byte list list \<Rightarrow> sockaddr \<Rightarrow> 'a rate_scheme
     \<Rightarrow> error_code \<times> byte list list \<times> 'a rate_scheme" where
  "sendPacket env sock v addr s =
     (let v1 = fill_pkt_header env v; (r, s1) = sendPacketFinal env sock v1 addr s in (r, v1, s1))"

lemma fill_pkt_header_none [simp]: "send_pkt_inf env = None \<Longrightarrow> fill_pkt_header env v = v"
  by (simp add: fill_pkt_header_def)

lemma fill_pkt_header_lengths: "map length (fill_pkt_header env v) = map length v"
proof -
  have "map length (v[1 := x]) = map length v" if "length x = length (v ! 1)" for x :: "byte list"
    using that by (cases "1 < length v") (auto simp: list_eq_iff_nth_eq nth_list_update)
  then show ?thesis by (auto simp: fill_pkt_header_def Let_def split: option.splits)
qed

section \<open>The token bucket\<close>

text \<open>
  \<open>leaked\<close> is an \<open>unsigned int\<close>: both its assignments reduce modulo \<open>2 ^ 32\<close>. \<open>total_drain_secs\<close> is an
  \<open>int\<close>: the 64-bit quotient is cut to 32 bits (\<open>c_int\<close>). C division truncates
  towards zero (\<open>sdiv\<close>).
\<close>

definition usec_diff :: "timeval \<Rightarrow> timeval \<Rightarrow> int" where
  "usec_diff t0 t1 = tv_usec t1 - tv_usec t0"

definition bucket_leaked :: "int \<Rightarrow> timeval \<Rightarrow> timeval \<Rightarrow> int" where
  "bucket_leaked rate t0 t1 =
     (let leaked0 = (rate * (tv_sec t1 - tv_sec t0)) mod 2 ^ 32
      in (leaked0 + (rate * usec_diff t0 t1) sdiv 1000000) mod 2 ^ 32)"

definition outputRateControl :: "'e env_scheme \<Rightarrow> int \<Rightarrow> 'a rate_scheme \<Rightarrow> error_code \<times> 'a rate_scheme" where
  "outputRateControl env len s0 =
     (let (now, s) = gettimeofday env s0 in
      if drain_rate s \<le> 0 then (OK, s\<lparr> bytes_in_bucket := 0, bib_then := now \<rparr>)
      else
        (let total_drain_secs = c_int (bytes_in_bucket s sdiv drain_rate s + 1);
             leaked = bucket_leaked (drain_rate s) (bib_then s) now;
             b = (if tv_sec now - tv_sec (bib_then s) - 1 > total_drain_secs then 0
                  else if leaked > bytes_in_bucket s then 0
                  else bytes_in_bucket s - leaked);
             s1 = s\<lparr> bytes_in_bucket := b, bib_then := now \<rparr>
         in if b + len \<le> bucket_size s1 then (OK, s1\<lparr> bytes_in_bucket := b + len \<rparr>)
            else (THROTTLE, s1)))"

definition setOutputRateParams :: "'e env_scheme \<Rightarrow> int \<Rightarrow> int \<Rightarrow> 'a rate_scheme \<Rightarrow> 'a rate_scheme" where
  "setOutputRateParams env bucketsize drainrate s =
     (let s1 = s\<lparr> bucket_size := bucketsize \<rparr>;
          s2 = snd (outputRateControl env 0 s1)
      in s2\<lparr> drain_rate := drop_bit 3 drainrate \<rparr>)"

definition planFreeSpaceInBucketEvent :: "int \<Rightarrow> 'a rate_scheme \<Rightarrow> 'a rate_scheme res" where
  "planFreeSpaceInBucketEvent bytes s =
     (if drain_rate s = 0 then Inl DivByZero
      else
        (let sec = bytes sdiv drain_rate s;
             usec = ((bytes - sec * drain_rate s) * 1000000) sdiv drain_rate s
         in Inr (s\<lparr> planned := planned s @ [\<lparr> tv_sec = sec, tv_usec = usec \<rparr>] \<rparr>)))"

section \<open>Queueing and draining\<close>

definition HP :: byte where "HP = 1"
definition NO_RTX :: byte where "NO_RTX = 2"

definition add_rtx :: "'e env_scheme \<Rightarrow> nat \<Rightarrow> 'a rate_scheme \<Rightarrow> 'a rate_scheme res option" where
  "add_rtx env a s =
     (let (now, s1) = gettimeofday env s; (now2, s2) = gettimeofday env s1
      in addPacketRTXqueue now now2 a s2)"

definition queueOrSendPacket ::
  "'e env_scheme \<Rightarrow> int \<Rightarrow> byte list list \<Rightarrow> int \<Rightarrow> sockaddr \<Rightarrow> byte \<Rightarrow> 'a rate_scheme
     \<Rightarrow> (error_code \<times> 'a rate_scheme) res option" where
  "queueOrSendPacket env sock v iovl addr prior s =
     (let (a, s1) = createPacketContainer sock v iovl addr prior s;
          send_now = (\<lambda>s2.
            (case (if prior AND NO_RTX = 0
                   then add_rtx env a s2
                   else Some (destroyPacketContainer (Some a) s2)) of
               None \<Rightarrow> None
             | Some (Inl e) \<Rightarrow> Some (Inl e)
             | Some (Inr s4) \<Rightarrow>
                 (let (r, v1, s5) = sendPacket env sock v addr s4 in Some (Inr (r, s5)))))
      in if prior AND HP = 0 then
           (if \<not> isQueueEmpty s1 then Some (addPacketTXqueue a s1)
            else
              (let (r, s2) = outputRateControl env (iov_len v) s1 in
               if r \<noteq> OK then
                 Some (res_bind (planFreeSpaceInBucketEvent (iov_len v) s2) (addPacketTXqueue a))
               else send_now s2))
         else send_now s1)"

text \<open>The loop of \<open>freeSpaceInBucket_cb\<close>, one iteration and then the loop.\<close>

definition send_first :: "'e env_scheme \<Rightarrow> 'a rate_scheme \<Rightarrow> 'a rate_scheme res option" where
  "send_first env s =
     (case takePacketToSend s of Inl e \<Rightarrow> Some (Inl e)
      | Inr (None, s1) \<Rightarrow> Some (Inr s1)
      | Inr (Some a, s1) \<Rightarrow>
          (case deref s1 (Some a) of Inl e \<Rightarrow> Some (Inl e)
           | Inr k \<Rightarrow>
               (let (now, s2) = gettimeofday env s1;
                    s3 = s2\<lparr> bib_then := now \<rparr>;
                    (r, v1, s4) = sendPacket env (udpSocket k) (iov k) (socketaddr k) s3;
                    s5 = s4\<lparr> heap := (heap s4)(a \<mapsto> k\<lparr> iov := v1 \<rparr>) \<rparr>
                in if priority k AND NO_RTX = 0
                   then add_rtx env a s5
                   else Some (destroyPacketContainer (Some a) s5))))"

partial_function (option) free_space_loop :: "'e env_scheme \<Rightarrow> 'a rate_scheme \<Rightarrow> 'a rate_scheme res option" where
  "free_space_loop env s =
     (if isQueueEmpty s then Some (Inr s)
      else (case getFirstPacketSize s of Inl e \<Rightarrow> Some (Inl e)
            | Inr n \<Rightarrow>
                (case outputRateControl env n s of (r, s1) \<Rightarrow>
                   if r \<noteq> OK then Some (Inr s1)
                   else (case send_first env s1 of None \<Rightarrow> None
                         | Some (Inl e) \<Rightarrow> Some (Inl e)
                         | Some (Inr s2) \<Rightarrow> free_space_loop env s2))))"

definition freeSpaceInBucket_cb :: "'e env_scheme \<Rightarrow> 'a rate_scheme \<Rightarrow> 'a rate_scheme res option" where
  "freeSpaceInBucket_cb env s =
     (case free_space_loop env s of None \<Rightarrow> None
      | Some (Inl e) \<Rightarrow> Some (Inl e)
      | Some (Inr s1) \<Rightarrow>
          (if \<not> isQueueEmpty s1
           then Some (res_bind (getFirstPacketSize s1) (\<lambda>n. planFreeSpaceInBucketEvent n s1))
           else Some (Inr s1)))"

text \<open>The event loop takes the first planned event off and calls the callback.\<close>

definition fire_free_space :: "'e env_scheme \<Rightarrow> 'a rate_scheme \<Rightarrow> 'a rate_scheme res option" where
  "fire_free_space env s = freeSpaceInBucket_cb env (s\<lparr> planned := tl (planned s) \<rparr>)"

section \<open>What the bucket admits\<close>

definition micros :: "timeval \<Rightarrow> int" where
  "micros t = tv_sec t * 1000000 + tv_usec t"

definition wf_time :: "timeval \<Rightarrow> bool" where
  "wf_time t \<longleftrightarrow> 0 \<le> tv_usec t \<and> tv_usec t < 1000000"

definition exact_leak :: "int \<Rightarrow> timeval \<Rightarrow> timeval \<Rightarrow> int" where
  "exact_leak rate t0 t1 = rate * (tv_sec t1 - tv_sec t0) + (rate * usec_diff t0 t1) sdiv 1000000"

lemma bucket_leaked_mod: "bucket_leaked rate t0 t1 = exact_leak rate t0 t1 mod 2 ^ 32"
  by (simp add: bucket_leaked_def exact_leak_def Let_def mod_add_left_eq)

lemma sdiv_bounds:
  fixes x :: int assumes "0 < c" shows "x - c < c * (x sdiv c)" "c * (x sdiv c) < x + c"
proof -
  have pos: "y - c < c * (y div c) \<and> c * (y div c) \<le> y" for y :: int
    using assms mult_div_mod_eq [of c y] pos_mod_bound [of c y] pos_mod_sign [of c y] by linarith
  have "x sdiv c = (if 0 \<le> x then x div c else - ((- x) div c))"
    using assms by (auto simp: signed_divide_int_def sgn_if)
  with pos [of x] pos [of "- x"] assms show "x - c < c * (x sdiv c)" "c * (x sdiv c) < x + c"
    by (auto split: if_splits)
qed

lemma exact_leak_bounds:
  "rate * (micros t1 - micros t0) - 1000000 < 1000000 * exact_leak rate t0 t1"
  "1000000 * exact_leak rate t0 t1 < rate * (micros t1 - micros t0) + 1000000"
proof -
  let ?x = "rate * usec_diff t0 t1"
  have "rate * (micros t1 - micros t0) = 1000000 * (rate * (tv_sec t1 - tv_sec t0)) + ?x"
    by (simp add: micros_def usec_diff_def algebra_simps)
  moreover have "1000000 * exact_leak rate t0 t1
      = 1000000 * (rate * (tv_sec t1 - tv_sec t0)) + 1000000 * (?x sdiv 1000000)"
    by (simp add: exact_leak_def algebra_simps)
  ultimately show "rate * (micros t1 - micros t0) - 1000000 < 1000000 * exact_leak rate t0 t1"
    "1000000 * exact_leak rate t0 t1 < rate * (micros t1 - micros t0) + 1000000"
    using sdiv_bounds [of 1000000 ?x] by simp_all
qed

lemma exact_leak_nonneg:
  assumes "0 \<le> rate" "micros t0 \<le> micros t1"
  shows "0 \<le> exact_leak rate t0 t1"
proof -
  have "0 \<le> rate * (micros t1 - micros t0)" using assms by simp
  with exact_leak_bounds(1) [of rate t1 t0] show ?thesis by linarith
qed

lemma bucket_leaked_bounds:
  assumes "0 \<le> rate" "micros t0 \<le> micros t1"
  shows "0 \<le> bucket_leaked rate t0 t1" "bucket_leaked rate t0 t1 \<le> exact_leak rate t0 t1"
  using exact_leak_nonneg [OF assms] by (auto simp: bucket_leaked_mod intro: zmod_le_nonneg_dividend)

text \<open>One call, with the admitted bytes as the caller counts them.\<close>

definition admitted :: "error_code \<Rightarrow> int \<Rightarrow> int" where
  "admitted r len = (if r = OK then len else 0)"

definition rate_ok :: "'a rate_scheme \<Rightarrow> bool" where
  "rate_ok s \<longleftrightarrow> 0 \<le> bytes_in_bucket s \<and> wf_time (bib_then s)"

definition clock_ok :: "'e env_scheme \<Rightarrow> 'a rate_scheme \<Rightarrow> bool" where
  "clock_ok env s \<longleftrightarrow> (\<forall>n. wf_time (clock env n)) \<and> mono (\<lambda>n. micros (clock env n))
     \<and> micros (bib_then s) \<le> micros (clock env (ticks s))"

text \<open>\<open>total_drain_secs\<close> is exact while the bucket drains in less than \<open>2 ^ 31 - 1\<close> seconds.\<close>

lemma drain_secs:
  assumes "0 < rate" "0 \<le> b" "b < rate * (2 ^ 31 - 1)"
  shows "c_int (b sdiv rate + 1) = b div rate + 1"
proof -
  have b: "b sdiv rate = b div rate" using assms by (simp add: signed_divide_int_def sgn_if)
  have "rate * (b div rate) \<le> b" using mult_div_mod_eq [of rate b] pos_mod_sign [of rate b] assms(1) by linarith
  with assms(3) have "rate * (b div rate) < rate * (2 ^ 31 - 1)" by linarith
  then have "b div rate < 2 ^ 31 - 1" using assms(1) by (simp only: mult_less_cancel_left_pos)
  moreover have "0 \<le> b div rate" using assms(1,2) by (simp add: pos_imp_zdiv_nonneg_iff)
  ultimately show ?thesis unfolding b by (intro c_int_id) simp_all
qed

lemma reset_drains:
  assumes "0 < rate" "0 \<le> b" "wf_time t0" "wf_time t1" "b < rate * (2 ^ 31 - 1)"
    and "tv_sec t1 - tv_sec t0 - 1 > c_int (b sdiv rate + 1)"
  shows "1000000 * b \<le> rate * (micros t1 - micros t0)"
proof -
  note b = drain_secs [OF assms(1,2,5)]
  have "b < rate * (b div rate) + rate"
    using mult_div_mod_eq [of rate b] pos_mod_bound [of rate b] assms by linarith
  also have "\<dots> = rate * (b div rate + 1)" by (simp add: algebra_simps)
  finally have "b \<le> rate * (b div rate + 1)" by simp
  then have "1000000 * b \<le> 1000000 * (rate * (b div rate + 1))" by (rule mult_left_mono) simp
  also have "\<dots> = rate * (1000000 * (b div rate + 1))" by (simp only: ac_simps)
  finally have *: "1000000 * b \<le> rate * (1000000 * (b div rate + 1))" .
  have "1000000 * (b div rate + 1) \<le> micros t1 - micros t0"
    using assms(3,4,6) by (simp add: b micros_def wf_time_def)
  then have "rate * (1000000 * (b div rate + 1)) \<le> rate * (micros t1 - micros t0)"
    using assms by (intro mult_left_mono) auto
  with * show ?thesis by linarith
qed

text \<open>The level of the bucket after draining, as \<open>outputRateControl\<close> computes it.\<close>

definition drained_level :: "int \<Rightarrow> int \<Rightarrow> timeval \<Rightarrow> timeval \<Rightarrow> int" where
  "drained_level rate b t0 t1 =
     (if tv_sec t1 - tv_sec t0 - 1 > c_int (b sdiv rate + 1) then 0
      else if bucket_leaked rate t0 t1 > b then 0 else b - bucket_leaked rate t0 t1)"

lemma outputRateControl_drained:
  assumes "0 < drain_rate s"
    and "b = drained_level (drain_rate s) (bytes_in_bucket s) (bib_then s) (clock env (ticks s))"
  shows "outputRateControl env len s =
    (if b + len \<le> bucket_size s
     then (OK, s\<lparr> ticks := ticks s + 1, bytes_in_bucket := b + len, bib_then := clock env (ticks s) \<rparr>)
     else (THROTTLE, s\<lparr> ticks := ticks s + 1, bytes_in_bucket := b, bib_then := clock env (ticks s) \<rparr>))"
  unfolding assms(2) outputRateControl_def gettimeofday_def Let_def drained_level_def
  using assms(1) by simp

lemma outputRateControl_step:
  assumes "outputRateControl env len s = (r, s')" "rate_ok s" "clock_ok env s" "0 \<le> len" "0 < drain_rate s"
    and "bytes_in_bucket s < drain_rate s * (2 ^ 31 - 1)"
  shows "rate_ok s'" "clock_ok env s'" "bucket_size s' = bucket_size s" "drain_rate s' = drain_rate s"
    and "r = OK \<Longrightarrow> bytes_in_bucket s' \<le> bucket_size s'"
    and "1000000 * (bytes_in_bucket s + admitted r len - bytes_in_bucket s')
           \<le> drain_rate s * (micros (bib_then s') - micros (bib_then s)) + 1000000"
    and "bytes_in_bucket s' \<le> max (bytes_in_bucket s) (bucket_size s)"
proof -
  let ?now = "clock env (ticks s)"
  let ?L = "bucket_leaked (drain_rate s) (bib_then s) ?now"
  have t: "wf_time ?now" "wf_time (bib_then s)" "micros (bib_then s) \<le> micros ?now" "0 \<le> bytes_in_bucket s"
    using assms(2,3) by (auto simp: clock_ok_def rate_ok_def)
  have L: "0 \<le> ?L" "1000000 * ?L \<le> drain_rate s * (micros ?now - micros (bib_then s)) + 1000000"
    using bucket_leaked_bounds [of "drain_rate s" "bib_then s" ?now]
      exact_leak_bounds(2) [of "drain_rate s" "bib_then s" ?now] t assms(5) by auto
  define b where "b = drained_level (drain_rate s) (bytes_in_bucket s) (bib_then s) ?now"
  have b0: "0 \<le> b" using t by (simp add: b_def drained_level_def)
  have bl: "1000000 * (bytes_in_bucket s - b)
      \<le> drain_rate s * (micros ?now - micros (bib_then s)) + 1000000"
    using reset_drains [OF assms(5) t(4) t(2) t(1) assms(6)] L by (auto simp: b_def drained_level_def split: if_splits)
  have eq: "r = (if b + len \<le> bucket_size s then OK else THROTTLE)"
    "s' = s\<lparr> ticks := ticks s + 1, bytes_in_bucket := (if b + len \<le> bucket_size s then b + len else b),
           bib_then := ?now \<rparr>"
    using assms(1) outputRateControl_drained [OF assms(5) b_def, of len] by (auto split: if_splits)
  show "rate_ok s'" "bucket_size s' = bucket_size s" "drain_rate s' = drain_rate s"
    "r = OK \<Longrightarrow> bytes_in_bucket s' \<le> bucket_size s'"
    using b0 t assms(4) by (auto simp: eq rate_ok_def split: if_splits)
  show "clock_ok env s'"
    using assms(3) by (auto simp: eq clock_ok_def mono_def)
  show "1000000 * (bytes_in_bucket s + admitted r len - bytes_in_bucket s')
           \<le> drain_rate s * (micros (bib_then s') - micros (bib_then s)) + 1000000"
    using bl by (auto simp: eq admitted_def algebra_simps)
  show "bytes_in_bucket s' \<le> max (bytes_in_bucket s) (bucket_size s)"
    using L t by (auto simp: eq b_def drained_level_def)
qed

text \<open>A run of calls, as the transmit path makes them, and the bytes it admits.\<close>

fun run_rate :: "'e env_scheme \<Rightarrow> int list \<Rightarrow> 'a rate_scheme \<Rightarrow> int \<times> 'a rate_scheme" where
  "run_rate env [] s = (0, s)"
| "run_rate env (len # lens) s =
     (let (r, s1) = outputRateControl env len s; (n, s2) = run_rate env lens s1
      in (admitted r len + n, s2))"

lemma run_rate_bound:
  assumes "rate_ok s" "clock_ok env s" "\<forall>len \<in> set lens. 0 \<le> len" "0 < drain_rate s"
    and "run_rate env lens s = (n, s')" "max (bytes_in_bucket s) (bucket_size s) < drain_rate s * (2 ^ 31 - 1)"
  shows "1000000 * (bytes_in_bucket s + n - bytes_in_bucket s')
           \<le> drain_rate s * (micros (bib_then s') - micros (bib_then s)) + 1000000 * int (length lens)
         \<and> bytes_in_bucket s' \<le> max (bytes_in_bucket s) (bucket_size s)"
  using assms
proof (induction lens arbitrary: s n)
  case Nil
  then show ?case by simp
next
  case (Cons len lens)
  obtain r s1 where c: "outputRateControl env len s = (r, s1)" by fastforce
  obtain n1 s2 where rr: "run_rate env lens s1 = (n1, s2)" by fastforce
  have e: "n = admitted r len + n1" "s' = s2" using Cons.prems(5) c rr by auto
  have len: "0 \<le> len" using Cons.prems(3) by simp
  have "bytes_in_bucket s < drain_rate s * (2 ^ 31 - 1)" using Cons.prems(6) by simp
  note st = outputRateControl_step [OF c Cons.prems(1,2) len Cons.prems(4) this]
  have "max (bytes_in_bucket s1) (bucket_size s1) < drain_rate s1 * (2 ^ 31 - 1)"
  proof -
    have "max (bytes_in_bucket s1) (bucket_size s1) \<le> max (bytes_in_bucket s) (bucket_size s)" using st(3,7) by simp
    also note Cons.prems(6)
    finally show ?thesis unfolding st(4) .
  qed
  then have "1000000 * (bytes_in_bucket s1 + n1 - bytes_in_bucket s')
           \<le> drain_rate s1 * (micros (bib_then s') - micros (bib_then s1)) + 1000000 * int (length lens)
         \<and> bytes_in_bucket s' \<le> max (bytes_in_bucket s1) (bucket_size s1)"
    using Cons.IH [of s1 n1] st Cons.prems rr e by simp
  moreover have "bytes_in_bucket s1 \<le> max (bytes_in_bucket s) (bucket_size s)"
    using st(7) by simp
  ultimately show ?case
    using st by (auto simp: e algebra_simps)
qed

text \<open>C9: Token bucket conformance: over any sequence of calls with a clock that does not run
  backwards, the bytes admitted are at most the capacity of the bucket plus what it drains in the
  elapsed time, plus one byte of rounding for each call. The rate must be fast enough for the 32-bit
  \<open>total_drain_secs\<close>: the bucket, filled to its size or its present level, drains in less than
  \<open>2 ^ 31 - 1\<close> seconds (\<open>slow_bucket_forgets\<close> shows what happens from there on).\<close>

theorem token_bucket_conformance:
  assumes "rate_ok s" "clock_ok env s" "\<forall>len \<in> set lens. 0 \<le> len" "0 < drain_rate s"
    and "run_rate env lens s = (n, s')" "max (bytes_in_bucket s) (bucket_size s) < drain_rate s * (2 ^ 31 - 1)"
  shows "1000000 * n \<le> 1000000 * max (bytes_in_bucket s) (bucket_size s)
           + drain_rate s * (micros (bib_then s') - micros (bib_then s)) + 1000000 * int (length lens)"
  using run_rate_bound [OF assms] assms(1) by (auto simp: rate_ok_def)

text \<open>At the slowest rates the bound fails: with \<open>2 ^ 31 - 1\<close> bytes in the bucket and one byte a second,
  \<open>total_drain_secs\<close> wraps to \<open>- 2 ^ 31\<close>, any call empties the bucket, and a packet is admitted without any time
  having passed.\<close>

theorem slow_bucket_forgets:
  assumes "bytes_in_bucket s = 2 ^ 31 - 1" "drain_rate s = 1" "clock env (ticks s) = bib_then s"
    and "0 < len" "len \<le> bucket_size s"
  shows "\<exists>s'. outputRateControl env len s = (OK, s') \<and> bytes_in_bucket s' = len \<and> bib_then s' = bib_then s"
proof -
  have w: "c_int ((2 ^ 31 - 1) sdiv 1 + 1) = - (2 ^ 31)"
    using c_int_wraps [of "2 ^ 31"] by (simp add: signed_divide_int_def)
  have d: "0 = drained_level (drain_rate s) (bytes_in_bucket s) (bib_then s) (clock env (ticks s))"
    unfolding drained_level_def assms(1-3) w by simp
  show ?thesis using outputRateControl_drained [OF _ d, of len] assms(2-5) by simp
qed

lemma slow_bucket_forgets_witness:
  "\<exists>s' :: rate. outputRateControl \<lparr> clock = (\<lambda>_. \<lparr> tv_sec = 10, tv_usec = 500000 \<rparr>), net = (\<lambda>_ _. None), send_pkt_inf = None \<rparr> 1500
      (queues.extend init_queues \<lparr> bucket_size = 2 ^ 31 - 1, drain_rate = 1, bytes_in_bucket = 2 ^ 31 - 1,
        bib_then = \<lparr> tv_sec = 10, tv_usec = 500000 \<rparr>, ticks = 0, wire = [], planned = [] \<rparr>) = (OK, s')
    \<and> bytes_in_bucket s' = 1500"
  using slow_bucket_forgets [of "queues.extend init_queues \<lparr> bucket_size = 2 ^ 31 - 1, drain_rate = 1,
      bytes_in_bucket = 2 ^ 31 - 1, bib_then = \<lparr> tv_sec = 10, tv_usec = 500000 \<rparr>, ticks = 0, wire = [], planned = [] \<rparr>"
      "\<lparr> clock = (\<lambda>_. \<lparr> tv_sec = 10, tv_usec = 500000 \<rparr>), net = (\<lambda>_ _. None), send_pkt_inf = None \<rparr>" 1500]
  by (auto simp: queues.defs)

definition bucket0 :: rate where
  "bucket0 = queues.extend init_queues
     \<lparr> bucket_size = 2000, drain_rate = 1000, bytes_in_bucket = 0,
       bib_then = \<lparr> tv_sec = 10, tv_usec = 500000 \<rparr>, ticks = 0, wire = [], planned = [] \<rparr>"

definition env0 :: env where
  "env0 = \<lparr> clock = (\<lambda>n. \<lparr> tv_sec = 11 + int n, tv_usec = 400000 \<rparr>), net = (\<lambda>_ _. None), send_pkt_inf = None \<rparr>"

lemma bucket0_ok: "rate_ok bucket0" "clock_ok env0 bucket0"
  by (auto simp: rate_ok_def clock_ok_def bucket0_def env0_def wf_time_def micros_def mono_def
      queues.defs)

lemma bucket0_simps [simp]:
  "bucket_size bucket0 = 2000" "drain_rate bucket0 = 1000" "bytes_in_bucket bucket0 = 0"
  "bib_then bucket0 = \<lparr> tv_sec = 10, tv_usec = 500000 \<rparr>" "ticks bucket0 = 0" "planned bucket0 = []"
  "wire bucket0 = []" "tx_head bucket0 = None" "heap bucket0 = (\<lambda>_. None)" "next_addr bucket0 = 0"
  "tx_tail bucket0 = None" "tx_size bucket0 = 0" "TXmaxSize bucket0 = 9000000"
  "rtx_head bucket0 = None" "rtx_size bucket0 = 0" "RTXmaxSize bucket0 = 9000000"
  "clock env0 n = \<lparr> tv_sec = 11 + int n, tv_usec = 400000 \<rparr>" "net env0 w d = None"
  "send_pkt_inf env0 = None"
  by (simp_all add: bucket0_def env0_def queues.defs init_queues_def)

lemma token_bucket_conformance_witness:
  "1000000 * fst (run_rate env0 [1500, 1500, 400, 700] bucket0)
     \<le> 2000000000 + 1000 * (micros (bib_then (snd (run_rate env0 [1500, 1500, 400, 700] bucket0))) - 10500000) + 4000000"
  using token_bucket_conformance [OF bucket0_ok, of "[1500, 1500, 400, 700]"
      "fst (run_rate env0 [1500, 1500, 400, 700] bucket0)" "snd (run_rate env0 [1500, 1500, 400, 700] bucket0)"]
  by (simp add: micros_def del: run_rate.simps)

text \<open>C15: For drain rates up to \<open>2 ^ 28\<close> bytes a second and less than \<open>2 ^ 31 - 1\<close> bytes in the bucket,
  \<open>outputRateControl\<close> is the ideal token bucket: the 32-bit \<open>leaked\<close> never wraps where it is
  used, nor does the 32-bit \<open>total_drain_secs\<close>, the shortcut for long pauses agrees with the exact drain, and a packet is admitted exactly
  when the drained level plus its length fits.\<close>

theorem outputRateControl_is_ideal:
  assumes "rate_ok s" "clock_ok env s" "0 < drain_rate s" "drain_rate s \<le> 2 ^ 28" "bytes_in_bucket s < 2 ^ 31 - 1"
  shows "outputRateControl env len s =
    (let now = clock env (ticks s);
         level = max 0 (bytes_in_bucket s - exact_leak (drain_rate s) (bib_then s) now);
         s1 = s\<lparr> ticks := ticks s + 1, bib_then := now \<rparr>
     in if level + len \<le> bucket_size s then (OK, s1\<lparr> bytes_in_bucket := level + len \<rparr>)
        else (THROTTLE, s1\<lparr> bytes_in_bucket := level \<rparr>))"
proof -
  let ?now = "clock env (ticks s)" and ?r = "drain_rate s" and ?b = "bytes_in_bucket s"
  let ?E = "exact_leak ?r (bib_then s) ?now"
  let ?reset = "tv_sec ?now - tv_sec (bib_then s) - 1 > c_int (?b sdiv ?r + 1)"
  have t: "wf_time ?now" "wf_time (bib_then s)" "micros (bib_then s) \<le> micros ?now" "0 \<le> ?b"
    using assms(1,2) by (auto simp: clock_ok_def rate_ok_def)
  have "?b < 1 * (2 ^ 31 - 1)" using assms(5) by simp
  also have "\<dots> \<le> ?r * (2 ^ 31 - 1)" by (rule mult_right_mono) (use assms(3) in simp_all)
  finally have slow: "?b < ?r * (2 ^ 31 - 1)" .
  have E0: "0 \<le> ?E" by (rule exact_leak_nonneg) (use assms(3) t(3) in auto)
  have reset: "?b \<le> ?E" if ?reset
    using reset_drains [OF assms(3) t(4,2,1) slow that] exact_leak_bounds(1) [of ?r ?now "bib_then s"] by linarith
  have exact: "bucket_leaked ?r (bib_then s) ?now = ?E" if "\<not> ?reset"
  proof -
    note bd = drain_secs [OF assms(3) t(4) slow]
    have "micros ?now - micros (bib_then s) \<le> 1000000 * (?b div ?r + 3)"
      using that [unfolded bd] t(1,2) by (simp add: micros_def wf_time_def)
    then have "?r * (micros ?now - micros (bib_then s)) \<le> ?r * (1000000 * (?b div ?r + 3))"
      using assms(3) by (intro mult_left_mono) auto
    also have "\<dots> = 1000000 * (?r * (?b div ?r)) + 3000000 * ?r" by (simp add: algebra_simps)
    also have "\<dots> \<le> 1000000 * ?b + 3000000 * ?r"
      using mult_div_mod_eq [of ?r ?b] pos_mod_sign [of ?r ?b] assms(3) by linarith
    finally have "?E < 2 ^ 32"
      using exact_leak_bounds(2) [of ?r "bib_then s" ?now] assms(4,5) by simp
    with E0 show ?thesis by (simp add: bucket_leaked_mod)
  qed
  have "max 0 (?b - ?E) = drained_level ?r ?b (bib_then s) ?now"
    using reset exact by (auto simp: drained_level_def)
  from outputRateControl_drained [OF assms(3) this] show ?thesis
    by (simp add: Let_def)
qed

lemma outputRateControl_is_ideal_witness:
  "fst (outputRateControl env0 1200 (bucket0\<lparr> bytes_in_bucket := 1900 \<rparr>)) = THROTTLE
   \<and> fst (outputRateControl env0 1000 (bucket0\<lparr> bytes_in_bucket := 1900 \<rparr>)) = OK"
  using outputRateControl_is_ideal [of "bucket0\<lparr> bytes_in_bucket := 1900 \<rparr>" env0 1200]
    outputRateControl_is_ideal [of "bucket0\<lparr> bytes_in_bucket := 1900 \<rparr>" env0 1000] bucket0_ok
  by (simp add: rate_ok_def clock_ok_def exact_leak_def usec_diff_def Let_def)

section \<open>Events\<close>

text \<open>What the retransmit queue leaves alone: the transmit queue and the state of the limiter.\<close>

definition same_tx :: "'a queues_scheme \<Rightarrow> 'a queues_scheme \<Rightarrow> bool" where
  "same_tx s s' \<longleftrightarrow> tx_head s' = tx_head s \<and> queues.more s' = queues.more s"

lemma same_tx_refl [simp]: "same_tx s s"
  by (simp add: same_tx_def)

lemma same_tx_trans: "same_tx s t \<Longrightarrow> same_tx t u \<Longrightarrow> same_tx s u"
  by (simp add: same_tx_def)

lemma same_tx_rate:
  fixes s :: "'a rate_scheme" assumes "same_tx s s'"
  shows "tx_head s' = tx_head s" "planned s' = planned s" "drain_rate s' = drain_rate s"
    "wire s' = wire s" "bucket_size s' = bucket_size s"
  using assms by (cases s; cases s'; simp add: same_tx_def)+

definition frame :: "'a queues_scheme \<Rightarrow> 'a queues_scheme res \<Rightarrow> bool" where
  "frame s r \<longleftrightarrow> (case r of Inl e \<Rightarrow> e \<noteq> DivByZero | Inr s' \<Rightarrow> same_tx s s')"

lemma frame_simps [simp]: "frame s (Inl e) \<longleftrightarrow> e \<noteq> DivByZero" "frame s (Inr s') \<longleftrightarrow> same_tx s s'"
  by (simp_all add: frame_def)

lemma frame_trans: "same_tx s t \<Longrightarrow> frame t r \<Longrightarrow> frame s r"
  by (cases r) (auto intro: same_tx_trans)

lemma deref_not_div: "deref s p \<noteq> Inl DivByZero"
  by (auto simp: deref_def split: option.splits)

lemma frame_destroy: "frame s (destroyPacketContainer p s)"
  by (auto simp: destroyPacketContainer_def deref_def same_tx_def split: option.splits)

lemma removeOldestPacket_frame:
  "frame s (res_map snd (removeOldestPacket s))"
  by (auto simp: removeOldestPacket_def destroyPacketContainer_def deref_def same_tx_def split: option.splits)

lemma rtx_expire_frame:
  assumes "rtx_expire now p s = Some r" shows "frame s r"
proof (rule rtx_expire.raw_induct [where P = "\<lambda>_ _ s r. frame s r", OF _ assms], goal_cases)
  case (1 f now p s r)
  then show ?case
    using removeOldestPacket_frame [of s] deref_not_div [of s p]
    by (auto split: option.splits sum.splits prod.splits if_splits intro: frame_trans)
qed

lemma rtx_shrink_frame:
  assumes "rtx_shrink len s = Some r" shows "frame s r"
proof (rule rtx_shrink.raw_induct [where P = "\<lambda>_ s r. frame s r", OF _ assms], goal_cases)
  case (1 f len s r)
  then show ?case
    using removeOldestPacket_frame [of s]
    by (auto split: sum.splits prod.splits if_splits intro: frame_trans)
qed

lemma rtx_append_frame: "frame s (rtx_append now a s)"
  by (auto simp: rtx_append_def set_next_def deref_def same_tx_def Let_def split: option.splits)

lemma addPacketRTXqueue_frame: "addPacketRTXqueue now now2 a s = Some r \<Longrightarrow> frame s r"
  using deref_not_div [of s "Some a"]
  by (fastforce simp: addPacketRTXqueue_def split: option.splits sum.splits
      dest: rtx_expire_frame rtx_shrink_frame intro: frame_trans rtx_append_frame)

lemma outputRateControl_frame:
  assumes "outputRateControl env len s = (r, s')"
  shows "tx_head s' = tx_head s" "planned s' = planned s" "drain_rate s' = drain_rate s" "wire s' = wire s"
    "heap s' = heap s" "bucket_size s' = bucket_size s"
    and "r \<noteq> OK \<Longrightarrow> 0 < drain_rate s'"
  using assms by (auto simp: outputRateControl_def gettimeofday_def Let_def split: if_splits)

lemma sendPacket_frame:
  assumes "sendPacket env sock v addr s = (r, v1, s')"
  shows "tx_head s' = tx_head s" "planned s' = planned s" "drain_rate s' = drain_rate s"
    "bucket_size s' = bucket_size s"
  using assms
  by (auto simp: sendPacket_def sendPacketFinal_def Let_def split: option.splits errno.splits prod.splits)

lemma add_rtx_frame:
  assumes "add_rtx env a s = Some r"
  shows "r \<noteq> Inl DivByZero"
    and "r = Inr s' \<Longrightarrow> tx_head s' = tx_head s \<and> planned s' = planned s \<and> drain_rate s' = drain_rate s"
proof -
  have "frame (s\<lparr> ticks := Suc (Suc (ticks s)) \<rparr>) r"
    using assms by (auto simp: add_rtx_def gettimeofday_def dest: addPacketRTXqueue_frame)
  then show "r \<noteq> Inl DivByZero"
    and "r = Inr s' \<Longrightarrow> tx_head s' = tx_head s \<and> planned s' = planned s \<and> drain_rate s' = drain_rate s"
    by (auto dest: same_tx_rate)
qed

lemma destroy_frame:
  "destroyPacketContainer p s \<noteq> Inl DivByZero"
  "destroyPacketContainer p s = Inr s' \<Longrightarrow>
     tx_head s' = tx_head s \<and> planned s' = planned s \<and> drain_rate s' = drain_rate s"
  using frame_destroy [of s p] by (auto dest: same_tx_rate)

lemma addPacketTXqueue_frame:
  "addPacketTXqueue a s \<noteq> Inl DivByZero"
  "addPacketTXqueue a s = Inr (r, s') \<Longrightarrow> planned (s' :: 'a rate_scheme) = planned s"
  by (auto simp: addPacketTXqueue_def destroyPacketContainer_def deref_def set_next_def Let_def
      split: option.splits if_splits)

lemma createPacketContainer_frame:
  assumes "createPacketContainer sock v iovl addr prior s = (a, s')"
  shows "tx_head s' = tx_head s" "planned (s' :: 'a rate_scheme) = planned s" "drain_rate s' = drain_rate s"
  using assms by (auto simp: createPacketContainer_def Let_def)

lemma plan_frame:
  "drain_rate s \<noteq> 0 \<Longrightarrow> \<exists>s'. planFreeSpaceInBucketEvent n s = Inr s' \<and> planned s' \<noteq> []
     \<and> tx_head s' = tx_head s"
  by (simp add: planFreeSpaceInBucketEvent_def Let_def)

text \<open>An event is pending whenever a packet waits.\<close>

definition awake :: "'a rate_scheme \<Rightarrow> bool" where
  "awake s \<longleftrightarrow> isQueueEmpty s \<or> planned s \<noteq> []"

lemma queueOrSendPacket_awake:
  fixes s s' :: "'a rate_scheme"
  assumes "queueOrSendPacket env sock v iovl addr prior s = Some r" "awake s"
  shows "r \<noteq> Inl DivByZero" "r = Inr (c, s') \<Longrightarrow> awake s'"
proof -
  obtain a s1 where c: "createPacketContainer sock v iovl addr prior s = (a, s1)" by fastforce
  obtain ro s2 where o: "outputRateControl env (iov_len v) s1 = (ro, s2)" by fastforce
  define send_now where "send_now = (\<lambda>s2 :: 'a rate_scheme.
      case (if prior AND NO_RTX = 0 then add_rtx env a s2 else Some (destroyPacketContainer (Some a) s2)) of
        None \<Rightarrow> None | Some (Inl e) \<Rightarrow> Some (Inl e)
      | Some (Inr s4) \<Rightarrow> (let (r, v1, s5) = sendPacket env sock v addr s4 in Some (Inr (r, s5))))"
  have sn: "r' \<noteq> Inl DivByZero \<and> (r' = Inr (c', s'') \<longrightarrow> tx_head s'' = tx_head t \<and> planned s'' = planned t)"
    if "send_now t = Some r'" for t r' c' s''
    using that add_rtx_frame [of env a t] destroy_frame [of "Some a" t] sendPacket_frame [of env sock v addr]
    by (fastforce simp: send_now_def split: option.splits sum.splits prod.splits if_splits)
  have q: "Some r = (if prior AND HP = 0 then
           (if \<not> isQueueEmpty s1 then Some (addPacketTXqueue a s1)
            else if ro \<noteq> OK then Some (res_bind (planFreeSpaceInBucketEvent (iov_len v) s2) (addPacketTXqueue a))
            else send_now s2)
         else send_now s1)"
    using assms(1) unfolding queueOrSendPacket_def c o Let_def prod.case send_now_def by simp
  note cf = createPacketContainer_frame [OF c] and og = outputRateControl_frame [OF o]
  have aw1: "awake s1" using assms(2) cf by (simp add: awake_def isQueueEmpty_def)
  have wait: "r \<noteq> Inl DivByZero \<and> (r = Inr (c, s') \<longrightarrow> awake s')"
    if "ro \<noteq> OK" "Some r = Some (res_bind (planFreeSpaceInBucketEvent (iov_len v) s2) (addPacketTXqueue a))"
  proof -
    from og(7) [OF that(1)] obtain s3 where "planFreeSpaceInBucketEvent (iov_len v) s2 = Inr s3" "planned s3 \<noteq> []"
      using plan_frame [of s2 "iov_len v"] by auto
    with that(2) addPacketTXqueue_frame [of a s3] show ?thesis by (auto simp: awake_def)
  qed
  have "r \<noteq> Inl DivByZero \<and> (r = Inr (c, s') \<longrightarrow> awake s')"
    using q wait sn [of s1 r c s'] sn [of s2 r c s'] aw1 og(1,2) addPacketTXqueue_frame [of a s1]
    by (auto simp: awake_def isQueueEmpty_def split: if_splits)
  then show "r \<noteq> Inl DivByZero" "r = Inr (c, s') \<Longrightarrow> awake s'" by auto
qed

lemma getFirstPacketSize_not_div: "getFirstPacketSize s \<noteq> Inl DivByZero"
  by (auto simp: getFirstPacketSize_def deref_def split: option.splits)

lemma takePacketToSend_frame:
  "takePacketToSend s \<noteq> Inl DivByZero"
  "takePacketToSend s = Inr (p, s1) \<Longrightarrow> drain_rate (s1 :: 'a rate_scheme) = drain_rate s"
  by (auto simp: takePacketToSend_def deref_def set_next_def Let_def split: option.splits if_splits)

lemma send_first_frame:
  shows "send_first env s \<noteq> Some (Inl DivByZero)"
    and "send_first env s = Some (Inr s') \<Longrightarrow> drain_rate s' = drain_rate s"
proof -
  have "r \<noteq> Inl DivByZero \<and> (r = Inr s' \<longrightarrow> drain_rate s' = drain_rate s)" if "send_first env s = Some r" for r
  proof (cases "takePacketToSend s")
    case (Inl e)
    with that takePacketToSend_frame(1) [of s] show ?thesis by (auto simp: send_first_def)
  next
    case (Inr x)
    obtain p s1 where p: "takePacketToSend s = Inr (p, s1)" using Inr by (cases x) auto
    note tk = takePacketToSend_frame(2) [OF p]
    show ?thesis
    proof (cases p)
      case None
      with that p tk show ?thesis by (auto simp: send_first_def)
    next
      case (Some a)
      show ?thesis
      proof (cases "deref s1 (Some a)")
        case (Inl e)
        with that p Some deref_not_div [of s1 "Some a"] show ?thesis by (auto simp: send_first_def)
      next
        case (Inr k)
        let ?s3 = "s1\<lparr> ticks := ticks s1 + 1, bib_then := clock env (ticks s1) \<rparr>"
        obtain c v1 s4 where sp: "sendPacket env (udpSocket k) (iov k) (socketaddr k) ?s3 = (c, v1, s4)"
          using prod_cases3 by blast
        let ?s5 = "s4\<lparr> heap := (heap s4)(a \<mapsto> k\<lparr> iov := v1 \<rparr>) \<rparr>"
        have "(if priority k AND NO_RTX = 0 then add_rtx env a ?s5
            else Some (destroyPacketContainer (Some a) ?s5)) = Some r"
          using that p Some Inr sp by (simp add: send_first_def gettimeofday_def Let_def)
        then show ?thesis
          using sendPacket_frame(3) [OF sp] tk add_rtx_frame [of env a ?s5 r] destroy_frame [of "Some a" ?s5]
          by (auto split: if_splits)
      qed
    qed
  qed
  then show "send_first env s \<noteq> Some (Inl DivByZero)"
    and "send_first env s = Some (Inr s') \<Longrightarrow> drain_rate s' = drain_rate s" by auto
qed

lemma free_space_loop_frame:
  assumes "free_space_loop env s = Some r"
  shows "r \<noteq> Inl DivByZero \<and> (\<forall>s'. r = Inr s' \<longrightarrow> isQueueEmpty s' \<or> 0 < drain_rate s')"
proof (rule free_space_loop.raw_induct [where P = "\<lambda>env s r. r \<noteq> Inl DivByZero
    \<and> (\<forall>s'. r = Inr s' \<longrightarrow> isQueueEmpty s' \<or> 0 < drain_rate s')", OF _ assms], goal_cases)
  case (1 f env s r)
  then show ?case
    using getFirstPacketSize_not_div [of s] outputRateControl_frame(7) [of env _ s] send_first_frame(1) [of env]
    by (auto split: sum.splits prod.splits option.splits if_splits)
qed

lemma fire_free_space_awake:
  assumes "fire_free_space env s = Some r"
  shows "r \<noteq> Inl DivByZero" "r = Inr s' \<Longrightarrow> awake s'"
proof -
  obtain r1 where r1: "free_space_loop env (s\<lparr> planned := tl (planned s) \<rparr>) = Some r1"
    using assms by (auto simp: fire_free_space_def freeSpaceInBucket_cb_def split: option.splits)
  note fr = free_space_loop_frame [OF r1]
  have "r \<noteq> Inl DivByZero \<and> (r = Inr s' \<longrightarrow> awake s')"
  proof (cases r1)
    case (Inl e)
    with assms r1 fr show ?thesis by (auto simp: fire_free_space_def freeSpaceInBucket_cb_def)
  next
    case (Inr s1)
    have e: "Some r = (if \<not> isQueueEmpty s1
        then Some (res_bind (getFirstPacketSize s1) (\<lambda>n. planFreeSpaceInBucketEvent n s1)) else Some (Inr s1))"
      using assms r1 Inr unfolding fire_free_space_def freeSpaceInBucket_cb_def by simp
    show ?thesis
    proof (cases "isQueueEmpty s1")
      case True
      with e show ?thesis by (auto simp: awake_def)
    next
      case False
      then have d: "drain_rate s1 \<noteq> 0" using fr Inr by auto
      show ?thesis
      proof (cases "getFirstPacketSize s1")
        case (Inl e')
        with e False getFirstPacketSize_not_div [of s1] show ?thesis by auto
      next
        case (Inr n)
        obtain s2 where "planFreeSpaceInBucketEvent n s1 = Inr s2" "planned s2 \<noteq> []"
          using plan_frame [OF d] by blast
        with e False Inr show ?thesis by (auto simp: awake_def)
      qed
    qed
  qed
  then show "r \<noteq> Inl DivByZero" "r = Inr s' \<Longrightarrow> awake s'" by auto
qed

text \<open>
  The states the transmit path reaches: packets are submitted, the parameters are changed, and the
  event loop fires a pending event.
\<close>

inductive tx_reach :: "'e env_scheme \<Rightarrow> 'a rate_scheme \<Rightarrow> 'a rate_scheme \<Rightarrow> bool" for env s0 where
  start: "tx_reach env s0 s0"
| submit: "tx_reach env s0 s \<Longrightarrow> queueOrSendPacket env sock v iovl addr prior s = Some (Inr (r, s'))
    \<Longrightarrow> tx_reach env s0 s'"
| fire: "tx_reach env s0 s \<Longrightarrow> planned s \<noteq> [] \<Longrightarrow> fire_free_space env s = Some (Inr s') \<Longrightarrow> tx_reach env s0 s'"
| rate_params: "tx_reach env s0 s \<Longrightarrow> tx_reach env s0 (setOutputRateParams env bucketsize drainrate s)"
| queue_params: "tx_reach env s0 s \<Longrightarrow> tx_reach env s0 (setQueuesParams TXsize RTXsize maxTTHold s)"

lemma setOutputRateParams_awake:
  assumes "awake s" shows "awake (setOutputRateParams env b d s)"
proof -
  obtain r s1 where o: "outputRateControl env 0 (s\<lparr> bucket_size := b \<rparr>) = (r, s1)" by fastforce
  have "tx_head s1 = tx_head s" "planned s1 = planned s"
    using outputRateControl_frame(1,2) [OF o] by simp_all
  with assms show ?thesis by (simp add: setOutputRateParams_def o awake_def isQueueEmpty_def)
qed

lemma tx_reach_awake: "tx_reach env s0 s \<Longrightarrow> awake s0 \<Longrightarrow> awake s"
proof (induction rule: tx_reach.induct)
  case (submit s sock v iovl addr prior r s')
  then show ?case using queueOrSendPacket_awake(2) by blast
next
  case (fire s s')
  then show ?case using fire_free_space_awake(2) by blast
next
  case (queue_params s TXsize RTXsize maxTTHold)
  then show ?case by (simp add: setQueuesParams_def awake_def isQueueEmpty_def)
qed (simp_all add: setOutputRateParams_awake)

text \<open>C13: No lost wakeup, and no division by zero: in every state the transmit path reaches from an
  empty queue, whatever rate parameters are set on the way, a waiting packet has a free-space event
  planned that will look at the queue again, and no submission and no event divides by a zero
  drain rate when it computes a delay.\<close>

theorem transmit_path_no_lost_wakeup:
  assumes "tx_reach env s0 s" "isQueueEmpty s0"
  shows "(isQueueEmpty s \<or> planned s \<noteq> [])
    \<and> queueOrSendPacket env sock v iovl addr prior s \<noteq> Some (Inl DivByZero)
    \<and> fire_free_space env s \<noteq> Some (Inl DivByZero)"
proof -
  have "awake s" using tx_reach_awake [OF assms(1)] assms(2) by (simp add: awake_def)
  with queueOrSendPacket_awake(1) [of env sock v iovl addr prior s] fire_free_space_awake(1) [of env s]
  show ?thesis by (auto simp: awake_def)
qed

lemma transmit_path_no_lost_wakeup_witness:
  "queueOrSendPacket env0 3 [[], [1], [2], []] 4 zero_sockaddr NO_RTX
     (setOutputRateParams env0 10 0 bucket0) \<noteq> Some (Inl DivByZero)"
  using transmit_path_no_lost_wakeup [OF tx_reach.rate_params [OF tx_reach.start], of bucket0 env0 10 0
      3 "[[], [1], [2], []]" 4 zero_sockaddr NO_RTX]
  by (simp add: isQueueEmpty_def)

text \<open>C39: A packet longer than the bucket waits for ever: while the rate is limited, no event, at
  whatever time it fires, takes an oversized packet off the head of the transmit queue; every event
  only plans the next one, and everything behind that packet waits too.\<close>

theorem oversized_head_blocks:
  assumes "tx_head s = Some a" "heap s a = Some k" "bucket_size s < pktLen k" "0 < drain_rate s"
    and "rate_ok s" "clock_ok env s"
  shows "\<exists>s'. fire_free_space env s = Some (Inr s') \<and> tx_head s' = tx_head s \<and> heap s' = heap s
    \<and> wire s' = wire s \<and> planned s' \<noteq> []"
proof -
  let ?s = "s\<lparr> planned := tl (planned s) \<rparr>"
  obtain r s1 where o: "outputRateControl env (pktLen k) ?s = (r, s1)" by fastforce
  define b where "b = drained_level (drain_rate ?s) (bytes_in_bucket ?s) (bib_then ?s) (clock env (ticks ?s))"
  have "0 \<le> b"
    using assms(5) by (simp add: b_def drained_level_def rate_ok_def)
  then have r: "r = THROTTLE"
    using o outputRateControl_drained [of ?s b env "pktLen k"] assms(3,4) by (simp add: b_def)
  note f = outputRateControl_frame [OF o]
  have first: "getFirstPacketSize ?s = Inr (pktLen k)" "\<not> isQueueEmpty ?s"
    using assms(1,2) by (simp_all add: getFirstPacketSize_def deref_def isQueueEmpty_def)
  then have "free_space_loop env ?s = Some (Inr s1)"
    using o r by (subst free_space_loop.simps) simp
  moreover have "getFirstPacketSize s1 = Inr (pktLen k)" "\<not> isQueueEmpty s1"
    using assms(1,2) f(1,5) by (simp_all add: getFirstPacketSize_def deref_def isQueueEmpty_def)
  ultimately show ?thesis
    using assms(4) f(1-5)
    by (simp add: fire_free_space_def freeSpaceInBucket_cb_def planFreeSpaceInBucketEvent_def Let_def)
qed

lemma oversized_head_blocks_witness:
  "\<exists>s'. fire_free_space env0 (bucket0\<lparr> bucket_size := 1, tx_head := Some 0,
        heap := [0 \<mapsto> \<lparr> udpSocket = 3, iov = [[], [1], [2], [3]], iovlen = 4, socketaddr = zero_sockaddr, pktLen = 3,
         timeStamp = \<lparr> tv_sec = 0, tv_usec = 0 \<rparr>, nxt = None, priority = 0 \<rparr>] \<rparr>) = Some (Inr s') \<and> tx_head s' = Some 0"
  using oversized_head_blocks [of "bucket0\<lparr> bucket_size := 1, tx_head := Some 0,
        heap := [0 \<mapsto> \<lparr> udpSocket = 3, iov = [[], [1], [2], [3]], iovlen = 4, socketaddr = zero_sockaddr, pktLen = 3,
         timeStamp = \<lparr> tv_sec = 0, tv_usec = 0 \<rparr>, nxt = None, priority = 0 \<rparr>] \<rparr>" 0 _ env0] bucket0_ok
  by (auto simp: rate_ok_def clock_ok_def)

section \<open>Memory safety and termination of the transmit path\<close>

text \<open>
  \<open>tx_safe\<close>: the queues are well-formed linked lists and every waiting packet fits the retransmit
  queue, into which it will go when it is sent.
\<close>

definition tx_safe :: "'a queues_scheme \<Rightarrow> bool" where
  "tx_safe s \<longleftrightarrow> (\<exists>xs ys. queues_inv s xs ys \<and> (\<forall>a \<in> set xs. len_at (heap s) a \<le> RTXmaxSize s))"

lemma queues_inv_rate [simp]:
  "queues_inv (s\<lparr> ticks := n \<rparr>) xs ys = queues_inv s xs ys"
  "queues_inv (s\<lparr> bytes_in_bucket := i \<rparr>) xs ys = queues_inv s xs ys"
  "queues_inv (s\<lparr> bib_then := t \<rparr>) xs ys = queues_inv s xs ys"
  "queues_inv (s\<lparr> wire := w \<rparr>) xs ys = queues_inv s xs ys"
  "queues_inv (s\<lparr> planned := p \<rparr>) xs ys = queues_inv s xs ys"
  by (simp_all add: queues_inv_def)

definition same_queues :: "'a queues_scheme \<Rightarrow> 'a queues_scheme \<Rightarrow> bool" where
  "same_queues s s' \<longleftrightarrow> queues.truncate s' = queues.truncate s"

lemma same_queues_inv: "same_queues s s' \<Longrightarrow> queues_inv s' xs ys = queues_inv s xs ys"
  and same_queues_heap: "same_queues s s' \<Longrightarrow> heap s' = heap s \<and> RTXmaxSize s' = RTXmaxSize s \<and> tx_head s' = tx_head s"
  by (simp_all add: same_queues_def queues.defs queues_inv_def)

lemma outputRateControl_queues: "outputRateControl env len s = (r, s') \<Longrightarrow> same_queues s s'"
  by (auto simp: outputRateControl_def gettimeofday_def Let_def same_queues_def queues.defs split: if_splits)

lemma sendPacket_queues:
  "sendPacket env sock v addr s = (r, v1, s') \<Longrightarrow> same_queues s s' \<and> map length v1 = map length v"
  by (auto simp: sendPacket_def sendPacketFinal_def Let_def same_queues_def queues.defs fill_pkt_header_lengths
      split: option.splits errno.splits prod.splits)

lemma plan_queues: "planFreeSpaceInBucketEvent n s = Inr s' \<Longrightarrow> same_queues s s'"
  by (auto simp: planFreeSpaceInBucketEvent_def Let_def same_queues_def queues.defs split: if_splits)

lemma add_rtx_safe:
  assumes "queues_inv s xs ys" "heap s a = Some k" "a \<notin> set xs" "a \<notin> set ys" "pktLen k \<le> RTXmaxSize s"
  shows "\<exists>s' ys'. add_rtx env a s = Some (Inr s') \<and> queues_inv s' xs ys'
    \<and> (\<forall>b \<in> set xs. heap s' b = heap s b) \<and> RTXmaxSize s' = RTXmaxSize s"
  using addPacketRTXqueue_inv [of "s\<lparr> ticks := Suc (Suc (ticks s)) \<rparr>" xs ys a k] assms
  by (fastforce simp: add_rtx_def gettimeofday_def)

text \<open>A container outside both queues may be freed or changed.\<close>

lemma queues_inv_free:
  "queues_inv s xs ys \<Longrightarrow> a \<notin> set xs \<Longrightarrow> a \<notin> set ys \<Longrightarrow> queues_inv (s\<lparr> heap := (heap s)(a := None) \<rparr>) xs ys"
  by (auto simp: queues_inv_def)

lemma iov_len_lengths: "map length v1 = map length v \<Longrightarrow> length v = 4 \<Longrightarrow> iov_len v1 = iov_len v"
proof -
  assume m: "map length v1 = map length v" and l: "length v = 4"
  have "length (v1 ! i) = length (v ! i)" if "i < 4" for i
    using arg_cong [OF m, of "\<lambda>l. l ! i"] that l map_eq_imp_length_eq [OF m] by simp
  then show ?thesis by (simp add: iov_len_def)
qed

lemma queues_inv_iov:
  assumes "queues_inv s xs ys" "a \<notin> set xs" "a \<notin> set ys" "heap s a = Some k" "map length v = map length (iov k)"
  shows "queues_inv (s\<lparr> heap := (heap s)(a \<mapsto> k\<lparr> iov := v \<rparr>) \<rparr>) xs ys"
proof -
  have "packet_ok k" using assms(1,4) by (auto simp: queues_inv_def)
  then have "packet_ok (k\<lparr> iov := v \<rparr>)"
    using iov_len_lengths [OF assms(5)] map_eq_imp_length_eq [OF assms(5)] by (simp add: packet_ok_def)
  then show ?thesis using assms(1-4) by (auto simp: queues_inv_def)
qed

lemma send_now_safe:
  assumes "queues_inv s xs ys" "heap s a = Some k" "a \<notin> set xs" "a \<notin> set ys" "pktLen k \<le> RTXmaxSize s"
  shows "\<exists>s' ys'. (if prior AND NO_RTX = 0 then add_rtx env a s else Some (destroyPacketContainer (Some a) s))
      = Some (Inr s') \<and> queues_inv s' xs ys' \<and> (\<forall>b \<in> set xs. heap s' b = heap s b) \<and> RTXmaxSize s' = RTXmaxSize s"
proof (cases "prior AND NO_RTX = 0")
  case True
  with add_rtx_safe [OF assms] show ?thesis by simp
next
  case False
  have "destroyPacketContainer (Some a) s = Inr (s\<lparr> heap := (heap s)(a := None) \<rparr>)"
    using assms(2) by (simp add: destroyPacketContainer_def deref_def)
  moreover have "\<forall>b \<in> set xs. ((heap s)(a := None)) b = heap s b" using assms(3) by auto
  ultimately show ?thesis
    using False queues_inv_free [OF assms(1,3,4)]
    by (intro exI [of _ "s\<lparr> heap := (heap s)(a := None) \<rparr>"] exI [of _ ys]) simp
qed

lemma tx_safeI: "queues_inv s xs ys \<Longrightarrow> \<forall>a \<in> set xs. len_at (heap s) a \<le> RTXmaxSize s \<Longrightarrow> tx_safe s"
  by (auto simp: tx_safe_def)

lemma tx_safe_same: "same_queues s s' \<Longrightarrow> tx_safe s' = tx_safe s"
  by (simp add: tx_safe_def same_queues_inv same_queues_heap)

lemma len_at_cong: "\<forall>b \<in> set xs. h' b = h b \<Longrightarrow> b \<in> set xs \<Longrightarrow> len_at h' b = len_at h b"
  by (simp add: len_at_def)

lemma enqueue_safe:
  assumes "queues_inv s xs ys" "\<forall>b \<in> set xs. len_at (heap s) b \<le> RTXmaxSize s"
    and "heap s a = Some k" "nxt k = None" "a \<notin> set xs" "a \<notin> set ys" "pktLen k \<le> RTXmaxSize s"
  shows "\<exists>r s'. addPacketTXqueue a s = Inr (r, s') \<and> tx_safe s' \<and> RTXmaxSize s' = RTXmaxSize s"
proof (cases "tx_size s + pktLen k \<le> TXmaxSize s")
  case True
  then obtain s' where s': "addPacketTXqueue a s = Inr (OK, s')" "queues_inv s' (xs @ [a]) ys"
    "\<forall>b k'. heap s b = Some k' \<longrightarrow> (\<exists>q. heap s' b = Some (k'\<lparr> nxt := q \<rparr>))"
    using addPacketTXqueue_inv [OF assms(1,3-6)] by blast
  have R: "RTXmaxSize s' = RTXmaxSize s"
    using s'(1) by (auto simp: addPacketTXqueue_def destroyPacketContainer_def deref_def set_next_def Let_def
        split: option.splits if_splits)
  have "len_at (heap s') b \<le> RTXmaxSize s'" if b: "b \<in> set (xs @ [a])" for b
  proof -
    have "heap s b \<noteq> None"
      using b assms(1,3) chain_alloc [of "heap s" "tx_head s" xs b] by (auto simp: queues_inv_def)
    then obtain k' where kb: "heap s b = Some k'" by blast
    have "len_at (heap s) b \<le> RTXmaxSize s" using b assms(2,3,7) by (auto simp: len_at_def)
    then have k': "heap s b = Some k'" "pktLen k' \<le> RTXmaxSize s" using kb by (simp_all add: len_at_def)
    with s'(3) R show ?thesis by (fastforce simp: len_at_def)
  qed
  with s'(1,2) R show ?thesis by (blast intro: tx_safeI)
next
  case False
  then have "addPacketTXqueue a s = Inr (THROTTLE, s\<lparr> heap := (heap s)(a := None) \<rparr>)"
    using assms(3) by (simp add: addPacketTXqueue_def destroyPacketContainer_def deref_def)
  moreover have "tx_safe (s\<lparr> heap := (heap s)(a := None) \<rparr>)"
    by (rule tx_safeI [OF queues_inv_free [OF assms(1,5,6)]]) (use assms(2,5) in \<open>auto simp: len_at_def\<close>)
  ultimately show ?thesis by simp
qed

lemma queueOrSendPacket_safe:
  assumes safe: "tx_safe s" and v: "length v = 4" "iov_len v \<le> RTXmaxSize s" and aw: "awake s"
  shows "\<exists>r s'. queueOrSendPacket env sock v 4 addr prior s = Some (Inr (r, s')) \<and> tx_safe s'
    \<and> RTXmaxSize s' = RTXmaxSize s"
proof -
  obtain xs ys where inv: "queues_inv s xs ys" "\<forall>a \<in> set xs. len_at (heap s) a \<le> RTXmaxSize s"
    using safe by (auto simp: tx_safe_def)
  obtain a s1 where c: "createPacketContainer sock v 4 addr prior s = (a, s1)" by fastforce
  note new = createPacketContainer_inv [OF inv(1) v(1) c]
  obtain k where k: "heap s1 = (heap s)(a \<mapsto> k)" "nxt k = None" "pktLen k = iov_len v" using new(4) by blast
  have R1: "RTXmaxSize s1 = RTXmaxSize s" using c by (auto simp: createPacketContainer_def Let_def)
  have lens: "\<forall>b \<in> set xs. len_at (heap s1) b \<le> RTXmaxSize s1"
    using inv(2) new(2) k(1) R1 by (auto simp: len_at_def)
  have pk: "heap s1 a = Some k" "pktLen k \<le> RTXmaxSize s1" using k v(2) R1 by auto
  obtain ro s2 where o: "outputRateControl env (iov_len v) s1 = (ro, s2)" by fastforce
  have sq: "same_queues s1 s2" by (rule outputRateControl_queues [OF o])
  have enq: "\<exists>r s'. addPacketTXqueue a t = Inr (r, s') \<and> tx_safe s' \<and> RTXmaxSize s' = RTXmaxSize s"
    if "same_queues s1 t" for t :: "'a rate_scheme"
    using enqueue_safe [of t xs ys a k] new(1-3) lens k(2) pk R1 same_queues_inv [OF that] same_queues_heap [OF that]
    by auto
  define send_now where "send_now = (\<lambda>s2 :: 'a rate_scheme.
      case (if prior AND NO_RTX = 0 then add_rtx env a s2 else Some (destroyPacketContainer (Some a) s2)) of
        None \<Rightarrow> None | Some (Inl e) \<Rightarrow> Some (Inl e)
      | Some (Inr s4) \<Rightarrow> (let (r, v1, s5) = sendPacket env sock v addr s4 in Some (Inr (r, s5))))"
  have sn: "\<exists>r s'. send_now t = Some (Inr (r, s')) \<and> tx_safe s' \<and> RTXmaxSize s' = RTXmaxSize s"
    if "same_queues s1 t" for t
  proof -
    have t: "queues_inv t xs ys" "heap t a = Some k" "pktLen k \<le> RTXmaxSize t" "RTXmaxSize t = RTXmaxSize s"
      "heap t = heap s1"
      using new(1) pk same_queues_inv [OF that] same_queues_heap [OF that] R1 by auto
    obtain s4 ys' where s4: "(if prior AND NO_RTX = 0 then add_rtx env a t
        else Some (destroyPacketContainer (Some a) t)) = Some (Inr s4)" "queues_inv s4 xs ys'"
      "\<forall>b \<in> set xs. heap s4 b = heap t b" "RTXmaxSize s4 = RTXmaxSize t"
      using send_now_safe [OF t(1,2) new(2,3) t(3)] by blast
    obtain r v1 s5 where s5: "sendPacket env sock v addr s4 = (r, v1, s5)" using prod_cases3 by blast
    have "tx_safe s4"
      by (rule tx_safeI [OF s4(2)]) (use s4(3,4) t(4,5) lens R1 in \<open>auto simp: len_at_def\<close>)
    then have "tx_safe s5" "RTXmaxSize s5 = RTXmaxSize s4"
      using sendPacket_queues [OF s5] tx_safe_same same_queues_heap by blast+
    with s4 s5 t(4) show ?thesis by (simp add: send_now_def)
  qed
  have q: "queueOrSendPacket env sock v 4 addr prior s = (if prior AND HP = 0 then
           (if \<not> isQueueEmpty s1 then Some (addPacketTXqueue a s1)
            else if ro \<noteq> OK then Some (res_bind (planFreeSpaceInBucketEvent (iov_len v) s2) (addPacketTXqueue a))
            else send_now s2)
         else send_now s1)"
    unfolding queueOrSendPacket_def c o Let_def prod.case send_now_def by simp
  have wait: "\<exists>r s'. res_bind (planFreeSpaceInBucketEvent (iov_len v) s2) (addPacketTXqueue a) = Inr (r, s')
      \<and> tx_safe s' \<and> RTXmaxSize s' = RTXmaxSize s" if "ro \<noteq> OK"
  proof -
    from outputRateControl_frame(7) [OF o that] obtain s3 where s3: "planFreeSpaceInBucketEvent (iov_len v) s2 = Inr s3"
      using plan_frame [of s2 "iov_len v"] by auto
    have "same_queues s1 s3" using sq plan_queues [OF s3] by (simp add: same_queues_def)
    from enq [OF this] s3 show ?thesis by simp
  qed
  have "same_queues s1 s1" by (simp add: same_queues_def)
  then show ?thesis using q wait sn [of s1] sn [OF sq] enq [of s1] by (auto split: if_splits)
qed

lemma send_first_safe:
  assumes "queues_inv s (a # xs) ys" "\<forall>b \<in> set (a # xs). len_at (heap s) b \<le> RTXmaxSize s"
  shows "\<exists>s' ys'. send_first env s = Some (Inr s') \<and> queues_inv s' xs ys'
    \<and> (\<forall>b \<in> set xs. len_at (heap s') b \<le> RTXmaxSize s') \<and> RTXmaxSize s' = RTXmaxSize s"
proof -
  obtain s1 k where s1: "takePacketToSend s = Inr (Some a, s1)" "queues_inv s1 xs ys" "heap s a = Some k"
    "heap s1 = (heap s)(a \<mapsto> k\<lparr> nxt := None \<rparr>)"
    using takePacketToSend_inv [OF assms(1)] by blast
  have R: "RTXmaxSize s1 = RTXmaxSize s"
    using s1(1,3) by (auto simp: takePacketToSend_def deref_def set_next_def Let_def split: option.splits if_splits)
  have out: "a \<notin> set xs" "a \<notin> set ys" using assms(1) by (auto simp: queues_inv_def)
  let ?k = "k\<lparr> nxt := None \<rparr>"
  let ?s3 = "s1\<lparr> ticks := ticks s1 + 1, bib_then := clock env (ticks s1) \<rparr>"
  obtain c v1 s4 where s4: "sendPacket env (udpSocket ?k) (iov ?k) (socketaddr ?k) ?s3 = (c, v1, s4)"
    using prod_cases3 by blast
  have sq: "same_queues s1 s4" "map length v1 = map length (iov ?k)"
    using sendPacket_queues [OF s4] by (simp_all add: same_queues_def queues.defs)
  have q4: "queues_inv s4 xs ys" "heap s4 a = Some ?k" "RTXmaxSize s4 = RTXmaxSize s" "heap s4 = heap s1"
    using s1(2,4) sq(1) R same_queues_inv same_queues_heap by fastforce+
  let ?s5 = "s4\<lparr> heap := (heap s4)(a \<mapsto> ?k\<lparr> iov := v1 \<rparr>) \<rparr>"
  have q5: "queues_inv ?s5 xs ys" by (rule queues_inv_iov [OF q4(1) out q4(2) sq(2)])
  have "pktLen (?k\<lparr> iov := v1 \<rparr>) \<le> RTXmaxSize ?s5"
    using assms(2) s1(3) q4(3) by (simp add: len_at_def)
  from send_now_safe [OF q5 _ out this, where prior = "priority k" and env = env]
  obtain s' ys' where s': "(if priority k AND NO_RTX = 0 then add_rtx env a ?s5
      else Some (destroyPacketContainer (Some a) ?s5)) = Some (Inr s')" "queues_inv s' xs ys'"
    "\<forall>b \<in> set xs. heap s' b = heap ?s5 b" "RTXmaxSize s' = RTXmaxSize ?s5" by auto
  have "send_first env s = Some (Inr s')"
    using s1 s4 s'(1) by (simp add: send_first_def gettimeofday_def deref_def Let_def)
  moreover have "\<forall>b \<in> set xs. len_at (heap s') b \<le> RTXmaxSize s'"
    using s'(3,4) q4(3,4) s1(4) assms(2) out(1) by (auto simp: len_at_def)
  ultimately show ?thesis using s'(2,4) q4(3) by auto
qed

lemma free_space_loop_safe:
  assumes "queues_inv s xs ys" "\<forall>b \<in> set xs. len_at (heap s) b \<le> RTXmaxSize s"
  shows "\<exists>s'. free_space_loop env s = Some (Inr s') \<and> tx_safe s' \<and> RTXmaxSize s' = RTXmaxSize s"
  using assms
proof (induction xs arbitrary: s ys)
  case Nil
  then have "free_space_loop env s = Some (Inr s)"
    by (subst free_space_loop.simps) (simp add: queues_inv_def isQueueEmpty_def)
  with Nil show ?case by (auto intro: tx_safeI)
next
  case (Cons a xs)
  obtain k where k: "heap s a = Some k" "tx_head s = Some a" using Cons.prems(1) by (auto simp: queues_inv_def)
  obtain r s1 where o: "outputRateControl env (pktLen k) s = (r, s1)" by fastforce
  have sq: "same_queues s s1" by (rule outputRateControl_queues [OF o])
  have step: "free_space_loop env s = (if r \<noteq> OK then Some (Inr s1) else
      (case send_first env s1 of None \<Rightarrow> None | Some (Inl e) \<Rightarrow> Some (Inl e) | Some (Inr s2) \<Rightarrow> free_space_loop env s2))"
    using k o by (subst free_space_loop.simps) (simp add: isQueueEmpty_def getFirstPacketSize_def deref_def)
  have q1: "queues_inv s1 (a # xs) ys" "\<forall>b \<in> set (a # xs). len_at (heap s1) b \<le> RTXmaxSize s1"
    "RTXmaxSize s1 = RTXmaxSize s"
    using Cons.prems same_queues_inv [OF sq] same_queues_heap [OF sq] by simp_all
  from send_first_safe [OF q1(1,2), of env] obtain s2 ys' where s2: "send_first env s1 = Some (Inr s2)"
    "queues_inv s2 xs ys'" "\<forall>b \<in> set xs. len_at (heap s2) b \<le> RTXmaxSize s2" "RTXmaxSize s2 = RTXmaxSize s1"
    by blast
  show ?case
  proof (cases "r = OK")
    case True
    with step s2(1) Cons.IH [OF s2(2,3)] s2(4) q1(3) show ?thesis by simp
  next
    case False
    with step tx_safeI [OF q1(1,2)] q1(3) show ?thesis by simp
  qed
qed

lemma fire_free_space_safe:
  assumes "tx_safe s"
  shows "\<exists>s'. fire_free_space env s = Some (Inr s') \<and> tx_safe s' \<and> RTXmaxSize s' = RTXmaxSize s"
proof -
  let ?s = "s\<lparr> planned := tl (planned s) \<rparr>"
  obtain xs ys where inv: "queues_inv ?s xs ys" "\<forall>b \<in> set xs. len_at (heap ?s) b \<le> RTXmaxSize ?s"
    using assms by (auto simp: tx_safe_def)
  from free_space_loop_safe [OF inv, of env] obtain s1 where s1: "free_space_loop env ?s = Some (Inr s1)"
    "tx_safe s1" "RTXmaxSize s1 = RTXmaxSize s" by auto
  note fr = free_space_loop_frame [OF s1(1)]
  show ?thesis
  proof (cases "isQueueEmpty s1")
    case True
    with s1 show ?thesis by (simp add: fire_free_space_def freeSpaceInBucket_cb_def)
  next
    case False
    then have "drain_rate s1 \<noteq> 0" using fr by auto
    obtain xs1 ys1 where inv1: "queues_inv s1 xs1 ys1" using s1(2) by (auto simp: tx_safe_def)
    with False obtain a k where "tx_head s1 = Some a" "heap s1 a = Some k"
      by (cases xs1) (auto simp: queues_inv_def isQueueEmpty_def)
    then have n: "getFirstPacketSize s1 = Inr (pktLen k)" by (simp add: getFirstPacketSize_def deref_def)
    from plan_frame [OF \<open>drain_rate s1 \<noteq> 0\<close>, of "pktLen k"] obtain s2
      where s2: "planFreeSpaceInBucketEvent (pktLen k) s1 = Inr s2" by blast
    have sq: "same_queues s1 s2" by (rule plan_queues [OF s2])
    have "tx_safe s2" "RTXmaxSize s2 = RTXmaxSize s1"
      using tx_safe_same [OF sq] s1(2) same_queues_heap [OF sq] by simp_all
    with s1 False n s2 show ?thesis by (simp add: fire_free_space_def freeSpaceInBucket_cb_def)
  qed
qed

text \<open>The states reached when every packet submitted fits the retransmit queue. Rate and capacities may
  change on the way, but the retransmit queue never becomes smaller.\<close>

inductive tx_run :: "'e env_scheme \<Rightarrow> 'a rate_scheme \<Rightarrow> 'a rate_scheme \<Rightarrow> bool" for env s0 where
  run_start: "tx_run env s0 s0"
| run_submit: "tx_run env s0 s \<Longrightarrow> length v = 4 \<Longrightarrow> iov_len v \<le> RTXmaxSize s
    \<Longrightarrow> queueOrSendPacket env sock v 4 addr prior s = Some (Inr (r, s')) \<Longrightarrow> tx_run env s0 s'"
| run_fire: "tx_run env s0 s \<Longrightarrow> fire_free_space env s = Some (Inr s') \<Longrightarrow> tx_run env s0 s'"
| run_rate_params: "tx_run env s0 s \<Longrightarrow> tx_run env s0 (setOutputRateParams env bucketsize drainrate s)"
| run_queue_params: "tx_run env s0 s \<Longrightarrow> RTXmaxSize s \<le> RTXsize
    \<Longrightarrow> tx_run env s0 (setQueuesParams TXsize RTXsize maxTTHold s)"

lemma setOutputRateParams_queues: "same_queues s (setOutputRateParams env b d s)"
proof -
  obtain r s1 where o: "outputRateControl env 0 (s\<lparr> bucket_size := b \<rparr>) = (r, s1)" by fastforce
  have "same_queues (s\<lparr> bucket_size := b \<rparr>) s1" by (rule outputRateControl_queues [OF o])
  then show ?thesis by (simp add: setOutputRateParams_def o same_queues_def queues.defs)
qed

lemma setQueuesParams_safe:
  assumes "tx_safe s" "RTXmaxSize s \<le> RTXsize" shows "tx_safe (setQueuesParams TXsize RTXsize maxTTHold s)"
proof -
  obtain xs ys where inv: "queues_inv s xs ys" "\<forall>a \<in> set xs. len_at (heap s) a \<le> RTXmaxSize s"
    using assms(1) by (auto simp: tx_safe_def)
  have "queues_inv (setQueuesParams TXsize RTXsize maxTTHold s) xs ys"
    using inv(1) by (simp add: setQueuesParams_def queues_inv_def)
  then show ?thesis
    by (rule tx_safeI) (use inv(2) assms(2) in \<open>auto simp: setQueuesParams_def\<close>)
qed

lemma tx_run_safe: "tx_run env s0 s \<Longrightarrow> tx_safe s0 \<Longrightarrow> awake s0 \<Longrightarrow> tx_safe s \<and> awake s"
proof (induction rule: tx_run.induct)
  case (run_submit s v sock addr prior r s')
  then have "tx_safe s" "awake s" by auto
  with queueOrSendPacket_safe [of s v env sock addr prior] run_submit
    queueOrSendPacket_awake(2) [of env sock v 4 addr prior s "Inr (r, s')" r s']
  show ?case by auto
next
  case (run_fire s s')
  with fire_free_space_safe [of s env] fire_free_space_awake(2) [of env s "Inr s'" s'] show ?case by auto
next
  case (run_rate_params s bucketsize drainrate)
  then show ?case by (simp add: tx_safe_same [OF setOutputRateParams_queues] setOutputRateParams_awake)
next
  case (run_queue_params s RTXsize TXsize maxTTHold)
  then show ?case by (simp add: setQueuesParams_safe) (simp add: setQueuesParams_def awake_def isQueueEmpty_def)
qed simp

text \<open>C12: The transmit path is memory-safe and its calls return for packets that fit the retransmit
  queue. Take any run that starts with well-formed queues and either an empty transmit queue or a planned event,
  and that consists of submissions of packets of at most \<open>RTXmaxSize\<close> bytes, free-space events, changes of the rate
  parameters and changes of the queue parameters that do not make the retransmit queue smaller. In
  the state it reaches the queues are well-formed and every waiting packet fits the retransmit queue; a
  further submission of such a packet and a free-space event return, without dereferencing a NULL or freed
  container, dividing by zero or looping for ever. (For a longer packet \<open>rtx_queue_add\<close> proves an
  endless loop.)\<close>

theorem transmit_path_safe:
  assumes "tx_run env s0 s" "tx_safe s0" "awake s0" "length v = 4" "iov_len v \<le> RTXmaxSize s"
  shows "tx_safe s \<and> (\<exists>r s'. queueOrSendPacket env sock v 4 addr prior s = Some (Inr (r, s')))
    \<and> (\<exists>s'. fire_free_space env s = Some (Inr s'))"
proof -
  from tx_run_safe [OF assms(1-3)] have s: "tx_safe s" "awake s" by auto
  with queueOrSendPacket_safe [OF s(1) assms(4,5) s(2), of env sock addr prior] fire_free_space_safe [OF s(1), of env]
  show ?thesis by auto
qed

lemma transmit_path_safe_witness:
  "\<exists>r s'. queueOrSendPacket env0 3 [[1], [], [], [2,3]] 4 zero_sockaddr 0
      (setQueuesParams 5000 9000001 \<lparr> tv_sec = 1, tv_usec = 0 \<rparr> (setOutputRateParams env0 2 80 bucket0)) = Some (Inr (r, s'))"
proof -
  let ?s1 = "setOutputRateParams env0 2 80 bucket0"
  let ?s2 = "setQueuesParams 5000 9000001 \<lparr> tv_sec = 1, tv_usec = 0 \<rparr> ?s1"
  have "queues_inv bucket0 [] []" by (auto simp: queues_inv_def)
  then have "tx_safe bucket0" by (auto simp: tx_safe_def)
  moreover have "awake bucket0" by (simp add: awake_def isQueueEmpty_def)
  moreover have "RTXmaxSize ?s1 = 9000000"
    using same_queues_heap [OF setOutputRateParams_queues [of bucket0 env0 2 80]] by simp
  then have "tx_run env0 bucket0 ?s2"
    by (intro tx_run.run_queue_params tx_run.run_rate_params tx_run.run_start) simp
  moreover have "iov_len [[1], [], [], [2, 3 :: byte]] \<le> RTXmaxSize ?s2"
    by (simp add: iov_len_def setQueuesParams_def eval_nat_numeral)
  ultimately show ?thesis
    using transmit_path_safe [of env0 bucket0 ?s2 "[[1], [], [], [2,3]]" 3 zero_sockaddr 0] by simp
qed

end
