(* ===== verification/Wire.thy ===== *)
theory Wire
  imports Rate_Limiter
begin

text \<open>
  The packets of \<open>ml/transmissionHandler.h\<close> as bytes: the 23-byte message header (network byte
  order), the NACK (host byte order: the code copies the structure as it is in memory) and the
  connection message with its two \<open>sockaddr_storage\<close>. The host is little-endian, as on the
  x86 targets of the build: it matters where the code puts host integers on the wire and for
  \<open>htons\<close> applied twice. The retransmission search of \<open>ml/util/queueManagement.c\<close>, which reads the
  headers of queued packets, is here too.
\<close>

section \<open>Codecs\<close>

text \<open>
  What every reader of the wire relies on: an encoding has a fixed length and is recovered from any
  buffer that starts with it.
\<close>

locale codec =
  fixes enc :: "'a \<Rightarrow> byte list" and dec :: "byte list \<Rightarrow> 'a" and n :: nat and wf :: "'a \<Rightarrow> bool"
  assumes length_enc: "wf x \<Longrightarrow> length (enc x) = n"
    and dec_enc: "wf x \<Longrightarrow> dec (enc x @ rest) = x"
begin

lemma dec_enc_only: "wf x \<Longrightarrow> dec (enc x) = x"
  using dec_enc [of x "[]"] by simp

lemma enc_inj: "wf x \<Longrightarrow> wf y \<Longrightarrow> enc x @ r = enc y @ r' \<Longrightarrow> x = y \<and> r = r'"
  using dec_enc [of x r] dec_enc [of y r'] by auto

lemma drop_enc: "wf x \<Longrightarrow> drop n (enc x @ rest) = rest"
  by (simp add: length_enc)

lemma take_enc: "wf x \<Longrightarrow> take n (enc x @ rest) = enc x"
  by (simp add: length_enc)

lemma dec_take: "wf x \<Longrightarrow> dec (take n (enc x @ rest)) = x"
  by (simp only: take_enc dec_enc_only)

end

section \<open>Host integers\<close>

definition le16 :: "u16 \<Rightarrow> byte list" where
  "le16 w = [ucast w, ucast (drop_bit 8 w)]"

definition of_le16 :: "byte list \<Rightarrow> u16" where
  "of_le16 bs = ucast (bs ! 0) OR push_bit 8 (ucast (bs ! 1))"

definition le32 :: "u32 \<Rightarrow> byte list" where
  "le32 w = [ucast w, ucast (drop_bit 8 w), ucast (drop_bit 16 w), ucast (drop_bit 24 w)]"

definition of_le32 :: "byte list \<Rightarrow> u32" where
  "of_le32 bs = ucast (bs ! 0) OR push_bit 8 (ucast (bs ! 1))
     OR push_bit 16 (ucast (bs ! 2)) OR push_bit 24 (ucast (bs ! 3))"

definition htons :: "u16 \<Rightarrow> u16" where
  "htons w = push_bit 8 w OR drop_bit 8 w"

lemma length_le [simp]: "length (le16 w) = 2" "length (le32 v) = 4"
  by (simp_all add: le16_def le32_def)

lemma of_le16_le16 [simp]: "of_le16 (le16 w @ rest) = w"
  by (rule bit_word_eqI) (auto simp: of_le16_def le16_def bit_simps)

lemma of_le32_le32 [simp]: "of_le32 (le32 w @ rest) = w"
proof (rule bit_word_eqI)
  fix n assume "n < LENGTH(32)"
  then consider "n < 8" | "8 \<le> n" "n < 16" | "16 \<le> n" "n < 24" | "24 \<le> n" "n < 32"
    by fastforce
  then show "bit (of_le32 (le32 w @ rest)) n \<longleftrightarrow> bit w n"
    by cases (auto simp: of_le32_def le32_def bit_simps)
qed

lemma htons_htons [simp]: "htons (htons w) = w"
  by (rule bit_word_eqI) (auto simp: htons_def bit_simps)

interpretation be32c: codec be32 of_be32 4 "\<lambda>_. True"
  by unfold_locales simp_all

interpretation le32c: codec le32 of_le32 4 "\<lambda>_. True"
  by unfold_locales simp_all

section \<open>The message header\<close>

record msg_header =
  offset :: u32
  msg_length :: u32
  local_con_id :: u32
  remote_con_id :: u32
  msg_seq_num :: u32
  msg_type :: byte
  len_mon_data_hdr :: byte
  len_mon_packet_hdr :: byte

definition MSG_HEADER_SIZE :: nat where "MSG_HEADER_SIZE = 23"

definition encode_header :: "msg_header \<Rightarrow> byte list" where
  "encode_header h =
     be32 (offset h) @ be32 (msg_length h) @ be32 (local_con_id h) @ be32 (remote_con_id h)
     @ be32 (msg_seq_num h) @ [msg_type h, len_mon_data_hdr h, len_mon_packet_hdr h]"

definition decode_header :: "byte list \<Rightarrow> msg_header" where
  "decode_header bs =
     \<lparr> offset = of_be32 bs, msg_length = of_be32 (drop 4 bs), local_con_id = of_be32 (drop 8 bs),
       remote_con_id = of_be32 (drop 12 bs), msg_seq_num = of_be32 (drop 16 bs),
       msg_type = bs ! 20, len_mon_data_hdr = bs ! 21, len_mon_packet_hdr = bs ! 22 \<rparr>"

interpretation header: codec encode_header decode_header MSG_HEADER_SIZE "\<lambda>_. True"
proof
  fix h :: msg_header and rest
  show "length (encode_header h) = MSG_HEADER_SIZE"
    by (simp add: encode_header_def MSG_HEADER_SIZE_def)
  have d: "drop k (be32 a @ r) = drop (k - 4) r" if "4 \<le> k" for k a r using that by simp
  have i: "(be32 a @ r) ! k = r ! (k - 4)" if "4 \<le> k" for k a r using that by (simp add: nth_append)
  show "decode_header (encode_header h @ rest) = h"
    by (simp add: decode_header_def encode_header_def d i)
qed

section \<open>The NACK\<close>

record nack_msg =
  nk_con_id :: u32
  nack_seq_num :: u32
  offsetFrom :: u32
  offsetTo :: u32

definition encode_nack :: "nack_msg \<Rightarrow> byte list" where
  "encode_nack m = le32 (nk_con_id m) @ le32 (nack_seq_num m) @ le32 (offsetFrom m) @ le32 (offsetTo m)"

definition decode_nack :: "byte list \<Rightarrow> nack_msg" where
  "decode_nack bs =
     \<lparr> nk_con_id = of_le32 bs, nack_seq_num = of_le32 (drop 4 bs), offsetFrom = of_le32 (drop 8 bs),
       offsetTo = of_le32 (drop 12 bs) \<rparr>"

interpretation nack: codec encode_nack decode_nack 16 "\<lambda>_. True"
proof
  fix m :: nack_msg and rest
  show "length (encode_nack m) = 16" by (simp add: encode_nack_def)
  have d: "drop k (le32 a @ r) = drop (k - 4) r" if "4 \<le> k" for k a r using that by simp
  show "decode_nack (encode_nack m @ rest) = m"
    by (simp add: decode_nack_def encode_nack_def d)
qed

section \<open>Connection messages\<close>

definition encode_sockaddr :: "sockaddr \<Rightarrow> byte list" where
  "encode_sockaddr a = le16 (ss_family a) @ ss_data a"

definition decode_sockaddr :: "byte list \<Rightarrow> sockaddr" where
  "decode_sockaddr bs = \<lparr> ss_family = of_le16 bs, ss_data = take 126 (drop 2 bs) \<rparr>"

definition sockaddr_wf :: "sockaddr \<Rightarrow> bool" where
  "sockaddr_wf a \<longleftrightarrow> length (ss_data a) = 126"

interpretation sockaddr: codec encode_sockaddr decode_sockaddr 128 sockaddr_wf
  by unfold_locales (simp_all add: encode_sockaddr_def decode_sockaddr_def sockaddr_wf_def)

record conn_msg =
  comand_type :: u32
  pmtu_size :: u32
  sock_id :: socket_ID

definition CONN_MSG_SIZE :: nat where "CONN_MSG_SIZE = 264"

definition encode_conn :: "conn_msg \<Rightarrow> byte list" where
  "encode_conn m =
     be32 (comand_type m) @ be32 (pmtu_size m) @ encode_sockaddr (internal_addr (sock_id m))
     @ encode_sockaddr (external_addr (sock_id m))"

definition decode_conn :: "byte list \<Rightarrow> conn_msg" where
  "decode_conn bs =
     \<lparr> comand_type = of_be32 bs, pmtu_size = of_be32 (drop 4 bs),
       sock_id = \<lparr> internal_addr = decode_sockaddr (drop 8 bs), external_addr = decode_sockaddr (drop 136 bs) \<rparr> \<rparr>"

definition socket_ID_wf :: "socket_ID \<Rightarrow> bool" where
  "socket_ID_wf sid \<longleftrightarrow> sockaddr_wf (internal_addr sid) \<and> sockaddr_wf (external_addr sid)"

interpretation conn: codec encode_conn decode_conn CONN_MSG_SIZE "\<lambda>m. socket_ID_wf (sock_id m)"
proof
  fix m :: conn_msg and rest assume wf: "socket_ID_wf (sock_id m)"
  then have l: "length (encode_sockaddr (internal_addr (sock_id m))) = 128"
    "length (encode_sockaddr (external_addr (sock_id m))) = 128"
    by (auto simp: socket_ID_wf_def intro: sockaddr.length_enc)
  then show "length (encode_conn m) = CONN_MSG_SIZE"
    by (simp add: encode_conn_def CONN_MSG_SIZE_def)
  have d: "drop k (be32 a @ r) = drop (k - 4) r" if "4 \<le> k" for k a r using that by simp
  show "decode_conn (encode_conn m @ rest) = m"
    using wf l by (simp add: decode_conn_def encode_conn_def d socket_ID_wf_def sockaddr.dec_enc)
qed

text \<open>
  The family fields of the socket ID in a connection message. Both sides convert the internal one and
  then assign the converted internal one, converted again, to the external one: \<open>send_conn_msg\<close>
  sends the external family unconverted, and \<open>recv_conn_msg\<close> ends with it byte-swapped.
\<close>

definition swap_families :: "socket_ID \<Rightarrow> socket_ID" where
  "swap_families sid =
     (let sid1 = sid\<lparr> internal_addr := (internal_addr sid)\<lparr> ss_family := htons (ss_family (internal_addr sid)) \<rparr> \<rparr>
      in sid1\<lparr> external_addr := (external_addr sid1)\<lparr> ss_family := htons (ss_family (internal_addr sid1)) \<rparr> \<rparr>)"

text \<open>The peer's external address does not survive a connection message: what the receiver
  decodes has the internal address as sent, but the external one with a byte-swapped internal
  family, so \<open>get_sockaddr_ip\<close> and \<open>get_sockaddr_port\<close> no longer recognise it.\<close>

theorem conn_msg_loses_external_family:
  assumes "socket_ID_wf sid" and "ss_family (internal_addr sid) = AF_INET \<or> ss_family (internal_addr sid) = AF_INET6"
  shows "let got = swap_families (sock_id (decode_conn (encode_conn
             \<lparr> comand_type = c, pmtu_size = p, sock_id = swap_families sid \<rparr> @ rest)))
         in internal_addr got = internal_addr sid
            \<and> ss_data (external_addr got) = ss_data (external_addr sid)
            \<and> ss_family (external_addr got) = htons (ss_family (internal_addr sid))
            \<and> ip_text (external_addr got) = [] \<and> get_sockaddr_port (external_addr got) = -1"
proof -
  let ?m = "\<lparr> comand_type = c, pmtu_size = p, sock_id = swap_families sid \<rparr>"
  have "socket_ID_wf (sock_id ?m)"
    using assms(1) by (simp add: swap_families_def socket_ID_wf_def sockaddr_wf_def Let_def)
  then have "decode_conn (encode_conn ?m @ rest) = ?m" by (rule conn.dec_enc)
  moreover have "htons AF_INET \<noteq> AF_INET \<and> htons AF_INET \<noteq> AF_INET6 \<and> htons AF_INET6 \<noteq> AF_INET \<and> htons AF_INET6 \<noteq> AF_INET6"
    by (simp add: htons_def AF_INET_def AF_INET6_def)
  ultimately show ?thesis
    using assms(2)
    by (auto simp: swap_families_def Let_def ip_text_def get_sockaddr_ip_def get_sockaddr_port_def)
qed

lemma conn_msg_loses_external_family_witness:
  "get_sockaddr_port (external_addr (swap_families (sock_id (decode_conn (encode_conn
     \<lparr> comand_type = 0, pmtu_size = 1372, sock_id = swap_families
        \<lparr> internal_addr = ipv4_sockaddr [10,0,0,1] 6666, external_addr = ipv4_sockaddr [193,213,40,12] 6666 \<rparr> \<rparr> @ []))))) = -1"
  using conn_msg_loses_external_family
    [of "\<lparr> internal_addr = ipv4_sockaddr [10,0,0,1] 6666, external_addr = ipv4_sockaddr [193,213,40,12] 6666 \<rparr>" 0 1372 "[]"]
  by (simp add: socket_ID_wf_def sockaddr_wf_def ipv4_sockaddr_def Let_def)

end
