(* ===== verification/Retransmit.thy ===== *)
theory Retransmit
  imports Wire
begin

text \<open>
  Retransmission on request (\<open>ml/util/queueManagement.c\<close>: \<open>searchPacketInRTX\<close>,
  \<open>rtxPacketsFromTo\<close>; \<open>ml/ml.c\<close>: \<open>recv_nack_msg\<close>): a NACK names a range of offsets of a message,
  and the packets of the retransmit queue that carry it are sent again.
\<close>

section \<open>Searching the retransmit queue\<close>

text \<open>
  The arguments are host integers; the code converts them and compares them with the header fields as
  they are in the buffer, which is to compare the decoded fields. The search returns the container
  found and the one before it.
\<close>

definition header_matches :: "u32 \<Rightarrow> u32 \<Rightarrow> u32 \<Rightarrow> packet \<Rightarrow> bool" where
  "header_matches connID msgSeqNum off k =
     (let h = decode_header (iov k ! 0)
      in local_con_id h = connID \<and> msg_seq_num h = msgSeqNum \<and> offset h = off)"

partial_function (option) rtx_search ::
  "u32 \<Rightarrow> u32 \<Rightarrow> u32 \<Rightarrow> ptr \<Rightarrow> ptr \<Rightarrow> 'a queues_scheme \<Rightarrow> (ptr \<times> ptr) res option" where
  "rtx_search connID msgSeqNum off prev tmp s =
     (case tmp of None \<Rightarrow> Some (Inr (None, prev))
      | Some a \<Rightarrow>
          (case deref s (Some a) of Inl e \<Rightarrow> Some (Inl e)
           | Inr k \<Rightarrow>
               if header_matches connID msgSeqNum off k then Some (Inr (Some a, prev))
               else rtx_search connID msgSeqNum off (Some a) (nxt k) s))"

text \<open>
  With \<open>keep\<close> false the container is unlinked. For the tail the code writes
  \<open>prev->next == NULL\<close>, a comparison, so the container before it keeps its link.
\<close>

definition rtx_unlink :: "nat \<Rightarrow> ptr \<Rightarrow> 'a queues_scheme \<Rightarrow> 'a queues_scheme res" where
  "rtx_unlink a prev s =
     res_bind (deref s (Some a)) (\<lambda>k.
       res_map (\<lambda>s1. s1\<lparr> rtx_size := rtx_size s1 - pktLen k \<rparr>)
         (if rtx_head s = Some a then Inr (s\<lparr> rtx_head := nxt k \<rparr>)
          else if rtx_tail s = Some a then res_map (\<lambda>_. s\<lparr> rtx_tail := prev \<rparr>) (deref s prev)
          else set_next prev (nxt k) s))"

definition searchPacketInRTX ::
  "u32 \<Rightarrow> u32 \<Rightarrow> u32 \<Rightarrow> bool \<Rightarrow> 'a queues_scheme \<Rightarrow> (ptr \<times> 'a queues_scheme) res option" where
  "searchPacketInRTX connID msgSeqNum off keep s =
     (case rtx_search connID msgSeqNum off None (rtx_head s) s of
        None \<Rightarrow> None
      | Some (Inl e) \<Rightarrow> Some (Inl e)
      | Some (Inr (None, _)) \<Rightarrow> Some (Inr (None, s))
      | Some (Inr (Some a, prev)) \<Rightarrow>
          Some (res_map (\<lambda>s1. (Some a, s1)) (if keep then Inr s else rtx_unlink a prev s)))"

text \<open>One packet of the range, and the loop; offsets are 32-bit \<open>int\<close>s, compared as signed.\<close>

definition resend :: "'e env_scheme \<Rightarrow> nat \<Rightarrow> 'a rate_scheme \<Rightarrow> (u32 \<times> 'a rate_scheme) res" where
  "resend env a s =
     res_bind (deref s (Some a)) (\<lambda>k.
       (let (r, v1, s1) = sendPacket env (udpSocket k) (iov k) (socketaddr k) s
        in Inr (word_of_nat (length (v1 ! 3)),
                s1\<lparr> heap := (heap s1)(a \<mapsto> k\<lparr> iov := v1 \<rparr>),
                    sentRTXDataPktCounter := sentRTXDataPktCounter s1 + 1 \<rparr>)))"

partial_function (option) rtxPacketsFromTo ::
  "'e env_scheme \<Rightarrow> u32 \<Rightarrow> u32 \<Rightarrow> u32 \<Rightarrow> u32 \<Rightarrow> 'a rate_scheme \<Rightarrow> (int \<times> 'a rate_scheme) res option" where
  "rtxPacketsFromTo env connID msgSeqNum off offsetTo' s =
     (if \<not> off <s offsetTo' then Some (Inr (0, s))
      else (case searchPacketInRTX connID msgSeqNum off True s of
              None \<Rightarrow> None
            | Some (Inl e) \<Rightarrow> Some (Inl e)
            | Some (Inr (None, s1)) \<Rightarrow> Some (Inr (1, s1))
            | Some (Inr (Some a, s1)) \<Rightarrow>
                (case resend env a s1 of Inl e \<Rightarrow> Some (Inl e)
                 | Inr (n, s2) \<Rightarrow> rtxPacketsFromTo env connID msgSeqNum (off + n) offsetTo' s2)))"

text \<open>
  \<open>recv_nack_msg\<close>: \<open>msgbuf\<close> is the packet buffer from position \<open>pos\<close> on. The size of the message is
  not checked; the buffer is the fixed one of \<open>recv_pkg\<close>, so the read stays inside it.
\<close>

definition recv_nack_msg ::
  "'e env_scheme \<Rightarrow> msg_header \<Rightarrow> byte list \<Rightarrow> int \<Rightarrow> 'a rate_scheme \<Rightarrow> 'a rate_scheme res option" where
  "recv_nack_msg env h buf pos s =
     (case mem_read buf (pos + int (unat (len_mon_data_hdr h))) 16 of Inl e \<Rightarrow> Some (Inl e)
      | Inr bs \<Rightarrow>
          (let m = decode_nack bs in
           map_option (res_map snd)
             (rtxPacketsFromTo env (nk_con_id m) (nack_seq_num m) (offsetFrom m) (offsetTo m) s)))"

section \<open>What the search finds\<close>

definition rtx_match :: "u32 \<Rightarrow> u32 \<Rightarrow> u32 \<Rightarrow> (nat \<Rightarrow> packet option) \<Rightarrow> nat \<Rightarrow> bool" where
  "rtx_match connID msgSeqNum off h a =
     (case h a of None \<Rightarrow> False | Some k \<Rightarrow> header_matches connID msgSeqNum off k)"

lemma rtx_search_chain:
  assumes "chain (heap s) p ys"
  shows "\<exists>prev'. rtx_search connID msgSeqNum off prev p s
    = Some (Inr (find (rtx_match connID msgSeqNum off (heap s)) ys, prev'))"
  using assms
proof (induction ys arbitrary: p prev)
  case Nil
  then show ?case by (subst rtx_search.simps) simp
next
  case (Cons a ys)
  then obtain k where k: "p = Some a" "heap s a = Some k" "chain (heap s) (nxt k) ys" by auto
  then have "rtx_match connID msgSeqNum off (heap s) a = header_matches connID msgSeqNum off k"
    by (simp add: rtx_match_def)
  with k Cons.IH [OF k(3), of "Some a"] show ?case
    by (subst rtx_search.simps) (simp add: deref_def)
qed

lemma searchPacketInRTX_find:
  assumes "queues_inv s xs ys"
  shows "searchPacketInRTX connID msgSeqNum off True s
    = Some (Inr (find (rtx_match connID msgSeqNum off (heap s)) ys, s))"
proof -
  obtain prev' where "rtx_search connID msgSeqNum off None (rtx_head s) s
      = Some (Inr (find (rtx_match connID msgSeqNum off (heap s)) ys, prev'))"
    using rtx_search_chain [of s "rtx_head s" ys] assms unfolding queues_inv_def by blast
  then show ?thesis
    by (cases "find (rtx_match connID msgSeqNum off (heap s)) ys") (simp_all add: searchPacketInRTX_def)
qed

lemma find_match_heap:
  assumes "queues_inv s xs ys" "find (rtx_match connID msgSeqNum off (heap s)) ys = Some a"
  obtains k where "heap s a = Some k" "header_matches connID msgSeqNum off k" "a \<in> set ys"
    "length (iov k) = 4"
proof -
  from assms(2) have m: "rtx_match connID msgSeqNum off (heap s) a" "a \<in> set ys"
    by (auto simp: find_Some_iff)
  from m(1) obtain k where k: "heap s a = Some k" "header_matches connID msgSeqNum off k"
    by (auto simp: rtx_match_def split: option.splits)
  have "\<forall>a k. heap s a = Some k \<longrightarrow> a < next_addr s \<and> packet_ok k"
    using assms(1) by (simp add: queues_inv_def)
  with k m(2) that show thesis by (auto simp: packet_ok_def)
qed

text \<open>The datagram a container stands for, and the range of offsets a list of containers covers.\<close>

definition dgram :: "(nat \<Rightarrow> packet option) \<Rightarrow> nat \<Rightarrow> datagram" where
  "dgram h a = (case h a of None \<Rightarrow> (0, [], zero_sockaddr) | Some k \<Rightarrow> (udpSocket k, iov k, socketaddr k))"

fun covers :: "(nat \<Rightarrow> packet option) \<Rightarrow> nat list \<Rightarrow> u32 \<Rightarrow> u32 \<Rightarrow> u32 \<Rightarrow> u32 \<Rightarrow> nat list \<Rightarrow> bool" where
  "covers h ys connID msgSeqNum off end [] \<longleftrightarrow> \<not> off <s end"
| "covers h ys connID msgSeqNum off end (a # as) \<longleftrightarrow>
     off <s end \<and> find (rtx_match connID msgSeqNum off h) ys = Some a
     \<and> (\<exists>k. h a = Some k \<and> covers h ys connID msgSeqNum (off + word_of_nat (length (iov k ! 3))) end as)"

lemma resend_plain:
  assumes "heap s a = Some k" "send_pkt_inf env = None" "\<And>w d. net env w d = None"
  shows "resend env a s = Inr (word_of_nat (length (iov k ! 3)),
    s\<lparr> wire := wire s @ [dgram (heap s) a], sentRTXDataPktCounter := sentRTXDataPktCounter s + 1 \<rparr>)"
proof -
  have "(heap s)(a \<mapsto> k) = heap s" using assms(1) by auto
  with assms show ?thesis
    by (simp add: resend_def deref_def sendPacket_def sendPacketFinal_def dgram_def Let_def)
qed

text \<open>C28: A NACK is answered completely: when the retransmit queue still holds packets of the message
  that cover the requested range (for each offset reached, the first matching packet of the queue),
  \<open>rtxPacketsFromTo\<close> returns 0 after sending exactly these packets, in order, with their contents and
  destination unchanged; the queues and the heap are not modified. (No monitoring hook is set, and the
  network accepts every datagram.)\<close>

theorem rtx_range_resent:
  assumes "queues_inv s xs ys" "covers (heap s) ys connID msgSeqNum off end as"
    and "send_pkt_inf env = None" "\<And>w d. net env w d = None"
  shows "\<exists>s'. rtxPacketsFromTo env connID msgSeqNum off end s = Some (Inr (0, s'))
    \<and> wire s' = wire s @ map (dgram (heap s)) as \<and> heap s' = heap s \<and> queues_inv s' xs ys
    \<and> sentRTXDataPktCounter s' = sentRTXDataPktCounter s + length as"
  using assms(1,2)
proof (induction as arbitrary: s off)
  case Nil
  then show ?case by (subst rtxPacketsFromTo.simps) simp
next
  case (Cons a as)
  then obtain k where k: "heap s a = Some k" "off <s end"
    "find (rtx_match connID msgSeqNum off (heap s)) ys = Some a"
    "covers (heap s) ys connID msgSeqNum (off + word_of_nat (length (iov k ! 3))) end as"
    by auto
  let ?s = "s\<lparr> wire := wire s @ [dgram (heap s) a], sentRTXDataPktCounter := sentRTXDataPktCounter s + 1 \<rparr>"
  have inv: "queues_inv ?s xs ys" using Cons.prems(1) by (simp add: queues_inv_def)
  have "rtxPacketsFromTo env connID msgSeqNum off end s
      = rtxPacketsFromTo env connID msgSeqNum (off + word_of_nat (length (iov k ! 3))) end ?s"
    using k(2) searchPacketInRTX_find [OF Cons.prems(1)] resend_plain [OF k(1) assms(3,4)] k(3)
    by (subst rtxPacketsFromTo.simps) simp
  with Cons.IH [OF inv] k(4) show ?case by auto
qed

text \<open>A NACK for a packet without payload never returns: if the retransmit queue holds a matching
  packet whose data part is empty (an empty message, or one whose \<open>send_msg\<close> computed a zero packet
  length) the offset does not advance and the same packet is sent for ever.\<close>

theorem rtx_empty_packet_loops:
  fixes s :: "'a rate_scheme" and env :: "'e env_scheme"
  assumes "queues_inv s xs ys" "off <s end" "find (rtx_match connID msgSeqNum off (heap s)) ys = Some a"
    and "heap s a = Some k" "iov k ! 3 = []"
    and "send_pkt_inf env = None" "\<And>w d. net env w d = None"
  shows "rtxPacketsFromTo env connID msgSeqNum off end s = None"
proof (rule ccontr)
  assume "rtxPacketsFromTo env connID msgSeqNum off end s \<noteq> None"
  then obtain r where r: "rtxPacketsFromTo env connID msgSeqNum off end s = Some r" by auto
  define bad where "bad (env0 :: 'e env_scheme) c q off0 end0 s0 \<longleftrightarrow>
      env0 = env \<and> c = connID \<and> q = msgSeqNum \<and> off0 = off \<and> end0 = end \<and> queues_inv s0 xs ys \<and> heap s0 = heap s"
    for env0 c q off0 end0 and s0 :: "'a rate_scheme"
  have "\<not> bad env connID msgSeqNum off end s"
  proof (rule rtxPacketsFromTo.raw_induct [where P = "\<lambda>env0 c q off0 end0 s0 r. \<not> bad env0 c q off0 end0 s0", OF _ r],
      goal_cases)
    case (1 f env0 c q off0 end0 s0 r0)
    show ?case
    proof
      assume b: "bad env0 c q off0 end0 s0"
      let ?s = "s0\<lparr> wire := wire s0 @ [dgram (heap s0) a], sentRTXDataPktCounter := sentRTXDataPktCounter s0 + 1 \<rparr>"
      have inv: "queues_inv s0 xs ys" "heap s0 = heap s" using b by (auto simp: bad_def)
      have "f env connID msgSeqNum off end ?s = Some r0"
        using 1(2) b assms(2-5) searchPacketInRTX_find [OF inv(1), of connID msgSeqNum off]
          resend_plain [of s0 a k env, OF _ assms(6,7)] by (simp add: bad_def)
      then have "\<not> bad env connID msgSeqNum off end ?s" by (rule 1(1))
      with inv show False by (simp add: bad_def queues_inv_def)
    qed
  qed
  with assms(1) show False by (simp add: bad_def)
qed

text \<open>A retransmit queue with one packet, for the witnesses.\<close>

definition one_rtx :: "byte list \<Rightarrow> rate" where
  "one_rtx payload = bucket0
     \<lparr> heap := [0 \<mapsto> \<lparr> udpSocket = 3,
         iov = [encode_header \<lparr> offset = 0, msg_length = 3, local_con_id = 7, remote_con_id = 1, msg_seq_num = 42,
                  msg_type = 5, len_mon_data_hdr = 0, len_mon_packet_hdr = 0 \<rparr>, [], [], payload],
         iovlen = 4, socketaddr = zero_sockaddr, pktLen = 23 + int (length payload),
         timeStamp = \<lparr> tv_sec = 1, tv_usec = 0 \<rparr>, nxt = None, priority = 0 \<rparr>],
       next_addr := 1, rtx_head := Some 0, rtx_tail := Some 0, rtx_size := 23 + int (length payload) \<rparr>"

lemma one_rtx_inv: "queues_inv (one_rtx p) [] [0]"
  using header.length_enc
  by (auto simp: queues_inv_def one_rtx_def len_at_def packet_ok_def iov_len_def MSG_HEADER_SIZE_def)

lemma one_rtx_find: "find (rtx_match 7 42 0 (heap (one_rtx p))) [0] = Some 0"
  using header.dec_enc_only
  by (simp add: one_rtx_def rtx_match_def header_matches_def Let_def)

lemma rtx_range_resent_witness:
  "\<exists>s'. rtxPacketsFromTo env0 7 42 0 3 (one_rtx [1,2,3]) = Some (Inr (0, s'))
     \<and> wire s' = [dgram (heap (one_rtx [1,2,3])) 0]"
proof -
  have c: "covers (heap (one_rtx [1,2,3])) [0] 7 42 0 3 [0]"
    using one_rtx_find [of "[1,2,3]"] by (simp add: one_rtx_def word_sless_alt eval_nat_numeral del: find.simps)
  have "wire (one_rtx [1,2,3]) = []" by (simp add: one_rtx_def)
  with rtx_range_resent [OF one_rtx_inv c, of env0] show ?thesis by auto
qed

lemma rtx_empty_packet_loops_witness: "rtxPacketsFromTo env0 7 42 0 3 (one_rtx []) = None"
proof -
  obtain k where "heap (one_rtx []) 0 = Some k" "iov k ! 3 = []"
    by (simp add: one_rtx_def eval_nat_numeral)
  then show ?thesis
    by (intro rtx_empty_packet_loops [OF one_rtx_inv _ one_rtx_find]) (simp_all add: word_sless_alt)
qed

end
