(* ===== verification/Ml_State.thy ===== *)
theory Ml_State
  imports Retransmit
begin

text \<open>
  The state of the messaging layer (\<open>ml/ml.c\<close>, \<open>ml/transmissionHandler.h\<close>): the connection table
  \<open>connectbuf\<close>, the table \<open>recvdatabuf\<close> of messages being reassembled, the callbacks and the timers.
  It extends the state of the transmit path. Indices are the C expressions' values: an access
  outside a table is a fault, as is one through an empty slot.

  Timers owned by a structure (\<open>timeout_event\<close>) are its fields, with the delay they were set to;
  one-shot events (\<open>event_base_once\<close>) are in the list \<open>once\<close>. Calls of the application's callbacks
  are recorded, in order, in \<open>trace\<close>; what they do is not part of the model.
\<close>

section \<open>Connections\<close>

datatype con_status = INVITE | CONNECT | READY

definition status_rank :: "con_status \<Rightarrow> nat" where
  "status_rank st = (case st of INVITE \<Rightarrow> 0 | CONNECT \<Rightarrow> 1 | READY \<Rightarrow> 2)"

lemma status_rank_inj: "status_rank a = status_rank b \<Longrightarrow> a = b"
  by (cases a; cases b; simp add: status_rank_def)

instantiation con_status :: linorder
begin
definition less_eq_con_status :: "con_status \<Rightarrow> con_status \<Rightarrow> bool" where
  "less_eq_con_status a b = (status_rank a \<le> status_rank b)"
definition less_con_status :: "con_status \<Rightarrow> con_status \<Rightarrow> bool" where
  "less_con_status a b = (status_rank a < status_rank b)"
instance
  by standard (auto simp: less_eq_con_status_def less_con_status_def intro: status_rank_inj)
end

record send_params =
  sp_priority :: bool
  sp_padding :: bool
  sp_confirmation :: bool
  sp_reliable :: bool
  keepalive :: int

record connect_data =
  connectionID :: int
  external_socketID :: socket_ID
  external_connectionID :: int
  pmtusize :: int
  delay :: bool
  trials :: int
  ctrl_msg_buf :: "byte list option"
  status :: con_status
  starttime :: int
  seqnr :: u32
  timeout_event :: "timeval option"
  timeout_value :: timeval
  internal_connect :: bool
  connection_cbs :: "(nat \<times> nat) list"
  defaultSendParams :: send_params
  keepalive_seq :: u32

section \<open>Messages being received\<close>

datatype recv_status = ACTIVE | INACTIVE | COMPLETE

record recvdata =
  rd_recvID :: int
  rd_connectionID :: int
  rd_seqnr :: int
  recvbuf :: "byte list"
  bufsize :: int
  rd_status :: recv_status
  rd_msgtype :: byte
  firstPacketArrived :: bool
  recvFragments :: int
  arrivedBytes :: int
  monitoringDataHeaderLen :: int
  rd_timeout_event :: "timeval option"
  rd_timeout_value :: timeval
  rd_starttime :: int
  last_pkt_timeout_event :: "timeval option"
  txConnectionID :: int
  expectedOffset :: int
  gapCounter :: nat
  gapArray :: "(int \<times> int) list"

section \<open>The messaging layer\<close>

record recv_params =
  rp_msgtype :: byte
  rp_connectionID :: int
  nrMissingBytes :: int
  rp_recvFragments :: int
  rp_firstPacketArrived :: bool
  rp_remote_socketID :: socket_ID

datatype ml_action =
    Recv_data nat "byte list" byte recv_params
  | Recv_connection nat int
  | Connection_cb nat int nat
  | Failed_connection nat int
  | Local_socketID nat int
  | Mon_recv_data "byte list" int
  | Mon_recv_pkt "byte list" int

datatype once_event =
    Pkt_recv_timeout int int nat int
  | Keepalive_fn socket_ID
  | Nat_timeout

record ml = rate +
  connectbuf :: "int \<Rightarrow> connect_data option"
  recvdatabuf :: "int \<Rightarrow> recvdata option"
  recvcbbuf :: "int \<Rightarrow> nat option"
  stun_server :: sockaddr
  recv_timeout :: timeval
  last_pkt_recv_timeout :: timeval
  NAT_traversal :: bool
  socketfd :: int
  local_socketID :: socket_ID
  receive_Connection_cb :: "nat option"
  failed_Connection_cb :: "nat option"
  receive_SocketID_cb :: "nat option"
  recv_data_callback :: bool
  once :: "(once_event \<times> timeval) list"
  trace :: "ml_action list"
  receivedCompleteMsgCounter :: u32
  receivedIncompleteMsgCounter :: u32
  receivedDataPktCounter :: u32
  receivedRTXDataPktCounter :: u32
  sentDataPktCounter :: u32

text \<open>
  The monitoring hooks that shape packets, the uninitialised stack buffers of \<open>send_msg\<close>, and what
  the code asks of the C library: the jittered timeout \<open>PMTU_TIMEOUT * (1 + 0.1 * (rand - 0.5))\<close>,
  \<open>time\<close> and \<open>getaddrinfo\<close>. A hook that only looks is represented by whether it is registered.
\<close>

record ml_env = env +
  set_Monitoring_header_pkt_cb :: "(socket_ID \<Rightarrow> int \<Rightarrow> nat) option"
  set_Monitoring_header_data_cb :: "(socket_ID \<Rightarrow> int \<Rightarrow> nat) option"
  get_Send_data_inf_cb :: "(socket_ID \<Rightarrow> byte list \<Rightarrow> int \<Rightarrow> send_params \<Rightarrow> byte list) option"
  get_Recv_pkt_inf_cb :: bool
  get_Recv_data_inf_cb :: bool
  stack_h_pkt :: "byte list"
  stack_h_data :: "byte list"
  pmtu_jitter :: "nat \<Rightarrow> int"
  unix_time :: "nat \<Rightarrow> int"
  env_gai :: gai

definition CONNECTBUFSIZE :: int where "CONNECTBUFSIZE = 10000"
definition RECVDATABUFSIZE :: int where "RECVDATABUFSIZE = 10000"
definition MSGMULTIPLEXSIZE :: int where "MSGMULTIPLEXSIZE = 127"
definition RTX_MAX_GAPS :: nat where "RTX_MAX_GAPS = 25"
definition RTX_RETRY :: int where "RTX_RETRY = 1"
definition ML_CON_MSG :: int where "ML_CON_MSG = 127"
definition ML_NACK_MSG :: int where "ML_NACK_MSG = 128"
definition MSG_TYPE_ML_KEEPALIVE :: int where "MSG_TYPE_ML_KEEPALIVE = 0x126"
definition MON_HEADER_SPACE :: nat where "MON_HEADER_SPACE = 32"
definition MAX_TRIALS :: int where "MAX_TRIALS = 3"

definition pkt_recv_timeout :: timeval where "pkt_recv_timeout = \<lparr> tv_sec = 0, tv_usec = 50000 \<rparr>"
definition pkt_recv_timeout_retry :: timeval where
  "pkt_recv_timeout_retry = \<lparr> tv_sec = 0, tv_usec = 550000 \<rparr>"

section \<open>Table accesses\<close>

definition in_table :: "int \<Rightarrow> int \<Rightarrow> bool" where
  "in_table n i \<longleftrightarrow> 0 \<le> i \<and> i < n"

definition slot :: "int \<Rightarrow> (int \<Rightarrow> 'x option) \<Rightarrow> int \<Rightarrow> 'x option res" where
  "slot n t i = (if in_table n i then Inr (t i) else Inl OutOfBounds)"

definition entry :: "int \<Rightarrow> (int \<Rightarrow> 'x option) \<Rightarrow> int \<Rightarrow> 'x res" where
  "entry n t i = res_bind (slot n t i) (\<lambda>x. case x of None \<Rightarrow> Inl NullDeref | Some v \<Rightarrow> Inr v)"

definition conn :: "int \<Rightarrow> 'a ml_scheme \<Rightarrow> connect_data res" where
  "conn i s = entry CONNECTBUFSIZE (connectbuf s) i"

definition set_conn :: "int \<Rightarrow> connect_data \<Rightarrow> 'a ml_scheme \<Rightarrow> 'a ml_scheme" where
  "set_conn i c s = s\<lparr> connectbuf := (connectbuf s)(i \<mapsto> c) \<rparr>"

definition upd_conn :: "int \<Rightarrow> (connect_data \<Rightarrow> connect_data) \<Rightarrow> 'a ml_scheme \<Rightarrow> 'a ml_scheme res" where
  "upd_conn i f s = res_map (\<lambda>c. set_conn i (f c) s) (conn i s)"

definition rd :: "int \<Rightarrow> 'a ml_scheme \<Rightarrow> recvdata res" where
  "rd i s = entry RECVDATABUFSIZE (recvdatabuf s) i"

definition set_rd :: "int \<Rightarrow> recvdata \<Rightarrow> 'a ml_scheme \<Rightarrow> 'a ml_scheme" where
  "set_rd i r s = s\<lparr> recvdatabuf := (recvdatabuf s)(i \<mapsto> r) \<rparr>"

lemma entry_Inr: "entry n t i = Inr x \<longleftrightarrow> in_table n i \<and> t i = Some x"
  by (auto simp: entry_def slot_def split: option.splits)

lemma conn_Inr: "conn i s = Inr c \<longleftrightarrow> in_table CONNECTBUFSIZE i \<and> connectbuf s i = Some c"
  by (simp add: conn_def entry_Inr)

lemma rd_Inr: "rd i s = Inr r \<longleftrightarrow> in_table RECVDATABUFSIZE i \<and> recvdatabuf s i = Some r"
  by (simp add: rd_def entry_Inr)

text \<open>
  The scanning loops over a table: the first used slot that satisfies \<open>P\<close> stops the loop; the
  first empty slot before it is remembered (-1 for none).
\<close>

definition first_match :: "int \<Rightarrow> (int \<Rightarrow> 'x option) \<Rightarrow> ('x \<Rightarrow> bool) \<Rightarrow> int option" where
  "first_match n t P = find (\<lambda>i. case t i of None \<Rightarrow> False | Some x \<Rightarrow> P x) [0..n - 1]"

definition first_free :: "int \<Rightarrow> (int \<Rightarrow> 'x option) \<Rightarrow> int" where
  "first_free n t = (case find (\<lambda>i. t i = None) [0..n - 1] of None \<Rightarrow> -1 | Some i \<Rightarrow> i)"

lemma first_match_Some:
  "first_match n t P = Some i \<Longrightarrow> in_table n i \<and> (\<exists>x. t i = Some x \<and> P x)"
  by (auto simp: first_match_def in_table_def dest!: find_SomeD split: option.splits)

lemma first_match_None:
  "first_match n t P = None \<longleftrightarrow> (\<forall>i x. in_table n i \<longrightarrow> t i = Some x \<longrightarrow> \<not> P x)"
  by (auto simp: first_match_def find_None_iff in_table_def split: option.splits)

lemma first_match_unique:
  assumes "in_table n i" "t i = Some x" "P x"
    and "\<And>j y. in_table n j \<Longrightarrow> t j = Some y \<Longrightarrow> P y \<Longrightarrow> j = i"
  shows "first_match n t P = Some i"
proof (cases "first_match n t P")
  case None
  with assms(1-3) show ?thesis by (auto simp: first_match_None)
next
  case (Some j)
  with first_match_Some [OF Some] assms(4) show ?thesis by blast
qed

lemma first_free_cases:
  "(first_free n t = -1 \<and> (\<forall>i. in_table n i \<longrightarrow> t i \<noteq> None))
   \<or> (in_table n (first_free n t) \<and> t (first_free n t) = None)"
proof (cases "find (\<lambda>i. t i = None) [0..n - 1]")
  case None
  then have "first_free n t = -1" by (simp add: first_free_def)
  with None show ?thesis by (simp add: find_None_iff in_table_def)
next
  case (Some i)
  then have "i \<in> set [0..n - 1]" "t i = None" by (auto dest: find_SomeD)
  with Some show ?thesis by (simp add: first_free_def in_table_def)
qed

text \<open>A small state and environment, for the witnesses: one established connection, in slot 0.\<close>

definition params0 :: send_params where
  "params0 = \<lparr> sp_priority = False, sp_padding = False, sp_confirmation = False, sp_reliable = False, keepalive = 0 \<rparr>"

definition sid0 :: socket_ID where
  "sid0 = \<lparr> internal_addr = ipv4_sockaddr [10,0,0,2] 6666, external_addr = ipv4_sockaddr [10,0,0,2] 6666 \<rparr>"

definition conn0 :: connect_data where
  "conn0 = \<lparr> connectionID = 0, external_socketID = sid0, external_connectionID = 0, pmtusize = 1372, delay = False,
     trials = 0, ctrl_msg_buf = None, status = READY, starttime = 0, seqnr = 5, timeout_event = None,
     timeout_value = \<lparr> tv_sec = 0, tv_usec = 0 \<rparr>, internal_connect = True, connection_cbs = [],
     defaultSendParams = params0, keepalive_seq = 0 \<rparr>"

definition ml0 :: ml where
  "ml0 = rate.extend (bucket0\<lparr> drain_rate := 0 \<rparr>)
     \<lparr> connectbuf = [0 \<mapsto> conn0], recvdatabuf = (\<lambda>_. None), recvcbbuf = [5 \<mapsto> 77], stun_server = zero_sockaddr,
       recv_timeout = \<lparr> tv_sec = 2, tv_usec = 0 \<rparr>, last_pkt_recv_timeout = \<lparr> tv_sec = 1, tv_usec = 700000 \<rparr>,
       NAT_traversal = True, socketfd = 3, local_socketID = sid0, receive_Connection_cb = None,
       failed_Connection_cb = None, receive_SocketID_cb = None, recv_data_callback = True, once = [], trace = [],
       receivedCompleteMsgCounter = 0, receivedIncompleteMsgCounter = 0, receivedDataPktCounter = 0,
       receivedRTXDataPktCounter = 0, sentDataPktCounter = 0 \<rparr>"

definition menv0 :: ml_env where
  "menv0 = env.extend env0
     \<lparr> set_Monitoring_header_pkt_cb = None, set_Monitoring_header_data_cb = None, get_Send_data_inf_cb = None,
       get_Recv_pkt_inf_cb = False, get_Recv_data_inf_cb = False, stack_h_pkt = replicate 32 0,
       stack_h_data = replicate 32 0, pmtu_jitter = (\<lambda>_. 1000000), unix_time = (\<lambda>_. 0), env_gai = numeric_gai \<rparr>"

lemma ml0_simps [simp]:
  "connectbuf ml0 = [0 \<mapsto> conn0]" "recvdatabuf ml0 = (\<lambda>_. None)" "recvcbbuf ml0 = [5 \<mapsto> 77]"
  "recv_data_callback ml0 = True" "socketfd ml0 = 3" "trace ml0 = []" "once ml0 = []" "NAT_traversal ml0 = True"
  "local_socketID ml0 = sid0" "planned ml0 = []" "drain_rate ml0 = 0" "wire ml0 = []" "tx_head ml0 = None"
  "RTXmaxSize ml0 = 9000000" "heap ml0 = (\<lambda>_. None)" "ticks ml0 = 0" "receive_Connection_cb ml0 = None"
  by (simp_all add: ml0_def rate.defs bucket0_def queues.defs init_queues_def)

lemma ml0_safe: "tx_safe ml0" "awake ml0"
proof -
  have "queues_inv ml0 [] []"
    by (simp add: ml0_def rate.defs bucket0_def queues.defs init_queues_def queues_inv_def)
  then show "tx_safe ml0" by (auto simp: tx_safe_def)
  show "awake ml0" by (simp add: awake_def isQueueEmpty_def)
qed

lemma menv0_simps [simp]:
  "set_Monitoring_header_pkt_cb menv0 = None" "set_Monitoring_header_data_cb menv0 = None"
  "get_Send_data_inf_cb menv0 = None" "get_Recv_pkt_inf_cb menv0 = False" "get_Recv_data_inf_cb menv0 = False"
  "stack_h_pkt menv0 = replicate 32 0" "stack_h_data menv0 = replicate 32 0" "env_gai menv0 = numeric_gai"
  "send_pkt_inf menv0 = None" "net menv0 w d = None" "pmtu_jitter menv0 n = 1000000" "unix_time menv0 n = 0"
  by (simp_all add: menv0_def env.defs env0_def)

lemma conn_ml0: "conn 0 ml0 = Inr conn0"
  by (simp add: conn_Inr in_table_def CONNECTBUFSIZE_def)

end
