(* ===== verification/Send_Msg.thy ===== *)
theory Send_Msg
  imports Ml_State
begin

text \<open>
  Sending a message (\<open>ml/ml.c\<close>: \<open>send_msg\<close>, \<open>pmtu_decrement\<close>): it is cut into fragments that fit the
  path MTU of the connection, each fragment goes through \<open>queueOrSendPacket\<close>, and when the system
  refuses a datagram as too long the whole message is sent again with a smaller MTU. The loops are
  \<open>partial_function (option)\<close>. \<open>FEC\<close> is not defined.
\<close>

section \<open>The path MTU\<close>

definition pmtu_decrement :: "int \<Rightarrow> int" where
  "pmtu_decrement pmtu =
     (if pmtu = 1472 then 1372
      else if pmtu = 1464 then 1422
      else if pmtu = 1422 then 1372
      else if pmtu = 1372 then 472
      else if pmtu = 1172 then 472
      else if pmtu = 472 then -1
      else 472)"

definition pmtu_values :: "int set" where
  "pmtu_values = {1472, 1464, 1422, 1372, 1172, 472}"

lemma pmtu_decrement_less: "p \<in> pmtu_values \<Longrightarrow> pmtu_decrement p < p"
  by (auto simp: pmtu_values_def pmtu_decrement_def)

lemma pmtu_decrement_values: "p \<in> pmtu_values \<Longrightarrow> 0 < pmtu_decrement p \<Longrightarrow> pmtu_decrement p \<in> pmtu_values"
  by (auto simp: pmtu_values_def pmtu_decrement_def)

section \<open>One fragment\<close>

text \<open>What \<open>send_msg\<close> computes before its loops.\<close>

record send_job =
  sj_con_id :: int
  sj_msg_type :: int
  sj_msg :: "byte list"
  sj_msg_len :: int
  sj_truncable :: bool
  sj_seq :: u32
  sj_remote :: u32
  sj_addr :: sockaddr

text \<open>
  The room for data is computed in \<open>size_t\<close> and passed to \<open>min\<close> as an \<open>int\<close>. A hook that asks for
  more header than the 32 bytes reserved makes the code read past its stack buffers.
\<close>

definition pkt_room :: "int \<Rightarrow> nat \<Rightarrow> nat \<Rightarrow> int" where
  "pkt_room pmtu l2 l1 = sint (word_of_int (pmtu - int l2 - int l1 - int MSG_HEADER_SIZE) :: u32)"

definition pkt_hdr_len :: "'e ml_env_scheme \<Rightarrow> send_job \<Rightarrow> connect_data \<Rightarrow> nat" where
  "pkt_hdr_len env job c =
     (case set_Monitoring_header_pkt_cb env of None \<Rightarrow> 0 | Some f \<Rightarrow> f (external_socketID c) (sj_msg_type job))"

definition frag_header :: "send_job \<Rightarrow> byte \<Rightarrow> nat \<Rightarrow> int \<Rightarrow> int \<Rightarrow> msg_header" where
  "frag_header job ld l1 off pkt_len =
     \<lparr> offset = word_of_int off,
       msg_length = word_of_int (if sj_truncable job then pkt_len else sj_msg_len job),
       local_con_id = word_of_int (sj_con_id job), remote_con_id = sj_remote job,
       msg_seq_num = sj_seq job, msg_type = word_of_int (sj_msg_type job),
       len_mon_data_hdr = ld, len_mon_packet_hdr = word_of_nat l1 \<rparr>"

definition frag_iov :: "'e ml_env_scheme \<Rightarrow> send_job \<Rightarrow> byte \<Rightarrow> byte list \<Rightarrow> int \<Rightarrow> connect_data \<Rightarrow> byte list list res" where
  "frag_iov env job ld h_data off c =
     (let l1 = pkt_hdr_len env job c;
          pkt_len = min (pkt_room (pmtusize c) (length h_data) l1) (sj_msg_len job - off)
      in if length (stack_h_pkt env) < l1 then Inl OutOfBounds
         else res_map (\<lambda>payload.
                [encode_header (frag_header job ld l1 off pkt_len), take l1 (stack_h_pkt env), h_data, payload])
              (mem_read (sj_msg job) off pkt_len))"

definition job_priority :: "send_job \<Rightarrow> byte" where
  "job_priority job =
     (if sj_msg_type job = ML_CON_MSG \<or> sj_msg_type job = ML_NACK_MSG then HP AND NO_RTX else 0)"

datatype frag_out = Give_up bool | Sent int

definition after_submit :: "send_job \<Rightarrow> int \<Rightarrow> byte list list \<Rightarrow> error_code \<Rightarrow> 'a ml_scheme \<Rightarrow> (frag_out \<times> 'a ml_scheme) res" where
  "after_submit job off v r s =
     (case r of
        MSGLEN \<Rightarrow>
          res_map (\<lambda>c.
            (let p = pmtu_decrement (pmtusize c); c1 = c\<lparr> pmtusize := p \<rparr> in
             if p > 0 then (Give_up True, set_conn (sj_con_id job) (c1\<lparr> delay := True \<rparr>) s)
             else (Give_up False, set_conn (sj_con_id job) c1 s)))
            (conn (sj_con_id job) s)
      | FAILURE \<Rightarrow> Inr (Give_up False, s)
      | THROTTLE \<Rightarrow> Inr (Give_up False, s)
      | OK \<Rightarrow>
          Inr (Sent (off + int (length (v ! 3))),
               if sj_msg_type job < 127 then s\<lparr> sentDataPktCounter := sentDataPktCounter s + 1 \<rparr> else s))"

definition send_frag :: "'e ml_env_scheme \<Rightarrow> send_job \<Rightarrow> byte \<Rightarrow> byte list \<Rightarrow> int \<Rightarrow> 'a ml_scheme
    \<Rightarrow> (frag_out \<times> 'a ml_scheme) res option" where
  "send_frag env job ld h_data off s =
     (case res_bind (conn (sj_con_id job) s) (frag_iov env job ld h_data off) of
        Inl e \<Rightarrow> Some (Inl e)
      | Inr v \<Rightarrow>
          (case queueOrSendPacket env (socketfd s) v 4 (sj_addr job) (job_priority job) s of
             None \<Rightarrow> None
           | Some (Inl e) \<Rightarrow> Some (Inl e)
           | Some (Inr (r, s1)) \<Rightarrow> Some (after_submit job off v r s1)))"

section \<open>The loops\<close>

partial_function (option) send_frags :: "'e ml_env_scheme \<Rightarrow> send_job \<Rightarrow> byte \<Rightarrow> byte list \<Rightarrow> int \<Rightarrow> 'a ml_scheme
    \<Rightarrow> (bool \<times> 'a ml_scheme) res option" where
  "send_frags env job ld h_data off s =
     (case send_frag env job ld h_data off s of
        None \<Rightarrow> None
      | Some (Inl e) \<Rightarrow> Some (Inl e)
      | Some (Inr (Give_up retry, s1)) \<Rightarrow> Some (Inr (retry, s1))
      | Some (Inr (Sent off1, s1)) \<Rightarrow>
          (if off1 \<noteq> sj_msg_len job \<and> \<not> sj_truncable job then send_frags env job ld [] off1 s1
           else Some (Inr (False, s1))))"

text \<open>The monitoring data header, recomputed for every attempt.\<close>

definition data_header :: "'e ml_env_scheme \<Rightarrow> send_job \<Rightarrow> send_params \<Rightarrow> connect_data \<Rightarrow> byte list res" where
  "data_header env job sp c =
     (let n = (case set_Monitoring_header_data_cb env of None \<Rightarrow> 0
               | Some f \<Rightarrow> f (external_socketID c) (sj_msg_type job))
      in if length (stack_h_data env) < n then Inl OutOfBounds
         else Inr (case get_Send_data_inf_cb env of
                     None \<Rightarrow> take n (stack_h_data env)
                   | Some cb \<Rightarrow> if n = 0 then []
                        else take n (cb (external_socketID c) (sj_msg job) (sj_msg_type job) sp @ replicate n 0)))"

partial_function (option) send_loop :: "'e ml_env_scheme \<Rightarrow> send_job \<Rightarrow> send_params \<Rightarrow> 'a ml_scheme
    \<Rightarrow> 'a ml_scheme res option" where
  "send_loop env job sp s =
     (case res_bind (conn (sj_con_id job) s) (data_header env job sp) of
        Inl e \<Rightarrow> Some (Inl e)
      | Inr h_data \<Rightarrow>
          (case send_frags env job (word_of_nat (length h_data)) h_data 0 s of
             None \<Rightarrow> None
           | Some (Inl e) \<Rightarrow> Some (Inl e)
           | Some (Inr (retry, s1)) \<Rightarrow> (if retry then send_loop env job sp s1 else Some (Inr s1))))"

definition make_job :: "connect_data \<Rightarrow> int \<Rightarrow> int \<Rightarrow> byte list \<Rightarrow> int \<Rightarrow> bool \<Rightarrow> send_job" where
  "make_job c cid mtype msg msg_len trunc =
     \<lparr> sj_con_id = cid, sj_msg_type = mtype, sj_msg = msg, sj_msg_len = msg_len, sj_truncable = trunc,
       sj_seq = seqnr c, sj_remote = word_of_int (external_connectionID c),
       sj_addr = (if internal_connect c then internal_addr (external_socketID c)
                  else external_addr (external_socketID c)) \<rparr>"

definition send_msg :: "'e ml_env_scheme \<Rightarrow> int \<Rightarrow> int \<Rightarrow> byte list \<Rightarrow> int \<Rightarrow> bool \<Rightarrow> send_params \<Rightarrow> 'a ml_scheme
    \<Rightarrow> 'a ml_scheme res option" where
  "send_msg env cid mtype msg msg_len trunc sp s =
     (case conn cid s of Inl e \<Rightarrow> Some (Inl e)
      | Inr c \<Rightarrow> send_loop env (make_job c cid mtype msg msg_len trunc) sp
                  (set_conn cid (c\<lparr> seqnr := seqnr c + 1 \<rparr>) s))"

section \<open>The transmit path leaves the layer above alone\<close>

lemma more_queues: "queues.more s' = queues.more s \<Longrightarrow> rate.more (s' :: 'a rate_scheme) = rate.more s"
  by (cases s; cases s') simp

lemma plan_more:
  fixes t t' :: "'a rate_scheme"
  assumes "planFreeSpaceInBucketEvent n t = Inr t'" shows "rate.more t' = rate.more t"
  using assms by (auto simp: planFreeSpaceInBucketEvent_def Let_def split: if_splits)

lemma sendPacket_more:
  fixes t t' :: "'a rate_scheme"
  assumes "sendPacket env sock v addr t = (r, v1, t')" shows "rate.more t' = rate.more t"
  using assms by (auto simp: sendPacket_def sendPacketFinal_def Let_def split: option.splits errno.splits prod.splits)

lemma add_rtx_more:
  fixes t t' :: "'a rate_scheme"
  assumes "add_rtx env a t = Some (Inr t')" shows "rate.more t' = rate.more t"
proof -
  have "frame (t\<lparr> ticks := Suc (Suc (ticks t)) \<rparr>) (Inr t')"
    using assms by (auto simp: add_rtx_def gettimeofday_def dest: addPacketRTXqueue_frame)
  then have "rate.more t' = rate.more (t\<lparr> ticks := Suc (Suc (ticks t)) \<rparr>)"
    by (intro more_queues) (simp add: same_tx_def)
  then show ?thesis by simp
qed

lemma destroy_more:
  fixes t t' :: "'a rate_scheme"
  assumes "destroyPacketContainer p t = Inr t'" shows "rate.more t' = rate.more t"
  using assms by (auto simp: destroyPacketContainer_def deref_def split: option.splits)

lemma outputRateControl_more:
  fixes t t' :: "'a rate_scheme"
  assumes "outputRateControl env n t = (r, t')" shows "rate.more t' = rate.more t"
  using assms by (auto simp: outputRateControl_def gettimeofday_def Let_def split: if_splits)

lemma queueOrSendPacket_more:
  fixes s s' :: "'a rate_scheme"
  assumes "queueOrSendPacket env sock v iovl addr prior s = Some (Inr (r, s'))"
  shows "rate.more s' = rate.more s"
proof -
  obtain a s1 where c: "createPacketContainer sock v iovl addr prior s = (a, s1)" by fastforce
  obtain ro s2 where o: "outputRateControl env (iov_len v) s1 = (ro, s2)" by fastforce
  have m1: "rate.more s1 = rate.more s"
    using c by (auto simp: createPacketContainer_def Let_def)
  note m2 = outputRateControl_more [OF o] and plan = plan_more and send = sendPacket_more
  have enq: "rate.more t' = rate.more t" if "addPacketTXqueue a t = Inr (r', t')" for t t' :: "'a rate_scheme" and r'
    using that by (auto simp: addPacketTXqueue_def destroyPacketContainer_def deref_def set_next_def Let_def
        split: option.splits if_splits)
  define keep where "keep = (\<lambda>s2 :: 'a rate_scheme.
      if prior AND NO_RTX = 0 then add_rtx env a s2 else Some (destroyPacketContainer (Some a) s2))"
  define send_now where "send_now = (\<lambda>s2 :: 'a rate_scheme. case keep s2 of
        None \<Rightarrow> None | Some (Inl e) \<Rightarrow> Some (Inl e)
      | Some (Inr s4) \<Rightarrow> (let (r, v1, s5) = sendPacket env sock v addr s4 in Some (Inr (r, s5))))"
  have sn: "rate.more s' = rate.more t" if sent: "send_now t = Some (Inr (r, s'))" for t
  proof -
    obtain s4 where s4: "keep t = Some (Inr s4)"
      using sent by (auto simp: send_now_def split: option.splits sum.splits)
    then have "rate.more s4 = rate.more t" by (auto simp: keep_def dest: add_rtx_more destroy_more split: if_splits)
    moreover obtain r' v1 s5 where s5: "sendPacket env sock v addr s4 = (r', v1, s5)" using prod_cases3 by blast
    moreover have "s5 = s'" using sent s4 s5 by (simp add: send_now_def)
    ultimately show ?thesis using send by metis
  qed
  have q: "Some (Inr (r, s')) = (if prior AND HP = 0 then
           (if \<not> isQueueEmpty s1 then Some (addPacketTXqueue a s1)
            else if ro \<noteq> OK then Some (res_bind (planFreeSpaceInBucketEvent (iov_len v) s2) (addPacketTXqueue a))
            else send_now s2)
         else send_now s1)"
    using assms unfolding queueOrSendPacket_def c o Let_def prod.case send_now_def keep_def by simp
  have w: "rate.more s' = rate.more s2"
    if "res_bind (planFreeSpaceInBucketEvent (iov_len v) s2) (addPacketTXqueue a) = Inr (r, s')"
  proof -
    from that obtain s3 where "planFreeSpaceInBucketEvent (iov_len v) s2 = Inr s3" "addPacketTXqueue a s3 = Inr (r, s')"
      by (metis res_bind_Inr)
    with enq plan show ?thesis by metis
  qed
  from q consider "addPacketTXqueue a s1 = Inr (r, s')"
    | "res_bind (planFreeSpaceInBucketEvent (iov_len v) s2) (addPacketTXqueue a) = Inr (r, s')"
    | "send_now s2 = Some (Inr (r, s'))" | "send_now s1 = Some (Inr (r, s'))"
    by (metis option.inject)
  then show ?thesis using w enq sn m1 m2 by cases metis+
qed

text \<open>The fields of the layer, which only depend on \<open>rate.more\<close>.\<close>

lemma ml_same_more:
  fixes s s' :: "'a ml_scheme" assumes "rate.more s' = rate.more s"
  shows "connectbuf s' = connectbuf s" "recvdatabuf s' = recvdatabuf s" "socketfd s' = socketfd s"
    "local_socketID s' = local_socketID s" "recvcbbuf s' = recvcbbuf s" "once s' = once s" "trace s' = trace s"
    "ml.more s' = ml.more s" "recv_timeout s' = recv_timeout s" "NAT_traversal s' = NAT_traversal s"
    "receive_Connection_cb s' = receive_Connection_cb s" "failed_Connection_cb s' = failed_Connection_cb s"
    "recv_data_callback s' = recv_data_callback s"
  using assms by (cases s; cases s'; simp)+

lemmas queueOrSendPacket_ml = ml_same_more [OF queueOrSendPacket_more]

section \<open>send_msg returns\<close>

definition hooks_ok :: "'e ml_env_scheme \<Rightarrow> bool" where
  "hooks_ok env \<longleftrightarrow> length (stack_h_pkt env) = MON_HEADER_SPACE \<and> length (stack_h_data env) = MON_HEADER_SPACE
     \<and> (\<forall>f sid t. set_Monitoring_header_pkt_cb env = Some f \<longrightarrow> f sid t \<le> MON_HEADER_SPACE)
     \<and> (\<forall>f sid t. set_Monitoring_header_data_cb env = Some f \<longrightarrow> f sid t \<le> MON_HEADER_SPACE)"

definition send_ready :: "send_job \<Rightarrow> int \<Rightarrow> 'a ml_scheme \<Rightarrow> bool" where
  "send_ready job p s \<longleftrightarrow> tx_safe s \<and> awake s \<and> 1472 \<le> RTXmaxSize s \<and> p \<in> pmtu_values
     \<and> (\<exists>c. conn (sj_con_id job) s = Inr c \<and> pmtusize c = p)"

definition job_ok :: "send_job \<Rightarrow> bool" where
  "job_ok job \<longleftrightarrow> sj_msg_len job = int (length (sj_msg job))"

lemma pkt_room_value:
  assumes "-(2 ^ 31) \<le> pmtu - int l2 - int l1 - 23" "pmtu - int l2 - int l1 - 23 < 2 ^ 31"
  shows "pkt_room pmtu l2 l1 = pmtu - int l2 - int l1 - 23"
proof -
  have "int MSG_HEADER_SIZE = 23" by (simp add: MSG_HEADER_SIZE_def)
  then show ?thesis unfolding pkt_room_def using sint_of_int32 [OF assms] by (simp only:)
qed

lemma pmtu_bounds: "p \<in> pmtu_values \<Longrightarrow> 472 \<le> p \<and> p \<le> 1472"
  by (auto simp: pmtu_values_def)

lemma pkt_hdr_len_le: "hooks_ok env \<Longrightarrow> pkt_hdr_len env job c \<le> MON_HEADER_SPACE"
  by (auto simp: hooks_ok_def pkt_hdr_len_def split: option.splits)

lemma data_header_ok:
  assumes "hooks_ok env" shows "\<exists>hdr. data_header env job sp c = Inr hdr \<and> length hdr \<le> MON_HEADER_SPACE"
proof -
  define n where "n = (case set_Monitoring_header_data_cb env of None \<Rightarrow> 0
               | Some f \<Rightarrow> f (external_socketID c) (sj_msg_type job))"
  have "n \<le> MON_HEADER_SPACE" "length (stack_h_data env) = MON_HEADER_SPACE"
    using assms by (auto simp: hooks_ok_def n_def split: option.splits)
  then show ?thesis
    by (auto simp: data_header_def n_def [symmetric] Let_def split: option.splits)
qed

text \<open>The fragment at offset \<open>off\<close>, for a path MTU in the table.\<close>

lemma frag_iov_ok:
  assumes "hooks_ok env" "job_ok job" "pmtusize c \<in> pmtu_values" "length hdr \<le> MON_HEADER_SPACE"
    and "0 \<le> off" "off \<le> sj_msg_len job"
  shows "\<exists>v n. frag_iov env job ld hdr off c = Inr v \<and> length v = 4 \<and> iov_len v \<le> 1472
    \<and> length (v ! 3) = n \<and> off + int n \<le> sj_msg_len job \<and> (off < sj_msg_len job \<longrightarrow> 0 < n)"
proof -
  let ?lp = "pkt_hdr_len env job c"
  let ?len = "min (pkt_room (pmtusize c) (length hdr) ?lp) (sj_msg_len job - off)"
  have p: "472 \<le> pmtusize c" "pmtusize c \<le> 1472" using pmtu_bounds assms(3) by auto
  have l1: "?lp \<le> 32" and hdr: "length hdr \<le> 32" and st: "length (stack_h_pkt env) = 32"
    using pkt_hdr_len_le [OF assms(1)] assms(1,4) by (auto simp: hooks_ok_def MON_HEADER_SPACE_def)
  have room: "pkt_room (pmtusize c) (length hdr) ?lp = pmtusize c - int (length hdr) - int ?lp - 23"
    using p l1 hdr by (intro pkt_room_value) auto
  then have r: "0 < pkt_room (pmtusize c) (length hdr) ?lp" using p l1 hdr by linarith
  have len: "0 \<le> ?len" "off + ?len \<le> int (length (sj_msg job))"
    using r assms(2,6) by (auto simp: job_ok_def)
  let ?pl = "take (nat ?len) (drop (nat off) (sj_msg job))"
  have "mem_read (sj_msg job) off ?len = Inr ?pl"
    using len assms(5) by (simp add: mem_read_def)
  then have v: "frag_iov env job ld hdr off c
      = Inr [encode_header (frag_header job ld ?lp off ?len), take ?lp (stack_h_pkt env), hdr, ?pl]"
    using l1 st by (simp add: frag_iov_def Let_def)
  have pl: "length ?pl = nat ?len"
    using len assms(5,6) by (simp add: nat_le_eq_zle)
  let ?v = "[encode_header (frag_header job ld ?lp off ?len), take ?lp (stack_h_pkt env), hdr, ?pl]"
  have "iov_len ?v \<le> 1472"
    using pl len(1) l1 st p(2) room header.length_enc
    by (simp add: iov_len_def MSG_HEADER_SIZE_def eval_nat_numeral)
  moreover have "off + int (nat ?len) \<le> sj_msg_len job" "off < sj_msg_len job \<longrightarrow> 0 < nat ?len"
    using len(1) r by auto
  moreover have "length ?v = 4" "?v ! 3 = ?pl" by (simp_all add: eval_nat_numeral)
  ultimately show ?thesis
    using v pl by (intro exI [of _ ?v] exI [of _ "nat ?len"]) simp
qed

lemma set_conn_ready:
  "tx_safe (set_conn i c s) = tx_safe s" "awake (set_conn i c s) = awake s"
  "RTXmaxSize (set_conn i c s) = RTXmaxSize s"
  by (simp_all add: set_conn_def tx_safe_def awake_def isQueueEmpty_def queues_inv_def)

lemma conn_set_conn: "conn i s = Inr c \<Longrightarrow> conn i (set_conn i c' s) = Inr c'"
  by (simp add: conn_Inr set_conn_def)

lemma send_frag_ok:
  assumes "hooks_ok env" "job_ok job" "send_ready job p s" "length hdr \<le> MON_HEADER_SPACE"
    and "0 \<le> off" "off \<le> sj_msg_len job"
  shows "\<exists>out s1. send_frag env job ld hdr off s = Some (Inr (out, s1))
    \<and> (case out of
         Sent off1 \<Rightarrow> send_ready job p s1 \<and> off \<le> off1 \<and> off1 \<le> sj_msg_len job \<and> (off < sj_msg_len job \<longrightarrow> off < off1)
       | Give_up True \<Rightarrow> pmtu_decrement p \<in> pmtu_values \<and> send_ready job (pmtu_decrement p) s1
       | Give_up False \<Rightarrow> tx_safe s1 \<and> awake s1)"
proof -
  obtain c where c: "conn (sj_con_id job) s = Inr c" "pmtusize c = p" "p \<in> pmtu_values"
    using assms(3) by (auto simp: send_ready_def)
  obtain v n where v: "frag_iov env job ld hdr off c = Inr v" "length v = 4" "iov_len v \<le> 1472"
    "length (v ! 3) = n" "off + int n \<le> sj_msg_len job" "off < sj_msg_len job \<longrightarrow> 0 < n"
    using frag_iov_ok [OF assms(1,2) _ assms(4-6), of c ld] c by auto
  have st: "tx_safe s" "awake s" "iov_len v \<le> RTXmaxSize s" using assms(3) v(3) by (auto simp: send_ready_def)
  obtain r s1 where q: "queueOrSendPacket env (socketfd s) v 4 (sj_addr job) (job_priority job) s = Some (Inr (r, s1))"
    "tx_safe s1" "RTXmaxSize s1 = RTXmaxSize s"
    using queueOrSendPacket_safe [OF st(1) v(2) st(3) st(2)] by blast
  have aw: "awake s1" by (rule queueOrSendPacket_awake(2) [OF q(1) st(2) refl])
  have c1: "conn (sj_con_id job) s1 = Inr c"
    using queueOrSendPacket_ml(1) [OF q(1)] c(1) by (simp add: conn_Inr)
  have sf: "send_frag env job ld hdr off s = Some (after_submit job off v r s1)"
    using c(1) v(1) q(1) by (simp add: send_frag_def)
  have ready1: "send_ready job p s1" using q(2,3) aw c1 c(2,3) assms(3) by (auto simp: send_ready_def)
  show ?thesis
  proof (cases r)
    case OK
    have "send_ready job p (s1\<lparr> sentDataPktCounter := x \<rparr>)" for x
      using ready1 by (simp add: send_ready_def tx_safe_def awake_def isQueueEmpty_def queues_inv_def conn_def)
    with OK sf v ready1 show ?thesis by (simp add: after_submit_def)
  next
    case MSGLEN
    show ?thesis
    proof (cases "pmtu_decrement p > 0")
      case True
      let ?c = "c\<lparr> pmtusize := pmtu_decrement p, delay := True \<rparr>"
      have "send_ready job (pmtu_decrement p) (set_conn (sj_con_id job) ?c s1)"
        using q(2,3) aw assms(3) conn_set_conn [OF c1, of ?c] pmtu_decrement_values [OF c(3) True]
        by (simp add: send_ready_def set_conn_ready)
      with MSGLEN sf c1 c(2) True pmtu_decrement_values [OF c(3) True] show ?thesis
        by (simp add: after_submit_def Let_def)
    next
      case False
      with MSGLEN sf c1 c(2) q(2) aw show ?thesis
        by (simp add: after_submit_def Let_def set_conn_ready)
    qed
  qed (use sf q(2) aw in \<open>simp_all add: after_submit_def\<close>)
qed

lemma send_frags_ok:
  assumes "hooks_ok env" "job_ok job" "send_ready job p s" "length hdr \<le> MON_HEADER_SPACE"
    and "0 \<le> off" "off \<le> sj_msg_len job"
  shows "\<exists>retry s1. send_frags env job ld hdr off s = Some (Inr (retry, s1)) \<and> tx_safe s1 \<and> awake s1
    \<and> (retry \<longrightarrow> pmtu_decrement p \<in> pmtu_values \<and> send_ready job (pmtu_decrement p) s1)"
  using assms
proof (induction "nat (sj_msg_len job - off)" arbitrary: off hdr s rule: less_induct)
  case less
  obtain out s1 where f: "send_frag env job ld hdr off s = Some (Inr (out, s1))"
    and out: "case out of
         Sent off1 \<Rightarrow> send_ready job p s1 \<and> off \<le> off1 \<and> off1 \<le> sj_msg_len job \<and> (off < sj_msg_len job \<longrightarrow> off < off1)
       | Give_up True \<Rightarrow> pmtu_decrement p \<in> pmtu_values \<and> send_ready job (pmtu_decrement p) s1
       | Give_up False \<Rightarrow> tx_safe s1 \<and> awake s1"
    using send_frag_ok [OF less.prems] by blast
  show ?case
  proof (cases out)
    case (Give_up b)
    with f out show ?thesis
      by (subst send_frags.simps) (auto simp: send_ready_def split: bool.splits)
  next
    case (Sent off1)
    with out have o: "send_ready job p s1" "off \<le> off1" "off1 \<le> sj_msg_len job" "off < sj_msg_len job \<longrightarrow> off < off1"
      by auto
    have step: "send_frags env job ld hdr off s =
        (if off1 \<noteq> sj_msg_len job \<and> \<not> sj_truncable job then send_frags env job ld [] off1 s1 else Some (Inr (False, s1)))"
      using f Sent by (subst send_frags.simps) simp
    show ?thesis
    proof (cases "off1 \<noteq> sj_msg_len job \<and> \<not> sj_truncable job")
      case True
      then have lt: "nat (sj_msg_len job - off1) < nat (sj_msg_len job - off)" "0 \<le> off1"
        using o(2-4) less.prems(5,6) by auto
      have hl: "length ([] :: byte list) \<le> MON_HEADER_SPACE" by simp
      from True less.hyps [OF lt(1) less.prems(1,2) o(1) hl lt(2) o(3)] step show ?thesis by simp
    next
      case False
      with step o(1) show ?thesis by (auto simp: send_ready_def)
    qed
  qed
qed

lemma send_loop_ok:
  assumes "hooks_ok env" "job_ok job" "send_ready job p s"
  shows "\<exists>s1. send_loop env job sp s = Some (Inr s1) \<and> tx_safe s1 \<and> awake s1"
  using assms(3)
proof (induction "nat p" arbitrary: p s rule: less_induct)
  case less
  obtain c where c: "conn (sj_con_id job) s = Inr c" using less.prems by (auto simp: send_ready_def)
  obtain hdr where h: "data_header env job sp c = Inr hdr" "length hdr \<le> MON_HEADER_SPACE"
    using data_header_ok [OF assms(1)] by blast
  have "0 \<le> sj_msg_len job" using assms(2) by (simp add: job_ok_def)
  then obtain retry s1 where f: "send_frags env job (word_of_nat (length hdr)) hdr 0 s = Some (Inr (retry, s1))"
    "tx_safe s1" "awake s1" "retry \<longrightarrow> pmtu_decrement p \<in> pmtu_values \<and> send_ready job (pmtu_decrement p) s1"
    using send_frags_ok [OF assms(1,2) less.prems h(2), of 0 "word_of_nat (length hdr)"] by auto
  have step: "send_loop env job sp s = (if retry then send_loop env job sp s1 else Some (Inr s1))"
    using c h(1) f(1) by (subst send_loop.simps) simp
  show ?case
  proof (cases retry)
    case True
    have "p \<in> pmtu_values" using less.prems by (auto simp: send_ready_def)
    then have "nat (pmtu_decrement p) < nat p"
      using pmtu_decrement_less [of p] pmtu_bounds [of p] by (simp add: nat_less_eq_zless)
    with less.hyps [of "pmtu_decrement p" s1] True f(4) step show ?thesis by simp
  qed (use step f in simp)
qed

lemma send_msg_ok:
  assumes "hooks_ok env" "conn cid s = Inr c" "pmtusize c \<in> pmtu_values" "tx_safe s" "awake s" "1472 \<le> RTXmaxSize s"
  shows "\<exists>s1. send_msg env cid mtype msg (int (length msg)) trunc sp s = Some (Inr s1) \<and> tx_safe s1 \<and> awake s1"
proof -
  let ?job = "make_job c cid mtype msg (int (length msg)) trunc"
  have "send_ready ?job (pmtusize c) (set_conn cid (c\<lparr> seqnr := seqnr c + 1 \<rparr>) s)"
    using assms conn_set_conn [OF assms(2), of "c\<lparr> seqnr := seqnr c + 1 \<rparr>"]
    by (simp add: send_ready_def set_conn_ready make_job_def)
  moreover have "job_ok ?job" by (simp add: job_ok_def make_job_def)
  ultimately show ?thesis using send_loop_ok [OF assms(1)] assms(2) by (simp add: send_msg_def)
qed

text \<open>C14: \<open>send_msg\<close> always returns and commits no memory error, whatever the network answers and
  whatever the rate limiter does, for any message and any connection whose path MTU is one of the
  values of the enumeration, with monitoring headers of at most the reserved 32 bytes: every
  retry lowers the MTU and every fragment carries at least one byte. It keeps the transmit path safe:
  afterwards the queues are well-formed again, every waiting packet fits the retransmit queue, and
  an event is planned whenever a packet waits.\<close>

theorem send_msg_returns:
  assumes "hooks_ok env" "conn cid s = Inr c" "pmtusize c \<in> pmtu_values" "tx_safe s" "awake s" "1472 \<le> RTXmaxSize s"
  shows "\<exists>s1. send_msg env cid mtype msg (int (length msg)) trunc sp s = Some (Inr s1) \<and> tx_safe s1 \<and> awake s1"
  by (rule send_msg_ok [OF assms])

lemma menv0_hooks: "hooks_ok menv0"
  by (simp add: hooks_ok_def MON_HEADER_SPACE_def)

lemma conn0_pmtu: "pmtusize conn0 \<in> pmtu_values"
  by (simp add: conn0_def pmtu_values_def)

lemma send_msg_returns_witness:
  "\<exists>s1. send_msg menv0 0 5 [1,2,3] (int (length ([1,2,3] :: byte list))) False params0 ml0 = Some (Inr s1)
    \<and> tx_safe s1 \<and> awake s1"
  by (rule send_msg_returns [OF menv0_hooks conn_ml0 conn0_pmtu ml0_safe]) simp

section \<open>What goes on the wire\<close>

text \<open>
  The abstract fragmentation: the first fragment has room \<open>r0\<close>, the others \<open>r\<close>; an empty message is
  one empty fragment.
\<close>

function fragment :: "nat \<Rightarrow> nat \<Rightarrow> nat \<Rightarrow> byte list \<Rightarrow> (nat \<times> byte list) list" where
  "fragment r0 r off bs =
     (if length bs \<le> r0 \<or> r0 = 0 then [(off, bs)]
      else (off, take r0 bs) # fragment r r (off + r0) (drop r0 bs))"
  by auto
termination by (relation "measure (\<lambda>(r0, r, off, bs). length bs)") auto

declare fragment.simps [simp del]

lemma fragment_concat: "concat (map snd (fragment r0 r off bs)) = bs"
  by (induction r0 r off bs rule: fragment.induct) (subst fragment.simps, simp)

definition unlimited :: "'e env_scheme \<Rightarrow> 'a rate_scheme \<Rightarrow> bool" where
  "unlimited env s \<longleftrightarrow> tx_safe s \<and> tx_head s = None \<and> drain_rate s \<le> 0 \<and> send_pkt_inf env = None
     \<and> (\<forall>w d. net env w d = None)"

text \<open>With an empty transmit queue and no limit a packet goes straight to the socket.\<close>

lemma queueOrSendPacket_idle:
  fixes s :: "'a rate_scheme"
  assumes s: "tx_safe s" "tx_head s = None" "drain_rate s \<le> 0"
    and v: "length v = 4" "iov_len v \<le> RTXmaxSize s" and p: "prior AND HP = 0"
  obtains r s' s4 v1 where "queueOrSendPacket env sock v 4 addr prior s = Some (Inr (r, s'))" "tx_safe s'"
    "RTXmaxSize s' = RTXmaxSize s" "sendPacket env sock v addr s4 = (r, v1, s')"
    "tx_head s4 = None" "drain_rate s4 = drain_rate s" "wire s4 = wire s"
proof -
  have aw: "awake s" using s(2) by (simp add: awake_def isQueueEmpty_def)
  obtain r s' where q: "queueOrSendPacket env sock v 4 addr prior s = Some (Inr (r, s'))" "tx_safe s'"
    "RTXmaxSize s' = RTXmaxSize s"
    using queueOrSendPacket_safe [OF s(1) v aw] by blast
  obtain a s1 where c: "createPacketContainer sock v 4 addr prior s = (a, s1)" by fastforce
  note cf = createPacketContainer_frame [OF c]
  have w1: "wire s1 = wire s" using c by (auto simp: createPacketContainer_def Let_def)
  obtain s2 where o: "outputRateControl env (iov_len v) s1 = (OK, s2)"
    using s(3) cf(3) by (simp add: outputRateControl_def gettimeofday_def Let_def)
  note og = outputRateControl_frame [OF o]
  define keep where "keep = (if prior AND NO_RTX = 0 then add_rtx env a s2 else Some (destroyPacketContainer (Some a) s2))"
  have e: "isQueueEmpty s1" using s(2) cf(1) by (simp add: isQueueEmpty_def)
  have qk: "queueOrSendPacket env sock v 4 addr prior s = (case keep of
        None \<Rightarrow> None | Some (Inl e) \<Rightarrow> Some (Inl e)
      | Some (Inr s4) \<Rightarrow> (let (r, v1, s5) = sendPacket env sock v addr s4 in Some (Inr (r, s5))))"
    unfolding queueOrSendPacket_def c o Let_def prod.case keep_def using p e by simp
  then obtain s4 where k: "keep = Some (Inr s4)" using q(1) by (auto split: option.splits sum.splits)
  have "tx_head s4 = tx_head s2 \<and> drain_rate s4 = drain_rate s2 \<and> wire s4 = wire s2"
  proof (cases "prior AND NO_RTX = 0")
    case True
    then have "frame (s2\<lparr> ticks := Suc (Suc (ticks s2)) \<rparr>) (Inr s4)"
      using k by (auto simp: keep_def add_rtx_def gettimeofday_def dest: addPacketRTXqueue_frame)
    then show ?thesis by (auto dest: same_tx_rate)
  next
    case False
    then show ?thesis using k frame_destroy [of s2 "Some a"] by (auto simp: keep_def dest: same_tx_rate)
  qed
  then have s4: "tx_head s4 = None" "drain_rate s4 = drain_rate s" "wire s4 = wire s"
    using og(1,3,4) cf(1,3) w1 s by simp_all
  obtain v1 where "sendPacket env sock v addr s4 = (r, v1, s')"
    using q(1) qk k by (cases "sendPacket env sock v addr s4") simp
  then show ?thesis using q s4 by (intro that)
qed

lemma queueOrSendPacket_unlimited:
  fixes s :: "'a rate_scheme"
  assumes u: "unlimited env s" and v: "length v = 4" "iov_len v \<le> RTXmaxSize s" and p: "prior AND HP = 0"
  shows "\<exists>s'. queueOrSendPacket env sock v 4 addr prior s = Some (Inr (OK, s'))
    \<and> wire s' = wire s @ [(sock, v, addr)] \<and> unlimited env s' \<and> RTXmaxSize s' = RTXmaxSize s"
proof -
  have s: "tx_safe s" "tx_head s = None" "drain_rate s \<le> 0" "send_pkt_inf env = None" "\<And>w d. net env w d = None"
    using u by (auto simp: unlimited_def)
  obtain r s' s4 v1 where q: "queueOrSendPacket env sock v 4 addr prior s = Some (Inr (r, s'))" "tx_safe s'"
    "RTXmaxSize s' = RTXmaxSize s" "sendPacket env sock v addr s4 = (r, v1, s')"
    "tx_head s4 = None" "drain_rate s4 = drain_rate s" "wire s4 = wire s"
    by (rule queueOrSendPacket_idle [OF s(1-3) v p])
  have "r = OK" "s' = s4\<lparr> wire := wire s4 @ [(sock, v, addr)] \<rparr>"
    using q(4) s(4,5) by (auto simp: sendPacket_def sendPacketFinal_def Let_def)
  then show ?thesis using q s by (auto simp: unlimited_def)
qed

lemma queueOrSendPacket_too_long:
  fixes s :: "'a rate_scheme"
  assumes s: "tx_safe s" "tx_head s = None" "drain_rate s \<le> 0" "send_pkt_inf env = None" "\<And>w d. net env w d = Some EMSGSIZE"
    and v: "length v = 4" "iov_len v \<le> RTXmaxSize s" and p: "prior AND HP = 0"
  obtains s' where "queueOrSendPacket env sock v 4 addr prior s = Some (Inr (MSGLEN, s'))"
proof -
  obtain r s' s4 v1 where q: "queueOrSendPacket env sock v 4 addr prior s = Some (Inr (r, s'))"
    "sendPacket env sock v addr s4 = (r, v1, s')"
    by (rule queueOrSendPacket_idle [OF s(1-3) v p])
  have "r = MSGLEN" using q(2) s(4,5) by (simp add: sendPacket_def sendPacketFinal_def Let_def)
  then show ?thesis using q(1) by (intro that) simp
qed

lemma drain_connectbuf [simp]:
  "unlimited env (set_conn i c s) = unlimited env s"
  "unlimited env (s\<lparr> sentDataPktCounter := n \<rparr>) = unlimited env s"
  by (simp_all add: unlimited_def set_conn_def tx_safe_def queues_inv_def)

text \<open>The datagram of the fragment at offset \<open>off\<close> with the bytes \<open>bs\<close>.\<close>

definition frag_dgram :: "'e ml_env_scheme \<Rightarrow> int \<Rightarrow> send_job \<Rightarrow> connect_data \<Rightarrow> byte list \<Rightarrow> nat \<times> byte list \<Rightarrow> datagram" where
  "frag_dgram env sock job c h_data ob =
     (let l1 = pkt_hdr_len env job c
      in (sock, [encode_header (frag_header job (word_of_nat (length h_data)) l1 (int (fst ob)) (int (length (snd ob)))),
                 take l1 (stack_h_pkt env), if fst ob = 0 then h_data else [], snd ob], sj_addr job))"

definition frag_rooms :: "'e ml_env_scheme \<Rightarrow> send_job \<Rightarrow> connect_data \<Rightarrow> byte list \<Rightarrow> nat \<times> nat" where
  "frag_rooms env job c h_data =
     (nat (pmtusize c) - length h_data - pkt_hdr_len env job c - 23, nat (pmtusize c) - pkt_hdr_len env job c - 23)"

lemma frag_iov_value:
  assumes "hooks_ok env" "job_ok job" "pmtusize c \<in> pmtu_values" "length hdr \<le> MON_HEADER_SPACE"
    and "off \<le> length (sj_msg job)"
  shows "frag_iov env job ld hdr (int off) c =
    (let l1 = pkt_hdr_len env job c; bs = take (nat (pmtusize c) - length hdr - l1 - 23) (drop off (sj_msg job))
     in Inr [encode_header (frag_header job ld l1 (int off) (int (length bs))), take l1 (stack_h_pkt env), hdr, bs])"
proof -
  let ?lp = "pkt_hdr_len env job c"
  have p: "472 \<le> pmtusize c" "pmtusize c \<le> 1472" using pmtu_bounds assms(3) by auto
  have l1: "?lp \<le> 32" and hdr: "length hdr \<le> 32" and st: "length (stack_h_pkt env) = 32"
    using pkt_hdr_len_le [OF assms(1)] assms(1,4) by (auto simp: hooks_ok_def MON_HEADER_SPACE_def)
  have room: "pkt_room (pmtusize c) (length hdr) ?lp = int (nat (pmtusize c) - length hdr - ?lp - 23)"
    using p l1 hdr by (subst pkt_room_value) auto
  let ?n = "min (nat (pmtusize c) - length hdr - ?lp - 23) (length (sj_msg job) - off)"
  have mn: "min (int (nat (pmtusize c) - length hdr - ?lp - 23)) (sj_msg_len job - int off) = int ?n"
    using assms(2,5) by (auto simp: job_ok_def min_def)
  have rd: "mem_read (sj_msg job) (int off) (int ?n)
      = Inr (take (nat (pmtusize c) - length hdr - ?lp - 23) (drop off (sj_msg job)))"
    using assms(5) by (cases "nat (pmtusize c) - length hdr - ?lp - 23 \<le> length (sj_msg job) - off")
      (simp_all add: mem_read_def)
  have ln: "length (take (nat (pmtusize c) - length hdr - ?lp - 23) (drop off (sj_msg job))) = ?n" by simp
  show ?thesis
    unfolding frag_iov_def Let_def room mn rd ln using l1 st by simp
qed

lemma after_submit_OK_fields:
  assumes "after_submit job off v OK s = Inr (out, s1)"
  shows "out = Sent (off + int (length (v ! 3)))" "unlimited env s1 = unlimited env s" "wire s1 = wire s"
    "connectbuf s1 = connectbuf s" "socketfd s1 = socketfd s" "RTXmaxSize s1 = RTXmaxSize s"
  using assms by (auto simp: after_submit_def split: if_splits)

lemma send_frag_unlimited:
  assumes "hooks_ok env" "job_ok job" "unlimited env s" "1472 \<le> RTXmaxSize s" "job_priority job AND HP = 0"
    and "conn (sj_con_id job) s = Inr c" "pmtusize c \<in> pmtu_values" "length hdr \<le> MON_HEADER_SPACE"
    and "off \<le> length (sj_msg job)"
  defines "bs \<equiv> take (nat (pmtusize c) - length hdr - pkt_hdr_len env job c - 23) (drop off (sj_msg job))"
  shows "\<exists>s1. send_frag env job ld hdr (int off) s = Some (Inr (Sent (int (off + length bs)), s1))
    \<and> wire s1 = wire s @ [(socketfd s, [encode_header (frag_header job ld (pkt_hdr_len env job c) (int off) (int (length bs))),
          take (pkt_hdr_len env job c) (stack_h_pkt env), hdr, bs], sj_addr job)]
    \<and> unlimited env s1 \<and> connectbuf s1 = connectbuf s \<and> socketfd s1 = socketfd s \<and> RTXmaxSize s1 = RTXmaxSize s"
proof -
  let ?v = "[encode_header (frag_header job ld (pkt_hdr_len env job c) (int off) (int (length bs))),
          take (pkt_hdr_len env job c) (stack_h_pkt env), hdr, bs]"
  have v: "frag_iov env job ld hdr (int off) c = Inr ?v"
    using frag_iov_value [OF assms(1,2,7-9)] by (simp add: Let_def bs_def)
  have "int off \<le> sj_msg_len job" using assms(2,9) by (simp add: job_ok_def)
  then have len: "length ?v = 4" "iov_len ?v \<le> 1472"
    using frag_iov_ok [OF assms(1,2,7,8), of "int off" ld] v by auto
  have fit: "iov_len ?v \<le> RTXmaxSize s" using len(2) assms(4) by linarith
  obtain s1 where q: "queueOrSendPacket env (socketfd s) ?v 4 (sj_addr job) (job_priority job) s = Some (Inr (OK, s1))"
    "wire s1 = wire s @ [(socketfd s, ?v, sj_addr job)]" "unlimited env s1" "RTXmaxSize s1 = RTXmaxSize s"
    using queueOrSendPacket_unlimited [OF assms(3) len(1) fit assms(5)] by blast
  obtain out s2 where a: "after_submit job (int off) ?v OK s1 = Inr (out, s2)" by (simp add: after_submit_def)
  have "send_frag env job ld hdr (int off) s = Some (Inr (out, s2))"
    using assms(6) v q(1) a by (simp add: send_frag_def)
  then show ?thesis
    using after_submit_OK_fields(1,3-) [OF a] after_submit_OK_fields(2) [OF a, of env] q queueOrSendPacket_ml [OF q(1)] by (simp add: eval_nat_numeral)
qed

lemma send_frags_unlimited:
  assumes "hooks_ok env" "job_ok job" "unlimited env s" "1472 \<le> RTXmaxSize s" "job_priority job AND HP = 0"
    and "conn (sj_con_id job) s = Inr c" "pmtusize c \<in> pmtu_values" "length hdr \<le> MON_HEADER_SPACE"
    and "\<not> sj_truncable job" "off \<le> length (sj_msg job)"
    and "hdr = (if off = 0 then h_data else [])"
  shows "\<exists>s1. send_frags env job (word_of_nat (length h_data)) hdr (int off) s = Some (Inr (False, s1))
    \<and> wire s1 = wire s @ map (frag_dgram env (socketfd s) job c h_data)
        (fragment (nat (pmtusize c) - length hdr - pkt_hdr_len env job c - 23)
           (nat (pmtusize c) - pkt_hdr_len env job c - 23) off (drop off (sj_msg job)))
    \<and> unlimited env s1 \<and> connectbuf s1 = connectbuf s"
  using assms(3,4,6,8,10,11)
proof (induction "length (sj_msg job) - off" arbitrary: off hdr s rule: less_induct)
  case less
  let ?lp = "pkt_hdr_len env job c"
  let ?first = "nat (pmtusize c) - length hdr - ?lp - 23" and ?r = "nat (pmtusize c) - ?lp - 23"
  let ?rest = "drop off (sj_msg job)"
  let ?bs = "take ?first ?rest"
  let ?d = "frag_dgram env (socketfd s) job c h_data"
  have r0: "0 < ?first"
  proof -
    have "472 \<le> nat (pmtusize c)" using pmtu_bounds [OF assms(7)] by linarith
    then show ?thesis
      using pkt_hdr_len_le [OF assms(1), of job c] less.prems(4) unfolding MON_HEADER_SPACE_def by linarith
  qed
  have dg: "?d (off, ?bs) = (socketfd s, [encode_header (frag_header job (word_of_nat (length h_data)) ?lp (int off)
      (int (length ?bs))), take ?lp (stack_h_pkt env), hdr, ?bs], sj_addr job)"
    using less.prems(6) by (simp add: frag_dgram_def Let_def)
  obtain s1 where f: "send_frag env job (word_of_nat (length h_data)) hdr (int off) s
        = Some (Inr (Sent (int (off + length ?bs)), s1))"
    "wire s1 = wire s @ [?d (off, ?bs)]"
    "unlimited env s1" "connectbuf s1 = connectbuf s" "socketfd s1 = socketfd s" "RTXmaxSize s1 = RTXmaxSize s"
    using send_frag_unlimited [OF assms(1,2) less.prems(1,2) assms(5) less.prems(3) assms(7) less.prems(4,5),
        where ld = "word_of_nat (length h_data)"] unfolding dg by blast
  show ?case
  proof (cases "length ?rest \<le> ?first")
    case True
    then have "int (off + length ?bs) = sj_msg_len job" using assms(2) less.prems(5) by (simp add: job_ok_def)
    moreover have "fragment ?first ?r off ?rest = [(off, ?bs)]" using True by (simp add: fragment.simps)
    ultimately show ?thesis using f by (subst send_frags.simps) simp
  next
    case False
    let ?off = "off + ?first"
    have lb: "length ?bs = ?first" using False by simp
    have o1: "int (off + length ?bs) \<noteq> sj_msg_len job" using False assms(2) lb by (simp add: job_ok_def)
    have step: "send_frags env job (word_of_nat (length h_data)) hdr (int off) s
        = send_frags env job (word_of_nat (length h_data)) [] (int ?off) s1"
      using f(1) o1 assms(9) lb by (subst send_frags.simps) simp
    have c1: "conn (sj_con_id job) s1 = Inr c" using less.prems(3) f(4) by (simp add: conn_Inr)
    have lt: "length (sj_msg job) - ?off < length (sj_msg job) - off" "?off \<le> length (sj_msg job)" "0 < ?off"
      using False r0 by auto
    have R1: "1472 \<le> RTXmaxSize s1" using f(6) less.prems(2) by simp
    have "fragment ?first ?r off ?rest = (off, ?bs) # fragment ?r ?r ?off (drop ?off (sj_msg job))"
      using False r0 by (subst fragment.simps) (simp add: add.commute)
    moreover obtain s2 where "send_frags env job (word_of_nat (length h_data)) [] (int ?off) s1 = Some (Inr (False, s2))"
      "wire s2 = wire s1 @ map (frag_dgram env (socketfd s1) job c h_data) (fragment ?r ?r ?off (drop ?off (sj_msg job)))"
      "unlimited env s2" "connectbuf s2 = connectbuf s1"
      using less.hyps [OF lt(1) f(3) R1 c1 _ lt(2), of "[]"] lt(3) by auto
    ultimately show ?thesis using f step by simp
  qed
qed

lemma job_priority_low: "job_priority job AND HP = 0"
  by (simp add: job_priority_def HP_def NO_RTX_def)

lemma seqnr_irrelevant [simp]:
  "data_header env job sp (c\<lparr> seqnr := q \<rparr>) = data_header env job sp c"
  "pkt_hdr_len env job (c\<lparr> seqnr := q \<rparr>) = pkt_hdr_len env job c"
  "frag_dgram env sock job (c\<lparr> seqnr := q \<rparr>) h ob = frag_dgram env sock job c h ob"
proof -
  have e: "external_socketID (c\<lparr> seqnr := q \<rparr>) = external_socketID c" by simp
  show "data_header env job sp (c\<lparr> seqnr := q \<rparr>) = data_header env job sp c"
    and p: "pkt_hdr_len env job (c\<lparr> seqnr := q \<rparr>) = pkt_hdr_len env job c"
    unfolding data_header_def pkt_hdr_len_def e by (rule refl)+
  show "frag_dgram env sock job (c\<lparr> seqnr := q \<rparr>) h ob = frag_dgram env sock job c h ob"
    unfolding frag_dgram_def p by (rule refl)
qed

lemma send_msg_wire:
  assumes "hooks_ok env" "conn cid s = Inr c" "pmtusize c \<in> pmtu_values" "unlimited env s" "1472 \<le> RTXmaxSize s"
    and "job = make_job c cid mtype msg (int (length msg)) False" "data_header env job sp c = Inr h_data"
    and "frag_rooms env job c h_data = (r0, r)"
  shows "\<exists>s1. send_msg env cid mtype msg (int (length msg)) False sp s = Some (Inr s1)
    \<and> wire s1 = wire s @ map (frag_dgram env (socketfd s) job c h_data) (fragment r0 r 0 msg)
    \<and> connectbuf s1 = (connectbuf s)(cid \<mapsto> c\<lparr> seqnr := seqnr c + 1 \<rparr>)"
proof -
  let ?c = "c\<lparr> seqnr := seqnr c + 1 \<rparr>" and ?s = "set_conn cid (c\<lparr> seqnr := seqnr c + 1 \<rparr>) s"
  have j: "sj_con_id job = cid" "sj_msg job = msg" "\<not> sj_truncable job" "job_ok job" "sj_msg_len job = int (length msg)"
    by (simp_all add: assms(6) make_job_def job_ok_def)
  have c1: "conn (sj_con_id job) ?s = Inr ?c" using conn_set_conn [OF assms(2)] j by simp
  have hl: "length h_data \<le> MON_HEADER_SPACE" using data_header_ok [OF assms(1), of job sp c] assms(7) by auto
  have u: "unlimited env ?s" "1472 \<le> RTXmaxSize ?s" "socketfd ?s = socketfd s" "wire ?s = wire s"
    using assms(4,5) by (simp_all add: set_conn_ready, simp_all add: set_conn_def)
  have pm: "pmtusize ?c \<in> pmtu_values" using assms(3) by simp
  obtain s1 where s1: "send_frags env job (word_of_nat (length h_data)) h_data (int 0) ?s = Some (Inr (False, s1))"
    "wire s1 = wire ?s @ map (frag_dgram env (socketfd ?s) job ?c h_data)
        (fragment (nat (pmtusize ?c) - length h_data - pkt_hdr_len env job ?c - 23)
           (nat (pmtusize ?c) - pkt_hdr_len env job ?c - 23) 0 (drop 0 (sj_msg job)))"
    "connectbuf s1 = connectbuf ?s"
    using send_frags_unlimited [OF assms(1) j(4) u(1,2) job_priority_low c1 pm hl j(3), of 0 h_data] by auto
  have "send_msg env cid mtype msg (int (length msg)) False sp s = send_loop env job sp ?s"
    using assms(2,6) by (simp add: send_msg_def)
  also have "\<dots> = Some (Inr s1)"
    using c1 assms(7) s1(1) by (subst send_loop.simps) simp
  finally show ?thesis
    using s1(2,3) u(3,4) j(2) assms(8) by (simp add: frag_rooms_def set_conn_def)
qed

text \<open>C8: With an unlimited rate and a network that accepts every datagram, \<open>send_msg\<close> of a data message
  puts exactly the abstract fragments on the wire, in order: consecutive pieces of the message that
  each fill the path MTU after the message header and the monitoring headers, all under one fresh
  sequence number, with their offsets, the total length and the peer's connection ID in the header,
  and the monitoring data header in the first fragment only.\<close>

theorem send_msg_fragments:
  assumes "hooks_ok env" "conn cid s = Inr c" "pmtusize c \<in> pmtu_values" "unlimited env s" "1472 \<le> RTXmaxSize s"
    and "job = make_job c cid mtype msg (int (length msg)) False" "data_header env job sp c = Inr h_data"
    and "frag_rooms env job c h_data = (r0, r)"
  shows "\<exists>s1. send_msg env cid mtype msg (int (length msg)) False sp s = Some (Inr s1)
    \<and> wire s1 = wire s @ map (frag_dgram env (socketfd s) job c h_data) (fragment r0 r 0 msg)
    \<and> connectbuf s1 = (connectbuf s)(cid \<mapsto> c\<lparr> seqnr := seqnr c + 1 \<rparr>)"
  using assms by (rule send_msg_wire)

lemma ml0_unlimited: "unlimited menv0 ml0"
  using ml0_safe by (simp add: unlimited_def)

lemma send_msg_fragments_witness:
  "\<exists>s1. send_msg menv0 0 5 (replicate 2000 7) 2000 False params0 ml0 = Some (Inr s1)
     \<and> length (wire s1) = 2"
proof -
  let ?msg = "replicate 2000 (7 :: byte)"
  let ?job = "make_job conn0 0 5 ?msg (int (length ?msg)) False"
  have h: "data_header menv0 ?job params0 conn0 = Inr []" by (simp add: data_header_def)
  have r: "frag_rooms menv0 ?job conn0 [] = (1349, 1349)"
    by (simp add: frag_rooms_def pkt_hdr_len_def conn0_def)
  have f: "fragment 1349 1349 0 ?msg = [(0, replicate 1349 7), (1349, replicate 651 7)]"
    by (simp add: fragment.simps)
  from send_msg_fragments [OF menv0_hooks conn_ml0 conn0_pmtu ml0_unlimited _ refl h r] f show ?thesis by auto
qed

end
