(* ===== verification/Recv_Data.thy ===== *)
theory Recv_Data
  imports Send_Msg "HOL-Library.Multiset"
begin

text \<open>
  Receiving data (\<open>ml/ml.c\<close>: \<open>recv_data_msg\<close>, \<open>recv_timeout_cb\<close>, \<open>pkt_recv_timeout_cb\<close>,
  \<open>last_pkt_recv_timeout_cb\<close>): fragments are copied into a buffer per message, gaps in the offsets are
  remembered and asked for again with NACKs, and a complete message goes to the callback registered
  for its type. \<open>buf\<close> is the packet buffer of \<open>recv_pkg\<close> and \<open>pos\<close> the position of \<open>msgbuf\<close> in it.
  Offsets and lengths are the header's unsigned values; \<open>recv_pkg\<close> has bounded them by \<open>0x20000\<close>,
  so that the \<open>int\<close> arithmetic on them does not overflow.
\<close>

section \<open>The slot of a message\<close>

definition hdr_con :: "msg_header \<Rightarrow> int" where "hdr_con h = sint (remote_con_id h)"
definition hdr_seq :: "msg_header \<Rightarrow> int" where "hdr_seq h = sint (msg_seq_num h)"
definition hdr_off :: "msg_header \<Rightarrow> int" where "hdr_off h = uint (offset h)"
definition hdr_mon :: "msg_header \<Rightarrow> int" where "hdr_mon h = uint (len_mon_data_hdr h)"

definition find_rd :: "msg_header \<Rightarrow> 'a ml_scheme \<Rightarrow> int option" where
  "find_rd h s =
     first_match RECVDATABUFSIZE (recvdatabuf s)
       (\<lambda>r. hdr_con h = rd_connectionID r \<and> hdr_seq h = rd_seqnr r)"

definition new_rd :: "'e ml_env_scheme \<Rightarrow> msg_header \<Rightarrow> int \<Rightarrow> 'a ml_scheme \<Rightarrow> recvdata" where
  "new_rd env h i s =
     (let n = uint (msg_length h) + hdr_mon h in
      \<lparr> rd_recvID = i, rd_connectionID = hdr_con h, rd_seqnr = hdr_seq h,
        recvbuf = replicate (nat n) 0, bufsize = n, rd_status = ACTIVE, rd_msgtype = msg_type h,
        firstPacketArrived = False, recvFragments = 0, arrivedBytes = 0, monitoringDataHeaderLen = hdr_mon h,
        rd_timeout_event = None, rd_timeout_value = recv_timeout s, rd_starttime = unix_time env (ticks s),
        last_pkt_timeout_event = None, txConnectionID = sint (local_con_id h), expectedOffset = 0,
        gapCounter = 0, gapArray = replicate RTX_MAX_GAPS (0, 0) \<rparr>)"

text \<open>The first loop: the slot found, or a new one in the first free place, which may be -1.\<close>

definition get_rd :: "'e ml_env_scheme \<Rightarrow> msg_header \<Rightarrow> 'a ml_scheme \<Rightarrow> (int \<times> recvdata) res" where
  "get_rd env h s =
     (case find_rd h s of
        Some i \<Rightarrow> res_map (\<lambda>r. (i, r)) (rd i s)
      | None \<Rightarrow>
          (let i = first_free RECVDATABUFSIZE (recvdatabuf s)
           in if in_table RECVDATABUFSIZE i then Inr (i, new_rd env h i s) else Inl OutOfBounds))"

section \<open>Storing a fragment\<close>

text \<open>
  \<open>store_first\<close> is what the packet with offset 0 does besides; it returns the new position and size.
\<close>

definition store_first :: "msg_header \<Rightarrow> byte list \<Rightarrow> int \<Rightarrow> int \<Rightarrow> recvdata \<Rightarrow> (int \<times> int \<times> recvdata) res" where
  "store_first h buf pos n r =
     (if offset h = 0 then
        res_bind (mem_read buf pos (hdr_mon h)) (\<lambda>bs.
          res_map (\<lambda>rb. (pos + hdr_mon h, n - hdr_mon h, r\<lparr> recvbuf := rb, firstPacketArrived := True \<rparr>))
            (mem_write (recvbuf r) 0 bs))
      else Inr (pos, n, r))"

definition store_data :: "msg_header \<Rightarrow> byte list \<Rightarrow> int \<Rightarrow> int \<Rightarrow> recvdata \<Rightarrow> recvdata res" where
  "store_data h buf pos n r =
     res_bind (mem_read buf pos n) (\<lambda>bs.
       res_map (\<lambda>rb. r\<lparr> recvFragments := recvFragments r + 1, arrivedBytes := arrivedBytes r + n, recvbuf := rb \<rparr>)
         (mem_write (recvbuf r) (hdr_mon h + hdr_off h) bs))"

text \<open>The gaps: a packet beyond the expected offset opens one, a packet before it may fill one.\<close>

definition open_gap :: "int \<Rightarrow> msg_header \<Rightarrow> recvdata \<Rightarrow> recvdata \<times> (once_event \<times> timeval) list" where
  "open_gap i h r =
     (if hdr_off h > expectedOffset r \<and> gapCounter r < RTX_MAX_GAPS then
        (r\<lparr> gapArray := (gapArray r)[gapCounter r := (expectedOffset r, hdr_off h)],
            gapCounter := gapCounter r + 1 \<rparr>,
         [(Pkt_recv_timeout i (rd_seqnr r) (gapCounter r) RTX_RETRY, pkt_recv_timeout)])
      else (r, []))"

fun fill_gaps :: "int \<Rightarrow> int \<Rightarrow> (int \<times> int) list \<Rightarrow> (int \<times> int) list" where
  "fill_gaps off n [] = []"
| "fill_gaps off n ((a, b) # gs) =
     (if off = a then (a + n, b) # gs
      else if off = b - n then (a, b - n) # gs
      else (a, b) # fill_gaps off n gs)"

definition fill_gap :: "msg_header \<Rightarrow> int \<Rightarrow> recvdata \<Rightarrow> recvdata" where
  "fill_gap h n r =
     (if hdr_off h < expectedOffset r then
        r\<lparr> gapArray := fill_gaps (hdr_off h) n (take (gapCounter r) (gapArray r)) @ drop (gapCounter r) (gapArray r) \<rparr>
      else r)"

definition update_expected :: "msg_header \<Rightarrow> int \<Rightarrow> recvdata \<Rightarrow> recvdata" where
  "update_expected h n r =
     (if hdr_off h \<ge> expectedOffset r then r\<lparr> expectedOffset := hdr_off h + n \<rparr> else r)"

definition update_status :: "recvdata \<Rightarrow> recvdata" where
  "update_status r =
     r\<lparr> rd_status := (if arrivedBytes r = bufsize r - monitoringDataHeaderLen r then COMPLETE else ACTIVE) \<rparr>"

section \<open>Delivery\<close>

definition conn_socketID :: "int \<Rightarrow> 'a ml_scheme \<Rightarrow> socket_ID" where
  "conn_socketID i s = (case connectbuf s i of None \<Rightarrow> zero_socketid | Some c \<Rightarrow> external_socketID c)"

definition deliver :: "'e ml_env_scheme \<Rightarrow> msg_header \<Rightarrow> recvdata \<Rightarrow> 'a ml_scheme \<Rightarrow> 'a ml_scheme res" where
  "deliver env h r s0 =
     (let s = (if get_Recv_data_inf_cb env
               then s0\<lparr> ticks := ticks s0 + 1, trace := trace s0 @ [Mon_recv_data (recvbuf r) (bufsize r)] \<rparr> else s0)
      in res_bind (slot MSGMULTIPLEXSIZE (recvcbbuf s) (uint (msg_type h))) (\<lambda>cb.
           case cb of None \<Rightarrow> Inr s
           | Some f \<Rightarrow>
               (let mon = monitoringDataHeaderLen r;
                    p = \<lparr> rp_msgtype = rd_msgtype r, rp_connectionID = rd_connectionID r,
                          nrMissingBytes = bufsize r - mon - arrivedBytes r, rp_recvFragments = recvFragments r,
                          rp_firstPacketArrived = firstPacketArrived r,
                          rp_remote_socketID = conn_socketID (rd_connectionID r) s \<rparr>
                in res_map (\<lambda>bs. s\<lparr> receivedCompleteMsgCounter := receivedCompleteMsgCounter s + 1,
                                   trace := trace s @ [Recv_data f bs (rd_msgtype r) p] \<rparr>)
                     (mem_read (recvbuf r) mon (bufsize r - mon)))))"

definition start_timers :: "recvdata \<Rightarrow> 'a ml_scheme \<Rightarrow> recvdata" where
  "start_timers r s =
     (if rd_timeout_event r = None
      then r\<lparr> rd_timeout_event := Some (recv_timeout s), last_pkt_timeout_event := Some (last_pkt_recv_timeout s) \<rparr>
      else r)"

definition finish_recv :: "'e ml_env_scheme \<Rightarrow> msg_header \<Rightarrow> int \<Rightarrow> recvdata \<Rightarrow> 'a ml_scheme \<Rightarrow> 'a ml_scheme res" where
  "finish_recv env h i r s =
     (if recv_data_callback s then
        res_map (\<lambda>s1. set_rd i (start_timers r s1) s1)
          (if rd_status r = COMPLETE then deliver env h r s else Inr s)
      else Inr (set_rd i r s))"

definition recv_data_msg :: "'e ml_env_scheme \<Rightarrow> msg_header \<Rightarrow> byte list \<Rightarrow> int \<Rightarrow> int \<Rightarrow> 'a ml_scheme \<Rightarrow> 'a ml_scheme res" where
  "recv_data_msg env h buf pos n s0 =
     res_bind (slot CONNECTBUFSIZE (connectbuf s0) (hdr_con h)) (\<lambda>c.
       if c = None then Inr s0
       else
         (let s = s0\<lparr> receivedDataPktCounter := receivedDataPktCounter s0 + 1 \<rparr> in
          res_bind (get_rd env h s) (\<lambda>(i, r).
            if rd_status r = COMPLETE then Inr s
            else
              res_bind (store_first h buf pos n r) (\<lambda>(pos1, n1, r1).
              res_bind (store_data h buf pos1 n1 r1) (\<lambda>r2.
                (let (r3, ev) = open_gap i h r2;
                     r4 = fill_gap h n1 r3;
                     r5 = update_status (update_expected h n1 r4);
                     s1 = s\<lparr> once := once s @ ev,
                             receivedRTXDataPktCounter := receivedRTXDataPktCounter s
                               + (if hdr_off h < expectedOffset r3 then 1 else 0) \<rparr>
                 in finish_recv env h i r5 s1))))))"

section \<open>Timeouts\<close>

definition recv_timeout_cb :: "'e ml_env_scheme \<Rightarrow> int \<Rightarrow> 'a ml_scheme \<Rightarrow> 'a ml_scheme res" where
  "recv_timeout_cb env i s =
     res_bind (slot RECVDATABUFSIZE (recvdatabuf s) i) (\<lambda>x.
       case x of None \<Rightarrow> Inr s
       | Some r \<Rightarrow>
           (let s1 = (if rd_status r = ACTIVE
                      then s\<lparr> ticks := ticks s + (if get_Recv_data_inf_cb env then 1 else 0),
                              receivedIncompleteMsgCounter := receivedIncompleteMsgCounter s + 1 \<rparr>
                      else s)
            in Inr (s1\<lparr> recvdatabuf := (recvdatabuf s1)(i := None) \<rparr>)))"

definition nack_bytes :: "recvdata \<Rightarrow> int \<Rightarrow> int \<Rightarrow> byte list" where
  "nack_bytes r a b =
     encode_nack \<lparr> nk_con_id = word_of_int (txConnectionID r), nack_seq_num = word_of_int (rd_seqnr r),
                   offsetFrom = word_of_int a, offsetTo = word_of_int b \<rparr>"

definition send_nack :: "'e ml_env_scheme \<Rightarrow> recvdata \<Rightarrow> int \<Rightarrow> int \<Rightarrow> 'a ml_scheme \<Rightarrow> 'a ml_scheme res option" where
  "send_nack env r a b s =
     (case conn (rd_connectionID r) s of Inl e \<Rightarrow> Some (Inl e)
      | Inr c \<Rightarrow> send_msg env (rd_connectionID r) ML_NACK_MSG (nack_bytes r a b) 16 True (defaultSendParams c) s)"

definition pkt_recv_timeout_cb :: "'e ml_env_scheme \<Rightarrow> int \<Rightarrow> int \<Rightarrow> nat \<Rightarrow> int \<Rightarrow> 'a ml_scheme \<Rightarrow> 'a ml_scheme res option" where
  "pkt_recv_timeout_cb env i seq gap retry s =
     (case slot RECVDATABUFSIZE (recvdatabuf s) i of Inl e \<Rightarrow> Some (Inl e)
      | Inr None \<Rightarrow> Some (Inr s)
      | Inr (Some r) \<Rightarrow>
          if rd_seqnr r \<noteq> seq then Some (Inr s)
          else if length (gapArray r) \<le> gap then Some (Inl OutOfBounds)
          else (let (a, b) = gapArray r ! gap in
                if a = b then Some (Inr s)
                else map_option (res_map (\<lambda>s1.
                       if retry - 1 > 0
                       then s1\<lparr> once := once s1 @ [(Pkt_recv_timeout i seq gap (retry - 1), pkt_recv_timeout_retry)] \<rparr>
                       else s1)) (send_nack env r a b s)))"

definition last_pkt_recv_timeout_cb :: "'e ml_env_scheme \<Rightarrow> int \<Rightarrow> 'a ml_scheme \<Rightarrow> 'a ml_scheme res option" where
  "last_pkt_recv_timeout_cb env i s =
     (case slot RECVDATABUFSIZE (recvdatabuf s) i of Inl e \<Rightarrow> Some (Inl e)
      | Inr None \<Rightarrow> Some (Inr s)
      | Inr (Some r) \<Rightarrow>
          (let s1 = set_rd i (r\<lparr> last_pkt_timeout_event := None \<rparr>) s;
               total = bufsize r - monitoringDataHeaderLen r
           in if expectedOffset r = total then Some (Inr s1)
              else send_nack env r (expectedOffset r) total s1))"

section \<open>Reassembly\<close>

text \<open>A message as its receiver sees it, and a packet that carries one of its fragments.\<close>

record rx_msg =
  rx_con :: int
  rx_seq :: int
  rx_type :: byte
  rx_mon :: "byte list"
  rx_data :: "byte list"

type_synonym pkt = "msg_header \<times> byte list \<times> int \<times> int"

definition carries :: "rx_msg \<Rightarrow> pkt \<Rightarrow> nat \<times> byte list \<Rightarrow> bool" where
  "carries m p ob \<longleftrightarrow>
     (case (p, ob) of ((h, buf, pos, n), (off, bs)) \<Rightarrow>
        hdr_con h = rx_con m \<and> hdr_seq h = rx_seq m \<and> hdr_off h = int off
        \<and> uint (msg_length h) = int (length (rx_data m)) \<and> hdr_mon h = int (length (rx_mon m))
        \<and> msg_type h = rx_type m
        \<and> mem_read buf pos n = Inr ((if off = 0 then rx_mon m else []) @ bs)
        \<and> off + length bs \<le> length (rx_data m) \<and> bs = take (length bs) (drop off (rx_data m)))"

definition frag_bytes :: "(nat \<times> byte list) list \<Rightarrow> int" where
  "frag_bytes obs = int (sum_list (map (\<lambda>ob. length (snd ob)) obs))"

definition partial :: "rx_msg \<Rightarrow> (nat \<times> byte list) list \<Rightarrow> recvdata \<Rightarrow> bool" where
  "partial m obs r \<longleftrightarrow>
     rd_connectionID r = rx_con m \<and> rd_seqnr r = rx_seq m \<and> rd_msgtype r = rx_type m
     \<and> length (recvbuf r) = length (rx_mon m) + length (rx_data m)
     \<and> bufsize r = int (length (rx_mon m) + length (rx_data m))
     \<and> monitoringDataHeaderLen r = int (length (rx_mon m)) \<and> arrivedBytes r = frag_bytes obs
     \<and> recvFragments r = int (length obs)
     \<and> (\<forall>ob \<in> set obs. fst ob + length (snd ob) \<le> length (rx_data m))
     \<and> (\<forall>ob \<in> set obs. \<forall>j < length (snd ob).
          recvbuf r ! (length (rx_mon m) + fst ob + j) = rx_data m ! (fst ob + j))
     \<and> (\<forall>k < length (rx_data m). (\<forall>ob \<in> set obs. \<not> (fst ob \<le> k \<and> k < fst ob + length (snd ob)))
          \<longrightarrow> recvbuf r ! (length (rx_mon m) + k) = 0)"

lemma carries_first: "mem_read buf pos n = Inr (xs @ ys) \<Longrightarrow>
    mem_read buf pos (int (length xs)) = Inr xs
    \<and> mem_read buf (pos + int (length xs)) (n - int (length xs)) = Inr ys"
proof -
  assume a: "mem_read buf pos n = Inr (xs @ ys)"
  then have b: "0 \<le> pos" "0 \<le> n" "pos + n \<le> int (length buf)" "take (nat n) (drop (nat pos) buf) = xs @ ys"
    by (auto simp: mem_read_def split: if_splits)
  have n: "n = int (length xs + length ys)" using mem_read_length [OF a] by simp
  have "take (length xs) (take (nat n) (drop (nat pos) buf)) = xs" using b(4) by simp
  then have "take (length xs) (drop (nat pos) buf) = xs" using n by (simp add: min_def nat_int_add)
  moreover have "drop (length xs) (take (nat n) (drop (nat pos) buf)) = ys" using b(4) by simp
  then have "take (length ys) (drop (length xs + nat pos) buf) = ys" using n by (simp add: drop_take nat_int_add)
  ultimately show ?thesis
    using b(1-3) n by (auto simp: mem_read_def nat_add_distrib add.commute)
qed

lemma store_first_ok:
  assumes "mem_read buf pos n = Inr ((if offset h = 0 then ms else []) @ bs)" "hdr_mon h = int (length ms)"
    and "length ms \<le> length (recvbuf r)"
  obtains pos1 r1 where "store_first h buf pos n r = Inr (pos1, int (length bs), r1)"
    "mem_read buf pos1 (int (length bs)) = Inr bs"
    "r1 = r\<lparr> recvbuf := recvbuf r1, firstPacketArrived := firstPacketArrived r1 \<rparr>"
    "length (recvbuf r1) = length (recvbuf r)"
    "\<And>k. length ms \<le> k \<Longrightarrow> k < length (recvbuf r) \<Longrightarrow> recvbuf r1 ! k = recvbuf r ! k"
proof (cases "offset h = 0")
  case True
  have rd: "mem_read buf pos (int (length ms)) = Inr ms" "mem_read buf (pos + int (length ms)) (n - int (length ms)) = Inr bs"
    using carries_first [of buf pos n ms bs] assms(1) True by simp_all
  have nl: "n - int (length ms) = int (length bs)" using mem_read_length [OF rd(2)] by simp
  obtain rb where w: "mem_write (recvbuf r) 0 ms = Inr rb" using assms(3) by (simp add: mem_write_def)
  show ?thesis
    by (rule that [of "pos + int (length ms)" "r\<lparr> recvbuf := rb, firstPacketArrived := True \<rparr>"])
      (use rd nl w assms(2) True mem_write_length [OF w] mem_write_nth [OF w] in \<open>auto simp: store_first_def\<close>)
next
  case False
  have "n = int (length bs)" using mem_read_length [OF assms(1)] False by simp
  then show ?thesis using that [of pos r] assms(1) False by (simp add: store_first_def)
qed

lemma store_ok:
  assumes "carries m (h, buf, pos, n) (off, bs)" "partial m obs r"
  shows "\<exists>pos1 r1 r2. store_first h buf pos n r = Inr (pos1, int (length bs), r1)
    \<and> store_data h buf pos1 (int (length bs)) r1 = Inr r2 \<and> partial m (obs @ [(off, bs)]) r2
    \<and> rd_status r2 = rd_status r \<and> rd_timeout_event r2 = rd_timeout_event r
    \<and> gapCounter r2 = gapCounter r \<and> gapArray r2 = gapArray r \<and> expectedOffset r2 = expectedOffset r"
proof -
  let ?l = "length (rx_mon m)"
  have c: "hdr_off h = int off" "hdr_mon h = int ?l" "mem_read buf pos n = Inr ((if off = 0 then rx_mon m else []) @ bs)"
    "off + length bs \<le> length (rx_data m)" "bs = take (length bs) (drop off (rx_data m))"
    using assms(1) by (simp_all add: carries_def)
  have pr: "length (recvbuf r) = ?l + length (rx_data m)"
    "\<forall>ob \<in> set obs. \<forall>j < length (snd ob). recvbuf r ! (?l + fst ob + j) = rx_data m ! (fst ob + j)"
    using assms(2) by (simp_all add: partial_def)
  have off0: "offset h = 0 \<longleftrightarrow> off = 0"
    using c(1) unfolding hdr_off_def by (metis of_nat_0_eq_iff uint_0_iff)
  obtain pos1 r1 where f: "store_first h buf pos n r = Inr (pos1, int (length bs), r1)"
    and rd1: "mem_read buf pos1 (int (length bs)) = Inr bs"
    and r1: "r1 = r\<lparr> recvbuf := recvbuf r1, firstPacketArrived := firstPacketArrived r1 \<rparr>"
      "length (recvbuf r1) = length (recvbuf r)" "\<And>k. ?l \<le> k \<Longrightarrow> k < length (recvbuf r) \<Longrightarrow> recvbuf r1 ! k = recvbuf r ! k"
    by (rule store_first_ok [of buf pos n h "rx_mon m" bs r]) (use c(2,3) off0 pr(1) that in simp_all)
  have ok: "ok (mem_write (recvbuf r1) (int ?l + int off) bs)"
    using pr(1) r1(2) c(4) by (simp add: mem_write_ok)
  then obtain rb where w: "mem_write (recvbuf r1) (int ?l + int off) bs = Inr rb" by (auto simp: ok_iff)
  let ?r2 = "r1\<lparr> recvFragments := recvFragments r1 + 1, arrivedBytes := arrivedBytes r1 + int (length bs), recvbuf := rb \<rparr>"
  have sd: "store_data h buf pos1 (int (length bs)) r1 = Inr ?r2"
    using rd1 w c(1,2) by (simp add: store_data_def)
  have new: "rb ! (?l + o' + j) = rx_data m ! (o' + j)"
    if ob: "(o', bs') \<in> set (obs @ [(off, bs)])" and j: "j < length bs'" and fit: "o' + length bs' \<le> length (rx_data m)"
    for o' bs' j
  proof (cases "off \<le> o' + j \<and> o' + j < off + length bs")
    case True
    have lt: "?l + o' + j < length (recvbuf r1)" using fit j pr(1) r1(2) by simp
    have "rb ! (?l + o' + j) = bs ! (o' + j - off)"
      using mem_write_nth [OF w lt] True by (simp add: nat_add_distrib nat_int_add)
    also have "\<dots> = rx_data m ! (o' + j)"
    proof -
      have "bs ! (o' + j - off) = take (length bs) (drop off (rx_data m)) ! (o' + j - off)" using c(5) by simp
      also have "\<dots> = rx_data m ! (o' + j)"
      proof -
        have k: "o' + j - off < length bs" "off + (o' + j - off) = o' + j" using True by auto
        show ?thesis using k c(4) by (subst nth_take) (auto simp: nth_drop)
      qed
      finally show ?thesis .
    qed
    finally show ?thesis .
  next
    case False
    have lt: "?l + o' + j < length (recvbuf r1)" using fit j pr(1) r1(2) by simp
    have old: "(o', bs') \<in> set obs" using ob False j by auto
    have "rb ! (?l + o' + j) = recvbuf r1 ! (?l + o' + j)"
      using mem_write_nth [OF w lt] False by auto
    also have "\<dots> = recvbuf r ! (?l + o' + j)" using r1(2,3) lt by simp
    finally show ?thesis using pr(2) old j by force
  qed
  have fits: "\<forall>ob \<in> set (obs @ [(off, bs)]). fst ob + length (snd ob) \<le> length (rx_data m)"
    using assms(2) c(4) by (auto simp: partial_def)
  then have "\<forall>ob \<in> set (obs @ [(off, bs)]). \<forall>j < length (snd ob).
      recvbuf ?r2 ! (?l + fst ob + j) = rx_data m ! (fst ob + j)"
    using new by fastforce
  moreover have "recvbuf ?r2 ! (?l + k) = 0"
    if k: "k < length (rx_data m)" "\<forall>ob \<in> set (obs @ [(off, bs)]). \<not> (fst ob \<le> k \<and> k < fst ob + length (snd ob))" for k
  proof -
    have lt: "?l + k < length (recvbuf r1)" using k(1) pr(1) r1(2) by simp
    have "rb ! (?l + k) = recvbuf r1 ! (?l + k)" using mem_write_nth [OF w lt] k(2) by auto
    also have "\<dots> = recvbuf r ! (?l + k)" using r1(2,3) lt by simp
    also have "\<dots> = 0" using assms(2) k by (simp add: partial_def)
    finally show ?thesis by simp
  qed
  moreover have "length (recvbuf ?r2) = ?l + length (rx_data m)"
    using mem_write_length [OF w] r1(2) pr(1) by simp
  ultimately have "partial m (obs @ [(off, bs)]) ?r2"
    using assms(2) fits r1(1) unfolding partial_def
    by (cases r, cases r1) (simp add: frag_bytes_def)
  moreover have "rd_status ?r2 = rd_status r \<and> rd_timeout_event ?r2 = rd_timeout_event r
    \<and> gapCounter ?r2 = gapCounter r \<and> gapArray ?r2 = gapArray r \<and> expectedOffset ?r2 = expectedOffset r"
    using r1(1) by (cases r, cases r1) simp
  ultimately show ?thesis using f sd by blast
qed

text \<open>The state in which packets of \<open>m\<close> arrive: its connection and callback exist, and the table holds
  the fragments \<open>obs\<close> received so far, or has room for the message.\<close>

definition rx_ready :: "'e ml_env_scheme \<Rightarrow> rx_msg \<Rightarrow> nat \<Rightarrow> 'a ml_scheme \<Rightarrow> bool" where
  "rx_ready env m f s \<longleftrightarrow>
     in_table CONNECTBUFSIZE (rx_con m) \<and> connectbuf s (rx_con m) \<noteq> None \<and> recv_data_callback s
     \<and> in_table MSGMULTIPLEXSIZE (uint (rx_type m)) \<and> recvcbbuf s (uint (rx_type m)) = Some f
     \<and> \<not> get_Recv_data_inf_cb env"

definition rx_same :: "rx_msg \<Rightarrow> recvdata \<Rightarrow> bool" where
  "rx_same m r \<longleftrightarrow> rx_con m = rd_connectionID r \<and> rx_seq m = rd_seqnr r"

definition rx_slot :: "rx_msg \<Rightarrow> (nat \<times> byte list) list \<Rightarrow> 'a ml_scheme \<Rightarrow> bool" where
  "rx_slot m obs s \<longleftrightarrow>
     (if obs = [] then first_match RECVDATABUFSIZE (recvdatabuf s) (rx_same m) = None
        \<and> in_table RECVDATABUFSIZE (first_free RECVDATABUFSIZE (recvdatabuf s))
      else (\<exists>i r. in_table RECVDATABUFSIZE i \<and> recvdatabuf s i = Some r \<and> partial m obs r \<and> rd_status r = ACTIVE
        \<and> (\<forall>j r'. in_table RECVDATABUFSIZE j \<longrightarrow> recvdatabuf s j = Some r' \<longrightarrow> rx_same m r' \<longrightarrow> j = i)))"

lemma get_rd_ok:
  assumes "carries m (h, buf, pos, n) ob" "rx_slot m obs s"
  shows "\<exists>i r. get_rd env h s = Inr (i, r) \<and> in_table RECVDATABUFSIZE i \<and> partial m obs r \<and> rd_status r = ACTIVE
    \<and> (\<forall>j r'. in_table RECVDATABUFSIZE j \<longrightarrow> j \<noteq> i \<longrightarrow> recvdatabuf s j = Some r' \<longrightarrow> \<not> rx_same m r')"
proof -
  have k: "hdr_con h = rx_con m" "hdr_seq h = rx_seq m" "uint (msg_length h) = int (length (rx_data m))"
    "hdr_mon h = int (length (rx_mon m))" "msg_type h = rx_type m"
    using assms(1) by (simp_all add: carries_def split: prod.splits)
  have fr: "find_rd h s = first_match RECVDATABUFSIZE (recvdatabuf s) (rx_same m)"
    using k(1,2) by (simp add: find_rd_def rx_same_def [abs_def])
  show ?thesis
  proof (cases "obs = []")
    case True
    let ?i = "first_free RECVDATABUFSIZE (recvdatabuf s)"
    have none: "first_match RECVDATABUFSIZE (recvdatabuf s) (rx_same m) = None" "in_table RECVDATABUFSIZE ?i"
      using assms(2) True by (simp_all add: rx_slot_def)
    then have "get_rd env h s = Inr (?i, new_rd env h ?i s)" by (simp add: get_rd_def fr Let_def)
    moreover have "partial m [] (new_rd env h ?i s)"
      using k by (simp add: partial_def new_rd_def Let_def frag_bytes_def nat_int_add)
    moreover have "rd_status (new_rd env h ?i s) = ACTIVE" by (simp add: new_rd_def Let_def)
    ultimately show ?thesis using none True by (auto simp: first_match_None)
  next
    case False
    then obtain i r where r: "in_table RECVDATABUFSIZE i" "recvdatabuf s i = Some r" "partial m obs r" "rd_status r = ACTIVE"
      "\<forall>j r'. in_table RECVDATABUFSIZE j \<longrightarrow> recvdatabuf s j = Some r' \<longrightarrow> rx_same m r' \<longrightarrow> j = i"
      using assms(2) by (auto simp: rx_slot_def)
    have sm: "rx_same m r" using r(3) by (simp add: rx_same_def partial_def)
    have "first_match RECVDATABUFSIZE (recvdatabuf s) (rx_same m) = Some i"
      by (rule first_match_unique [where x = r and t = "recvdatabuf s" and P = "rx_same m"])
        (use r(1,2,5) sm in blast)+
    then have "get_rd env h s = Inr (i, r)" using r(1,2) by (simp add: get_rd_def fr rd_def entry_def slot_def)
    with r show ?thesis by blast
  qed
qed

text \<open>Bookkeeping that leaves the data alone.\<close>

lemma partial_bookkeeping [simp]:
  "partial m obs (fst (open_gap i h r)) = partial m obs r"
  "partial m obs (fill_gap h n r) = partial m obs r"
  "partial m obs (update_expected h n r) = partial m obs r"
  "partial m obs (update_status r) = partial m obs r"
  "partial m obs (start_timers r s) = partial m obs r"
  by (simp_all add: open_gap_def fill_gap_def update_expected_def update_status_def start_timers_def partial_def)

lemma deliver_ok:
  assumes "rx_ready env m f s" "partial m obs r" "msg_type h = rx_type m" "frag_bytes obs = int (length (rx_data m))"
  shows "\<exists>p s'. deliver env h r s = Inr s' \<and> trace s' = trace s @ [Recv_data f (drop (length (rx_mon m)) (recvbuf r)) (rx_type m) p]
    \<and> rp_connectionID p = rx_con m \<and> nrMissingBytes p = 0 \<and> rp_recvFragments p = int (length obs)"
proof -
  have rd: "mem_read (recvbuf r) (monitoringDataHeaderLen r) (bufsize r - monitoringDataHeaderLen r)
      = Inr (drop (length (rx_mon m)) (recvbuf r))"
    using assms(2) by (simp add: partial_def mem_read_def)
  have cb: "slot MSGMULTIPLEXSIZE (recvcbbuf s) (uint (msg_type h)) = Inr (Some f)" "get_Recv_data_inf_cb env = False"
    using assms(1,3) by (simp_all add: rx_ready_def slot_def)
  define p where "p = \<lparr> rp_msgtype = rd_msgtype r, rp_connectionID = rd_connectionID r,
      nrMissingBytes = bufsize r - monitoringDataHeaderLen r - arrivedBytes r, rp_recvFragments = recvFragments r,
      rp_firstPacketArrived = firstPacketArrived r, rp_remote_socketID = conn_socketID (rd_connectionID r) s \<rparr>"
  have "deliver env h r s = Inr (s\<lparr> receivedCompleteMsgCounter := receivedCompleteMsgCounter s + 1,
      trace := trace s @ [Recv_data f (drop (length (rx_mon m)) (recvbuf r)) (rd_msgtype r) p] \<rparr>)"
    unfolding deliver_def by (simp add: cb rd p_def Let_def)
  moreover have "rd_msgtype r = rx_type m" "rp_connectionID p = rx_con m" "nrMissingBytes p = 0"
    "rp_recvFragments p = int (length obs)"
    using assms(2,4) by (simp_all add: p_def partial_def)
  ultimately show ?thesis by simp
qed

lemma recv_data_msg_step:
  assumes "carries m (h, buf, pos, n) ob" "rx_ready env m f s" "rx_slot m obs s"
  shows "\<exists>s'. recv_data_msg env h buf pos n s = Inr s'
    \<and> (if frag_bytes (obs @ [ob]) = int (length (rx_data m))
       then (\<exists>r p. partial m (obs @ [ob]) r
              \<and> trace s' = trace s @ [Recv_data f (drop (length (rx_mon m)) (recvbuf r)) (rx_type m) p]
              \<and> rp_connectionID p = rx_con m \<and> nrMissingBytes p = 0 \<and> rp_recvFragments p = int (length obs + 1))
       else rx_ready env m f s' \<and> rx_slot m (obs @ [ob]) s' \<and> trace s' = trace s)"
proof -
  obtain off bs where ob: "ob = (off, bs)" by (cases ob)
  have k: "hdr_con h = rx_con m" "msg_type h = rx_type m" using assms(1) by (simp_all add: carries_def ob)
  let ?s = "s\<lparr> receivedDataPktCounter := receivedDataPktCounter s + 1 \<rparr>"
  have "recvdatabuf ?s = recvdatabuf s" by simp
  then have slot': "rx_slot m obs ?s" using assms(3) by (simp only: rx_slot_def)
  obtain i r where r: "get_rd env h ?s = Inr (i, r)" "in_table RECVDATABUFSIZE i" "partial m obs r" "rd_status r = ACTIVE"
    "\<forall>j r'. in_table RECVDATABUFSIZE j \<longrightarrow> j \<noteq> i \<longrightarrow> recvdatabuf ?s j = Some r' \<longrightarrow> \<not> rx_same m r'"
    using get_rd_ok [OF assms(1) slot', of env] by blast
  obtain pos1 r1 r2 where st: "store_first h buf pos n r = Inr (pos1, int (length bs), r1)"
    "store_data h buf pos1 (int (length bs)) r1 = Inr r2" "partial m (obs @ [ob]) r2"
    using store_ok [OF assms(1) [unfolded ob] r(3)] ob by blast
  obtain r3 ev where g: "open_gap i h r2 = (r3, ev)" by fastforce
  have p3: "partial m (obs @ [ob]) r3" using st(3) partial_bookkeeping(1) [of m "obs @ [ob]" i h r2] g by simp
  define r5 where "r5 = update_status (update_expected h (int (length bs)) (fill_gap h (int (length bs)) r3))"
  have p5: "partial m (obs @ [ob]) r5" using p3 by (simp add: r5_def)
  have stat: "rd_status r5 = (if frag_bytes (obs @ [ob]) = int (length (rx_data m)) then COMPLETE else ACTIVE)"
  proof -
    let ?q = "update_expected h (int (length bs)) (fill_gap h (int (length bs)) r3)"
    have "partial m (obs @ [ob]) ?q" using p3 by simp
    then have "arrivedBytes ?q = frag_bytes (obs @ [ob])" "bufsize ?q - monitoringDataHeaderLen ?q = int (length (rx_data m))"
      by (simp_all add: partial_def)
    then show ?thesis by (simp add: r5_def update_status_def)
  qed
  define s1 where "s1 = ?s\<lparr> once := once ?s @ ev, receivedRTXDataPktCounter := receivedRTXDataPktCounter ?s
                               + (if hdr_off h < expectedOffset r3 then 1 else 0) \<rparr>"
  have c: "slot CONNECTBUFSIZE (connectbuf s) (hdr_con h) = Inr (connectbuf s (rx_con m))" "connectbuf s (rx_con m) \<noteq> None"
    using assms(2) k by (simp_all add: rx_ready_def slot_def)
  have e: "recv_data_msg env h buf pos n s = finish_recv env h i r5 s1"
    unfolding recv_data_msg_def by (simp add: c r(1,4) st(1,2) g r5_def s1_def Let_def)
  have rdy: "rx_ready env m f s1" "trace s1 = trace s" "recvdatabuf s1 = recvdatabuf s"
    using assms(2) by (simp_all add: rx_ready_def s1_def)
  then have cbk: "recv_data_callback s1" by (simp add: rx_ready_def)
  show ?thesis
  proof (cases "frag_bytes (obs @ [ob]) = int (length (rx_data m))")
    case True
    obtain p s2 where d: "deliver env h r5 s1 = Inr s2"
      "trace s2 = trace s1 @ [Recv_data f (drop (length (rx_mon m)) (recvbuf r5)) (rx_type m) p]"
      "rp_connectionID p = rx_con m" "nrMissingBytes p = 0" "rp_recvFragments p = int (length (obs @ [ob]))"
      using deliver_ok [OF rdy(1) p5 k(2) True] by blast
    have "recv_data_msg env h buf pos n s = Inr (set_rd i (start_timers r5 s2) s2)"
      using e cbk stat True d(1) by (simp add: finish_recv_def)
    moreover have "trace (set_rd i (start_timers r5 s2) s2) = trace s2" by (simp add: set_rd_def)
    ultimately show ?thesis using True p5 d(2-5) rdy(2) by auto
  next
    case False
    let ?s' = "set_rd i (start_timers r5 s1) s1"
    have "recv_data_msg env h buf pos n s = Inr ?s'"
      using e cbk stat False by (simp add: finish_recv_def)
    moreover have "rx_ready env m f ?s'" "trace ?s' = trace s"
      using rdy by (simp_all add: rx_ready_def set_rd_def)
    moreover have "rx_slot m (obs @ [ob]) ?s'"
    proof -
      have "recvdatabuf ?s' = (recvdatabuf s)(i \<mapsto> start_timers r5 s1)" using rdy(3) by (simp add: set_rd_def)
      moreover have "partial m (obs @ [ob]) (start_timers r5 s1)" "rd_status (start_timers r5 s1) = ACTIVE"
        using p5 stat False by (simp_all, simp add: start_timers_def)
      ultimately show ?thesis
        using r(2,5) unfolding rx_slot_def by (auto split: if_splits)
    qed
    ultimately show ?thesis using False by auto
  qed
qed

text \<open>A sequence of packets.\<close>

fun recv_all :: "'e ml_env_scheme \<Rightarrow> pkt list \<Rightarrow> 'a ml_scheme \<Rightarrow> 'a ml_scheme res" where
  "recv_all env [] s = Inr s"
| "recv_all env ((h, buf, pos, n) # ps) s = res_bind (recv_data_msg env h buf pos n s) (recv_all env ps)"

lemma frag_bytes_simps [simp]:
  "frag_bytes [] = 0"
  "frag_bytes (ob # obs) = int (length (snd ob)) + frag_bytes obs"
  "frag_bytes (obs @ obs') = frag_bytes obs + frag_bytes obs'"
  by (simp_all add: frag_bytes_def)

lemma frag_bytes_nonneg: "0 \<le> frag_bytes obs"
  by (simp add: frag_bytes_def)

lemma recv_all_ok:
  assumes "list_all2 (carries m) ps obs" "obs \<noteq> []" "rx_ready env m f s" "rx_slot m got s"
    and "frag_bytes (got @ obs) = int (length (rx_data m))" "(\<forall>ob \<in> set obs. snd ob \<noteq> []) \<or> length obs = 1"
  shows "\<exists>s' r p. recv_all env ps s = Inr s' \<and> partial m (got @ obs) r
    \<and> trace s' = trace s @ [Recv_data f (drop (length (rx_mon m)) (recvbuf r)) (rx_type m) p]
    \<and> rp_connectionID p = rx_con m \<and> nrMissingBytes p = 0 \<and> rp_recvFragments p = int (length (got @ obs))"
  using assms
proof (induction obs arbitrary: ps s got rule: list.induct)
  case Nil
  then show ?case by simp
next
  case (Cons ob obs)
  from Cons.prems(1) obtain pk ps' where ps: "ps = pk # ps'" "carries m pk ob" "list_all2 (carries m) ps' obs"
    by (auto simp: list_all2_Cons2)
  obtain h buf pos n where pk: "pk = (h, buf, pos, n)" by (cases pk)
  from recv_data_msg_step [OF ps(2) [unfolded pk] Cons.prems(3,4)] obtain s1 where
    s1: "recv_data_msg env h buf pos n s = Inr s1" and
    c: "if frag_bytes (got @ [ob]) = int (length (rx_data m))
       then (\<exists>r p. partial m (got @ [ob]) r
              \<and> trace s1 = trace s @ [Recv_data f (drop (length (rx_mon m)) (recvbuf r)) (rx_type m) p]
              \<and> rp_connectionID p = rx_con m \<and> nrMissingBytes p = 0 \<and> rp_recvFragments p = int (length got + 1))
       else rx_ready env m f s1 \<and> rx_slot m (got @ [ob]) s1 \<and> trace s1 = trace s" by blast
  show ?case
  proof (cases "obs = []")
    case True
    then have "frag_bytes (got @ [ob]) = int (length (rx_data m))" "ps' = []" using Cons.prems(5) ps(3) by simp_all
    with c s1 ps(1) pk True show ?thesis by auto
  next
    case False
    then have ne: "\<forall>ob' \<in> set obs. snd ob' \<noteq> []" using Cons.prems(6) by auto
    have "0 < frag_bytes obs"
    proof -
      obtain a as where "obs = a # as" "snd a \<noteq> []" using False ne by (cases obs) auto
      then show ?thesis using frag_bytes_nonneg [of as] by (simp add: add_pos_nonneg)
    qed
    then have "frag_bytes (got @ [ob]) \<noteq> int (length (rx_data m))" using Cons.prems(5) by simp
    with c have n: "rx_ready env m f s1" "rx_slot m (got @ [ob]) s1" "trace s1 = trace s" by simp_all
    have tot: "frag_bytes ((got @ [ob]) @ obs) = int (length (rx_data m))" using Cons.prems(5) by simp
    from Cons.IH [OF ps(3) False n(1,2) tot] ne n(3) s1 ps(1) pk show ?thesis by simp
  qed
qed

subsection \<open>The fragments of a message\<close>

lemma fragment_in:
  assumes "(o', b) \<in> set (fragment r0 r off bs)"
  shows "off \<le> o' \<and> o' + length b \<le> off + length bs \<and> b = take (length b) (drop (o' - off) bs)"
  using assms
proof (induction r0 r off bs rule: fragment.induct)
  case (1 r0 r off bs)
  show ?case
  proof (cases "length bs \<le> r0 \<or> r0 = 0")
    case True
    with 1(2) show ?thesis by (simp add: fragment.simps)
  next
    case False
    then consider "o' = off" "b = take r0 bs" | "(o', b) \<in> set (fragment r r (off + r0) (drop r0 bs))"
      using 1(2) by (subst (asm) fragment.simps) auto
    then show ?thesis
    proof cases
      case 1
      with False show ?thesis by simp
    next
      case 2
      from "1.IH" [OF False 2] False show ?thesis
        by (auto simp: Nat.add_diff_assoc2)
    qed
  qed
qed

lemma fragment_covers:
  assumes "off \<le> i" "i < off + length bs"
  shows "\<exists>(o', b) \<in> set (fragment r0 r off bs). o' \<le> i \<and> i < o' + length b"
  using assms
proof (induction r0 r off bs rule: fragment.induct)
  case (1 r0 r off bs)
  show ?case
  proof (cases "length bs \<le> r0 \<or> r0 = 0 \<or> i < off + r0")
    case True
    with 1(2,3) show ?thesis by (subst fragment.simps) auto
  next
    case False
    with "1.IH" 1(2,3) show ?thesis by (subst fragment.simps) auto
  qed
qed

lemma fragment_nonempty:
  assumes "0 < r0" "0 < r" "bs \<noteq> []" "ob \<in> set (fragment r0 r off bs)" shows "snd ob \<noteq> []"
  using assms
proof (induction r0 r off bs rule: fragment.induct)
  case (1 r0 r off bs)
  show ?case
  proof (cases "length bs \<le> r0")
    case True
    with 1(4,5) show ?thesis by (simp add: fragment.simps)
  next
    case False
    then have "ob = (off, take r0 bs) \<or> ob \<in> set (fragment r r (off + r0) (drop r0 bs))"
      using 1(2,5) by (subst (asm) fragment.simps) auto
    with "1.IH" False 1(2-4) show ?thesis by auto
  qed
qed

lemma fragment_bytes: "frag_bytes (fragment r0 r off bs) = int (length bs)"
proof -
  have "sum_list (map (\<lambda>ob. length (snd ob)) obs) = length (concat (map snd obs))" for obs :: "(nat \<times> byte list) list"
    by (simp add: length_concat comp_def)
  then show ?thesis by (simp add: frag_bytes_def fragment_concat)
qed

lemma reassembly:
  assumes "list_all2 (carries m) ps obs" "mset obs = mset (fragment r0 r 0 (rx_data m))" "0 < r0" "0 < r"
    and "rx_ready env m f s" "rx_slot m [] s"
  shows "\<exists>s' p. recv_all env ps s = Inr s' \<and> trace s' = trace s @ [Recv_data f (rx_data m) (rx_type m) p]
    \<and> rp_connectionID p = rx_con m \<and> nrMissingBytes p = 0 \<and> rp_recvFragments p = int (length obs)"
proof -
  let ?fs = "fragment r0 r 0 (rx_data m)"
  have set_eq: "set obs = set ?fs" using assms(2) by (rule mset_eq_setD)
  have "sum_mset (image_mset (\<lambda>ob. length (snd ob)) (mset obs))
      = sum_mset (image_mset (\<lambda>ob. length (snd ob)) (mset ?fs))"
    by (simp only: assms(2))
  then have "frag_bytes obs = frag_bytes ?fs"
    unfolding frag_bytes_def mset_map [symmetric] sum_mset_sum_list by (rule arg_cong)
  then have tot: "frag_bytes ([] @ obs) = int (length (rx_data m))" by (simp add: fragment_bytes)
  have "?fs \<noteq> []" by (simp add: fragment.simps)
  then have ne: "obs \<noteq> []" using assms(2) by auto
  have pos: "(\<forall>ob \<in> set obs. snd ob \<noteq> []) \<or> length obs = 1"
  proof (cases "rx_data m = []")
    case True
    then have "length ?fs = 1" by (simp add: fragment.simps)
    then show ?thesis using assms(2) by (metis size_mset)
  next
    case False
    then show ?thesis using fragment_nonempty [OF assms(3,4) False] set_eq by blast
  qed
  obtain s' rr p where r: "recv_all env ps s = Inr s'" "partial m ([] @ obs) rr"
    "trace s' = trace s @ [Recv_data f (drop (length (rx_mon m)) (recvbuf rr)) (rx_type m) p]"
    "rp_connectionID p = rx_con m" "nrMissingBytes p = 0" "rp_recvFragments p = int (length ([] @ obs))"
    using recv_all_ok [OF assms(1) ne assms(5,6) tot pos] by blast
  have "drop (length (rx_mon m)) (recvbuf rr) = rx_data m"
  proof (rule nth_equalityI)
    show len: "length (drop (length (rx_mon m)) (recvbuf rr)) = length (rx_data m)"
      using r(2) by (simp add: partial_def)
    fix i assume "i < length (drop (length (rx_mon m)) (recvbuf rr))"
    then have i: "0 \<le> i" "i < 0 + length (rx_data m)" using len by simp_all
    obtain o' b where ob: "(o', b) \<in> set obs" "o' \<le> i" "i < o' + length b"
      using fragment_covers [OF i, of r0 r] set_eq by auto
    have "\<forall>ob \<in> set obs. \<forall>j < length (snd ob).
          recvbuf rr ! (length (rx_mon m) + fst ob + j) = rx_data m ! (fst ob + j)"
      using r(2) by (simp add: partial_def)
    from this [rule_format, OF ob(1), of "i - o'"]
    have "recvbuf rr ! (length (rx_mon m) + o' + (i - o')) = rx_data m ! (o' + (i - o'))"
      using ob(2,3) by simp
    then show "drop (length (rx_mon m)) (recvbuf rr) ! i = rx_data m ! i"
      using ob(2) r(2) i(2) by (simp add: partial_def)
  qed
  with r show ?thesis by auto
qed

text \<open>C7: Reassembly: the fragments into which a message was cut, received in any order, each once, give
  exactly one call of the callback registered for the message type, after the last of them, with
  the message as it was sent, no byte missing and the number of fragments; before that
  nothing is delivered, and no access leaves a buffer.\<close>

theorem reassembly_any_order:
  assumes "list_all2 (carries m) ps obs" "mset obs = mset (fragment r0 r 0 (rx_data m))" "0 < r0" "0 < r"
    and "rx_ready env m f s" "rx_slot m [] s"
  shows "\<exists>s' p. recv_all env ps s = Inr s' \<and> trace s' = trace s @ [Recv_data f (rx_data m) (rx_type m) p]
    \<and> rp_connectionID p = rx_con m \<and> nrMissingBytes p = 0 \<and> rp_recvFragments p = int (length obs)"
  using assms by (rule reassembly)

text \<open>C40: Fragments are counted, not tracked: of a message of two equal fragments, receiving the first
  one twice completes the message, and the callback gets the second half as zeros although
  \<open>nrMissingBytes\<close> says that nothing is missing.\<close>

theorem duplicate_fragment_completes:
  assumes "carries m p1 (0, bs)" "carries m p2 (0, bs)" "length (rx_data m) = 2 * length bs" "bs \<noteq> []"
    and "rx_ready env m f s" "rx_slot m [] s"
  shows "\<exists>s' p. recv_all env [p1, p2] s = Inr s'
    \<and> trace s' = trace s @ [Recv_data f (bs @ replicate (length bs) 0) (rx_type m) p] \<and> nrMissingBytes p = 0"
proof -
  have la: "list_all2 (carries m) [p1, p2] [(0, bs), (0, bs)]" using assms(1,2) by simp
  have tot: "frag_bytes ([] @ [(0, bs), (0, bs)]) = int (length (rx_data m))" using assms(3) by simp
  obtain s' r p where r: "recv_all env [p1, p2] s = Inr s'" "partial m [(0, bs), (0, bs)] r"
    "trace s' = trace s @ [Recv_data f (drop (length (rx_mon m)) (recvbuf r)) (rx_type m) p]" "nrMissingBytes p = 0"
    using recv_all_ok [OF la _ assms(5,6) tot] assms(4) by auto
  have bs: "bs = take (length bs) (rx_data m)" using assms(1) by (simp add: carries_def split: prod.splits)
  have "drop (length (rx_mon m)) (recvbuf r) = bs @ replicate (length bs) 0"
  proof (rule nth_equalityI)
    show "length (drop (length (rx_mon m)) (recvbuf r)) = length (bs @ replicate (length bs) (0 :: byte))"
      using r(2) assms(3) by (simp add: partial_def)
    fix i assume "i < length (drop (length (rx_mon m)) (recvbuf r))"
    then have i: "i < 2 * length bs" using r(2) assms(3) by (simp add: partial_def)
    have "recvbuf r ! (length (rx_mon m) + i) = (if i < length bs then rx_data m ! i else 0)"
      using r(2) i assms(3) by (auto simp: partial_def)
    moreover have "i < length bs \<Longrightarrow> bs ! i = rx_data m ! i" using bs by (metis nth_take)
    ultimately show "drop (length (rx_mon m)) (recvbuf r) ! i = (bs @ replicate (length bs) 0) ! i"
      using i r(2) assms(3) by (simp add: nth_append partial_def)
  qed
  with r show ?thesis by auto
qed

text \<open>A message of three bytes in two packets, for the witnesses.\<close>

definition hdr0 :: "u32 \<Rightarrow> u32 \<Rightarrow> msg_header" where
  "hdr0 off len = \<lparr> offset = off, msg_length = len, local_con_id = 4, remote_con_id = 0, msg_seq_num = 9,
     msg_type = 5, len_mon_data_hdr = 0, len_mon_packet_hdr = 0 \<rparr>"

definition rx0 :: "byte list \<Rightarrow> rx_msg" where
  "rx0 data = \<lparr> rx_con = 0, rx_seq = 9, rx_type = 5, rx_mon = [], rx_data = data \<rparr>"

lemma rx0_ready: "rx_ready menv0 (rx0 data) 77 ml0" "rx_slot (rx0 data) [] ml0"
proof -
  show "rx_ready menv0 (rx0 data) 77 ml0"
    by (simp add: rx_ready_def rx0_def in_table_def CONNECTBUFSIZE_def MSGMULTIPLEXSIZE_def)
  have "\<exists>i. in_table RECVDATABUFSIZE i" by (rule exI [of _ 0]) (simp add: in_table_def RECVDATABUFSIZE_def)
  then have "in_table RECVDATABUFSIZE (first_free RECVDATABUFSIZE (\<lambda>_. None :: recvdata option))"
    using first_free_cases [of RECVDATABUFSIZE "\<lambda>_. None :: recvdata option"] by auto
  then show "rx_slot (rx0 data) [] ml0" by (simp add: rx_slot_def first_match_None)
qed

lemma reassembly_any_order_witness:
  "\<exists>s' p. recv_all menv0 [(hdr0 2 3, [3], 0, 1), (hdr0 0 3, [1, 2], 0, 2)] ml0 = Inr s'
     \<and> trace s' = [Recv_data 77 [1,2,3] 5 p] \<and> rp_recvFragments p = 2"
proof -
  have c: "list_all2 (carries (rx0 [1,2,3])) [(hdr0 2 3, [3], 0, 1), (hdr0 0 3, [1, 2], 0, 2)] [(2, [3]), (0, [1,2])]"
    by (simp add: carries_def rx0_def hdr0_def hdr_con_def hdr_seq_def hdr_off_def hdr_mon_def mem_read_def)
  have f: "mset [(2, [3]), (0, [1,2])] = mset (fragment 2 2 0 (rx_data (rx0 [1,2,3])))"
    by (simp add: rx0_def fragment.simps numeral_2_eq_2)
  have "trace ml0 @ [Recv_data 77 (rx_data (rx0 [1,2,3])) (rx_type (rx0 [1,2,3])) p] = [Recv_data 77 [1,2,3] 5 p]" for p
    by (simp add: rx0_def)
  with reassembly_any_order [OF c f _ _ rx0_ready] show ?thesis by auto
qed

lemma duplicate_fragment_completes_witness:
  "\<exists>s' p. recv_all menv0 [(hdr0 0 4, [1, 2], 0, 2), (hdr0 0 4, [1, 2], 0, 2)] ml0 = Inr s'
     \<and> trace s' = [Recv_data 77 [1, 2, 0, 0] 5 p] \<and> nrMissingBytes p = 0"
proof -
  have c: "carries (rx0 [1,2,3,4]) (hdr0 0 4, [1, 2], 0, 2) (0, [1, 2])"
    by (simp add: carries_def rx0_def hdr0_def hdr_con_def hdr_seq_def hdr_off_def hdr_mon_def mem_read_def)
  have l: "length (rx_data (rx0 [1,2,3,4])) = 2 * length [1, 2 :: byte]" by (simp add: rx0_def)
  have "trace ml0 @ [Recv_data 77 ([1,2] @ replicate (length [1, 2 :: byte]) 0) (rx_type (rx0 [1,2,3,4])) p]
      = [Recv_data 77 [1,2,0,0] 5 p]" for p
    by (simp add: rx0_def numeral_2_eq_2)
  with duplicate_fragment_completes [OF c c l _ rx0_ready] show ?thesis by auto
qed

text \<open>When every slot of the receive table is taken by another message, a fragment of a new message
  makes the code write through \<open>recvdatabuf[-1]\<close>.\<close>

theorem receive_table_full:
  assumes "in_table CONNECTBUFSIZE (hdr_con h)" "connectbuf s (hdr_con h) \<noteq> None" "find_rd h s = None"
    and "\<And>i. in_table RECVDATABUFSIZE i \<Longrightarrow> recvdatabuf s i \<noteq> None"
  shows "recv_data_msg env h buf pos n s = Inl OutOfBounds"
proof -
  let ?s = "s\<lparr> receivedDataPktCounter := receivedDataPktCounter s + 1 \<rparr>"
  have "first_free RECVDATABUFSIZE (recvdatabuf s) = -1"
    using first_free_cases [of RECVDATABUFSIZE "recvdatabuf s"] assms(4) by blast
  moreover have "find_rd h ?s = None" using assms(3) by (simp add: find_rd_def)
  ultimately have "get_rd env h ?s = Inl OutOfBounds" by (simp add: get_rd_def in_table_def Let_def)
  with assms(1,2) show ?thesis by (auto simp: recv_data_msg_def slot_def Let_def)
qed

definition full_table :: "'a ml_scheme \<Rightarrow> 'a ml_scheme" where
  "full_table s = s\<lparr> recvdatabuf := (\<lambda>i. Some (new_rd menv0 ((hdr0 0 3)\<lparr> msg_seq_num := 8 \<rparr>) i s)) \<rparr>"

lemma receive_table_full_witness:
  "recv_data_msg menv0 (hdr0 0 3) [1, 2, 3] 0 3 (full_table ml0) = Inl OutOfBounds"
  by (rule receive_table_full)
    (simp_all add: full_table_def hdr0_def hdr_con_def hdr_seq_def find_rd_def first_match_None new_rd_def Let_def
      in_table_def CONNECTBUFSIZE_def)

text \<open>A timer outlives its connection: when the last-packet timeout of an incomplete message fires
  after the connection was closed, the code dereferences the NULL slot of the connection table.\<close>

theorem nack_after_close:
  assumes "in_table RECVDATABUFSIZE i" "recvdatabuf s i = Some r"
    and "expectedOffset r \<noteq> bufsize r - monitoringDataHeaderLen r"
    and "in_table CONNECTBUFSIZE (rd_connectionID r)" "connectbuf s (rd_connectionID r) = None"
  shows "last_pkt_recv_timeout_cb env i s = Some (Inl NullDeref)"
  using assms
  by (simp add: last_pkt_recv_timeout_cb_def slot_def send_nack_def conn_def entry_def set_rd_def Let_def)

lemma nack_after_close_witness:
  "last_pkt_recv_timeout_cb menv0 0 ((full_table ml0)\<lparr> connectbuf := (\<lambda>_. None) \<rparr>) = Some (Inl NullDeref)"
proof -
  let ?s = "(full_table ml0)\<lparr> connectbuf := (\<lambda>_. None) \<rparr>"
  obtain r where r: "recvdatabuf ?s 0 = Some r" "rd_connectionID r = 0" "expectedOffset r = 0"
    "bufsize r = 3" "monitoringDataHeaderLen r = 0"
    by (simp add: full_table_def new_rd_def hdr0_def Let_def hdr_con_def hdr_mon_def)
  show ?thesis
    by (rule nack_after_close [OF _ r(1)])
      (simp_all add: r in_table_def RECVDATABUFSIZE_def CONNECTBUFSIZE_def)
qed

end
