(* ===== verification/Connection.thy ===== *)
theory Connection
  imports Recv_Data
begin

text \<open>
  Connections (\<open>ml/ml.c\<close>): the INVITE / CONNECT / READY handshake with its path MTU discovery
  (\<open>send_conn_msg\<close>, \<open>recv_conn_msg\<close>, \<open>pmtu_timeout_cb\<close>), opening and closing, keepalives, and the
  sending interface. The application's callbacks are recorded in \<open>trace\<close>. Delays that the code
  computes in \<open>double\<close> are computed exactly here.
\<close>

section \<open>Sending connection messages\<close>

definition reschedule_conn_msg :: "int \<Rightarrow> 'a ml_scheme \<Rightarrow> 'a ml_scheme res" where
  "reschedule_conn_msg cid = upd_conn cid (\<lambda>c. c\<lparr> timeout_event := Some (timeout_value c) \<rparr>)"

definition status_code :: "con_status \<Rightarrow> u32" where
  "status_code st = word_of_nat (status_rank st)"

definition conn_msg_bytes :: "connect_data \<Rightarrow> con_status \<Rightarrow> 'a ml_scheme \<Rightarrow> byte list" where
  "conn_msg_bytes c cmd s =
     encode_conn \<lparr> comand_type = status_code cmd, pmtu_size = word_of_int (pmtusize c),
                   sock_id = swap_families (local_socketID s) \<rparr>"

text \<open>
  \<open>buf_size\<close> is compared as a \<open>size_t\<close>: a negative one passes, and the allocation of such a size
  fails. The buffer is allocated once, with the size of the first message, and used again.
\<close>

definition send_conn_msg :: "'e ml_env_scheme \<Rightarrow> int \<Rightarrow> int \<Rightarrow> con_status \<Rightarrow> 'a ml_scheme \<Rightarrow> 'a ml_scheme res option" where
  "send_conn_msg env cid buf_size cmd s =
     (if 0 \<le> buf_size \<and> buf_size < int CONN_MSG_SIZE then Some (Inr s)
      else
        (case res_bind (conn cid s) (\<lambda>c.
                res_bind (case ctrl_msg_buf c of Some b \<Rightarrow> Inr b
                          | None \<Rightarrow> if buf_size < 0 then Inl NullDeref else Inr (replicate (nat buf_size) 0))
                  (\<lambda>b. res_map (\<lambda>b1. (c, b1)) (mem_write b 0 (conn_msg_bytes c cmd s)))) of
           Inl e \<Rightarrow> Some (Inl e)
         | Inr (c, b) \<Rightarrow>
             send_msg env cid ML_CON_MSG b buf_size True (defaultSendParams c)
               (set_conn cid (c\<lparr> ctrl_msg_buf := Some b \<rparr>) s)))"

definition jittered :: "'e ml_env_scheme \<Rightarrow> 'a ml_scheme \<Rightarrow> timeval \<times> 'a ml_scheme" where
  "jittered env s = (\<lparr> tv_sec = 0, tv_usec = pmtu_jitter env (ticks s) \<rparr>, s\<lparr> ticks := ticks s + 1 \<rparr>)"

definition send_conn_msg_with_pmtu_discovery ::
  "'e ml_env_scheme \<Rightarrow> int \<Rightarrow> int \<Rightarrow> con_status \<Rightarrow> 'a ml_scheme \<Rightarrow> 'a ml_scheme res option" where
  "send_conn_msg_with_pmtu_discovery env cid buf_size cmd s0 =
     (let (tout, s) = jittered env s0 in
      opt_bind (Some (upd_conn cid (\<lambda>c. c\<lparr> timeout_value := tout, trials := 1 \<rparr>) s)) (\<lambda>s1.
      opt_bind (send_conn_msg env cid buf_size cmd s1) (\<lambda>s2.
        Some (reschedule_conn_msg cid s2))))"

definition resend_conn_msg :: "'e ml_env_scheme \<Rightarrow> int \<Rightarrow> 'a ml_scheme \<Rightarrow> 'a ml_scheme res option" where
  "resend_conn_msg env cid s =
     opt_bind (Some (upd_conn cid (\<lambda>c. c\<lparr> trials := trials c + 1 \<rparr>) s)) (\<lambda>s1.
     opt_bind (Some (conn cid s1)) (\<lambda>c.
     opt_bind (send_conn_msg env cid (pmtusize c) (status c) s1) (\<lambda>s2.
       Some (reschedule_conn_msg cid s2))))"

section \<open>Receiving connection messages\<close>

definition new_conn :: "'e ml_env_scheme \<Rightarrow> socket_ID \<Rightarrow> 'a ml_scheme \<Rightarrow> connect_data" where
  "new_conn env sid s =
     \<lparr> connectionID = 0, external_socketID = sid, external_connectionID = 0, pmtusize = 0, delay = False, trials = 0,
       ctrl_msg_buf = None, status = INVITE, starttime = unix_time env (ticks s), seqnr = 0, timeout_event = None,
       timeout_value = \<lparr> tv_sec = 0, tv_usec = 0 \<rparr>, internal_connect = False, connection_cbs = [],
       defaultSendParams = \<lparr> sp_priority = False, sp_padding = False, sp_confirmation = False, sp_reliable = False,
                             keepalive = 0 \<rparr>, keepalive_seq = 0 \<rparr>"

definition same_peer :: "gai \<Rightarrow> socket_ID \<Rightarrow> connect_data \<Rightarrow> bool" where
  "same_peer gai sid c \<longleftrightarrow> mlCompareSocketIDs gai (external_socketID c) sid = 0"

definition recv_invite :: "'e ml_env_scheme \<Rightarrow> msg_header \<Rightarrow> conn_msg \<Rightarrow> sockaddr \<Rightarrow> 'a ml_scheme \<Rightarrow> 'a ml_scheme res option" where
  "recv_invite env h m recv_addr s =
     (let lcon = sint (local_con_id h);
          answer = (\<lambda>cid s1. opt_bind (Some (upd_conn cid (\<lambda>c. c\<lparr> status := CONNECT \<rparr>) s1)) (\<lambda>s2.
                      send_conn_msg_with_pmtu_discovery env cid (sint (pmtu_size m)) CONNECT s2))
      in case first_match CONNECTBUFSIZE (connectbuf s) (same_peer (env_gai env) (sock_id m)) of
           Some cid \<Rightarrow>
             opt_bind (Some (upd_conn cid (\<lambda>c. c\<lparr> external_connectionID := lcon \<rparr>) s)) (answer cid)
         | None \<Rightarrow>
             (let cid = first_free CONNECTBUFSIZE (connectbuf s) in
              if cid = -1 then Some (Inr s)
              else answer cid (set_conn cid
                     ((new_conn env (sock_id m) s)\<lparr> pmtusize := sint (pmtu_size m), external_connectionID := lcon,
                        internal_connect := mlCompareAddr (internal_addr (sock_id m)) recv_addr = 0 \<rparr>) s)))"

definition run_conn_cbs :: "int \<Rightarrow> 'a ml_scheme \<Rightarrow> 'a ml_scheme res" where
  "run_conn_cbs cid s =
     (let s1 = (case receive_Connection_cb s of None \<Rightarrow> s
                | Some f \<Rightarrow> s\<lparr> trace := trace s @ [Recv_connection f cid] \<rparr>)
      in res_map (\<lambda>c. set_conn cid (c\<lparr> connection_cbs := [] \<rparr>)
                        (s1\<lparr> trace := trace s1 @ map (\<lambda>(f, arg). Connection_cb f cid arg) (connection_cbs c) \<rparr>))
           (conn cid s1))"

definition recv_connect :: "'e ml_env_scheme \<Rightarrow> msg_header \<Rightarrow> conn_msg \<Rightarrow> 'a ml_scheme \<Rightarrow> 'a ml_scheme res option" where
  "recv_connect env h m s =
     (let cid = hdr_con h in
      opt_bind (Some (if cid = -1 then Inr True
                      else res_map (\<lambda>x. x \<noteq> None) (slot CONNECTBUFSIZE (connectbuf s) cid))) (\<lambda>go.
        if \<not> go then Some (Inr s)
        else
          opt_bind (Some (conn cid s)) (\<lambda>c.
            if status c = INVITE then
              opt_bind (send_conn_msg_with_pmtu_discovery env cid (sint (pmtu_size m)) READY
                (set_conn cid (c\<lparr> external_connectionID := sint (local_con_id h), status := READY \<rparr>) s))
                (\<lambda>s1. Some (run_conn_cbs cid s1))
            else send_conn_msg_with_pmtu_discovery env cid (sint (pmtu_size m)) READY s)))"

definition recv_ready :: "msg_header \<Rightarrow> 'a ml_scheme \<Rightarrow> 'a ml_scheme res" where
  "recv_ready h s =
     res_bind (slot CONNECTBUFSIZE (connectbuf s) (hdr_con h)) (\<lambda>x.
       case x of None \<Rightarrow> Inr s
       | Some c \<Rightarrow>
           if status c = CONNECT then run_conn_cbs (hdr_con h) (set_conn (hdr_con h) (c\<lparr> status := READY \<rparr>) s)
           else Inr s)"

text \<open>
  \<open>recv_conn_msg\<close> converts fields of the message before it checks the size, and the size, an \<open>int\<close>
  that may be negative, is compared with a \<open>size_t\<close>.
\<close>

definition recv_conn_msg ::
  "'e ml_env_scheme \<Rightarrow> msg_header \<Rightarrow> byte list \<Rightarrow> int \<Rightarrow> int \<Rightarrow> sockaddr \<Rightarrow> 'a ml_scheme \<Rightarrow> 'a ml_scheme res option" where
  "recv_conn_msg env h buf pos n recv_addr s0 =
     (case mem_read buf (pos + hdr_mon h) (int CONN_MSG_SIZE) of Inl e \<Rightarrow> Some (Inl e)
      | Inr bs \<Rightarrow>
          (let m0 = decode_conn bs; m = m0\<lparr> sock_id := swap_families (sock_id m0) \<rparr>; size1 = n - hdr_mon h in
           if 0 \<le> size1 \<and> size1 < int CONN_MSG_SIZE then Some (Inr s0)
           else if mlCompareAddr (internal_addr (sock_id m)) recv_addr \<noteq> 0
                \<and> mlCompareAddr (external_addr (sock_id m)) recv_addr \<noteq> 0 then Some (Inr s0)
           else
             (let s = (if get_Recv_data_inf_cb env
                       then s0\<lparr> ticks := ticks s0 + 1, trace := trace s0 @ [Mon_recv_data bs size1] \<rparr> else s0) in
              if comand_type m = 0 then recv_invite env h m recv_addr s
              else if comand_type m = 1 then recv_connect env h m s
              else if comand_type m = 2 then Some (recv_ready h s)
              else Some (Inr s))))"

section \<open>Closing, and the path MTU timeout\<close>

definition mlCloseConnection :: "int \<Rightarrow> 'a ml_scheme \<Rightarrow> 'a ml_scheme res" where
  "mlCloseConnection cid s =
     res_map (\<lambda>_. s\<lparr> connectbuf := (connectbuf s)(cid := None) \<rparr>) (slot CONNECTBUFSIZE (connectbuf s) cid)"

definition double_timeval :: "timeval \<Rightarrow> timeval" where
  "double_timeval t =
     (let us = 2 * (tv_sec t * 1000000 + tv_usec t) in \<lparr> tv_sec = us div 1000000, tv_usec = us mod 1000000 \<rparr>)"

definition pmtu_backoff :: "connect_data \<Rightarrow> connect_data" where
  "pmtu_backoff c =
     (if delay c \<or> trials c = MAX_TRIALS - 1 then
        (let c1 = c\<lparr> timeout_value := double_timeval (timeout_value c) \<rparr>
         in if delay c then c1\<lparr> delay := False, timeout_event := Some (timeout_value c1) \<rparr> else c1)
      else c)"

definition pmtu_reduce :: "timeval \<Rightarrow> connect_data \<Rightarrow> connect_data" where
  "pmtu_reduce tout c =
     (if trials c = MAX_TRIALS
      then c\<lparr> pmtusize := pmtu_decrement (pmtusize c), timeout_value := tout, trials := 0 \<rparr> else c)"

definition pmtu_timeout_cb :: "'e ml_env_scheme \<Rightarrow> int \<Rightarrow> 'a ml_scheme \<Rightarrow> 'a ml_scheme res option" where
  "pmtu_timeout_cb env cid s0 =
     opt_bind (Some (slot CONNECTBUFSIZE (connectbuf s0) cid)) (\<lambda>x.
       case x of None \<Rightarrow> Some (Inr s0)
       | Some c \<Rightarrow>
           if status c = READY then Some (Inr (set_conn cid (c\<lparr> timeout_event := None \<rparr>) s0))
           else
             (let (tout, s) = (if trials c = MAX_TRIALS then jittered env s0 else (timeout_value c, s0));
                  c1 = pmtu_reduce tout (pmtu_backoff c)
              in if pmtusize c1 = -1 then
                   (if internal_connect c1
                    then resend_conn_msg env cid (set_conn cid (c1\<lparr> internal_connect := False, pmtusize := 1372 \<rparr>) s)
                    else
                      (let s1 = (case failed_Connection_cb s of None \<Rightarrow> s
                                 | Some f \<Rightarrow> s\<lparr> trace := trace s @ [Failed_connection f cid] \<rparr>)
                       in Some (mlCloseConnection cid (set_conn cid c1 s1))))
                 else resend_conn_msg env cid (set_conn cid c1 s)))"

section \<open>The application's interface\<close>

definition mlConnectionExist :: "'e ml_env_scheme \<Rightarrow> socket_ID \<Rightarrow> bool \<Rightarrow> 'a ml_scheme \<Rightarrow> int" where
  "mlConnectionExist env sid ready s =
     (case first_match CONNECTBUFSIZE (connectbuf s) (same_peer (env_gai env) sid) of
        None \<Rightarrow> -1
      | Some i \<Rightarrow> if ready then (if map_option status (connectbuf s i) = Some READY then i else -1) else i)"

definition setupKeepalive :: "int \<Rightarrow> 'a ml_scheme \<Rightarrow> 'a ml_scheme res" where
  "setupKeepalive cid s =
     res_map (\<lambda>c. let k = keepalive (defaultSendParams c) in
                  if k \<noteq> 0 then s\<lparr> once := once s @ [(Keepalive_fn (external_socketID c), \<lparr> tv_sec = k, tv_usec = 0 \<rparr>)] \<rparr>
                  else s) (conn cid s)"

definition mlOpenConnection ::
  "'e ml_env_scheme \<Rightarrow> socket_ID option \<Rightarrow> nat option \<Rightarrow> nat \<Rightarrow> send_params \<Rightarrow> 'a ml_scheme \<Rightarrow> (int \<times> 'a ml_scheme) res option" where
  "mlOpenConnection env sid cb arg params s =
     (case (sid, cb) of
        (None, _) \<Rightarrow> Some (Inr (-1, s))
      | (Some ext, None) \<Rightarrow> Some (Inr (-1, s))
      | (Some ext, Some f) \<Rightarrow>
          if \<not> NAT_traversal s then Some (Inr (-1, s))
          else
            (let cid = mlConnectionExist env ext False s in
             if cid \<ge> 0 then
               opt_bind (Some (conn cid s)) (\<lambda>c.
                 (let newKeepalive = (keepalive (defaultSendParams c) = 0 \<and> keepalive params \<noteq> 0);
                      s1 = set_conn cid (c\<lparr> defaultSendParams := params \<rparr>) s
                  in opt_bind (Some (if newKeepalive then setupKeepalive cid s1 else Inr s1)) (\<lambda>s2.
                       if status c = READY then
                         Some (Inr (cid, s2\<lparr> trace := trace s2 @ [Connection_cb f cid arg] \<rparr>))
                       else
                         Some (res_map (\<lambda>s3. (cid, s3))
                           (upd_conn cid (\<lambda>c. c\<lparr> connection_cbs := connection_cbs c @ [(f, arg)] \<rparr>) s2)))))
             else
               (let i = first_free CONNECTBUFSIZE (connectbuf s) in
                if i = -1 then Some (Inr (-1, s))
                else
                  (let s1 = set_conn i
                         ((new_conn env ext s)\<lparr> pmtusize := 1372,
                            internal_connect := internal_connect_plausible ext (local_socketID s), connectionID := i,
                            connection_cbs := [(f, arg)], external_connectionID := -1, defaultSendParams := params \<rparr>) s
                   in opt_bind (Some (if keepalive params \<noteq> 0 then setupKeepalive i s1 else Inr s1)) (\<lambda>s2.
                      opt_bind (Some (conn i s2)) (\<lambda>c.
                      opt_bind (send_conn_msg_with_pmtu_discovery env i (pmtusize c) INVITE s2) (\<lambda>s3.
                        Some (Inr (i, s3)))))))))"

definition mlSendData ::
  "'e ml_env_scheme \<Rightarrow> int \<Rightarrow> byte list \<Rightarrow> int \<Rightarrow> byte \<Rightarrow> send_params option \<Rightarrow> 'a ml_scheme \<Rightarrow> 'a ml_scheme res option" where
  "mlSendData env cid sendbuf n msgtype sp s =
     (if cid < 0 then Some (Inr s)
      else opt_bind (Some (slot CONNECTBUFSIZE (connectbuf s) cid)) (\<lambda>x.
        case x of None \<Rightarrow> Some (Inr s)
        | Some c \<Rightarrow>
            if status c \<noteq> READY then Some (Inr s)
            else send_msg env cid (uint msgtype) sendbuf n False
                   (case sp of None \<Rightarrow> defaultSendParams c | Some p \<Rightarrow> p) s))"

text \<open>The message of a keepalive: the text with its terminating NUL; the counter is printed as an \<open>int\<close>.\<close>

definition keepalive_text :: "u32 \<Rightarrow> byte list" where
  "keepalive_text n = map of_char (''KEEPALIVE '' @ dec_int (sint n)) @ [0]"

definition keepalive_fn :: "'e ml_env_scheme \<Rightarrow> socket_ID \<Rightarrow> 'a ml_scheme \<Rightarrow> 'a ml_scheme res option" where
  "keepalive_fn env peer s =
     (let cid = mlConnectionExist env peer False s in
      if cid < 0 then Some (Inr s)
      else opt_bind (Some (conn cid s)) (\<lambda>c.
        if keepalive (defaultSendParams c) \<le> 0 then Some (Inr s)
        else
          opt_bind (if status c = READY then
                      (let msg = keepalive_text (keepalive_seq c) in
                       send_msg env cid MSG_TYPE_ML_KEEPALIVE msg (int (length msg)) False (defaultSendParams c)
                         (set_conn cid (c\<lparr> keepalive_seq := keepalive_seq c + 1 \<rparr>) s))
                    else Some (Inr s)) (\<lambda>s1.
          opt_bind (Some (conn cid s1)) (\<lambda>c1.
            Some (Inr (s1\<lparr> once := once s1 @
              [(Keepalive_fn peer, \<lparr> tv_sec = keepalive (defaultSendParams c1), tv_usec = 0 \<rparr>)] \<rparr>))))))"

definition mlGetConnectionStatus :: "int \<Rightarrow> 'a ml_scheme \<Rightarrow> int res" where
  "mlGetConnectionStatus cid s =
     res_map (\<lambda>x. case x of None \<Rightarrow> -1 | Some c \<Rightarrow> if status c = READY then 1 else 0)
       (slot CONNECTBUFSIZE (connectbuf s) cid)"

definition mlGetPathMTU :: "int \<Rightarrow> 'a ml_scheme \<Rightarrow> int" where
  "mlGetPathMTU cid s =
     (if \<not> in_table CONNECTBUFSIZE cid then -1
      else case connectbuf s cid of None \<Rightarrow> -1 | Some c \<Rightarrow> pmtusize c)"

text \<open>
  \<open>mlRegisterRecvDataCb\<close> reports a type above 126 and then registers the callback all the same.
\<close>

definition mlRegisterRecvDataCb :: "nat option \<Rightarrow> byte \<Rightarrow> 'a ml_scheme \<Rightarrow> 'a ml_scheme res" where
  "mlRegisterRecvDataCb cb msgtype s =
     (case cb of None \<Rightarrow> Inr s
      | Some f \<Rightarrow>
          res_map (\<lambda>_. s\<lparr> recvcbbuf := (recvcbbuf s)(uint msgtype \<mapsto> f) \<rparr>)
            (slot MSGMULTIPLEXSIZE (recvcbbuf s) (uint msgtype)))"

section \<open>What sending changes\<close>

text \<open>
  \<open>sends s s'\<close>: between \<open>s\<close> and \<open>s'\<close> messages were sent. In the connection table only the path MTU,
  the \<open>delay\<close> flag and the sequence numbers may differ; no callback ran, no timer was set, no
  message being received was touched, and if packets were left waiting, an event will send them.
\<close>

lemma awake_ml_upd [simp]:
  fixes s :: "'a ml_scheme"
  shows "awake (s\<lparr> connectbuf := cb \<rparr>) = awake s" "awake (s\<lparr> recvdatabuf := rb \<rparr>) = awake s"
    "awake (s\<lparr> once := oe \<rparr>) = awake s" "awake (s\<lparr> trace := tr \<rparr>) = awake s"
    "awake (s\<lparr> ticks := tk \<rparr>) = awake s" "awake (s\<lparr> sentDataPktCounter := n1 \<rparr>) = awake s"
    "awake (s\<lparr> receivedCompleteMsgCounter := n2 \<rparr>) = awake s" "awake (s\<lparr> receivedIncompleteMsgCounter := n3 \<rparr>) = awake s"
    "awake (s\<lparr> receivedDataPktCounter := n4 \<rparr>) = awake s" "awake (s\<lparr> receivedRTXDataPktCounter := n5 \<rparr>) = awake s"
    "awake (s\<lparr> NAT_traversal := nt \<rparr>) = awake s" "awake (s\<lparr> local_socketID := ls \<rparr>) = awake s"
    "awake (s\<lparr> recvcbbuf := rc \<rparr>) = awake s" "awake (s\<lparr> socketfd := fd \<rparr>) = awake s" "awake (set_conn i c s) = awake s" "awake (set_rd i r s) = awake s"
  by (simp_all add: awake_def isQueueEmpty_def set_conn_def set_rd_def)

definition same_but_pmtu :: "connect_data \<Rightarrow> connect_data \<Rightarrow> bool" where
  "same_but_pmtu c c' \<longleftrightarrow>
     connectionID c' = connectionID c \<and> external_socketID c' = external_socketID c
     \<and> external_connectionID c' = external_connectionID c \<and> trials c' = trials c \<and> ctrl_msg_buf c' = ctrl_msg_buf c
     \<and> status c' = status c \<and> starttime c' = starttime c \<and> timeout_event c' = timeout_event c
     \<and> timeout_value c' = timeout_value c \<and> internal_connect c' = internal_connect c
     \<and> connection_cbs c' = connection_cbs c \<and> defaultSendParams c' = defaultSendParams c
     \<and> keepalive_seq c' = keepalive_seq c"

definition sends :: "'a ml_scheme \<Rightarrow> 'a ml_scheme \<Rightarrow> bool" where
  "sends s s' \<longleftrightarrow>
     (\<forall>i. rel_option same_but_pmtu (connectbuf s i) (connectbuf s' i))
     \<and> trace s' = trace s \<and> once s' = once s \<and> recvdatabuf s' = recvdatabuf s
     \<and> NAT_traversal s' = NAT_traversal s \<and> local_socketID s' = local_socketID s
     \<and> receive_Connection_cb s' = receive_Connection_cb s \<and> failed_Connection_cb s' = failed_Connection_cb s
     \<and> (awake s \<longrightarrow> awake s')"

lemma same_but_pmtu_refl [simp]: "same_but_pmtu c c"
  by (simp add: same_but_pmtu_def)

lemma same_but_pmtu_upd [simp]:
  "same_but_pmtu c (c\<lparr> pmtusize := p \<rparr>)"
  "same_but_pmtu c (c\<lparr> seqnr := q \<rparr>)"
  "same_but_pmtu c (c\<lparr> pmtusize := p, delay := d \<rparr>)"
  by (simp_all add: same_but_pmtu_def)

lemma same_but_pmtu_trans: "same_but_pmtu a b \<Longrightarrow> same_but_pmtu b c \<Longrightarrow> same_but_pmtu a c"
  by (simp add: same_but_pmtu_def)

lemma sends_refl [simp]: "sends s s"
  by (simp add: sends_def option.rel_refl)

lemma rel_option_trans:
  assumes "\<And>a b c. R a b \<Longrightarrow> R b c \<Longrightarrow> R a c" "rel_option R x y" "rel_option R y z"
  shows "rel_option R x z"
  using assms(2,3) by (cases x; cases y; cases z) (auto intro: assms(1))

lemma sends_trans:
  assumes "sends s t" "sends t u" shows "sends s u"
proof -
  have "rel_option same_but_pmtu (connectbuf s i) (connectbuf u i)" for i
    by (rule rel_option_trans [where y = "connectbuf t i"])
      (use assms in \<open>auto simp: sends_def intro: same_but_pmtu_trans\<close>)
  with assms show ?thesis by (simp add: sends_def)
qed

lemma sends_more:
  assumes "rate.more s' = rate.more s" "awake s \<Longrightarrow> awake s'" shows "sends s s'"
  unfolding sends_def using ml_same_more [OF assms(1)] assms(2) by (simp add: option.rel_refl)

lemma sends_set_conn:
  assumes "conn i s = Inr c" "same_but_pmtu c c'" shows "sends s (set_conn i c' s)"
  using assms by (auto simp: sends_def set_conn_def conn_Inr option.rel_refl)

lemma sends_counter [simp]: "sends s (s\<lparr> sentDataPktCounter := n \<rparr>)"
  by (simp add: sends_def option.rel_refl)

lemma after_submit_sends:
  assumes "after_submit job off v r s = Inr (out, s')" shows "sends s s'"
proof -
  show ?thesis
    using assms
    by (auto simp: after_submit_def Let_def res_map_Inr intro: sends_set_conn split: error_code.splits if_splits)
qed

lemma send_frag_sends:
  assumes "send_frag env job ld h off s = Some (Inr (out, s'))" shows "sends s s'"
proof -
  from assms obtain v r s1 where q: "queueOrSendPacket env (socketfd s) v 4 (sj_addr job) (job_priority job) s = Some (Inr (r, s1))"
    "after_submit job off v r s1 = Inr (out, s')"
    by (auto simp: send_frag_def split: sum.splits option.splits prod.splits)
  have "sends s s1" by (rule sends_more [OF queueOrSendPacket_more [OF q(1)] queueOrSendPacket_awake(2) [OF q(1) _ refl]])
  then show ?thesis using after_submit_sends [OF q(2)] by (rule sends_trans)
qed

lemma send_frags_sends:
  assumes "send_frags env job ld h off s = Some r" shows "\<forall>b s'. r = Inr (b, s') \<longrightarrow> sends s s'"
proof (rule send_frags.raw_induct [where P = "\<lambda>env job ld h off s r. \<forall>b s'. r = Inr (b, s') \<longrightarrow> sends s s'", OF _ assms],
    goal_cases)
  case (1 f env job ld h off s r)
  then show ?case
    using send_frag_sends [of env job ld h off s]
    by (auto split: option.splits sum.splits prod.splits frag_out.splits if_splits intro: sends_trans)
qed

lemma send_loop_sends:
  assumes "send_loop env job sp s = Some r" shows "\<forall>s'. r = Inr s' \<longrightarrow> sends s s'"
proof (rule send_loop.raw_induct [where P = "\<lambda>env job sp s r. \<forall>s'. r = Inr s' \<longrightarrow> sends s s'", OF _ assms], goal_cases)
  case (1 f env job sp s r)
  have fr: "sends s s1" if "send_frags env job ld h 0 s = Some (Inr (b, s1))" for ld h b s1
    using send_frags_sends [OF that] by simp
  from 1 show ?case
    by (auto split: option.splits sum.splits prod.splits if_splits dest: fr intro: sends_trans [OF fr])
qed

lemma send_msg_sends:
  assumes "send_msg env cid mtype msg n trunc sp s = Some (Inr s')" shows "sends s s'"
proof -
  from assms obtain c where c: "conn cid s = Inr c"
    and l: "send_loop env (make_job c cid mtype msg n trunc) sp (set_conn cid (c\<lparr> seqnr := seqnr c + 1 \<rparr>) s) = Some (Inr s')"
    by (auto simp: send_msg_def split: sum.splits)
  have "sends s (set_conn cid (c\<lparr> seqnr := seqnr c + 1 \<rparr>) s)" by (rule sends_set_conn [OF c]) simp
  with send_loop_sends [OF l] show ?thesis by (blast intro: sends_trans)
qed

section \<open>An invariant of the tables\<close>

text \<open>
  Every used slot is inside its table. A connection's control buffer, once allocated, holds a whole
  connection message, and an established connection has no callback waiting; \<open>X\<close> are connections
  whose callbacks are about to be run. A message being received has the buffer that \<open>bufsize\<close> says,
  belongs to a possible connection and a message type that has a callback slot, and counts its gaps
  inside its array; it is complete exactly when as many bytes arrived as it has. Packets waiting
  for the rate limiter have an event planned.
\<close>

definition ctrl_ok :: "connect_data \<Rightarrow> bool" where
  "ctrl_ok c \<longleftrightarrow> (\<forall>b. ctrl_msg_buf c = Some b \<longrightarrow> CONN_MSG_SIZE \<le> length b)"

definition cbs_ok :: "connect_data \<Rightarrow> bool" where
  "cbs_ok c \<longleftrightarrow> (status c = READY \<longrightarrow> connection_cbs c = [])"

definition rd_ok :: "int \<Rightarrow> recvdata \<Rightarrow> bool" where
  "rd_ok i r \<longleftrightarrow>
     in_table RECVDATABUFSIZE i \<and> in_table CONNECTBUFSIZE (rd_connectionID r)
     \<and> in_table MSGMULTIPLEXSIZE (uint (rd_msgtype r))
     \<and> int (length (recvbuf r)) = bufsize r \<and> 0 \<le> monitoringDataHeaderLen r \<and> monitoringDataHeaderLen r \<le> bufsize r
     \<and> length (gapArray r) = RTX_MAX_GAPS \<and> gapCounter r \<le> RTX_MAX_GAPS
     \<and> (rd_status r = COMPLETE \<longleftrightarrow> arrivedBytes r = bufsize r - monitoringDataHeaderLen r) \<and> rd_status r \<noteq> INACTIVE"

definition conn_inv :: "int set \<Rightarrow> 'a ml_scheme \<Rightarrow> bool" where
  "conn_inv X s \<longleftrightarrow>
     (\<forall>i c. connectbuf s i = Some c \<longrightarrow> in_table CONNECTBUFSIZE i \<and> ctrl_ok c \<and> (i \<notin> X \<longrightarrow> cbs_ok c))
     \<and> (\<forall>i r. recvdatabuf s i = Some r \<longrightarrow> rd_ok i r) \<and> awake s"

lemma conn_inv_cong:
  "connectbuf s' = connectbuf s \<Longrightarrow> recvdatabuf s' = recvdatabuf s \<Longrightarrow> awake s' = awake s \<Longrightarrow> conn_inv X s' = conn_inv X s"
  by (simp add: conn_inv_def)

lemma conn_inv_sends:
  assumes "sends s s'" "conn_inv X s" shows "conn_inv X s'"
  unfolding conn_inv_def
proof (intro conjI allI impI)
  show "rd_ok i r" if "recvdatabuf s' i = Some r" for i r
    using assms that by (simp add: sends_def conn_inv_def)
  show "awake s'" using assms by (simp add: sends_def conn_inv_def)
next
  fix i c' assume c': "connectbuf s' i = Some c'"
  have "rel_option same_but_pmtu (connectbuf s i) (connectbuf s' i)" using assms(1) by (simp add: sends_def)
  then obtain c where c: "connectbuf s i = Some c" "same_but_pmtu c c'"
    using c' by (cases "connectbuf s i") auto
  then have "ctrl_ok c' = ctrl_ok c" "cbs_ok c' = cbs_ok c"
    by (simp_all add: same_but_pmtu_def ctrl_ok_def cbs_ok_def)
  with c(1) assms(2) show "in_table CONNECTBUFSIZE i" "ctrl_ok c'" "i \<notin> X \<Longrightarrow> cbs_ok c'"
    by (simp_all add: conn_inv_def)
qed

lemma conn_inv_set_conn:
  "conn_inv X s \<Longrightarrow> in_table CONNECTBUFSIZE i \<Longrightarrow> ctrl_ok c \<Longrightarrow> (i \<notin> X \<longrightarrow> cbs_ok c) \<Longrightarrow> conn_inv X (set_conn i c s)"
  by (simp add: conn_inv_def set_conn_def)

lemma conn_inv_get:
  "conn_inv X s \<Longrightarrow> conn i s = Inr c \<Longrightarrow> in_table CONNECTBUFSIZE i \<and> ctrl_ok c \<and> (i \<notin> X \<longrightarrow> cbs_ok c)"
  by (auto simp: conn_inv_def conn_Inr)

lemma conn_inv_upd:
  assumes "upd_conn i f s = Inr s'" "conn_inv X s"
    and "\<And>c. ctrl_msg_buf (f c) = ctrl_msg_buf c \<and> status (f c) = status c \<and> connection_cbs (f c) = connection_cbs c"
  shows "conn_inv X s'"
proof -
  obtain c where c: "conn i s = Inr c" "s' = set_conn i (f c) s" using assms(1) by (auto simp: upd_conn_def res_map_Inr)
  have "ctrl_ok (f c) = ctrl_ok c" "cbs_ok (f c) = cbs_ok c" using assms(3) [of c] by (simp_all add: ctrl_ok_def cbs_ok_def)
  then show ?thesis unfolding c(2) using conn_inv_get [OF assms(2) c(1)] by (intro conn_inv_set_conn [OF assms(2)]) auto
qed

lemma conn_inv_subset: "conn_inv X s \<Longrightarrow> X \<subseteq> Y \<Longrightarrow> conn_inv Y s"
  by (auto simp: conn_inv_def)

lemma send_conn_msg_cases:
  assumes "send_conn_msg env cid n cmd s = Some (Inr s')" "\<not> (0 \<le> n \<and> n < int CONN_MSG_SIZE)"
  obtains c b0 b where "conn cid s = Inr c" "mem_write b0 0 (conn_msg_bytes c cmd s) = Inr b"
    "case ctrl_msg_buf c of Some b \<Rightarrow> b0 = b | None \<Rightarrow> 0 \<le> n \<and> b0 = replicate (nat n) 0"
    "send_msg env cid ML_CON_MSG b n True (defaultSendParams c) (set_conn cid (c\<lparr> ctrl_msg_buf := Some b \<rparr>) s)
        = Some (Inr s')"
proof -
  let ?alloc = "\<lambda>c. case ctrl_msg_buf c of Some b \<Rightarrow> Inr b
      | None \<Rightarrow> if n < 0 then Inl NullDeref else Inr (replicate (nat n) (0 :: byte))"
  let ?m = "res_bind (conn cid s) (\<lambda>c. res_bind (?alloc c)
      (\<lambda>b. res_map (\<lambda>b1. (c, b1)) (mem_write b 0 (conn_msg_bytes c cmd s))))"
  have eq: "send_conn_msg env cid n cmd s = (case ?m of Inl e \<Rightarrow> Some (Inl e)
         | Inr (c, b) \<Rightarrow> send_msg env cid ML_CON_MSG b n True (defaultSendParams c) (set_conn cid (c\<lparr> ctrl_msg_buf := Some b \<rparr>) s))"
    unfolding send_conn_msg_def using assms(2) by simp
  then obtain c b where m: "?m = Inr (c, b)"
    and r: "send_msg env cid ML_CON_MSG b n True (defaultSendParams c) (set_conn cid (c\<lparr> ctrl_msg_buf := Some b \<rparr>) s) = Some (Inr s')"
    using assms(1) by (auto split: sum.splits prod.splits)
  from m obtain b0 where "conn cid s = Inr c" "?alloc c = Inr b0" "mem_write b0 0 (conn_msg_bytes c cmd s) = Inr b"
    by (auto simp: res_bind_Inr res_map_Inr)
  then show thesis using r that [of c b0 b] by (auto split: option.splits if_splits)
qed

lemma send_conn_msg_inv:
  assumes "send_conn_msg env cid n cmd s = Some (Inr s')" "conn_inv X s" shows "conn_inv X s'"
proof (cases "0 \<le> n \<and> n < int CONN_MSG_SIZE")
  case True
  with assms show ?thesis by (simp add: send_conn_msg_def)
next
  case False
  obtain c b0 b where c: "conn cid s = Inr c" "mem_write b0 0 (conn_msg_bytes c cmd s) = Inr b"
    "case ctrl_msg_buf c of Some b \<Rightarrow> b0 = b | None \<Rightarrow> 0 \<le> n \<and> b0 = replicate (nat n) 0"
    and m: "send_msg env cid ML_CON_MSG b n True (defaultSendParams c) (set_conn cid (c\<lparr> ctrl_msg_buf := Some b \<rparr>) s)
        = Some (Inr s')"
    by (rule send_conn_msg_cases [OF assms(1) False])
  note cc = conn_inv_get [OF assms(2) c(1)]
  have "CONN_MSG_SIZE \<le> length b0" using c(3) cc False by (auto simp: ctrl_ok_def split: option.splits)
  then have "ctrl_ok (c\<lparr> ctrl_msg_buf := Some b \<rparr>)" using mem_write_length [OF c(2)] by (simp add: ctrl_ok_def)
  then have "conn_inv X (set_conn cid (c\<lparr> ctrl_msg_buf := Some b \<rparr>) s)"
    using cc by (intro conn_inv_set_conn [OF assms(2)]) (auto simp: cbs_ok_def)
  then show ?thesis by (rule conn_inv_sends [OF send_msg_sends [OF m]])
qed

lemma send_pmtu_inv:
  assumes "send_conn_msg_with_pmtu_discovery env cid n cmd s = Some (Inr s')" "conn_inv X s"
  shows "conn_inv X s'"
proof -
  have j: "conn_inv X (s\<lparr> ticks := ticks s + 1 \<rparr>)" using assms(2) by (simp add: conn_inv_def)
  obtain s1 s2 where s1: "upd_conn cid (\<lambda>c. c\<lparr> timeout_value := \<lparr> tv_sec = 0, tv_usec = pmtu_jitter env (ticks s) \<rparr>, trials := 1 \<rparr>)
      (s\<lparr> ticks := ticks s + 1 \<rparr>) = Inr s1"
    "send_conn_msg env cid n cmd s1 = Some (Inr s2)" "reschedule_conn_msg cid s2 = Inr s'"
    using assms(1) by (auto simp: send_conn_msg_with_pmtu_discovery_def jittered_def Let_def opt_bind_Inr)
  have "conn_inv X s1" by (rule conn_inv_upd [OF s1(1) j]) simp
  then have "conn_inv X s2" by (rule send_conn_msg_inv [OF s1(2)])
  then show ?thesis by (rule conn_inv_upd [OF s1(3) [unfolded reschedule_conn_msg_def]]) simp
qed

lemma resend_inv:
  assumes "resend_conn_msg env cid s = Some (Inr s')" "conn_inv X s" shows "conn_inv X s'"
proof -
  obtain s1 c s2 where s1: "upd_conn cid (\<lambda>c. c\<lparr> trials := trials c + 1 \<rparr>) s = Inr s1" "conn cid s1 = Inr c"
    "send_conn_msg env cid (pmtusize c) (status c) s1 = Some (Inr s2)" "reschedule_conn_msg cid s2 = Inr s'"
    using assms(1) unfolding resend_conn_msg_def opt_bind_Inr option.inject by blast
  have "conn_inv X s1" by (rule conn_inv_upd [OF s1(1) assms(2)]) simp
  then have "conn_inv X s2" by (rule send_conn_msg_inv [OF s1(3)])
  then show ?thesis by (rule conn_inv_upd [OF s1(4) [unfolded reschedule_conn_msg_def]]) simp
qed

lemma run_conn_cbs_inv:
  assumes "run_conn_cbs cid s = Inr s'" "conn_inv {cid} s" shows "conn_inv {} s'"
proof -
  define s1 where "s1 = (case receive_Connection_cb s of None \<Rightarrow> s
                | Some f \<Rightarrow> s\<lparr> trace := trace s @ [Recv_connection f cid] \<rparr>)"
  have cb: "connectbuf s1 = connectbuf s" "recvdatabuf s1 = recvdatabuf s" "awake s1 = awake s" by (simp_all add: s1_def split: option.splits)
  obtain c where c: "conn cid s1 = Inr c" "s' = set_conn cid (c\<lparr> connection_cbs := [] \<rparr>)
      (s1\<lparr> trace := trace s1 @ map (\<lambda>(f, arg). Connection_cb f cid arg) (connection_cbs c) \<rparr>)"
    using assms(1) by (auto simp: run_conn_cbs_def s1_def [symmetric] Let_def res_map_Inr)
  have "conn_inv {cid} s1" using assms(2) cb by (simp add: conn_inv_def)
  with conn_inv_get [OF this c(1)] show ?thesis
    by (auto simp: c(2) conn_inv_def set_conn_def ctrl_ok_def cbs_ok_def)
qed

lemma recv_invite_inv:
  assumes "recv_invite env h m a s = Some (Inr s')" "conn_inv {} s" shows "conn_inv {} s'"
proof -
  let ?ans = "\<lambda>cid s1. opt_bind (Some (upd_conn cid (\<lambda>c. c\<lparr> status := CONNECT \<rparr>) s1)) (\<lambda>s2.
      send_conn_msg_with_pmtu_discovery env cid (sint (pmtu_size m)) CONNECT s2)"
  have ans: "conn_inv {} s'" if an: "?ans cid s1 = Some (Inr s')" and iv: "conn_inv {} s1" for cid s1
  proof -
    obtain s2 where s2: "upd_conn cid (\<lambda>c. c\<lparr> status := CONNECT \<rparr>) s1 = Inr s2"
      "send_conn_msg_with_pmtu_discovery env cid (sint (pmtu_size m)) CONNECT s2 = Some (Inr s')"
      using an by (auto simp: opt_bind_Inr)
    obtain c where c: "conn cid s1 = Inr c" "s2 = set_conn cid (c\<lparr> status := CONNECT \<rparr>) s1"
      using s2(1) by (auto simp: upd_conn_def res_map_Inr)
    have "conn_inv {} s2"
      using conn_inv_get [OF iv c(1)] unfolding c(2)
      by (intro conn_inv_set_conn [OF iv]) (auto simp: ctrl_ok_def cbs_ok_def)
    then show ?thesis by (rule send_pmtu_inv [OF s2(2)])
  qed
  show ?thesis
  proof (cases "first_match CONNECTBUFSIZE (connectbuf s) (same_peer (env_gai env) (sock_id m))")
    case (Some cid)
    then obtain s1 where s1: "upd_conn cid (\<lambda>c. c\<lparr> external_connectionID := sint (local_con_id h) \<rparr>) s = Inr s1"
      "?ans cid s1 = Some (Inr s')"
      using assms(1) by (auto simp: recv_invite_def Let_def opt_bind_Inr)
    have "conn_inv {} s1" by (rule conn_inv_upd [OF s1(1) assms(2)]) simp
    then show ?thesis by (rule ans [OF s1(2)])
  next
    case None
    let ?i = "first_free CONNECTBUFSIZE (connectbuf s)"
    let ?c = "(new_conn env (sock_id m) s)\<lparr> pmtusize := sint (pmtu_size m), external_connectionID := sint (local_con_id h),
        internal_connect := mlCompareAddr (internal_addr (sock_id m)) a = 0 \<rparr>"
    show ?thesis
    proof (cases "?i = -1")
      case True
      with None assms show ?thesis by (simp add: recv_invite_def Let_def)
    next
      case False
      then have t: "in_table CONNECTBUFSIZE ?i" using first_free_cases [of CONNECTBUFSIZE "connectbuf s"] by auto
      have "ctrl_ok ?c" "cbs_ok ?c" by (simp_all add: ctrl_ok_def cbs_ok_def new_conn_def)
      then have iv: "conn_inv {} (set_conn ?i ?c s)" by (intro conn_inv_set_conn [OF assms(2) t]) auto
      have "?ans ?i (set_conn ?i ?c s) = Some (Inr s')"
        using assms(1) None False by (simp add: recv_invite_def Let_def)
      then show ?thesis by (rule ans [OF _ iv])
    qed
  qed
qed

lemma recv_connect_inv:
  assumes "recv_connect env h m s = Some (Inr s')" "conn_inv {} s" shows "conn_inv {} s'"
proof -
  let ?cid = "hdr_con h"
  obtain go where go: "(if ?cid = -1 then Inr True
      else res_map (\<lambda>x. x \<noteq> None) (slot CONNECTBUFSIZE (connectbuf s) ?cid)) = Inr go"
    using assms(1) by (auto simp: recv_connect_def Let_def opt_bind_Inr)
  show ?thesis
  proof (cases go)
    case False
    with go assms show ?thesis by (simp add: recv_connect_def Let_def)
  next
    case True
    then obtain c where c: "conn ?cid s = Inr c"
      using go assms(1) by (auto simp: recv_connect_def Let_def opt_bind_Inr)
    note cc = conn_inv_get [OF assms(2) c]
    show ?thesis
    proof (cases "status c = INVITE")
      case True
      let ?c = "c\<lparr> external_connectionID := sint (local_con_id h), status := READY \<rparr>"
      obtain s1 where s1: "send_conn_msg_with_pmtu_discovery env ?cid (sint (pmtu_size m)) READY (set_conn ?cid ?c s) = Some (Inr s1)"
        "run_conn_cbs ?cid s1 = Inr s'"
        using assms(1) go \<open>go\<close> c True by (auto simp: recv_connect_def Let_def opt_bind_Inr)
      have "conn_inv {?cid} (set_conn ?cid ?c s)"
        using cc by (intro conn_inv_set_conn [OF conn_inv_subset [OF assms(2)]]) (auto simp: ctrl_ok_def)
      then have "conn_inv {?cid} s1" by (rule send_pmtu_inv [OF s1(1)])
      then show ?thesis by (rule run_conn_cbs_inv [OF s1(2)])
    next
      case False
      then have "send_conn_msg_with_pmtu_discovery env ?cid (sint (pmtu_size m)) READY s = Some (Inr s')"
        using assms(1) go \<open>go\<close> c by (simp add: recv_connect_def Let_def)
      then show ?thesis by (rule send_pmtu_inv [OF _ assms(2)])
    qed
  qed
qed

lemma recv_ready_inv:
  assumes "recv_ready h s = Inr s'" "conn_inv {} s" shows "conn_inv {} s'"
proof -
  obtain x where x: "slot CONNECTBUFSIZE (connectbuf s) (hdr_con h) = Inr x"
    using assms(1) by (auto simp: recv_ready_def res_bind_Inr)
  show ?thesis
  proof (cases "\<exists>c. x = Some c \<and> status c = CONNECT")
    case True
    then obtain c where c: "x = Some c" "status c = CONNECT" by blast
    then have r: "run_conn_cbs (hdr_con h) (set_conn (hdr_con h) (c\<lparr> status := READY \<rparr>) s) = Inr s'"
      using assms(1) x by (simp add: recv_ready_def)
    have "connectbuf s (hdr_con h) = Some c" using x c(1) by (auto simp: slot_def split: if_splits)
    then have "in_table CONNECTBUFSIZE (hdr_con h) \<and> ctrl_ok c" using assms(2) by (simp add: conn_inv_def)
    then have "conn_inv {hdr_con h} (set_conn (hdr_con h) (c\<lparr> status := READY \<rparr>) s)"
      by (intro conn_inv_set_conn [OF conn_inv_subset [OF assms(2)]]) (auto simp: ctrl_ok_def)
    then show ?thesis by (rule run_conn_cbs_inv [OF r])
  next
    case False
    with assms x have "s' = s" by (cases x) (auto simp: recv_ready_def split: if_splits)
    with assms(2) show ?thesis by simp
  qed
qed

lemma recv_conn_msg_inv:
  assumes "recv_conn_msg env h buf pos n a s = Some (Inr s')" "conn_inv {} s" shows "conn_inv {} s'"
proof (cases "mem_read buf (pos + hdr_mon h) (int CONN_MSG_SIZE)")
  case (Inl e)
  with assms show ?thesis by (simp add: recv_conn_msg_def)
next
  case (Inr bs)
  let ?m0 = "decode_conn bs"
  let ?m = "?m0\<lparr> sock_id := swap_families (sock_id ?m0) \<rparr>"
  define s1 where "s1 = (if get_Recv_data_inf_cb env
      then s\<lparr> ticks := ticks s + 1, trace := trace s @ [Mon_recv_data bs (n - hdr_mon h)] \<rparr> else s)"
  have iv: "conn_inv {} s1" using assms(2) by (simp add: s1_def conn_inv_def)
  have "recv_conn_msg env h buf pos n a s =
      (if 0 \<le> n - hdr_mon h \<and> n - hdr_mon h < int CONN_MSG_SIZE then Some (Inr s)
       else if mlCompareAddr (internal_addr (sock_id ?m)) a \<noteq> 0 \<and> mlCompareAddr (external_addr (sock_id ?m)) a \<noteq> 0
       then Some (Inr s)
       else if comand_type ?m = 0 then recv_invite env h ?m a s1
       else if comand_type ?m = 1 then recv_connect env h ?m s1
       else if comand_type ?m = 2 then Some (recv_ready h s1) else Some (Inr s1))"
    unfolding recv_conn_msg_def s1_def Inr Let_def by simp
  with assms(1) consider "s' = s" | "recv_invite env h ?m a s1 = Some (Inr s')" | "recv_connect env h ?m s1 = Some (Inr s')"
    | "recv_ready h s1 = Inr s'" | "s' = s1"
    by (metis option.inject sum.inject(2))
  then show ?thesis
  proof cases
    case 2 then show ?thesis by (rule recv_invite_inv [OF _ iv])
  next
    case 3 then show ?thesis by (rule recv_connect_inv [OF _ iv])
  next
    case 4 then show ?thesis by (rule recv_ready_inv [OF _ iv])
  qed (use assms(2) iv in simp_all)
qed

lemma mlCloseConnection_inv:
  assumes "mlCloseConnection cid s = Inr s'" "conn_inv X s" shows "conn_inv X s'"
  using assms by (auto simp: mlCloseConnection_def conn_inv_def res_map_Inr)

lemma pmtu_timeout_cb_inv:
  assumes "pmtu_timeout_cb env cid s = Some (Inr s')" "conn_inv {} s" shows "conn_inv {} s'"
proof -
  obtain x where x: "slot CONNECTBUFSIZE (connectbuf s) cid = Inr x"
    using assms(1) by (auto simp: pmtu_timeout_cb_def opt_bind_Inr)
  show ?thesis
  proof (cases x)
    case None
    with assms x show ?thesis by (simp add: pmtu_timeout_cb_def)
  next
    case (Some c)
    have "connectbuf s cid = Some c" using x Some by (auto simp: slot_def split: if_splits)
    then have cc: "in_table CONNECTBUFSIZE cid" "ctrl_ok c" "cbs_ok c" using assms(2) by (auto simp: conn_inv_def)
    show ?thesis
    proof (cases "status c = READY")
      case True
      then have "s' = set_conn cid (c\<lparr> timeout_event := None \<rparr>) s"
        using assms(1) x Some by (simp add: pmtu_timeout_cb_def)
      then show ?thesis
        using cc by (auto intro!: conn_inv_set_conn [OF assms(2)] simp: ctrl_ok_def cbs_ok_def)
    next
      case False
      obtain tout s1 where j: "(if trials c = MAX_TRIALS then jittered env s else (timeout_value c, s)) = (tout, s1)"
        by fastforce
      have s1: "connectbuf s1 = connectbuf s" "recvdatabuf s1 = recvdatabuf s" "awake s1 = awake s"
        using j by (auto simp: jittered_def split: if_splits)
      have iv1: "conn_inv {} s1" using assms(2) s1 by (simp add: conn_inv_def)
      let ?c1 = "pmtu_reduce tout (pmtu_backoff c)"
      have c1: "ctrl_ok (?c1\<lparr> internal_connect := b, pmtusize := p \<rparr>)" "cbs_ok (?c1\<lparr> internal_connect := b, pmtusize := p \<rparr>)"
        "ctrl_ok ?c1" "cbs_ok ?c1" for b p
        using cc(2,3) by (simp_all add: pmtu_reduce_def pmtu_backoff_def ctrl_ok_def cbs_ok_def Let_def)
      have ivc: "conn_inv {} (set_conn cid ?c1 t)" if "connectbuf t = connectbuf s" "recvdatabuf t = recvdatabuf s" "awake t = awake s" for t
        using that c1 cc(1) assms(2) by (intro conn_inv_set_conn) (auto simp: conn_inv_def)
      define s2 where "s2 = (case failed_Connection_cb s1 of None \<Rightarrow> s1
          | Some f \<Rightarrow> s1\<lparr> trace := trace s1 @ [Failed_connection f cid] \<rparr>)"
      have s2: "connectbuf s2 = connectbuf s" "recvdatabuf s2 = recvdatabuf s" "awake s2 = awake s"
        using s1 by (simp_all add: s2_def split: option.splits)
      have "pmtu_timeout_cb env cid s = (if pmtusize ?c1 = -1 then
           (if internal_connect ?c1
            then resend_conn_msg env cid (set_conn cid (?c1\<lparr> internal_connect := False, pmtusize := 1372 \<rparr>) s1)
            else Some (mlCloseConnection cid (set_conn cid ?c1 s2)))
         else resend_conn_msg env cid (set_conn cid ?c1 s1))"
        using x Some False j unfolding pmtu_timeout_cb_def s2_def by (simp add: Let_def)
      then consider "resend_conn_msg env cid (set_conn cid (?c1\<lparr> internal_connect := False, pmtusize := 1372 \<rparr>) s1) = Some (Inr s')"
        | "mlCloseConnection cid (set_conn cid ?c1 s2) = Inr s'" | "resend_conn_msg env cid (set_conn cid ?c1 s1) = Some (Inr s')"
        using assms(1) by (metis option.inject)
      then show ?thesis
      proof cases
        case 1
        then show ?thesis by (rule resend_inv) (use c1 cc(1) in \<open>auto intro: conn_inv_set_conn [OF iv1]\<close>)
      next
        case 2
        then show ?thesis by (rule mlCloseConnection_inv [OF _ ivc [OF s2]])
      next
        case 3
        then show ?thesis by (rule resend_inv [OF _ ivc [OF s1]])
      qed
    qed
  qed
qed

lemma mlSendData_sends:
  assumes "mlSendData env cid b n t sp s = Some (Inr s')" shows "sends s s'"
proof (cases "cid < 0")
  case True
  with assms show ?thesis by (simp add: mlSendData_def)
next
  case False
  then obtain x where x: "slot CONNECTBUFSIZE (connectbuf s) cid = Inr x"
    using assms by (auto simp: mlSendData_def opt_bind_Inr)
  show ?thesis
  proof (cases x)
    case (Some c)
    with False x assms send_msg_sends show ?thesis
      by (cases "status c = READY") (auto simp: mlSendData_def)
  qed (use False x assms in \<open>simp add: mlSendData_def\<close>)
qed

lemma setupKeepalive_inv: "setupKeepalive cid s = Inr s' \<Longrightarrow> connectbuf s' = connectbuf s \<and> trace s' = trace s"
  by (auto simp: setupKeepalive_def res_map_Inr Let_def)

end
