(* ===== verification/Stun.thy ===== *)
theory Stun
  imports Wire
begin

text \<open>
  The STUN codec of \<open>ml/util/stun.c\<close>: messages as the structure \<open>StunMessage\<close>, building and encoding
  a binding request, and the parser that runs on the packet buffer of \<open>recv_pkg\<close>. The encoder
  writes into a buffer of the caller, the parser reads from one; both fault where the C code leaves
  the buffer or an array of the structure. \<open>size_t\<close> and pointers have 8 bytes.
\<close>

section \<open>Messages\<close>

record stun_addr =
  sa_pad :: byte
  sa_family :: byte
  sa_port :: u16
  sa_addr :: u32

record stun_string =
  str_value :: "byte list"
  sizeValue :: u16

record stun_error =
  er_pad :: u16
  errorClass :: byte
  er_number :: byte
  reason :: "byte list"
  sizeReason :: u16

record stun_unknown =
  attrType :: "u16 list"
  numAttributes :: u16

record stun_msg =
  msgType :: u16
  msgLength :: u16
  octet :: "byte list"
  hasMappedAddress :: bool
  mappedAddress :: stun_addr
  hasResponseAddress :: bool
  responseAddress :: stun_addr
  hasChangeRequest :: bool
  changeRequest :: u32
  hasSourceAddress :: bool
  sourceAddress :: stun_addr
  hasChangedAddress :: bool
  changedAddress :: stun_addr
  hasUsername :: bool
  username :: stun_string
  hasPassword :: bool
  password :: stun_string
  hasMessageIntegrity :: bool
  messageIntegrity :: "byte list"
  hasErrorCode :: bool
  errorCode :: stun_error
  hasUnknownAttributes :: bool
  unknownAttributes :: stun_unknown
  hasReflectedFrom :: bool
  reflectedFrom :: stun_addr
  hasXorMappedAddress :: bool
  xorMappedAddress :: stun_addr
  xorOnly :: bool
  hasServerName :: bool
  serverName :: stun_string
  hasSecondaryAddress :: bool
  secondaryAddress :: stun_addr

definition STUN_MAX_STRING :: nat where "STUN_MAX_STRING = 256"
definition STUN_MAX_UNKNOWN_ATTRIBUTES :: nat where "STUN_MAX_UNKNOWN_ATTRIBUTES = 8"
definition STUN_MAX_MESSAGE_SIZE :: nat where "STUN_MAX_MESSAGE_SIZE = 576"
definition STUN_HDR_SIZE :: nat where "STUN_HDR_SIZE = 20"

definition addr0 :: stun_addr where
  "addr0 = \<lparr> sa_pad = 0, sa_family = 0, sa_port = 0, sa_addr = 0 \<rparr>"

definition string0 :: stun_string where
  "string0 = \<lparr> str_value = replicate STUN_MAX_STRING 0, sizeValue = 0 \<rparr>"

text \<open>A message of zero bytes, as \<open>memset\<close> leaves it.\<close>

definition stun0 :: stun_msg where
  "stun0 = \<lparr> msgType = 0, msgLength = 0, octet = replicate 16 0,
     hasMappedAddress = False, mappedAddress = addr0, hasResponseAddress = False, responseAddress = addr0,
     hasChangeRequest = False, changeRequest = 0, hasSourceAddress = False, sourceAddress = addr0,
     hasChangedAddress = False, changedAddress = addr0, hasUsername = False, username = string0,
     hasPassword = False, password = string0, hasMessageIntegrity = False, messageIntegrity = replicate 20 0,
     hasErrorCode = False,
     errorCode = \<lparr> er_pad = 0, errorClass = 0, er_number = 0, reason = replicate STUN_MAX_STRING 0, sizeReason = 0 \<rparr>,
     hasUnknownAttributes = False,
     unknownAttributes = \<lparr> attrType = replicate STUN_MAX_UNKNOWN_ATTRIBUTES 0, numAttributes = 0 \<rparr>,
     hasReflectedFrom = False, reflectedFrom = addr0, hasXorMappedAddress = False, xorMappedAddress = addr0,
     xorOnly = False, hasServerName = False, serverName = string0, hasSecondaryAddress = False,
     secondaryAddress = addr0 \<rparr>"

section \<open>Encoding\<close>

definition IPv4Family :: byte where "IPv4Family = 1"

definition MappedAddress :: u16 where "MappedAddress = 0x0001"
definition ResponseAddress :: u16 where "ResponseAddress = 0x0002"
definition ChangeRequest :: u16 where "ChangeRequest = 0x0003"
definition SourceAddress :: u16 where "SourceAddress = 0x0004"
definition ChangedAddress :: u16 where "ChangedAddress = 0x0005"
definition Username :: u16 where "Username = 0x0006"
definition Password :: u16 where "Password = 0x0007"
definition MessageIntegrity :: u16 where "MessageIntegrity = 0x0008"
definition ErrorCode :: u16 where "ErrorCode = 0x0009"
definition UnknownAttribute :: u16 where "UnknownAttribute = 0x000A"
definition ReflectedFrom :: u16 where "ReflectedFrom = 0x000B"
definition XorMappedAddress :: u16 where "XorMappedAddress = 0x8020"
definition XorOnly :: u16 where "XorOnly = 0x0021"
definition ServerName :: u16 where "ServerName = 0x8022"
definition SecondaryAddress :: u16 where "SecondaryAddress = 0x8050"
definition BindRequestMsg :: u16 where "BindRequestMsg = 0x0001"
definition BindResponseMsg :: u16 where "BindResponseMsg = 0x0101"

lemmas attr_types = MappedAddress_def ResponseAddress_def ChangeRequest_def SourceAddress_def ChangedAddress_def
  Username_def Password_def MessageIntegrity_def ErrorCode_def UnknownAttribute_def ReflectedFrom_def
  XorMappedAddress_def XorOnly_def ServerName_def SecondaryAddress_def

definition encodeAtrAddress4 :: "u16 \<Rightarrow> stun_addr \<Rightarrow> byte list" where
  "encodeAtrAddress4 typ a =
     be16 typ @ be16 8 @ [sa_pad a, IPv4Family] @ be16 (sa_port a) @ be32 (sa_addr a)"

definition encodeAtrChangeRequest :: "u32 \<Rightarrow> byte list" where
  "encodeAtrChangeRequest v = be16 ChangeRequest @ be16 4 @ be32 v"

definition encodeAtrString :: "u16 \<Rightarrow> stun_string \<Rightarrow> byte list res" where
  "encodeAtrString typ a =
     res_bind (check AssertFail (sizeValue a mod 4 = 0)) (\<lambda>_.
       res_map (\<lambda>bs. be16 typ @ be16 (sizeValue a) @ bs) (mem_read (str_value a) 0 (uint (sizeValue a))))"

definition encodeAtrIntegrity :: "byte list \<Rightarrow> byte list" where
  "encodeAtrIntegrity hash = be16 MessageIntegrity @ be16 20 @ hash"

definition encodeAtrError :: "stun_error \<Rightarrow> byte list res" where
  "encodeAtrError a =
     res_map (\<lambda>bs. be16 ErrorCode @ be16 (6 + sizeReason a) @ be16 (er_pad a) @ [errorClass a, er_number a] @ bs)
       (mem_read (reason a) 0 (uint (sizeReason a)))"

definition encodeAtrUnknown :: "stun_unknown \<Rightarrow> byte list res" where
  "encodeAtrUnknown a =
     (if unat (numAttributes a) \<le> length (attrType a)
      then Inr (be16 UnknownAttribute @ be16 (2 + 2 * numAttributes a)
                @ concat (map be16 (take (unat (numAttributes a)) (attrType a))))
      else Inl OutOfBounds)"

definition encodeXorOnly :: "byte list" where
  "encodeXorOnly = be16 XorOnly"

definition enc_if :: "bool \<Rightarrow> byte list res \<Rightarrow> byte list res" where
  "enc_if b m = (if b then m else Inr [])"

fun cat_res :: "byte list res list \<Rightarrow> byte list res" where
  "cat_res [] = Inr []"
| "cat_res (m # ms) = res_bind m (\<lambda>a. res_map (\<lambda>b. a @ b) (cat_res ms))"

text \<open>\<open>stack\<close> is the uninitialised \<open>integrity\<close> that is sent when a password is given.\<close>

definition encode_attrs :: "stun_msg \<Rightarrow> stun_string \<Rightarrow> byte list \<Rightarrow> byte list res" where
  "encode_attrs m pw stack = cat_res
     [enc_if (hasMappedAddress m) (Inr (encodeAtrAddress4 MappedAddress (mappedAddress m))),
      enc_if (hasResponseAddress m) (Inr (encodeAtrAddress4 ResponseAddress (responseAddress m))),
      enc_if (hasChangeRequest m) (Inr (encodeAtrChangeRequest (changeRequest m))),
      enc_if (hasSourceAddress m) (Inr (encodeAtrAddress4 SourceAddress (sourceAddress m))),
      enc_if (hasChangedAddress m) (Inr (encodeAtrAddress4 ChangedAddress (changedAddress m))),
      enc_if (hasUsername m) (encodeAtrString Username (username m)),
      enc_if (hasPassword m) (encodeAtrString Password (password m)),
      enc_if (hasErrorCode m) (encodeAtrError (errorCode m)),
      enc_if (hasUnknownAttributes m) (encodeAtrUnknown (unknownAttributes m)),
      enc_if (hasReflectedFrom m) (Inr (encodeAtrAddress4 ReflectedFrom (reflectedFrom m))),
      enc_if (hasXorMappedAddress m) (Inr (encodeAtrAddress4 XorMappedAddress (xorMappedAddress m))),
      enc_if (xorOnly m) (Inr encodeXorOnly),
      enc_if (hasServerName m) (encodeAtrString ServerName (serverName m)),
      enc_if (hasSecondaryAddress m) (Inr (encodeAtrAddress4 SecondaryAddress (secondaryAddress m))),
      enc_if (0 < sizeValue pw) (Inr (encodeAtrIntegrity stack))]"

definition stunEncodeMessage :: "stun_msg \<Rightarrow> byte list \<Rightarrow> stun_string \<Rightarrow> byte list \<Rightarrow> (byte list \<times> nat) res" where
  "stunEncodeMessage m buf pw stack =
     res_bind (check AssertFail (STUN_HDR_SIZE \<le> length buf)) (\<lambda>_.
     res_bind (encode_attrs m pw stack) (\<lambda>bs.
       (let out = be16 (msgType m) @ be16 (word_of_nat (length bs)) @ octet m @ bs
        in res_map (\<lambda>b. (b, length out)) (mem_write buf 0 out))))"

text \<open>\<open>rnd i\<close> is the \<open>i\<close>-th value of \<open>stunRand\<close>.\<close>

definition stunBuildReqSimple :: "(nat \<Rightarrow> u32) \<Rightarrow> stun_string \<Rightarrow> bool \<Rightarrow> bool \<Rightarrow> nat \<Rightarrow> stun_msg" where
  "stunBuildReqSimple rnd user changePort changeIp id0 =
     (let octets = concat (map (\<lambda>i. le32 (rnd i)) [0..<4]);
          m = stun0\<lparr> msgType := BindRequestMsg,
                octet := (if id0 \<noteq> 0 then octets[0 := word_of_nat id0] else octets),
                hasChangeRequest := True,
                changeRequest := (if changeIp then 4 else 0) OR (if changePort then 2 else 0) \<rparr>
      in if 0 < sizeValue user then m\<lparr> hasUsername := True, username := user \<rparr> else m)"

section \<open>Parsing\<close>

definition stunParseAtrAddress :: "byte list \<Rightarrow> int \<Rightarrow> nat \<Rightarrow> stun_addr \<Rightarrow> (bool \<times> stun_addr) res" where
  "stunParseAtrAddress buf pos len r =
     (if len \<noteq> 8 then Inr (False, r)
      else
        res_bind (mem_read buf pos 2) (\<lambda>b.
          (let r1 = r\<lparr> sa_pad := b ! 0, sa_family := b ! 1 \<rparr>
           in if sa_family r1 = IPv4Family
              then res_bind (mem_read buf (pos + 2) 2) (\<lambda>p.
                     res_map (\<lambda>a. (True, r1\<lparr> sa_port := of_be16 p, sa_addr := of_be32 a \<rparr>)) (mem_read buf (pos + 4) 4))
              else Inr (False, r1))))"

definition stunParseAtrChangeRequest :: "byte list \<Rightarrow> int \<Rightarrow> nat \<Rightarrow> u32 \<Rightarrow> (bool \<times> u32) res" where
  "stunParseAtrChangeRequest buf pos len r =
     (if len \<noteq> 4 then Inr (False, r) else res_map (\<lambda>b. (True, of_be32 b)) (mem_read buf pos 4))"

fun parse_types :: "byte list \<Rightarrow> int \<Rightarrow> nat \<Rightarrow> u16 list res" where
  "parse_types buf pos 0 = Inr []"
| "parse_types buf pos (Suc n) =
     res_bind (mem_read buf pos 2) (\<lambda>b. res_map (\<lambda>ts. of_be16 b # ts) (parse_types buf (pos + 2) n))"

definition stunParseAtrUnknown :: "byte list \<Rightarrow> int \<Rightarrow> nat \<Rightarrow> stun_unknown \<Rightarrow> (bool \<times> stun_unknown) res" where
  "stunParseAtrUnknown buf pos len r =
     (if 18 \<le> len \<or> len mod 4 \<noteq> 0 then Inr (False, r)
      else res_map (\<lambda>ts. (True, \<lparr> attrType = ts @ drop (length ts) (attrType r), numAttributes = word_of_nat (len div 4) \<rparr>))
             (parse_types buf pos (len div 4)))"

definition stunParseAtrString :: "byte list \<Rightarrow> int \<Rightarrow> nat \<Rightarrow> stun_string \<Rightarrow> (bool \<times> stun_string) res" where
  "stunParseAtrString buf pos len r =
     (if STUN_MAX_STRING \<le> len \<or> len mod 4 \<noteq> 0 then Inr (False, r)
      else
        res_bind (mem_read buf pos (int len)) (\<lambda>b.
        res_bind (mem_write (str_value r) 0 b) (\<lambda>v.
        res_map (\<lambda>v1. (True, \<lparr> str_value = v1, sizeValue = word_of_nat len \<rparr>)) (mem_write v (int len) [0]))))"

definition stunParseAtrIntegrity :: "byte list \<Rightarrow> int \<Rightarrow> nat \<Rightarrow> byte list \<Rightarrow> (bool \<times> byte list) res" where
  "stunParseAtrIntegrity buf pos len r =
     (if len \<noteq> 20 then Inr (False, r) else res_map (\<lambda>b. (True, b)) (mem_read buf pos 20))"

text \<open>\<open>sizeReason\<close> is a \<open>UInt16\<close>: for a length below 4 the subtraction wraps.\<close>

definition stunParseAtrError :: "byte list \<Rightarrow> int \<Rightarrow> nat \<Rightarrow> stun_error \<Rightarrow> (bool \<times> stun_error) res" where
  "stunParseAtrError buf pos len r =
     (if 262 \<le> len then Inr (False, r)
      else
        res_bind (mem_read buf pos 4) (\<lambda>b.
          (let n = word_of_nat len - 4 :: u16
           in res_bind (mem_read buf (pos + 4) (uint n)) (\<lambda>t.
              res_bind (mem_write (reason r) 0 t) (\<lambda>v.
              res_map (\<lambda>v1. (True, \<lparr> er_pad = of_be16 b, errorClass = b ! 2, er_number = b ! 3,
                                    reason = v1, sizeReason = n \<rparr>)) (mem_write v (uint n) [0]))))))"

definition stun_attr_late :: "byte list \<Rightarrow> int \<Rightarrow> nat \<Rightarrow> u16 \<Rightarrow> stun_msg \<Rightarrow> (bool \<times> stun_msg) res" where
  "stun_attr_late buf pos len typ m =
     (if typ = UnknownAttribute then
        res_map (\<lambda>(b, x). (b, m\<lparr> hasUnknownAttributes := True, unknownAttributes := x \<rparr>))
          (stunParseAtrUnknown buf pos len (unknownAttributes m))
      else if typ = ReflectedFrom then
        res_map (\<lambda>(b, x). (b, m\<lparr> hasReflectedFrom := True, reflectedFrom := x \<rparr>))
          (stunParseAtrAddress buf pos len (reflectedFrom m))
      else if typ = XorMappedAddress then
        res_map (\<lambda>(b, x). (b, m\<lparr> hasXorMappedAddress := True, xorMappedAddress := x \<rparr>))
          (stunParseAtrAddress buf pos len (xorMappedAddress m))
      else if typ = XorOnly then Inr (True, m\<lparr> xorOnly := True \<rparr>)
      else if typ = ServerName then
        res_map (\<lambda>(b, x). (b, m\<lparr> hasServerName := True, serverName := x \<rparr>))
          (stunParseAtrString buf pos len (serverName m))
      else if typ = SecondaryAddress then
        res_map (\<lambda>(b, x). (b, m\<lparr> hasSecondaryAddress := True, secondaryAddress := x \<rparr>))
          (stunParseAtrAddress buf pos len (secondaryAddress m))
      else Inr (\<not> typ \<le> 0x7FFF, m))"

definition stun_attr :: "byte list \<Rightarrow> int \<Rightarrow> nat \<Rightarrow> u16 \<Rightarrow> stun_msg \<Rightarrow> (bool \<times> stun_msg) res" where
  "stun_attr buf pos len typ m =
     (if typ = MappedAddress then
        res_map (\<lambda>(b, x). (b, m\<lparr> hasMappedAddress := True, mappedAddress := x \<rparr>))
          (stunParseAtrAddress buf pos len (mappedAddress m))
      else if typ = ResponseAddress then
        res_map (\<lambda>(b, x). (b, m\<lparr> hasResponseAddress := True, responseAddress := x \<rparr>))
          (stunParseAtrAddress buf pos len (responseAddress m))
      else if typ = ChangeRequest then
        res_map (\<lambda>(b, x). (b, m\<lparr> hasChangeRequest := True, changeRequest := x \<rparr>))
          (stunParseAtrChangeRequest buf pos len (changeRequest m))
      else if typ = SourceAddress then
        res_map (\<lambda>(b, x). (b, m\<lparr> hasSourceAddress := True, sourceAddress := x \<rparr>))
          (stunParseAtrAddress buf pos len (sourceAddress m))
      else if typ = ChangedAddress then
        res_map (\<lambda>(b, x). (b, m\<lparr> hasChangedAddress := True, changedAddress := x \<rparr>))
          (stunParseAtrAddress buf pos len (changedAddress m))
      else if typ = Username then
        res_map (\<lambda>(b, x). (b, m\<lparr> hasUsername := True, username := x \<rparr>))
          (stunParseAtrString buf pos len (username m))
      else if typ = Password then
        res_map (\<lambda>(b, x). (b, m\<lparr> hasPassword := True, password := x \<rparr>))
          (stunParseAtrString buf pos len (password m))
      else if typ = MessageIntegrity then
        res_map (\<lambda>(b, x). (b, m\<lparr> hasMessageIntegrity := True, messageIntegrity := x \<rparr>))
          (stunParseAtrIntegrity buf pos len (messageIntegrity m))
      else if typ = ErrorCode then
        res_map (\<lambda>(b, x). (b, m\<lparr> hasErrorCode := True, errorCode := x \<rparr>))
          (stunParseAtrError buf pos len (errorCode m))
      else stun_attr_late buf pos len typ m)"

lemmas stun_attr_defs = stun_attr_def stun_attr_late_def

text \<open>The loop over the attributes; \<open>left\<close> is its variable \<open>size\<close>.\<close>

fun stun_attrs :: "byte list \<Rightarrow> int \<Rightarrow> nat \<Rightarrow> stun_msg \<Rightarrow> (bool \<times> stun_msg) res" where
  "stun_attrs buf pos left m =
     (if left = 0 then Inr (True, m)
      else
        res_bind (mem_read buf pos 4) (\<lambda>a.
          (let typ = of_be16 a; len = unat (of_be16 (drop 2 a))
           in if left < len + 4 then Inr (False, m)
              else res_bind (stun_attr buf (pos + 4) len typ m) (\<lambda>(good, m1).
                     if good then stun_attrs buf (pos + 4 + int len) (left - 4 - len) m1 else Inr (False, m1)))))"

declare stun_attrs.simps [simp del]

text \<open>
  The \<open>memset\<close> at the start has the size of a pointer: it clears only the header's first 8 bytes.
\<close>

definition stunParseMessage :: "byte list \<Rightarrow> nat \<Rightarrow> stun_msg \<Rightarrow> (bool \<times> stun_msg) res" where
  "stunParseMessage buf bufLen m0 =
     (if bufLen < STUN_HDR_SIZE
      then Inr (False, m0\<lparr> msgType := 0, msgLength := 0, octet := replicate 4 0 @ drop 4 (octet m0) \<rparr>)
      else
        res_bind (mem_read buf 0 20) (\<lambda>b.
          (let m = m0\<lparr> msgType := of_be16 b, msgLength := of_be16 (drop 2 b), octet := drop 4 b \<rparr>
           in if unat (msgLength m) + STUN_HDR_SIZE \<noteq> bufLen then Inr (False, m)
              else stun_attrs buf 20 (unat (msgLength m)) m)))"

definition recv_stun_message :: "byte list \<Rightarrow> nat \<Rightarrow> stun_msg \<Rightarrow> (int \<times> stun_msg) res" where
  "recv_stun_message msgbuf msgLen m0 =
     res_map (\<lambda>(good, m). (if good then 0 else 1, m)) (stunParseMessage msgbuf msgLen m0)"

section \<open>Reading back what was encoded\<close>

definition holds :: "byte list \<Rightarrow> int \<Rightarrow> byte list \<Rightarrow> bool" where
  "holds buf pos bs \<longleftrightarrow> mem_read buf pos (int (length bs)) = Inr bs"

lemma holds_iff: "holds buf pos bs \<longleftrightarrow> 0 \<le> pos \<and> (\<exists>rest. drop (nat pos) buf = bs @ rest \<and> nat pos \<le> length buf)"
proof
  assume h: "holds buf pos bs"
  then have "0 \<le> pos" "pos + int (length bs) \<le> int (length buf)" "take (length bs) (drop (nat pos) buf) = bs"
    by (auto simp: holds_def mem_read_def split: if_splits)
  then show "0 \<le> pos \<and> (\<exists>rest. drop (nat pos) buf = bs @ rest \<and> nat pos \<le> length buf)"
    by (metis append_take_drop_id le_add_same_cancel1 nat_le_iff of_nat_0_le_iff order_trans)
next
  assume "0 \<le> pos \<and> (\<exists>rest. drop (nat pos) buf = bs @ rest \<and> nat pos \<le> length buf)"
  then obtain rest where r: "0 \<le> pos" "drop (nat pos) buf = bs @ rest" "nat pos \<le> length buf" by blast
  have "length buf = nat pos + length (bs @ rest)" using r(2,3) by (metis length_drop le_add_diff_inverse)
  then show "holds buf pos bs" using r by (auto simp: holds_def mem_read_def)
qed

lemma holds_append: "holds buf pos (a @ b) \<longleftrightarrow> holds buf pos a \<and> holds buf (pos + int (length a)) b"
proof
  assume "holds buf pos (a @ b)"
  then obtain rest where r: "0 \<le> pos" "drop (nat pos) buf = (a @ b) @ rest" "nat pos \<le> length buf"
    unfolding holds_iff by blast
  have l: "length buf = nat pos + length ((a @ b) @ rest)" using r(2,3) by (metis length_drop le_add_diff_inverse)
  have "drop (nat (pos + int (length a))) buf = drop (length a) (drop (nat pos) buf)"
    using r(1) by (simp add: nat_add_distrib add.commute)
  with r l show "holds buf pos a \<and> holds buf (pos + int (length a)) b"
    unfolding holds_iff by (auto simp: nat_add_distrib)
next
  assume a: "holds buf pos a \<and> holds buf (pos + int (length a)) b"
  then obtain ra rb where r: "0 \<le> pos" "drop (nat pos) buf = a @ ra" "nat pos \<le> length buf"
    "drop (nat (pos + int (length a))) buf = b @ rb"
    unfolding holds_iff by blast
  have "drop (nat (pos + int (length a))) buf = drop (length a) (drop (nat pos) buf)"
    using r(1) by (simp add: nat_add_distrib add.commute)
  with r show "holds buf pos (a @ b)" unfolding holds_iff by auto
qed

lemma holds_read: "holds buf pos bs \<Longrightarrow> n = int (length bs) \<Longrightarrow> mem_read buf pos n = Inr bs"
  by (simp add: holds_def)

lemma holds_at: "holds buf pos bs \<Longrightarrow> p = pos \<Longrightarrow> holds buf p bs"
  by simp

text \<open>One attribute, and a sequence of them.\<close>

lemma stun_attrs_step:
  assumes "holds buf pos (be16 typ @ be16 len @ body)" "length body = unat len"
    and "stun_attr buf (pos + 4) (unat len) typ m = Inr (True, m1)"
  shows "stun_attrs buf pos (length (be16 typ @ be16 len @ body) + left) m
       = stun_attrs buf (pos + int (length (be16 typ @ be16 len @ body))) left m1"
proof -
  have "holds buf pos (be16 typ @ be16 len)" using assms(1) unfolding holds_append by (simp add: add.assoc)
  then have r: "mem_read buf pos 4 = Inr (be16 typ @ be16 len)" by (rule holds_read) simp
  have d: "drop 2 (be16 typ @ be16 len) = be16 len" by simp
  show ?thesis
    using assms(2,3) by (subst stun_attrs.simps) (simp add: r d algebra_simps)
qed

definition strings_ok :: "stun_msg \<Rightarrow> bool" where
  "strings_ok m \<longleftrightarrow> length (str_value (username m)) = STUN_MAX_STRING
     \<and> length (str_value (password m)) = STUN_MAX_STRING \<and> length (str_value (serverName m)) = STUN_MAX_STRING"

definition parses :: "byte list res \<Rightarrow> (stun_msg \<Rightarrow> stun_msg) \<Rightarrow> bool" where
  "parses e f \<longleftrightarrow> (\<forall>bs buf pos left m. e = Inr bs \<longrightarrow> holds buf pos bs \<longrightarrow> strings_ok m \<longrightarrow>
     strings_ok (f m) \<and> stun_attrs buf pos (length bs + left) m = stun_attrs buf (pos + int (length bs)) left (f m))"

lemma parses_cat:
  assumes "list_all2 parses es fs" "cat_res es = Inr bs" "holds buf pos bs" "strings_ok m"
  shows "stun_attrs buf pos (length bs + left) m = stun_attrs buf (pos + int (length bs)) left (fold (\<lambda>f. f) fs m)"
  using assms
proof (induction es fs arbitrary: bs pos m rule: list_all2_induct)
  case Nil
  then show ?case by simp
next
  case (Cons e es f fs)
  obtain a b where ab: "e = Inr a" "cat_res es = Inr b" "bs = a @ b"
    using Cons.prems(1) by (auto simp: res_bind_Inr res_map_Inr)
  have h: "holds buf pos a" "holds buf (pos + int (length a)) b" using Cons.prems(2) ab(3) by (simp_all add: holds_append)
  have f: "strings_ok (f m)"
    "stun_attrs buf pos (length a + (length b + left)) m = stun_attrs buf (pos + int (length a)) (length b + left) (f m)"
    using Cons.hyps(1) ab(1) h(1) Cons.prems(3) by (auto simp: parses_def)
  show ?case using f(2) Cons.IH [OF ab(2) h(2) f(1)] by (simp add: ab(3) add.assoc)
qed

lemma parses_skip: "parses (enc_if False e) (\<lambda>m. m)"
  by (simp add: parses_def enc_if_def)

text \<open>The attributes, one by one.\<close>

lemma parse_address:
  assumes "holds buf pos ([sa_pad a, IPv4Family] @ be16 (sa_port a) @ be32 (sa_addr a))" "sa_family a = IPv4Family"
  shows "stunParseAtrAddress buf pos 8 r = Inr (True, a)"
proof -
  have h: "holds buf pos [sa_pad a, IPv4Family]" "holds buf (pos + 2) (be16 (sa_port a))"
    "holds buf (pos + 4) (be32 (sa_addr a))"
    using assms(1) unfolding holds_append by (simp_all add: add.assoc)
  show ?thesis
    using holds_read [OF h(1), of 2] holds_read [OF h(2), of 2] holds_read [OF h(3), of 4] assms(2)
    by (simp add: stunParseAtrAddress_def)
qed

lemma parses_address:
  assumes "b \<longrightarrow> sa_family a = IPv4Family"
    and "\<And>buf pos m. stun_attr buf pos 8 typ m = res_map (\<lambda>(g, x). (g, f x m)) (stunParseAtrAddress buf pos 8 (r m))"
    and "\<And>m x. strings_ok (f x m) = strings_ok m"
  shows "parses (enc_if b (Inr (encodeAtrAddress4 typ a))) (\<lambda>m. if b then f a m else m)"
proof (cases b)
  case True
  show ?thesis unfolding parses_def enc_if_def
  proof (intro allI impI)
    fix bs buf pos left and m :: stun_msg
    let ?body = "[sa_pad a, IPv4Family] @ be16 (sa_port a) @ be32 (sa_addr a)"
    assume e: "(if b then Inr (encodeAtrAddress4 typ a) else Inr []) = (Inr bs :: byte list res)"
      and h: "holds buf pos bs" and s: "strings_ok m"
    have bs: "bs = be16 typ @ be16 8 @ ?body" using e True by (simp add: encodeAtrAddress4_def)
    have "holds buf (pos + 4) ?body" using h unfolding bs by (simp add: holds_append add.assoc)
    then have "stun_attr buf (pos + 4) 8 typ m = Inr (True, f a m)"
      using parse_address [of buf "pos + 4" a] assms(1,2) True by simp
    then show "strings_ok (if b then f a m else m)
        \<and> stun_attrs buf pos (length bs + left) m = stun_attrs buf (pos + int (length bs)) left (if b then f a m else m)"
      using stun_attrs_step [of buf pos "typ" "8" "?body" m "f a m" left] h True s assms(3)
      unfolding bs by simp
  qed
qed (simp add: parses_def enc_if_def)

lemma parses_change:
  "parses (enc_if b (Inr (encodeAtrChangeRequest v)))
     (\<lambda>m. if b then m\<lparr> hasChangeRequest := True, changeRequest := v \<rparr> else m)"
proof (cases b)
  case True
  show ?thesis unfolding parses_def enc_if_def
  proof (intro allI impI)
    fix bs buf pos left and m :: stun_msg
    assume e: "(if b then Inr (encodeAtrChangeRequest v) else Inr []) = (Inr bs :: byte list res)"
      and h: "holds buf pos bs" and s: "strings_ok m"
    have bs: "bs = be16 ChangeRequest @ be16 4 @ be32 v" using e True by (simp add: encodeAtrChangeRequest_def)
    have "holds buf (pos + 4) (be32 v)" using h unfolding bs by (simp add: holds_append add.assoc)
    then have "mem_read buf (pos + 4) 4 = Inr (be32 v)" by (rule holds_read) simp
    then have "stun_attr buf (pos + 4) 4 ChangeRequest m = Inr (True, m\<lparr> hasChangeRequest := True, changeRequest := v \<rparr>)"
      by (simp add: stun_attr_defs attr_types stunParseAtrChangeRequest_def)
    then show "strings_ok (if b then m\<lparr> hasChangeRequest := True, changeRequest := v \<rparr> else m)
        \<and> stun_attrs buf pos (length bs + left) m
          = stun_attrs buf (pos + int (length bs)) left (if b then m\<lparr> hasChangeRequest := True, changeRequest := v \<rparr> else m)"
      using stun_attrs_step [of buf pos ChangeRequest "4" "be32 v" m _ left] h True s
      unfolding bs by (simp add: strings_ok_def)
  qed
qed (simp add: parses_def enc_if_def)

definition string_ok :: "stun_string \<Rightarrow> bool" where
  "string_ok a \<longleftrightarrow> length (str_value a) = STUN_MAX_STRING \<and> unat (sizeValue a) < STUN_MAX_STRING
     \<and> unat (sizeValue a) mod 4 = 0"

text \<open>What the parser makes of the string \<open>a\<close> in a structure that holds \<open>r\<close>.\<close>

definition over :: "stun_string \<Rightarrow> stun_string \<Rightarrow> stun_string" where
  "over a r = (let n = unat (sizeValue a) in
     \<lparr> str_value = take n (str_value a) @ [0] @ drop (n + 1) (str_value r), sizeValue = sizeValue a \<rparr>)"

lemma parse_string:
  assumes "holds buf pos (take (unat (sizeValue a)) (str_value a))" "string_ok a" "length (str_value r) = STUN_MAX_STRING"
  shows "stunParseAtrString buf pos (unat (sizeValue a)) r = Inr (True, over a r)"
proof -
  let ?n = "unat (sizeValue a)"
  let ?b = "take ?n (str_value a)"
  have n: "?n < 256" "?n mod 4 = 0" "length ?b = ?n"
    using assms(2) by (auto simp: string_ok_def STUN_MAX_STRING_def)
  have u: "uint (sizeValue a) < 256" using n(1) unfolding uint_nat by linarith
  have r: "mem_read buf pos (int ?n) = Inr ?b" using holds_read [OF assms(1)] n(3) by simp
  have w1: "mem_write (str_value r) 0 ?b = Inr (?b @ drop ?n (str_value r))"
    using n u assms(3) by (simp add: mem_write_def STUN_MAX_STRING_def)
  have w2: "mem_write (?b @ drop ?n (str_value r)) (int ?n) [0] = Inr (?b @ [0] @ drop (?n + 1) (str_value r))"
    using n u assms(3) by (auto simp: mem_write_def STUN_MAX_STRING_def)
  show ?thesis
    using n r w1 w2 by (simp add: stunParseAtrString_def over_def Let_def STUN_MAX_STRING_def)
qed

lemma encode_string_Inr:
  assumes "encodeAtrString ty a = Inr bs" "string_ok a"
  shows "bs = be16 ty @ be16 (sizeValue a) @ take (unat (sizeValue a)) (str_value a)"
  using assms by (auto simp: encodeAtrString_def res_bind_Inr res_map_Inr mem_read_def string_ok_def split: if_splits)

lemma parses_string:
  assumes "b \<longrightarrow> string_ok a"
    and "\<And>buf pos n m. stun_attr buf pos n ty m = res_map (\<lambda>(g, x). (g, f x m)) (stunParseAtrString buf pos n (r m))"
    and "\<And>m. strings_ok m \<Longrightarrow> length (str_value (r m)) = STUN_MAX_STRING"
    and "\<And>m x. strings_ok m \<Longrightarrow> length (str_value x) = STUN_MAX_STRING \<Longrightarrow> strings_ok (f x m)"
  shows "parses (enc_if b (encodeAtrString ty a)) (\<lambda>m. if b then f (over a (r m)) m else m)"
proof (cases b)
  case True
  show ?thesis unfolding parses_def enc_if_def
  proof (intro allI impI)
    fix bs buf pos left and m :: stun_msg
    let ?body = "take (unat (sizeValue a)) (str_value a)"
    assume e: "(if b then encodeAtrString ty a else Inr []) = Inr bs"
      and h: "holds buf pos bs" and s: "strings_ok m"
    have ok: "string_ok a" using assms(1) True by simp
    have bs: "bs = be16 ty @ be16 (sizeValue a) @ ?body"
      using encode_string_Inr [OF _ ok] e True by simp
    have l: "length ?body = unat (sizeValue a)" using ok by (simp add: string_ok_def)
    have "holds buf (pos + 4) ?body" using h unfolding bs by (simp add: holds_append add.assoc)
    then have st: "stun_attr buf (pos + 4) (unat (sizeValue a)) ty m = Inr (True, f (over a (r m)) m)"
      using parse_string [OF _ ok assms(3) [OF s], of buf "pos + 4"] assms(2) by simp
    have "length (str_value (over a (r m))) = STUN_MAX_STRING"
      using ok assms(3) [OF s] l by (simp add: over_def Let_def string_ok_def)
    then show "strings_ok (if b then f (over a (r m)) m else m)
        \<and> stun_attrs buf pos (length bs + left) m
          = stun_attrs buf (pos + int (length bs)) left (if b then f (over a (r m)) m else m)"
      using stun_attrs_step [OF h [unfolded bs] l st, of left] True s assms(4)
      unfolding bs by simp
  qed
qed (simp add: parses_def enc_if_def)

text \<open>
  \<open>canonical m\<close>: what is absent is zero, addresses are IPv4, and strings fit, with zeros after
  their text. The attributes the encoder and the parser disagree on are absent.
\<close>

definition addr_canon :: "bool \<Rightarrow> stun_addr \<Rightarrow> bool" where
  "addr_canon b a \<longleftrightarrow> (if b then sa_family a = IPv4Family else a = addr0)"

definition string_canon :: "bool \<Rightarrow> stun_string \<Rightarrow> bool" where
  "string_canon b a \<longleftrightarrow>
     (if b then string_ok a \<and> drop (unat (sizeValue a)) (str_value a) = replicate (STUN_MAX_STRING - unat (sizeValue a)) 0
      else a = string0)"

definition canonical :: "stun_msg \<Rightarrow> bool" where
  "canonical m \<longleftrightarrow>
     length (octet m) = 16 \<and> addr_canon (hasMappedAddress m) (mappedAddress m)
     \<and> addr_canon (hasResponseAddress m) (responseAddress m) \<and> (\<not> hasChangeRequest m \<longrightarrow> changeRequest m = 0)
     \<and> addr_canon (hasSourceAddress m) (sourceAddress m) \<and> addr_canon (hasChangedAddress m) (changedAddress m)
     \<and> string_canon (hasUsername m) (username m) \<and> string_canon (hasPassword m) (password m)
     \<and> \<not> hasMessageIntegrity m \<and> messageIntegrity m = messageIntegrity stun0
     \<and> \<not> hasErrorCode m \<and> errorCode m = errorCode stun0
     \<and> \<not> hasUnknownAttributes m \<and> unknownAttributes m = unknownAttributes stun0
     \<and> addr_canon (hasReflectedFrom m) (reflectedFrom m) \<and> addr_canon (hasXorMappedAddress m) (xorMappedAddress m)
     \<and> \<not> xorOnly m \<and> string_canon (hasServerName m) (serverName m)
     \<and> addr_canon (hasSecondaryAddress m) (secondaryAddress m)"

lemma over_canon: "string_canon True a \<Longrightarrow> over a string0 = a"
proof -
  assume a: "string_canon True a"
  let ?n = "unat (sizeValue a)"
  have n: "?n < STUN_MAX_STRING" "length (str_value a) = STUN_MAX_STRING"
    "drop ?n (str_value a) = replicate (STUN_MAX_STRING - ?n) 0"
    using a by (simp_all add: string_canon_def string_ok_def)
  have "replicate (STUN_MAX_STRING - ?n) (0 :: byte) = [0] @ replicate (STUN_MAX_STRING - Suc ?n) 0"
    using n(1) by (metis Suc_diff_Suc append_Cons append_Nil replicate_Suc)
  then have "take ?n (str_value a) @ [0] @ replicate (STUN_MAX_STRING - Suc ?n) 0 = str_value a"
    using n(3) by (metis append_take_drop_id)
  then show ?thesis by (simp add: over_def Let_def string0_def)
qed

definition parsed_fields :: "stun_msg \<Rightarrow> (stun_msg \<Rightarrow> stun_msg) list" where
  "parsed_fields m =
    [\<lambda>x. if hasMappedAddress m then x\<lparr> hasMappedAddress := True, mappedAddress := mappedAddress m \<rparr> else x,
     \<lambda>x. if hasResponseAddress m then x\<lparr> hasResponseAddress := True, responseAddress := responseAddress m \<rparr> else x,
     \<lambda>x. if hasChangeRequest m then x\<lparr> hasChangeRequest := True, changeRequest := changeRequest m \<rparr> else x,
     \<lambda>x. if hasSourceAddress m then x\<lparr> hasSourceAddress := True, sourceAddress := sourceAddress m \<rparr> else x,
     \<lambda>x. if hasChangedAddress m then x\<lparr> hasChangedAddress := True, changedAddress := changedAddress m \<rparr> else x,
     \<lambda>x. if hasUsername m then x\<lparr> hasUsername := True, username := over (username m) (username x) \<rparr> else x,
     \<lambda>x. if hasPassword m then x\<lparr> hasPassword := True, password := over (password m) (password x) \<rparr> else x,
     \<lambda>x. x, \<lambda>x. x,
     \<lambda>x. if hasReflectedFrom m then x\<lparr> hasReflectedFrom := True, reflectedFrom := reflectedFrom m \<rparr> else x,
     \<lambda>x. if hasXorMappedAddress m then x\<lparr> hasXorMappedAddress := True, xorMappedAddress := xorMappedAddress m \<rparr> else x,
     \<lambda>x. x,
     \<lambda>x. if hasServerName m then x\<lparr> hasServerName := True, serverName := over (serverName m) (serverName x) \<rparr> else x,
     \<lambda>x. if hasSecondaryAddress m then x\<lparr> hasSecondaryAddress := True, secondaryAddress := secondaryAddress m \<rparr> else x,
     \<lambda>x. x]"

lemma addr_canonD: "addr_canon b a \<Longrightarrow> b \<longrightarrow> sa_family a = IPv4Family"
  by (simp add: addr_canon_def)

lemma string_canonD: "string_canon b a \<Longrightarrow> b \<longrightarrow> string_ok a"
  by (simp add: string_canon_def)

lemma canonical_parses:
  assumes "canonical m" "sizeValue pw = 0" "encode_attrs m pw stack = Inr bs" "holds buf pos bs" "strings_ok x"
  shows "stun_attrs buf pos (length bs + left) x
       = stun_attrs buf (pos + int (length bs)) left (fold (\<lambda>f. f) (parsed_fields m) x)"
proof (rule parses_cat [OF _ assms(3) [unfolded encode_attrs_def] assms(4,5)])
  note c = assms(1) [unfolded canonical_def]
  note ad = addr_canonD [where b = b and a = a for b a]
  note s = stun_attr_defs attr_types strings_ok_def
  have off: "\<not> hasErrorCode m" "\<not> hasUnknownAttributes m" "\<not> xorOnly m" "\<not> 0 < sizeValue pw"
    using c assms(2) by simp_all
  show "list_all2 parses
     [enc_if (hasMappedAddress m) (Inr (encodeAtrAddress4 MappedAddress (mappedAddress m))),
      enc_if (hasResponseAddress m) (Inr (encodeAtrAddress4 ResponseAddress (responseAddress m))),
      enc_if (hasChangeRequest m) (Inr (encodeAtrChangeRequest (changeRequest m))),
      enc_if (hasSourceAddress m) (Inr (encodeAtrAddress4 SourceAddress (sourceAddress m))),
      enc_if (hasChangedAddress m) (Inr (encodeAtrAddress4 ChangedAddress (changedAddress m))),
      enc_if (hasUsername m) (encodeAtrString Username (username m)),
      enc_if (hasPassword m) (encodeAtrString Password (password m)),
      enc_if (hasErrorCode m) (encodeAtrError (errorCode m)),
      enc_if (hasUnknownAttributes m) (encodeAtrUnknown (unknownAttributes m)),
      enc_if (hasReflectedFrom m) (Inr (encodeAtrAddress4 ReflectedFrom (reflectedFrom m))),
      enc_if (hasXorMappedAddress m) (Inr (encodeAtrAddress4 XorMappedAddress (xorMappedAddress m))),
      enc_if (xorOnly m) (Inr encodeXorOnly),
      enc_if (hasServerName m) (encodeAtrString ServerName (serverName m)),
      enc_if (hasSecondaryAddress m) (Inr (encodeAtrAddress4 SecondaryAddress (secondaryAddress m))),
      enc_if (0 < sizeValue pw) (Inr (encodeAtrIntegrity stack))] (parsed_fields m)"
    unfolding parsed_fields_def
    apply (simp only: list_all2_Cons list_all2_Nil off parses_skip simp_thms)
    apply (intro conjI)
    subgoal by (rule parses_address [where r = mappedAddress and f = "\<lambda>a x. x\<lparr> hasMappedAddress := True, mappedAddress := a \<rparr>"])
        (use c in \<open>auto simp: s addr_canon_def\<close>)
    subgoal by (rule parses_address [where r = responseAddress and f = "\<lambda>a x. x\<lparr> hasResponseAddress := True, responseAddress := a \<rparr>"])
        (use c in \<open>auto simp: s addr_canon_def\<close>)
    subgoal by (rule parses_change)
    subgoal by (rule parses_address [where r = sourceAddress and f = "\<lambda>a x. x\<lparr> hasSourceAddress := True, sourceAddress := a \<rparr>"])
        (use c in \<open>auto simp: s addr_canon_def\<close>)
    subgoal by (rule parses_address [where r = changedAddress and f = "\<lambda>a x. x\<lparr> hasChangedAddress := True, changedAddress := a \<rparr>"])
        (use c in \<open>auto simp: s addr_canon_def\<close>)
    subgoal by (rule parses_string [where r = username and f = "\<lambda>a x. x\<lparr> hasUsername := True, username := a \<rparr>"])
        (use c in \<open>auto simp: s string_canon_def\<close>)
    subgoal by (rule parses_string [where r = password and f = "\<lambda>a x. x\<lparr> hasPassword := True, password := a \<rparr>"])
        (use c in \<open>auto simp: s string_canon_def\<close>)
    subgoal by (rule parses_address [where r = reflectedFrom and f = "\<lambda>a x. x\<lparr> hasReflectedFrom := True, reflectedFrom := a \<rparr>"])
        (use c in \<open>auto simp: s addr_canon_def\<close>)
    subgoal by (rule parses_address [where r = xorMappedAddress and f = "\<lambda>a x. x\<lparr> hasXorMappedAddress := True, xorMappedAddress := a \<rparr>"])
        (use c in \<open>auto simp: s addr_canon_def\<close>)
    subgoal by (rule parses_string [where r = serverName and f = "\<lambda>a x. x\<lparr> hasServerName := True, serverName := a \<rparr>"])
        (use c in \<open>auto simp: s string_canon_def\<close>)
    subgoal by (rule parses_address [where r = secondaryAddress and f = "\<lambda>a x. x\<lparr> hasSecondaryAddress := True, secondaryAddress := a \<rparr>"])
        (use c in \<open>auto simp: s addr_canon_def\<close>)
    done
qed

lemma stun_fields_if:
  "(if b then x\<lparr> hasMappedAddress := True, mappedAddress := v0 \<rparr> else x) = x\<lparr> hasMappedAddress := b \<or> hasMappedAddress x, mappedAddress := (if b then v0 else mappedAddress x) \<rparr>"
  "(if b then x\<lparr> hasResponseAddress := True, responseAddress := v1 \<rparr> else x) = x\<lparr> hasResponseAddress := b \<or> hasResponseAddress x, responseAddress := (if b then v1 else responseAddress x) \<rparr>"
  "(if b then x\<lparr> hasChangeRequest := True, changeRequest := v2 \<rparr> else x) = x\<lparr> hasChangeRequest := b \<or> hasChangeRequest x, changeRequest := (if b then v2 else changeRequest x) \<rparr>"
  "(if b then x\<lparr> hasSourceAddress := True, sourceAddress := v3 \<rparr> else x) = x\<lparr> hasSourceAddress := b \<or> hasSourceAddress x, sourceAddress := (if b then v3 else sourceAddress x) \<rparr>"
  "(if b then x\<lparr> hasChangedAddress := True, changedAddress := v4 \<rparr> else x) = x\<lparr> hasChangedAddress := b \<or> hasChangedAddress x, changedAddress := (if b then v4 else changedAddress x) \<rparr>"
  "(if b then x\<lparr> hasUsername := True, username := v5 \<rparr> else x) = x\<lparr> hasUsername := b \<or> hasUsername x, username := (if b then v5 else username x) \<rparr>"
  "(if b then x\<lparr> hasPassword := True, password := v6 \<rparr> else x) = x\<lparr> hasPassword := b \<or> hasPassword x, password := (if b then v6 else password x) \<rparr>"
  "(if b then x\<lparr> hasReflectedFrom := True, reflectedFrom := v7 \<rparr> else x) = x\<lparr> hasReflectedFrom := b \<or> hasReflectedFrom x, reflectedFrom := (if b then v7 else reflectedFrom x) \<rparr>"
  "(if b then x\<lparr> hasXorMappedAddress := True, xorMappedAddress := v8 \<rparr> else x) = x\<lparr> hasXorMappedAddress := b \<or> hasXorMappedAddress x, xorMappedAddress := (if b then v8 else xorMappedAddress x) \<rparr>"
  "(if b then x\<lparr> hasServerName := True, serverName := v9 \<rparr> else x) = x\<lparr> hasServerName := b \<or> hasServerName x, serverName := (if b then v9 else serverName x) \<rparr>"
  "(if b then x\<lparr> hasSecondaryAddress := True, secondaryAddress := v10 \<rparr> else x) = x\<lparr> hasSecondaryAddress := b \<or> hasSecondaryAddress x, secondaryAddress := (if b then v10 else secondaryAddress x) \<rparr>"
  for x :: stun_msg
  by simp_all

lemma parsed_canonical:
  assumes "canonical m"
  shows "fold (\<lambda>f. f) (parsed_fields m) (stun0\<lparr> msgType := msgType m, msgLength := n, octet := octet m \<rparr>)
       = m\<lparr> msgLength := n \<rparr>"
proof -
  note c = assms [unfolded canonical_def]
  have str: "b \<Longrightarrow> over a string0 = a" "\<not> b \<Longrightarrow> string0 = a" if "string_canon b a" for b a
    using that over_canon by (auto simp: string_canon_def)
  have adr: "\<not> b \<Longrightarrow> addr0 = a" if "addr_canon b a" for b a
    using that by (auto simp: addr_canon_def)
  show ?thesis
    unfolding parsed_fields_def stun_fields_if
    by (rule stun_msg.equality)
      (use c str adr in \<open>auto simp: stun0_def\<close>)
qed

lemma stun_parse_encoded:
  assumes "canonical m" and "sizeValue pw = 0" and "stunEncodeMessage m buf pw stack = Inr (buf1, n)"
    and "n < 2 ^ 16"
  shows "stunParseMessage (take n buf1 @ rest) n stun0
       = Inr (True, m\<lparr> msgLength := word_of_nat (n - STUN_HDR_SIZE) \<rparr>)"
proof -
  obtain bs where bs: "encode_attrs m pw stack = Inr bs"
    and w: "mem_write buf 0 (be16 (msgType m) @ be16 (word_of_nat (length bs)) @ octet m @ bs) = Inr buf1"
    and n: "n = length (be16 (msgType m) @ be16 (word_of_nat (length bs)) @ octet m @ bs)"
    using assms(3) by (auto simp: stunEncodeMessage_def res_bind_Inr res_map_Inr Let_def)
  let ?h = "be16 (msgType m) @ be16 (word_of_nat (length bs) :: u16) @ octet m"
  have o: "length (octet m) = 16" using assms(1) by (simp add: canonical_def)
  have n1: "n = 20 + length bs" "length ?h = 20" using n o by simp_all
  have t: "take n buf1 = ?h @ bs" using w n by (auto simp: mem_write_def split: if_splits)
  have len: "unat (word_of_nat (length bs) :: u16) = length bs"
    using assms(4) n1 by (simp add: unat_of_nat)
  have rd: "mem_read (take n buf1 @ rest) 0 20 = Inr ?h" unfolding t using n1(2) by (simp add: mem_read_def)
  have hb: "holds (take n buf1 @ rest) 20 bs" unfolding t holds_iff using n1(2) by simp
  let ?m0 = "stun0\<lparr> msgType := msgType m, msgLength := word_of_nat (length bs), octet := octet m \<rparr>"
  have s0: "strings_ok ?m0" by (simp add: strings_ok_def stun0_def string0_def)
  have "stun_attrs (take n buf1 @ rest) 20 (length bs) ?m0 = Inr (True, m\<lparr> msgLength := word_of_nat (length bs) \<rparr>)"
    using canonical_parses [OF assms(1,2) bs hb s0, of 0] parsed_canonical [OF assms(1)]
    by (simp add: stun_attrs.simps [of _ _ 0])
  moreover have "stunParseMessage (take n buf1 @ rest) n stun0 = stun_attrs (take n buf1 @ rest) 20 (length bs) ?m0"
    using rd len n1 by (simp add: stunParseMessage_def STUN_HDR_SIZE_def)
  ultimately show ?thesis using n1 by (simp add: STUN_HDR_SIZE_def)
qed

text \<open>C10: Every message without the attributes the two sides disagree on survives: \<open>stunParseMessage\<close>
  recovers from the first bytes of a packet what \<open>stunEncodeMessage\<close> wrote, whatever follows them in
  the buffer, with the header's length filled in. The message is encoded without a password and is
  shorter than \<open>2 ^ 16\<close> bytes.\<close>

theorem stun_roundtrip:
  assumes "canonical m" and "sizeValue pw = 0" and "stunEncodeMessage m buf pw stack = Inr (buf1, n)"
    and "n < 2 ^ 16"
  shows "stunParseMessage (take n buf1 @ rest) n stun0
       = Inr (True, m\<lparr> msgLength := word_of_nat (n - STUN_HDR_SIZE) \<rparr>)"
  using assms by (rule stun_parse_encoded)

text \<open>The request that \<open>send_stun_request\<close> sends, and the answer of a server.\<close>

definition stun_reply :: "byte list \<Rightarrow> u16 \<Rightarrow> u32 \<Rightarrow> stun_msg" where
  "stun_reply octets p ip = stun0\<lparr> msgType := BindResponseMsg, octet := octets, hasMappedAddress := True,
     mappedAddress := \<lparr> sa_pad = 0, sa_family = IPv4Family, sa_port = p, sa_addr = ip \<rparr> \<rparr>"

lemma stun_roundtrip_witness:
  "stunParseMessage (take 32 (fst (projr (stunEncodeMessage (stun_reply (replicate 16 7) 6666 0xC0A80102)
       (replicate 576 0) string0 []))) @ [1, 2, 3]) 32 stun0
     = Inr (True, (stun_reply (replicate 16 7) 6666 0xC0A80102)\<lparr> msgLength := 12 \<rparr>)"
proof -
  let ?m = "stun_reply (replicate 16 7) 6666 0xC0A80102"
  have c: "canonical ?m"
    by (simp add: canonical_def stun_reply_def stun0_def addr_canon_def string_canon_def)
  have "\<exists>buf1. stunEncodeMessage ?m (replicate 576 0) string0 [] = Inr (buf1, 32)"
    by (simp add: stunEncodeMessage_def encode_attrs_def enc_if_def encodeAtrAddress4_def stun_reply_def stun0_def
        STUN_HDR_SIZE_def mem_write_def string0_def)
  then obtain buf1 where e: "stunEncodeMessage ?m (replicate 576 0) string0 [] = Inr (buf1, 32)" by blast
  show ?thesis
    using stun_roundtrip [OF c _ e, of "[1, 2, 3]"] e by (simp add: string0_def STUN_HDR_SIZE_def)
qed

section \<open>Where the parser faults\<close>

definition stun_sizes :: "stun_msg \<Rightarrow> bool" where
  "stun_sizes m \<longleftrightarrow> strings_ok m \<and> length (reason (errorCode m)) = STUN_MAX_STRING"

lemma mem_read_in: "0 \<le> p \<Longrightarrow> 0 \<le> n \<Longrightarrow> p + n \<le> int (length buf) \<Longrightarrow> \<exists>bs. mem_read buf p n = Inr bs \<and> length bs = nat n"
  by (auto simp: mem_read_def)

lemma parse_address_in:
  assumes "0 \<le> pos" "pos + int len \<le> int (length buf)"
  shows "ok (stunParseAtrAddress buf pos len r)"
  using mem_read_in [of pos 2 buf] mem_read_in [of "pos + 2" 2 buf] mem_read_in [of "pos + 4" 4 buf] assms
  by (auto simp: stunParseAtrAddress_def Let_def)

lemma parse_change_in:
  assumes "0 \<le> pos" "pos + int len \<le> int (length buf)"
  shows "ok (stunParseAtrChangeRequest buf pos len r)"
  using mem_read_in [of pos 4 buf] assms by (auto simp: stunParseAtrChangeRequest_def)

lemma parse_integrity_in:
  assumes "0 \<le> pos" "pos + int len \<le> int (length buf)"
  shows "ok (stunParseAtrIntegrity buf pos len r)"
  using mem_read_in [of pos 20 buf] assms by (auto simp: stunParseAtrIntegrity_def)

lemma parse_types_in: "0 \<le> pos \<Longrightarrow> pos + 2 * int n \<le> int (length buf) \<Longrightarrow> \<exists>ts. parse_types buf pos n = Inr ts"
proof (induction n arbitrary: pos)
  case (Suc n)
  then show ?case using mem_read_in [of pos 2 buf] Suc.IH [of "pos + 2"] by (fastforce simp: algebra_simps)
qed simp

lemma parse_unknown_in:
  assumes "0 \<le> pos" "pos + int len \<le> int (length buf)"
  shows "ok (stunParseAtrUnknown buf pos len r)"
proof -
  have "2 * int (len div 4) \<le> int len" by simp
  then obtain ts where "parse_types buf pos (len div 4) = Inr ts"
    using parse_types_in [of pos "len div 4" buf] assms by auto
  then show ?thesis by (simp add: stunParseAtrUnknown_def)
qed

lemma parse_string_in:
  assumes "0 \<le> pos" "pos + int len \<le> int (length buf)" "length (str_value r) = STUN_MAX_STRING"
  shows "\<exists>z. stunParseAtrString buf pos len r = Inr z \<and> length (str_value (snd z)) = STUN_MAX_STRING"
proof (cases "STUN_MAX_STRING \<le> len \<or> len mod 4 \<noteq> 0")
  case False
  obtain b where b: "mem_read buf pos (int len) = Inr b" "length b = len" using mem_read_in [of pos "int len" buf] assms by auto
  have "ok (mem_write (str_value r) 0 b)" using b(2) False assms(3) by (simp add: mem_write_ok)
  then obtain v where v: "mem_write (str_value r) 0 b = Inr v" by (auto simp: ok_iff)
  have "ok (mem_write v (int len) [0])"
    using mem_write_length [OF v] False assms(3) by (simp add: mem_write_ok)
  then obtain v1 where v1: "mem_write v (int len) [0] = Inr v1" by (auto simp: ok_iff)
  show ?thesis
    using False b v v1 mem_write_length [OF v] mem_write_length [OF v1] assms(3) by (simp add: stunParseAtrString_def)
qed (use assms in \<open>simp add: stunParseAtrString_def\<close>)

lemma parse_error_in:
  assumes "0 \<le> pos" "pos + int len \<le> int (length buf)" "length (reason r) = STUN_MAX_STRING" "4 \<le> len" "len < 260 \<or> 262 \<le> len"
  shows "\<exists>z. stunParseAtrError buf pos len r = Inr z \<and> length (reason (snd z)) = STUN_MAX_STRING"
proof (cases "262 \<le> len")
  case False
  with assms(5) have l: "len < 260" by simp
  have "word_of_nat len - 4 = (word_of_nat (len - 4) :: u16)" using assms(4) by (simp add: of_nat_diff)
  then have n: "uint (word_of_nat len - 4 :: u16) = int (len - 4)" using l by (simp add: uint_nat unat_of_nat)
  obtain b where b: "mem_read buf pos 4 = Inr b" using mem_read_in [of pos 4 buf] assms by auto
  obtain t where t: "mem_read buf (pos + 4) (int (len - 4)) = Inr t" "length t = len - 4"
    using mem_read_in [of "pos + 4" "int (len - 4)" buf] assms by auto
  have "ok (mem_write (reason r) 0 t)" using t(2) l assms(3) by (simp add: mem_write_ok STUN_MAX_STRING_def)
  then obtain v where v: "mem_write (reason r) 0 t = Inr v" by (auto simp: ok_iff)
  have "ok (mem_write v (int (len - 4)) [0])"
    using mem_write_length [OF v] l assms(3,4) by (simp add: mem_write_ok STUN_MAX_STRING_def)
  then obtain v1 where v1: "mem_write v (int (len - 4)) [0] = Inr v1" by (auto simp: ok_iff)
  show ?thesis
    using False b t v v1 n mem_write_length [OF v] mem_write_length [OF v1] assms(3)
    by (simp add: stunParseAtrError_def Let_def)
qed (use assms in \<open>simp add: stunParseAtrError_def\<close>)

definition bad_error_attr :: "u16 \<Rightarrow> nat \<Rightarrow> bool" where
  "bad_error_attr ty len \<longleftrightarrow> ty = ErrorCode \<and> (len < 4 \<or> len = 260 \<or> len = 261)"

lemma stun_attr_in:
  assumes "0 \<le> pos" "pos + int len \<le> int (length buf)" "stun_sizes m" "\<not> bad_error_attr ty len"
  shows "\<exists>g m1. stun_attr buf pos len ty m = Inr (g, m1) \<and> stun_sizes m1"
    (is "?P (stun_attr buf pos len ty m)")
proof -
  note s = assms(3) [unfolded stun_sizes_def strings_ok_def]
  have a: "\<And>r. ok (stunParseAtrAddress buf pos len r)" by (rule parse_address_in [OF assms(1,2)])
  have c: "\<And>r. ok (stunParseAtrChangeRequest buf pos len r)" by (rule parse_change_in [OF assms(1,2)])
  have i: "\<And>r. ok (stunParseAtrIntegrity buf pos len r)" by (rule parse_integrity_in [OF assms(1,2)])
  have u: "\<And>r. ok (stunParseAtrUnknown buf pos len r)" by (rule parse_unknown_in [OF assms(1,2)])
  have st: "\<And>r. length (str_value r) = STUN_MAX_STRING \<Longrightarrow>
      \<exists>z. stunParseAtrString buf pos len r = Inr z \<and> length (str_value (snd z)) = STUN_MAX_STRING"
    by (rule parse_string_in [OF assms(1,2)])
  have e: "ty = ErrorCode \<Longrightarrow>
      \<exists>z. stunParseAtrError buf pos len (errorCode m) = Inr z \<and> length (reason (snd z)) = STUN_MAX_STRING"
    using parse_error_in [OF assms(1,2), of "errorCode m"] s assms(4) unfolding bad_error_attr_def by fastforce
  have fine_if: "(c \<Longrightarrow> ?P a) \<Longrightarrow> (\<not> c \<Longrightarrow> ?P b) \<Longrightarrow> ?P (if c then a else b)" for c a b
    by simp
  have rt: "?P (Inr (g, x))" if "stun_sizes x" for g x
    using that by simp
  have ad: "?P (res_map (\<lambda>(b, x). (b, f x)) (stunParseAtrAddress buf pos len r))" if "\<And>x. stun_sizes (f x)" for f r
    using a [of r] that by (auto simp: ok_iff)
  have ch: "?P (res_map (\<lambda>(b, x). (b, f x)) (stunParseAtrChangeRequest buf pos len r))" if "\<And>x. stun_sizes (f x)" for f r
    using c [of r] that by (auto simp: ok_iff)
  have ig: "?P (res_map (\<lambda>(b, x). (b, f x)) (stunParseAtrIntegrity buf pos len r))" if "\<And>x. stun_sizes (f x)" for f r
    using i [of r] that by (auto simp: ok_iff)
  have un: "?P (res_map (\<lambda>(b, x). (b, f x)) (stunParseAtrUnknown buf pos len r))" if "\<And>x. stun_sizes (f x)" for f r
    using u [of r] that by (auto simp: ok_iff)
  have sg: "?P (res_map (\<lambda>(b, x). (b, f x)) (stunParseAtrString buf pos len r))"
    if "length (str_value r) = STUN_MAX_STRING" "\<And>x. length (str_value x) = STUN_MAX_STRING \<Longrightarrow> stun_sizes (f x)" for f r
    using st [OF that(1)] that(2) by (auto; metis snd_conv)
  have er: "?P (res_map (\<lambda>(b, x). (b, f x)) (stunParseAtrError buf pos len (errorCode m)))"
    if "ty = ErrorCode" "\<And>x. length (reason x) = STUN_MAX_STRING \<Longrightarrow> stun_sizes (f x)" for f
    using e [OF that(1)] that(2) by (auto; metis snd_conv)
  show ?thesis
    unfolding stun_attr_defs
    by (intro fine_if ad ch ig un sg er rt) (use s in \<open>simp_all add: stun_sizes_def strings_ok_def\<close>)
qed

lemma stun_attrs_faults:
  assumes "stun_attrs buf pos left m = Inl e" "0 \<le> pos" "pos + int left + 3 \<le> int (length buf)" "stun_sizes m"
  shows "\<exists>p. bad_error_attr (of_be16 (drop p buf)) (unat (of_be16 (drop (p + 2) buf)))"
  using assms
proof (induction buf pos left m rule: stun_attrs.induct)
  case (1 buf pos left m)
  show ?case
  proof (cases "left = 0")
    case True
    with "1.prems"(1) show ?thesis by (simp add: stun_attrs.simps [of _ _ 0])
  next
    case False
    have r: "mem_read buf pos 4 = Inr (take 4 (drop (nat pos) buf))"
      using "1.prems"(2,3) False by (simp add: mem_read_def)
    let ?a = "take 4 (drop (nat pos) buf)"
    let ?len = "unat (of_be16 (drop 2 ?a))"
    have l: "4 \<le> length (drop (nat pos) buf)" using "1.prems"(2,3) False by simp
    have a0: "of_be16 ?a = of_be16 (drop (nat pos) buf)" "of_be16 (drop 2 ?a) = of_be16 (drop (nat pos + 2) buf)"
      using l by (simp_all add: of_be16_def drop_take add.commute)
    show ?thesis
    proof (rule ccontr)
      assume n: "\<not> ?thesis"
      then have nb: "\<not> bad_error_attr (of_be16 ?a) ?len" using a0 by metis
      have small: "?len + 4 \<le> left"
        using "1.prems"(1) False r by (subst (asm) stun_attrs.simps) (auto simp: Let_def split: if_splits)
      have in1: "0 \<le> pos + 4" and in2: "pos + 4 + int ?len \<le> int (length buf)"
        using "1.prems"(2,3) small by linarith+
      obtain g m1 where m1: "stun_attr buf (pos + 4) ?len (of_be16 ?a) m = Inr (g, m1)" "stun_sizes m1"
        using stun_attr_in [OF in1 in2 "1.prems"(4) nb] by blast
      have eq: "stun_attrs buf pos left m
          = (if g then stun_attrs buf (pos + 4 + int ?len) (left - 4 - ?len) m1 else Inr (False, m1))"
        by (subst stun_attrs.simps) (use False r m1(1) small in \<open>simp add: Let_def\<close>)
      then have g: "g" "stun_attrs buf (pos + 4 + int ?len) (left - 4 - ?len) m1 = Inl e"
        using "1.prems"(1) by (cases g; simp)+
      have "\<exists>p. bad_error_attr (of_be16 (drop p buf)) (unat (of_be16 (drop (p + 2) buf)))"
        by (rule "1.IH" [OF False refl refl _ g(1) g(2)])
          (use small "1.prems"(2,3) m1(2) g(1) in auto)
      with n show False by simp
    qed
  qed
qed

text \<open>C31: Parsing a packet that leaves three bytes of the buffer free faults only when the buffer holds an ERROR-CODE
  attribute whose length is below 4 (the subtraction of its header wraps) or is 260 or 261 (no room
  for the terminating NUL).\<close>

theorem stun_parse_faults:
  assumes "stunParseMessage buf n m0 = Inl e" and "n + 3 \<le> length buf" and "stun_sizes m0"
  shows "\<exists>p. bad_error_attr (of_be16 (drop p buf)) (unat (of_be16 (drop (p + 2) buf)))"
proof -
  have n20: "STUN_HDR_SIZE \<le> n" using assms(1) by (auto simp: stunParseMessage_def split: if_splits)
  then obtain b where b: "mem_read buf 0 20 = Inr b" using mem_read_in [of 0 20 buf] assms(2) by (auto simp: STUN_HDR_SIZE_def)
  let ?m = "m0\<lparr> msgType := of_be16 b, msgLength := of_be16 (drop 2 b), octet := drop 4 b \<rparr>"
  have l: "unat (msgLength ?m) + STUN_HDR_SIZE = n" "stun_attrs buf 20 (unat (msgLength ?m)) ?m = Inl e"
    using assms(1) n20 b by (auto simp: stunParseMessage_def Let_def split: if_splits)
  have "stun_sizes ?m" using assms(3) by (simp add: stun_sizes_def strings_ok_def)
  moreover have "20 + int (unat (msgLength ?m)) + 3 \<le> int (length buf)"
    using l(1) assms(2) unfolding STUN_HDR_SIZE_def by linarith
  ultimately show ?thesis using stun_attrs_faults [OF l(2)] by simp
qed

lemma stun_attr_ErrorCode:
  "stun_attr buf pos len ErrorCode m = res_map (\<lambda>(b, x). (b, m\<lparr> hasErrorCode := True, errorCode := x \<rparr>))
     (stunParseAtrError buf pos len (errorCode m))"
  by (simp add: stun_attr_defs attr_types)

lemma parse_error_wraps:
  assumes "len < 4" "int (length buf) < pos + 65532"
  shows "stunParseAtrError buf pos len r = Inl OutOfBounds"
proof -
  have n: "uint (word_of_nat len - 4 :: u16) = int len + 65532"
    using assms(1) by (cases len; cases "len - 1"; cases "len - 2"; cases "len - 3") (auto simp: unsigned_minus_1_eq_mask mask_eq_exp_minus_1)
  then have big: "mem_read buf (pos + 4) (uint (word_of_nat len - 4 :: u16)) = Inl OutOfBounds"
    using assms by (simp add: mem_read_def)
  show ?thesis
    using assms(1) big by (cases "mem_read buf pos 4") (auto simp: stunParseAtrError_def Let_def mem_read_def split: if_splits)
qed

text \<open>Such packets exist: for a binding response whose only attribute is an empty ERROR-CODE the
  parser copies 65532 bytes, which leave the buffer, since only the header length was compared with
  the size of the message.\<close>

theorem stun_error_code_overread:
  assumes "length octets = 16" and "length rest < 65000"
  shows "stunParseMessage (be16 BindResponseMsg @ be16 4 @ octets @ be16 ErrorCode @ be16 0 @ rest) 24 m0 = Inl OutOfBounds"
proof -
  let ?h = "be16 BindResponseMsg @ be16 4 @ octets"
  let ?buf = "be16 BindResponseMsg @ be16 4 @ octets @ be16 ErrorCode @ be16 0 @ rest"
  have h: "mem_read ?buf 0 20 = Inr ?h" using assms(1) by (simp add: mem_read_def)
  have a: "mem_read ?buf 20 4 = Inr (be16 ErrorCode @ be16 0)" using assms(1) by (simp add: mem_read_def)
  have z: "drop 2 (be16 ErrorCode @ be16 0) = be16 0" by simp
  have e: "stunParseAtrError ?buf 24 0 x = Inl OutOfBounds" for x
    by (rule parse_error_wraps) (use assms in simp_all)
  have at: "stun_attr ?buf 24 0 ErrorCode m = Inl OutOfBounds" for m
    by (simp add: stun_attr_ErrorCode e)
  have "stun_attrs ?buf 20 4 m = Inl OutOfBounds" for m
    by (subst stun_attrs.simps) (simp add: a z at)
  then show ?thesis using h by (simp add: stunParseMessage_def STUN_HDR_SIZE_def)
qed

lemma stun_error_code_overread_witness:
  "stunParseMessage (be16 BindResponseMsg @ be16 4 @ replicate 16 0 @ be16 ErrorCode @ be16 0 @ replicate 1448 0) 24 stun0
     = Inl OutOfBounds"
  using stun_error_code_overread [of "replicate 16 0" "replicate 1448 0" stun0] by simp

lemma stun_parse_faults_witness:
  "\<exists>p. bad_error_attr (of_be16 (drop p (be16 BindResponseMsg @ be16 8 @ replicate 16 0 @ be16 ErrorCode @ be16 3 @ replicate 8 7)))
     (unat (of_be16 (drop (p + 2) (be16 BindResponseMsg @ be16 8 @ replicate 16 0 @ be16 ErrorCode @ be16 3 @ replicate 8 7))))"
proof -
  let ?buf = "be16 BindResponseMsg @ be16 8 @ replicate 16 0 @ be16 ErrorCode @ be16 3 @ replicate 8 (7 :: byte)"
  have z: "drop 2 (be16 ErrorCode @ be16 3) = be16 3" by simp
  have e: "stunParseAtrError ?buf 24 3 x = Inl OutOfBounds" for x
    by (rule parse_error_wraps) simp_all
  have at: "stun_attr ?buf 24 3 ErrorCode m = Inl OutOfBounds" for m
    by (simp add: stun_attr_ErrorCode e)
  have a: "mem_read ?buf 20 4 = Inr (be16 ErrorCode @ be16 3)" by (simp add: mem_read_def)
  have "stun_attrs ?buf 20 8 m = Inl OutOfBounds" for m
    by (subst stun_attrs.simps) (simp add: a z at)
  moreover have "mem_read ?buf 0 20 = Inr (be16 BindResponseMsg @ be16 8 @ replicate 16 0)" by (simp add: mem_read_def)
  ultimately have f: "stunParseMessage ?buf 28 stun0 = Inl OutOfBounds"
    by (simp add: stunParseMessage_def STUN_HDR_SIZE_def)
  have "stun_sizes stun0" by (simp add: stun_sizes_def strings_ok_def stun0_def string0_def)
  then show ?thesis using stun_parse_faults [OF f] by simp
qed

definition lone_attr :: "stun_msg \<Rightarrow> stun_msg \<Rightarrow> bool" where
  "lone_attr m0 m \<longleftrightarrow>
     (\<exists>e. m = m0\<lparr> hasErrorCode := True, errorCode := e \<rparr> \<and> unat (sizeReason e) < 60000)
     \<or> (\<exists>u. m = m0\<lparr> hasUnknownAttributes := True, unknownAttributes := u \<rparr> \<and> unat (numAttributes u) \<le> 8)
     \<or> m = m0\<lparr> xorOnly := True \<rparr>"

lemma lone_attr_encoding:
  assumes "lone_attr (stun0\<lparr> msgType := ty, octet := octets \<rparr>) m" "encode_attrs m string0 stack = Inr bs" "4 \<le> length rest"
  shows "\<exists>ls. take 2 (drop 2 (bs @ rest)) = ls \<and> length bs < unat (of_be16 ls) + 4 \<and> 0 < length bs \<and> length bs < 2 ^ 16"
proof -
  consider (err) e where "m = stun0\<lparr> msgType := ty, octet := octets, hasErrorCode := True, errorCode := e \<rparr>" "unat (sizeReason e) < 60000"
    | (unk) u where "m = stun0\<lparr> msgType := ty, octet := octets, hasUnknownAttributes := True, unknownAttributes := u \<rparr>"
        "unat (numAttributes u) \<le> 8"
    | (xo) "m = stun0\<lparr> msgType := ty, octet := octets, xorOnly := True \<rparr>"
    using assms(1) unfolding lone_attr_def by blast
  then show ?thesis
  proof cases
    case err
    have "encodeAtrError e = Inr bs"
      using assms(2) by (simp add: err(1) encode_attrs_def enc_if_def stun0_def string0_def res_map_def res_bind_def split: sum.splits)
    then obtain t where t: "bs = be16 ErrorCode @ be16 (6 + sizeReason e) @ be16 (er_pad e) @ [errorClass e, er_number e] @ t"
      "mem_read (reason e) 0 (uint (sizeReason e)) = Inr t"
      by (auto simp: encodeAtrError_def res_map_Inr)
    have l: "length t = unat (sizeReason e)" using mem_read_length [OF t(2)] unfolding uint_nat by linarith
    have "unat (6 + sizeReason e) = 6 + unat (sizeReason e)"
      using err(2) by (subst unat_plus_simple [THEN iffD1]) (auto simp: word_le_nat_alt unat_word_ariths)
    then show ?thesis using t(1) l err(2) by simp
  next
    case unk
    have "encodeAtrUnknown u = Inr bs"
      using assms(2) by (simp add: unk(1) encode_attrs_def enc_if_def stun0_def string0_def res_map_def res_bind_def split: sum.splits)
    then have b: "unat (numAttributes u) \<le> length (attrType u)" and t: "bs = be16 UnknownAttribute @ be16 (2 + 2 * numAttributes u)
                @ concat (map be16 (take (unat (numAttributes u)) (attrType u)))"
      by (auto simp: encodeAtrUnknown_def split: if_splits)
    have "length (concat (map be16 ts)) = 2 * length ts" for ts by (induction ts) simp_all
    then have l: "length bs = 4 + 2 * unat (numAttributes u)" using b by (simp add: t)
    have "unat (2 + 2 * numAttributes u) = 2 + 2 * unat (numAttributes u)"
      using unk(2) by (simp add: unat_word_ariths)
    then show ?thesis using t l unk(2) by simp
  next
    case xo
    have "bs = be16 XorOnly"
      using assms(2) by (simp add: xo encode_attrs_def enc_if_def stun0_def string0_def encodeXorOnly_def)
    then show ?thesis by simp
  qed
qed

text \<open>What the parser cannot read back: a message whose only attribute is an error code, a list of
  at most eight unknown attributes, or XOR-ONLY is encoded with a length field that is too large, or
  without one, and the parser rejects it, whatever follows it in the buffer.\<close>

theorem stun_unreadable:
  assumes "lone_attr (stun0\<lparr> msgType := ty, octet := octets \<rparr>) m" and "length octets = 16"
    and "stunEncodeMessage m buf string0 stack = Inr (buf1, n)" and "4 \<le> length rest"
  shows "\<exists>m1. stunParseMessage (take n buf1 @ rest) n m0 = Inr (False, m1)"
proof -
  obtain bs where bs: "encode_attrs m string0 stack = Inr bs"
    and w: "mem_write buf 0 (be16 (msgType m) @ be16 (word_of_nat (length bs)) @ octet m @ bs) = Inr buf1"
    and n: "n = length (be16 (msgType m) @ be16 (word_of_nat (length bs)) @ octet m @ bs)"
    using assms(3) by (auto simp: stunEncodeMessage_def res_bind_Inr res_map_Inr Let_def)
  let ?h = "be16 (msgType m) @ be16 (word_of_nat (length bs) :: u16) @ octet m"
  let ?buf = "take n buf1 @ rest"
  have t: "take n buf1 = ?h @ bs" using w n by (auto simp: mem_write_def split: if_splits)
  have "octet m = octets" using assms(1) by (auto simp: lone_attr_def)
  then have n1: "n = 20 + length bs" "length ?h = 20" using n assms(2) by simp_all
  obtain ls where ls: "take 2 (drop 2 (bs @ rest)) = ls" "length bs < unat (of_be16 ls) + 4" "0 < length bs" "length bs < 2 ^ 16"
    using lone_attr_encoding [OF assms(1) bs assms(4)] by blast
  have len: "unat (word_of_nat (length bs) :: u16) = length bs" using ls(4) by (simp add: unat_of_nat)
  have rd: "mem_read ?buf 0 20 = Inr ?h" unfolding t using n1(2) by (simp add: mem_read_def)
  have "drop 20 ?buf = bs @ rest" unfolding t using n1(2) by simp
  then have r4: "mem_read ?buf 20 4 = Inr (take 4 (bs @ rest))"
    unfolding t using n1(2) assms(4) by (simp add: mem_read_def)
  have d: "drop 2 (take 4 (bs @ rest)) = ls" using ls(1) by (simp add: drop_take del: take_append drop_append)
  have "stun_attrs ?buf 20 (length bs) x = Inr (False, x)" for x
    by (subst stun_attrs.simps) (use ls r4 d in \<open>simp add: Let_def\<close>)
  then show ?thesis using rd len n1 by (simp add: stunParseMessage_def STUN_HDR_SIZE_def Let_def)
qed

lemma stun_unreadable_witness:
  "\<exists>m1. stunParseMessage (take 22 (fst (projr (stunEncodeMessage (stun0\<lparr> msgType := 1, octet := replicate 16 3, xorOnly := True \<rparr>)
      (replicate 576 0) string0 []))) @ [0, 0, 0, 0]) 22 stun0 = Inr (False, m1)"
proof -
  let ?m = "stun0\<lparr> msgType := 1, octet := replicate 16 3, xorOnly := True \<rparr>"
  have "\<exists>buf1. stunEncodeMessage ?m (replicate 576 0) string0 [] = Inr (buf1, 22)"
    by (simp add: stunEncodeMessage_def encode_attrs_def enc_if_def encodeXorOnly_def stun0_def
        STUN_HDR_SIZE_def mem_write_def string0_def)
  then obtain buf1 where e: "stunEncodeMessage ?m (replicate 576 0) string0 [] = Inr (buf1, 22)" by blast
  have "lone_attr (stun0\<lparr> msgType := 1, octet := replicate 16 3 \<rparr>) ?m" by (simp add: lone_attr_def)
  then have "\<exists>m1. stunParseMessage (take 22 buf1 @ [0, 0, 0, 0]) 22 stun0 = Inr (False, m1)"
    by (rule stun_unreadable [OF _ _ e]) simp_all
  then show ?thesis using e by simp
qed

end
