(* ===== verification/Ml_Init.thy ===== *)
theory Ml_Init
  imports Connection Stun
begin

text \<open>
  Starting the messaging layer and finding the external address (\<open>ml/ml.c\<close>: \<open>mlInit\<close>,
  \<open>create_socket\<close>, \<open>try_stun\<close>, \<open>recv_stun_msg\<close>, the setters and the registration functions;
  \<open>ml/util/udpSocket.c\<close>: \<open>createSocket\<close>; \<open>ml/util/stun.c\<close>: \<open>send_stun_request\<close>), and
  \<open>mlSendAllData\<close>. The operating system's answers are in \<open>os_env\<close>: resolving a host name,
  \<open>socket\<close>, \<open>setsockopt\<close> and \<open>bind\<close>, random numbers and uninitialised stack buffers.
\<close>

record os_env = ml_env +
  resolve :: "string \<Rightarrow> string"
  sys_socket :: "u16 \<Rightarrow> int"
  sys_setsockopt :: "int \<Rightarrow> bool"
  sys_bind :: "int \<Rightarrow> sockaddr \<Rightarrow> bool"
  stunRand :: "nat \<Rightarrow> u32"
  stack_stun :: "byte list"
  stack_vla :: "nat \<Rightarrow> byte"

section \<open>Sockets\<close>

text \<open>The socket options set after \<open>bind\<close> only log when they fail.\<close>

definition createSocket :: "'e os_env_scheme \<Rightarrow> int \<Rightarrow> string option \<Rightarrow> int" where
  "createSocket env port ipaddr =
     (let (udpsrc, st) = init_sockaddr (env_gai env) zero_sockaddr port ipaddr in
      if st < 0 then -1
      else (let fd = sys_socket env (ss_family udpsrc) in
            if fd < 0 then -1
            else if \<not> sys_setsockopt env fd then -1
            else if \<not> sys_bind env fd udpsrc then -2
            else fd))"

section \<open>Finding the external address\<close>

definition INADDR_NONE_STR :: string where "INADDR_NONE_STR = ''255.255.255.255''"

definition unsetStunServer :: "'e os_env_scheme \<Rightarrow> 'a ml_scheme \<Rightarrow> 'a ml_scheme" where
  "unsetStunServer env s =
     s\<lparr> stun_server := fst (init_sockaddr (env_gai env) (stun_server s) 6666 (Some INADDR_NONE_STR)) \<rparr>"

definition mlSetStunServer :: "'e os_env_scheme \<Rightarrow> int \<Rightarrow> string \<Rightarrow> 'a ml_scheme \<Rightarrow> int \<times> 'a ml_scheme" where
  "mlSetStunServer env port stun_host s =
     (let (addr, res) = init_sockaddr (env_gai env) (stun_server s) port (Some (resolve env stun_host))
      in (res, s\<lparr> stun_server := addr \<rparr>))"

definition isStunDefined :: "'a ml_scheme \<Rightarrow> bool" where
  "isStunDefined s \<longleftrightarrow>
     strcmp (ip_text (stun_server s)) INADDR_NONE_STR \<noteq> 0 \<and> strcmp (ip_text (stun_server s)) '''' \<noteq> 0"

definition send_stun_request :: "'e os_env_scheme \<Rightarrow> int \<Rightarrow> sockaddr \<Rightarrow> 'a ml_scheme \<Rightarrow> 'a ml_scheme res" where
  "send_stun_request env sock addr s0 =
     (let req = stunBuildReqSimple (\<lambda>i. stunRand env (ticks s0 + i)) string0 False False 0x0c;
          s = s0\<lparr> ticks := ticks s0 + 4 \<rparr>
      in res_map (\<lambda>(buf, len). snd (sendPacketFinal env sock [take len buf] addr s))
           (stunEncodeMessage req (stack_stun env) string0 []))"

definition send_stun_keep_alive :: "'e os_env_scheme \<Rightarrow> int \<Rightarrow> sockaddr \<Rightarrow> 'a ml_scheme \<Rightarrow> (int \<times> 'a ml_scheme) res" where
  "send_stun_keep_alive env sock addr s = res_map (\<lambda>s1. (0, s1)) (send_stun_request env sock addr s)"

definition report_socketID :: "int \<Rightarrow> 'a ml_scheme \<Rightarrow> 'a ml_scheme" where
  "report_socketID st s =
     (case receive_SocketID_cb s of None \<Rightarrow> s | Some f \<Rightarrow> s\<lparr> trace := trace s @ [Local_socketID f st] \<rparr>)"

definition try_stun :: "'e os_env_scheme \<Rightarrow> 'a ml_scheme \<Rightarrow> 'a ml_scheme res" where
  "try_stun env s =
     (if isStunDefined s then
        res_map (\<lambda>s1. s1\<lparr> once := once s1 @ [(Nat_timeout, \<lparr> tv_sec = 1, tv_usec = 0 \<rparr>)], NAT_traversal := False \<rparr>)
          (send_stun_request env (socketfd s) (stun_server s) s)
      else
        Inr (report_socketID 0
          (s\<lparr> local_socketID := (local_socketID s)\<lparr> external_addr := internal_addr (local_socketID s) \<rparr>,
              NAT_traversal := True \<rparr>)))"

definition nat_traversal_timeout :: "'e os_env_scheme \<Rightarrow> 'a ml_scheme \<Rightarrow> 'a ml_scheme res" where
  "nat_traversal_timeout env s =
     (if NAT_traversal s then Inr s else try_stun env (report_socketID 2 s))"

text \<open>
  The reflexive address of an answer goes through its text. A NULL callback is called all the same.
  Whether the answer has a MAPPED-ADDRESS, and whose answer it is, are not looked at.
\<close>

definition recv_stun_msg :: "'e os_env_scheme \<Rightarrow> byte list \<Rightarrow> nat \<Rightarrow> 'a ml_scheme \<Rightarrow> 'a ml_scheme res" where
  "recv_stun_msg env msgbuf recvSize s =
     res_bind (recv_stun_message msgbuf recvSize stun0) (\<lambda>(ret, resp).
       if ret = 0 then
         (let bs = be32 (sa_addr (mappedAddress resp));
              ipaddr = (case inet_ntop4 bs 16 of None \<Rightarrow> '''' | Some t \<Rightarrow> t);
              s1 = s\<lparr> local_socketID := (local_socketID s)\<lparr> external_addr :=
                       fst (init_sockaddr (env_gai env) (external_addr (local_socketID s))
                              (uint (sa_port (mappedAddress resp))) (Some ipaddr)) \<rparr>,
                     NAT_traversal := True \<rparr>
          in if receive_SocketID_cb s1 = None then Inl NullDeref else Inr (report_socketID 0 s1))
       else Inr s)"

section \<open>Starting\<close>

definition mlSetRecvTimeout :: "timeval \<Rightarrow> 'a ml_scheme \<Rightarrow> 'a ml_scheme" where
  "mlSetRecvTimeout t s =
     (let total = (tv_sec t * 1000000 + tv_usec t) mod 2 ^ 32 * 7 div 10
      in s\<lparr> recv_timeout := t,
             last_pkt_recv_timeout := \<lparr> tv_sec = total div 1000000, tv_usec = total mod 1000000 \<rparr> \<rparr>)"

definition register_recv_localsocketID_cb :: "nat option \<Rightarrow> 'a ml_scheme \<Rightarrow> 'a ml_scheme" where
  "register_recv_localsocketID_cb cb s = (case cb of None \<Rightarrow> s | Some f \<Rightarrow> s\<lparr> receive_SocketID_cb := Some f \<rparr>)"

definition mlRegisterRecvConnectionCb :: "nat option \<Rightarrow> 'a ml_scheme \<Rightarrow> 'a ml_scheme" where
  "mlRegisterRecvConnectionCb cb s = (case cb of None \<Rightarrow> s | Some f \<Rightarrow> s\<lparr> receive_Connection_cb := Some f \<rparr>)"

definition mlRegisterErrorConnectionCb :: "nat option \<Rightarrow> 'a ml_scheme \<Rightarrow> 'a ml_scheme" where
  "mlRegisterErrorConnectionCb cb s = (case cb of None \<Rightarrow> s | Some f \<Rightarrow> s\<lparr> failed_Connection_cb := Some f \<rparr>)"

definition create_socket :: "'e os_env_scheme \<Rightarrow> int \<Rightarrow> string option \<Rightarrow> 'a ml_scheme \<Rightarrow> (int \<times> 'a ml_scheme) res" where
  "create_socket env port ipaddr s =
     (let fd = createSocket env port ipaddr;
          s1 = s\<lparr> local_socketID := (local_socketID s)\<lparr> internal_addr :=
                   fst (init_sockaddr (env_gai env) zero_sockaddr port ipaddr) \<rparr>, socketfd := fd \<rparr>
      in if fd < 0 then Inr (fd, s1) else res_map (\<lambda>s2. (socketfd s2, s2)) (try_stun env s1))"

definition mlInit :: "'e os_env_scheme \<Rightarrow> bool \<Rightarrow> timeval \<Rightarrow> int \<Rightarrow> string option \<Rightarrow> int \<Rightarrow> string option \<Rightarrow> nat option
    \<Rightarrow> 'a ml_scheme \<Rightarrow> (int \<times> 'a ml_scheme) res" where
  "mlInit env recv_data_cb tout port ipaddr stun_port stun_ipaddr cb s =
     (let s1 = mlSetRecvTimeout tout (s\<lparr> recv_data_callback := recv_data_cb \<rparr>);
          s2 = (case stun_ipaddr of
                  None \<Rightarrow> unsetStunServer env s1
                | Some host \<Rightarrow> (let (r, t) = mlSetStunServer env stun_port host s1
                                 in if r = 0 then unsetStunServer env t else t))
      in create_socket env port ipaddr (register_recv_localsocketID_cb cb s2))"

definition mlGetLocalSocketID :: "'a ml_scheme \<Rightarrow> int \<times> socket_ID option" where
  "mlGetLocalSocketID s = (if \<not> NAT_traversal s then (2, None) else (0, Some (local_socketID s)))"

definition mlGetExternalIP :: "'a ml_scheme \<Rightarrow> string \<Rightarrow> string \<times> int" where
  "mlGetExternalIP s dst =
     (let a = external_addr (local_socketID s) in (get_sockaddr_ip a dst (addr_str_len a), 0))"

definition mlSetRateLimiterParams :: "'e env_scheme \<Rightarrow> int \<Rightarrow> int \<Rightarrow> int \<Rightarrow> int \<Rightarrow> timeval \<Rightarrow> 'a rate_scheme \<Rightarrow> 'a rate_scheme" where
  "mlSetRateLimiterParams env bucketsize drainrate maxQueueSize maxQueueSizeRTX holdTime s =
     setQueuesParams maxQueueSize maxQueueSizeRTX holdTime (setOutputRateParams env bucketsize drainrate s)"

text \<open>The registration of the monitoring hooks, which are part of the environment.\<close>

definition mlRegisterGetRecvPktInf :: "bool \<Rightarrow> 'e ml_env_scheme \<Rightarrow> 'e ml_env_scheme" where
  "mlRegisterGetRecvPktInf given env = (if \<not> given then env else env\<lparr> get_Recv_pkt_inf_cb := True \<rparr>)"

definition mlRegisterGetSendPktInf :: "(byte list list \<Rightarrow> byte list) option \<Rightarrow> 'e ml_env_scheme \<Rightarrow> 'e ml_env_scheme" where
  "mlRegisterGetSendPktInf cb env = (case cb of None \<Rightarrow> env | Some f \<Rightarrow> env\<lparr> send_pkt_inf := Some f \<rparr>)"

definition mlRegisterSetMonitoringHeaderPktCb :: "(socket_ID \<Rightarrow> int \<Rightarrow> nat) option \<Rightarrow> 'e ml_env_scheme \<Rightarrow> 'e ml_env_scheme" where
  "mlRegisterSetMonitoringHeaderPktCb cb env =
     (case cb of None \<Rightarrow> env | Some f \<Rightarrow> env\<lparr> set_Monitoring_header_pkt_cb := Some f \<rparr>)"

definition mlRegisterGetRecvDataInf :: "bool \<Rightarrow> 'e ml_env_scheme \<Rightarrow> 'e ml_env_scheme" where
  "mlRegisterGetRecvDataInf given env = (if \<not> given then env else env\<lparr> get_Recv_data_inf_cb := True \<rparr>)"

definition mlRegisterGetSendDataInf ::
  "(socket_ID \<Rightarrow> byte list \<Rightarrow> int \<Rightarrow> send_params \<Rightarrow> byte list) option \<Rightarrow> 'e ml_env_scheme \<Rightarrow> 'e ml_env_scheme" where
  "mlRegisterGetSendDataInf cb env = (case cb of None \<Rightarrow> env | Some f \<Rightarrow> env\<lparr> get_Send_data_inf_cb := Some f \<rparr>)"

definition mlRegisterSetMonitoringHeaderDataCb :: "(socket_ID \<Rightarrow> int \<Rightarrow> nat) option \<Rightarrow> 'e ml_env_scheme \<Rightarrow> 'e ml_env_scheme" where
  "mlRegisterSetMonitoringHeaderDataCb cb env =
     (case cb of None \<Rightarrow> env | Some f \<Rightarrow> env\<lparr> set_Monitoring_header_data_cb := Some f \<rparr>)"

section \<open>Sending several buffers\<close>

text \<open>
  The buffers with their lengths. The message is assembled in a variable-length array; each buffer
  after the second is written at the length of the one before it, not at the sum of the lengths.
\<close>

record send_all_data_container =
  buffer_1 :: "byte list"
  length_1 :: int
  buffer_2 :: "byte list"
  length_2 :: int
  buffer_3 :: "byte list"
  length_3 :: int
  buffer_4 :: "byte list"
  length_4 :: int
  buffer_5 :: "byte list"
  length_5 :: int

definition vla :: "'e os_env_scheme \<Rightarrow> int \<Rightarrow> byte list res" where
  "vla env n = (if n < 0 then Inl OutOfBounds else Inr (map (stack_vla env) [0..<nat n]))"

definition put :: "byte list \<Rightarrow> int \<Rightarrow> int \<Rightarrow> byte list \<Rightarrow> byte list res" where
  "put src off n buf = res_bind (mem_read src 0 n) (mem_write buf off)"

definition assemble :: "'e os_env_scheme \<Rightarrow> send_all_data_container \<Rightarrow> int \<Rightarrow> (int \<times> byte list) res" where
  "assemble env c nr =
     (let l1 = length_1 c; l2 = length_2 c; l3 = length_3 c; l4 = length_4 c; l5 = length_5 c;
          n = (if nr = 2 then l1 + l2 else if nr = 3 then l1 + l2 + l3
               else if nr = 4 then l1 + l2 + l3 + l4 else l1 + l2 + l3 + l4 + l5)
      in res_map (\<lambda>b. (n, b))
           (res_bind (vla env n) (\<lambda>b0.
            res_bind (put (buffer_1 c) 0 l1 b0) (\<lambda>b1.
            res_bind (put (buffer_2 c) l1 l2 b1) (\<lambda>b2.
              if nr = 2 then Inr b2
              else
                res_bind (put (buffer_3 c) l2 l3 b2) (\<lambda>b3.
                  if nr = 3 then Inr b3
                  else
                    res_bind (put (buffer_4 c) l3 l4 b3) (\<lambda>b4.
                      if nr = 4 then Inr b4 else put (buffer_5 c) l4 l5 b4)))))))"

definition mlSendAllData ::
  "'e os_env_scheme \<Rightarrow> int \<Rightarrow> send_all_data_container \<Rightarrow> int \<Rightarrow> byte \<Rightarrow> send_params option \<Rightarrow> 'a ml_scheme
     \<Rightarrow> (int \<times> 'a ml_scheme) res option" where
  "mlSendAllData env cid c nr msgtype sp s =
     (if nr < 1 \<or> nr > 5 then Some (Inr (0, s))
      else
        opt_bind (Some (if nr = 1 then Inr (length_1 c, buffer_1 c) else assemble env c nr)) (\<lambda>(n, b).
          opt_bind (mlSendData env cid b n msgtype sp s) (\<lambda>s1. Some (Inr (1, s1)))))"

section \<open>What starting gives\<close>

lemma init_sockaddr_text4:
  fixes bs :: "byte list"
  assumes "length bs = 4" "gai (Some (dotted (map unat bs))) = AF_INET" "6 \<le> length (ss_data a)"
  shows "ip_text (fst (init_sockaddr gai a port (Some (dotted (map unat bs))))) = dotted (map unat bs)"
    and "get_sockaddr_port (fst (init_sockaddr gai a port (Some (dotted (map unat bs))))) = uint (word_of_int port :: u16)"
proof -
  let ?d = "put_bytes (put_bytes (ss_data a) 0 (be16 (word_of_int port))) 2 bs"
  have i: "fst (init_sockaddr gai a port (Some (dotted (map unat bs)))) = a\<lparr> ss_family := AF_INET, ss_data := ?d \<rparr>"
    using assms(1,2) by (simp add: init_sockaddr_def Let_def inet_pton4_ntop4)
  have "take 4 (drop 2 ?d) = bs"
    using put_bytes_at [of 2 bs "put_bytes (ss_data a) 0 (be16 (word_of_int port))"] assms(1,3) by simp
  then show "ip_text (fst (init_sockaddr gai a port (Some (dotted (map unat bs))))) = dotted (map unat bs)"
    using assms(1) by (simp add: i ip_text_def get_sockaddr_ip_def addr_str_len_def inet_ntop4_16)
  have "take 2 ?d = take 2 (put_bytes (ss_data a) 0 (be16 (word_of_int port)))"
    by (rule put_bytes_before) (use assms(1,3) in simp_all)
  also have "\<dots> = be16 (word_of_int port)"
    using put_bytes_at [of 0 "be16 (word_of_int port)" "ss_data a"] assms(3) by simp
  finally show "get_sockaddr_port (fst (init_sockaddr gai a port (Some (dotted (map unat bs))))) = uint (word_of_int port :: u16)"
    by (simp add: i get_sockaddr_port_def)
qed

lemma INADDR_NONE_dotted: "INADDR_NONE_STR = dotted (map unat [255, 255, 255, 255 :: byte])"
  by code_simp

lemma unset_undefined:
  assumes "env_gai env (Some INADDR_NONE_STR) = AF_INET" "6 \<le> length (ss_data (stun_server s))"
  shows "\<not> isStunDefined (unsetStunServer env s)"
proof -
  have "ip_text (stun_server (unsetStunServer env s)) = INADDR_NONE_STR"
    using init_sockaddr_text4(1) [of "[255, 255, 255, 255]" "env_gai env" "stun_server s" 6666] assms
    by (simp add: unsetStunServer_def INADDR_NONE_dotted)
  then show ?thesis by (simp add: isStunDefined_def)
qed

text \<open>C34: Started without a STUN server on an address that can be bound, the library is ready at once: it
  returns the socket, its socket ID has the internal address as the external one, connections may
  be opened, and the application has been told with status 0.\<close>

theorem init_without_stun:
  assumes "createSocket env port ip = fd" and "0 \<le> fd" and "env_gai env (Some INADDR_NONE_STR) = AF_INET"
    and "6 \<le> length (ss_data (stun_server s))"
  shows "\<exists>s'. mlInit env poll tout port ip sport None (Some f) s = Inr (fd, s') \<and> socketfd s' = fd
    \<and> internal_addr (local_socketID s') = fst (init_sockaddr (env_gai env) zero_sockaddr port ip)
    \<and> mlGetLocalSocketID s' = (0, Some \<lparr> internal_addr = internal_addr (local_socketID s'),
                                        external_addr = internal_addr (local_socketID s') \<rparr>)
    \<and> trace s' = trace s @ [Local_socketID f 0] \<and> recv_timeout s' = tout \<and> recv_data_callback s' = poll"
proof -
  define t where "t = register_recv_localsocketID_cb (Some f) (unsetStunServer env (mlSetRecvTimeout tout (s\<lparr> recv_data_callback := poll \<rparr>)))"
  have ss: "stun_server t = stun_server (unsetStunServer env (mlSetRecvTimeout tout (s\<lparr> recv_data_callback := poll \<rparr>)))"
    by (simp add: t_def register_recv_localsocketID_cb_def)
  have "\<not> isStunDefined (unsetStunServer env (mlSetRecvTimeout tout (s\<lparr> recv_data_callback := poll \<rparr>)))"
    by (rule unset_undefined [OF assms(3)]) (simp add: mlSetRecvTimeout_def Let_def assms(4))
  then have u: "\<not> isStunDefined (t\<lparr> local_socketID := x, socketfd := fd \<rparr>)" for x
    by (simp add: isStunDefined_def ss)
  have init: "mlInit env poll tout port ip sport None (Some f) s = create_socket env port ip t"
    by (simp add: mlInit_def t_def)
  have t: "trace t = trace s" "recv_timeout t = tout" "recv_data_callback t = poll" "receive_SocketID_cb t = Some f"
    by (simp_all add: t_def register_recv_localsocketID_cb_def unsetStunServer_def mlSetRecvTimeout_def Let_def)
  show ?thesis
    using assms(1,2) u
    by (simp add: init create_socket_def try_stun_def report_socketID_def t mlGetLocalSocketID_def Let_def)
qed

text \<open>A NULL address does not mean every address of the machine, although \<open>create_socket\<close> says so:
  \<open>getaddrinfo\<close> with neither a host nor a service fails, the family stays unspecified, there is no
  socket of that family, and \<open>mlInit\<close> returns -1 without telling the application.\<close>

theorem init_null_address_fails:
  assumes "env_gai env None = AF_UNSPEC" and "sys_socket env AF_UNSPEC < 0"
  shows "\<exists>s'. mlInit env poll tout port None sport host cb s = Inr (-1, s') \<and> trace s' = trace s"
proof -
  have "createSocket env port None = -1"
    using assms by (simp add: createSocket_def init_sockaddr_def Let_def)
  then show ?thesis
    by (auto simp: mlInit_def create_socket_def Let_def register_recv_localsocketID_cb_def unsetStunServer_def
        mlSetStunServer_def mlSetRecvTimeout_def split: option.splits prod.splits)
qed

text \<open>C35: An answer of the STUN server ends the NAT traversal: whatever canonical message arrives, the
  external address becomes its MAPPED-ADDRESS and connections may be opened; without such an
  attribute it becomes \<open>0.0.0.0\<close>, port 0. The transaction identifier, \<open>octet\<close>, plays no part.\<close>

theorem stun_answer_sets_address:
  assumes "canonical m" and "stunEncodeMessage m buf string0 stack = Inr (buf1, n)" and "n < 2 ^ 16"
    and "receive_SocketID_cb s = Some f" and "6 \<le> length (ss_data (external_addr (local_socketID s)))"
    and "\<And>bs :: byte list. length bs = 4 \<Longrightarrow> env_gai env (Some (dotted (map unat bs))) = AF_INET"
  shows "\<exists>s'. recv_stun_msg env (take n buf1 @ rest) n s = Inr s' \<and> NAT_traversal s'
    \<and> ip_text (external_addr (local_socketID s')) = dotted (map unat (be32 (if hasMappedAddress m then sa_addr (mappedAddress m) else 0)))
    \<and> get_sockaddr_port (external_addr (local_socketID s')) = uint (if hasMappedAddress m then sa_port (mappedAddress m) else 0)
    \<and> internal_addr (local_socketID s') = internal_addr (local_socketID s)
    \<and> trace s' = trace s @ [Local_socketID f 0]"
proof -
  have p: "recv_stun_message (take n buf1 @ rest) n stun0 = Inr (0, m\<lparr> msgLength := word_of_nat (n - STUN_HDR_SIZE) \<rparr>)"
    using stun_parse_encoded [OF assms(1) _ assms(2,3)] by (simp add: recv_stun_message_def string0_def)
  have m: "sa_addr (mappedAddress m) = (if hasMappedAddress m then sa_addr (mappedAddress m) else 0)"
    "sa_port (mappedAddress m) = (if hasMappedAddress m then sa_port (mappedAddress m) else 0)"
    using assms(1) by (auto simp: canonical_def addr_canon_def addr0_def)
  let ?bs = "be32 (sa_addr (mappedAddress m))"
  have d: "inet_ntop4 ?bs 16 = Some (dotted (map unat ?bs))" by (simp add: inet_ntop4_16)
  have w: "word_of_int (uint (sa_port (mappedAddress m))) = sa_port (mappedAddress m)" by simp
  note t = init_sockaddr_text4 [of ?bs "env_gai env" "external_addr (local_socketID s)" "uint (sa_port (mappedAddress m))", OF _ assms(6) assms(5)]
  have l4: "length ?bs = 4" by simp
  show ?thesis
    using t(1) [OF l4 l4] t(2) [OF l4 l4] assms(4)
    unfolding recv_stun_msg_def p m [symmetric]
    by (simp add: d Let_def report_socketID_def)
qed

text \<open>An environment for the witnesses, where names are addresses and sockets have number 5.\<close>

definition os0 :: os_env where
  "os0 = ml_env.extend menv0
     \<lparr> resolve = (\<lambda>h. h), sys_socket = (\<lambda>f. if f = AF_UNSPEC then -1 else 5), sys_setsockopt = (\<lambda>_. True),
       sys_bind = (\<lambda>_ _. True), stunRand = word_of_nat, stack_stun = replicate 576 0, stack_vla = (\<lambda>_. 0xAA) \<rparr>"

lemma os0_simps [simp]:
  "env_gai os0 = numeric_gai" "resolve os0 h = h" "sys_socket os0 f = (if f = AF_UNSPEC then -1 else 5)"
  "sys_setsockopt os0 fd" "sys_bind os0 fd a" "stack_stun os0 = replicate 576 0" "stack_vla os0 i = 0xAA"
  by (simp_all add: os0_def ml_env.defs env.defs menv0_def env0_def)

lemma stun_server_ml0 [simp]: "stun_server ml0 = zero_sockaddr"
  by (simp add: ml0_def rate.defs)

lemma receive_SocketID_ml0 [simp]: "receive_SocketID_cb ml0 = None"
  by (simp add: ml0_def rate.defs)

lemma init_without_stun_witness:
  "\<exists>s'. mlInit os0 True \<lparr> tv_sec = 2, tv_usec = 0 \<rparr> 6666 (Some (dotted (map unat [10, 0, 0, 2 :: byte]))) 3478 None (Some 9) ml0
      = Inr (5, s') \<and> socketfd s' = 5
    \<and> internal_addr (local_socketID s') = fst (init_sockaddr numeric_gai zero_sockaddr 6666 (Some (dotted (map unat [10, 0, 0, 2 :: byte]))))
    \<and> mlGetLocalSocketID s' = (0, Some \<lparr> internal_addr = internal_addr (local_socketID s'),
                                        external_addr = internal_addr (local_socketID s') \<rparr>)
    \<and> trace s' = [Local_socketID 9 0] \<and> recv_timeout s' = \<lparr> tv_sec = 2, tv_usec = 0 \<rparr> \<and> recv_data_callback s' = True"
proof -
  let ?ip = "dotted (map unat [10, 0, 0, 2 :: byte])"
  have g: "numeric_gai (Some ?ip) = AF_INET" by (rule numeric_gai_dotted) simp
  have g2: "numeric_gai (Some INADDR_NONE_STR) = AF_INET" unfolding INADDR_NONE_dotted by (rule numeric_gai_dotted) simp
  have p: "inet_pton4 ?ip = Some [10, 0, 0, 2]" by (rule inet_pton4_ntop4) simp
  have "createSocket os0 6666 (Some ?ip) = 5"
    using g p by (simp add: createSocket_def init_sockaddr_def Let_def del: list.map)
  from init_without_stun [OF this, of ml0 True "\<lparr> tv_sec = 2, tv_usec = 0 \<rparr>" 3478 9] g2
  show ?thesis by (simp add: zero_sockaddr_def del: list.map)
qed

lemma init_null_address_fails_witness:
  "\<exists>s'. mlInit os0 True \<lparr> tv_sec = 2, tv_usec = 0 \<rparr> 6666 None 3478 None (Some 9) ml0 = Inr (-1, s') \<and> trace s' = []"
  using init_null_address_fails [of os0 True "\<lparr> tv_sec = 2, tv_usec = 0 \<rparr>" 6666 3478 None "Some 9" ml0]
  by (simp add: numeric_gai_def)

lemma stun_answer_sets_address_witness:
  "\<exists>buf1 s'. stunEncodeMessage (stun_reply (replicate 16 7) 6666 0xC0A80102) (replicate 576 0) string0 [] = Inr (buf1, 32)
    \<and> recv_stun_msg os0 (take 32 buf1 @ [0, 0, 0]) 32 (ml0\<lparr> receive_SocketID_cb := Some 9 \<rparr>) = Inr s' \<and> NAT_traversal s'
    \<and> ip_text (external_addr (local_socketID s')) = dotted (map unat (be32 0xC0A80102))
    \<and> get_sockaddr_port (external_addr (local_socketID s')) = 6666"
proof -
  let ?m = "stun_reply (replicate 16 7) 6666 0xC0A80102"
  let ?s = "ml0\<lparr> receive_SocketID_cb := Some 9 \<rparr>"
  have c: "canonical ?m"
    by (simp add: canonical_def stun_reply_def stun0_def addr_canon_def string_canon_def)
  have "\<exists>buf1. stunEncodeMessage ?m (replicate 576 0) string0 [] = Inr (buf1, 32)"
    by (simp add: stunEncodeMessage_def encode_attrs_def enc_if_def encodeAtrAddress4_def stun_reply_def stun0_def
        STUN_HDR_SIZE_def mem_write_def string0_def)
  then obtain buf1 where e: "stunEncodeMessage ?m (replicate 576 0) string0 [] = Inr (buf1, 32)" by blast
  have l: "6 \<le> length (ss_data (external_addr (local_socketID ?s)))" by (simp add: sid0_def ipv4_sockaddr_def)
  have g: "env_gai os0 (Some (dotted (map unat bs))) = AF_INET" if "length bs = 4" for bs :: "byte list"
    using numeric_gai_dotted [OF that] by simp
  have r: "receive_SocketID_cb ?s = Some 9" by simp
  have "hasMappedAddress ?m" "sa_port (mappedAddress ?m) = 6666" "sa_addr (mappedAddress ?m) = 0xC0A80102"
    by (simp_all add: stun_reply_def)
  with stun_answer_sets_address [OF c e _ r l g, of "[0, 0, 0]"] e show ?thesis by auto
qed

section \<open>What sending several buffers sends\<close>

lemma put_Inr: "put src off n buf = Inr b \<Longrightarrow> length b = length buf
   \<and> (\<forall>i < length buf. b ! i = (if off \<le> int i \<and> int i < off + n then src ! (i - nat off) else buf ! i))"
  by (auto simp: put_def res_bind_Inr mem_write_length mem_write_nth dest: mem_read_length
      simp: mem_read_def split: if_splits)

lemma put_ok:
  "0 \<le> n \<Longrightarrow> n \<le> int (length src) \<Longrightarrow> 0 \<le> off \<Longrightarrow> off + n \<le> int (length buf) \<Longrightarrow> \<exists>b. put src off n buf = Inr b"
  by (auto simp: put_def mem_read_def mem_write_def)

text \<open>Two buffers are sent as their concatenation; with three, the third is written over the others at
  the length of the second, and everything from the larger of the two ends on is uninitialised
  memory of the stack: at least as many bytes as the shorter of the first and the third buffer.\<close>

theorem send_all_data:
  assumes "int (length b1) = l1" and "int (length b2) = l2" and "int (length b3) = l3"
    and "buffer_1 c = b1" "length_1 c = l1" "buffer_2 c = b2" "length_2 c = l2" "buffer_3 c = b3" "length_3 c = l3"
  shows "mlSendAllData env cid c 2 ty sp s = opt_bind (mlSendData env cid (b1 @ b2) (l1 + l2) ty sp s) (\<lambda>s1. Some (Inr (1, s1)))
    \<and> (\<exists>b. mlSendAllData env cid c 3 ty sp s = opt_bind (mlSendData env cid b (l1 + l2 + l3) ty sp s) (\<lambda>s1. Some (Inr (1, s1)))
         \<and> int (length b) = l1 + l2 + l3
         \<and> (\<forall>i < length b. b ! i = (if l2 \<le> int i \<and> int i < l2 + l3 then b3 ! (i - length b2)
              else if int i < l1 then b1 ! i else if int i < l1 + l2 then b2 ! (i - length b1) else stack_vla env i))
         \<and> int (length b) - max (l1 + l2) (l2 + l3) = min l1 l3)"
proof -
  let ?v = "\<lambda>n. map (stack_vla env) [0..<nat n]"
  have pos: "0 \<le> l1" "0 \<le> l2" "0 \<le> l3" using assms(1-3) by auto
  have len: "length b1 = nat l1" "length b2 = nat l2" "length b3 = nat l3" using assms(1-3) by auto
  have p1: "\<exists>b. put b1 0 l1 (?v n) = Inr b" if "l1 \<le> n" for n
    by (rule put_ok) (use that pos assms(1) in auto)
  have two: "\<exists>b. assemble env c 2 = Inr (l1 + l2, b) \<and> b = b1 @ b2"
  proof -
    obtain x where x: "put b1 0 l1 (?v (l1 + l2)) = Inr x" using p1 pos by fastforce
    have lx: "length x = nat (l1 + l2)" using put_Inr [OF x] by simp
    obtain y where y: "put b2 l1 l2 x = Inr y" using put_ok [of l2 b2 l1 x] pos assms(2) lx by auto
    have "y = b1 @ b2"
    proof (rule nth_equalityI)
      show "length y = length (b1 @ b2)" using put_Inr [OF y] lx len pos by (simp add: nat_add_distrib)
      fix i assume "i < length y"
      then show "y ! i = (b1 @ b2) ! i"
        using put_Inr [OF x] put_Inr [OF y] lx len pos by (auto simp: nth_append)
    qed
    then show ?thesis using x y assms(4-7) pos by (simp add: assemble_def vla_def)
  qed
  have three: "\<exists>b. assemble env c 3 = Inr (l1 + l2 + l3, b) \<and> length b = nat (l1 + l2 + l3)
      \<and> (\<forall>i < length b. b ! i = (if l2 \<le> int i \<and> int i < l2 + l3 then b3 ! (i - length b2)
              else if int i < l1 then b1 ! i else if int i < l1 + l2 then b2 ! (i - length b1) else stack_vla env i))"
  proof -
    obtain x where x: "put b1 0 l1 (?v (l1 + l2 + l3)) = Inr x" using p1 pos by fastforce
    have lx: "length x = nat (l1 + l2 + l3)" using put_Inr [OF x] by simp
    obtain y where y: "put b2 l1 l2 x = Inr y" using put_ok [of l2 b2 l1 x] pos assms(2) lx by auto
    have ly: "length y = nat (l1 + l2 + l3)" using put_Inr [OF y] lx by simp
    obtain z where z: "put b3 l2 l3 y = Inr z" using put_ok [of l3 b3 l2 y] pos assms(3) ly by auto
    have lz: "length z = nat (l1 + l2 + l3)" using put_Inr [OF z] ly by simp
    have "z ! i = (if l2 \<le> int i \<and> int i < l2 + l3 then b3 ! (i - length b2)
              else if int i < l1 then b1 ! i else if int i < l1 + l2 then b2 ! (i - length b1) else stack_vla env i)"
      if "i < length z" for i
      using that put_Inr [OF x] put_Inr [OF y] put_Inr [OF z] lx ly lz len pos by auto
    then show ?thesis using x y z lz assms(4-9) pos by (simp add: assemble_def vla_def)
  qed
  obtain b where b: "assemble env c 3 = Inr (l1 + l2 + l3, b)" "length b = nat (l1 + l2 + l3)"
    "\<forall>i < length b. b ! i = (if l2 \<le> int i \<and> int i < l2 + l3 then b3 ! (i - length b2)
              else if int i < l1 then b1 ! i else if int i < l1 + l2 then b2 ! (i - length b1) else stack_vla env i)"
    using three by blast
  have "int (length b) = l1 + l2 + l3" "int (length b) - max (l1 + l2) (l2 + l3) = min l1 l3"
    using b(2) pos by auto
  moreover have "mlSendAllData env cid c 3 ty sp s = opt_bind (mlSendData env cid b (l1 + l2 + l3) ty sp s) (\<lambda>s1. Some (Inr (1, s1)))"
    using b(1) by (simp add: mlSendAllData_def)
  ultimately show ?thesis using two b(3) by (auto simp: mlSendAllData_def)
qed

lemma send_all_data_witness:
  "mlSendAllData os0 0 \<lparr> buffer_1 = [1, 2], length_1 = 2, buffer_2 = [3], length_2 = 1, buffer_3 = [4], length_3 = 1,
       buffer_4 = [], length_4 = 0, buffer_5 = [], length_5 = 0 \<rparr> 2 5 None ml0
   = opt_bind (mlSendData os0 0 [1, 2, 3] 3 5 None ml0) (\<lambda>s1. Some (Inr (1, s1)))"
  using send_all_data [of "[1, 2]" 2 "[3]" 1 "[4]" 1 "\<lparr> buffer_1 = [1, 2], length_1 = 2, buffer_2 = [3], length_2 = 1,
      buffer_3 = [4], length_3 = 1, buffer_4 = [], length_4 = 0, buffer_5 = [], length_5 = 0 \<rparr>" os0 0 5 None ml0]
  by simp

end
