(* ===== verification/Recv_Pkg.thy ===== *)
theory Recv_Pkg
  imports Ml_Init
begin

text \<open>
  The packet dispatcher (\<open>ml/ml.c\<close>: \<open>recv_pkg\<close>), which libevent calls for every datagram: it tells
  STUN answers from messages of the library, checks the header and calls the handler of the message
  type. A datagram overwrites the first bytes of a buffer on the stack, whose other bytes are
  whatever was there: \<open>stack\<close>.
\<close>

section \<open>The dispatcher\<close>

definition MAX_PKT :: nat where "MAX_PKT = 1472"

definition packet_buf :: "byte list \<Rightarrow> byte list \<Rightarrow> byte list" where
  "packet_buf stack d = d @ drop (length d) stack"

definition bad_lengths :: "msg_header \<Rightarrow> bool" where
  "bad_lengths h \<longleftrightarrow> msg_length h > 0x20000 \<or> msg_length h < offset h \<or> msg_length h = 0"

definition no_connection :: "int \<Rightarrow> 'a ml_scheme \<Rightarrow> bool" where
  "no_connection i s \<longleftrightarrow> i < 0 \<or> i \<ge> CONNECTBUFSIZE \<or> connectbuf s i = None"

definition handle_msg :: "'e os_env_scheme \<Rightarrow> msg_header \<Rightarrow> byte list \<Rightarrow> int \<Rightarrow> int \<Rightarrow> sockaddr \<Rightarrow> 'a ml_scheme
    \<Rightarrow> 'a ml_scheme res option" where
  "handle_msg env h buf pos n recv_addr s =
     (if uint (msg_type h) = ML_CON_MSG then recv_conn_msg env h buf pos n recv_addr s
      else if uint (msg_type h) = ML_NACK_MSG then recv_nack_msg env h buf pos s
      else if msg_type h < 127 then Some (recv_data_msg env h buf pos n s)
      else Some (Inr s))"

text \<open>
  \<open>d\<close> is what \<open>recvPacket\<close> returned: nothing when it failed. The header is read before the length of
  the packet is checked.
\<close>

definition recv_pkg :: "'e os_env_scheme \<Rightarrow> byte list \<Rightarrow> (byte list \<times> sockaddr) option \<Rightarrow> 'a ml_scheme
    \<Rightarrow> 'a ml_scheme res option" where
  "recv_pkg env stack d s =
     (case d of None \<Rightarrow> Some (Inr s)
      | Some (bytes, recv_addr) \<Rightarrow>
          (let buf = packet_buf stack bytes; recvSize = length bytes; h = decode_header buf in
           if take 2 buf = [1, 1] then Some (recv_stun_msg env buf recvSize s)
           else if bad_lengths h then Some (Inr s)
           else if recvSize < MSG_HEADER_SIZE then Some (Inr s)
           else
             (let pos = int MSG_HEADER_SIZE + uint (len_mon_packet_hdr h); n = int recvSize - pos in
              if n < 0 then Some (Inr s)
              else if get_Recv_pkt_inf_cb env then
                (if uint (msg_type h) \<noteq> ML_CON_MSG \<and> no_connection (hdr_con h) s then Some (Inr s)
                 else handle_msg env h buf pos n recv_addr
                        (s\<lparr> ticks := ticks s + 1,
                            trace := trace s @ [Mon_recv_pkt (drop (nat pos) buf) (int recvSize)] \<rparr>))
              else handle_msg env h buf pos n recv_addr s)))"

fun recv_pkgs :: "'e os_env_scheme \<Rightarrow> (byte list \<times> byte list \<times> sockaddr) list \<Rightarrow> 'a ml_scheme \<Rightarrow> 'a ml_scheme res option" where
  "recv_pkgs env [] s = Some (Inr s)"
| "recv_pkgs env ((d, stack, a) # ps) s = opt_bind (recv_pkg env stack (Some (d, a)) s) (recv_pkgs env ps)"

section \<open>Data packets\<close>

lemma recv_pkg_data:
  assumes "length bytes \<le> MAX_PKT" "length stack = MAX_PKT" "bytes = encode_header h @ ph @ rest"
    and "length ph = unat (len_mon_packet_hdr h)" "\<not> bad_lengths h" "msg_type h < 127" "\<not> get_Recv_pkt_inf_cb env"
  shows "recv_pkg env stack (Some (bytes, a)) s
    = Some (recv_data_msg env h (packet_buf stack bytes) (int (MSG_HEADER_SIZE + length ph)) (int (length rest)) s)"
    and "mem_read (packet_buf stack bytes) (int (MSG_HEADER_SIZE + length ph)) (int (length rest)) = Inr rest"
proof -
  let ?buf = "packet_buf stack bytes"
  have l: "length (encode_header h) = MSG_HEADER_SIZE" by (rule header.length_enc) simp
  have d: "decode_header ?buf = h"
    using header.dec_enc [of h] by (simp add: packet_buf_def assms(3))
  have small: "offset h \<le> 0x20000" using assms(5) unfolding bad_lengths_def
    by (meson linorder_not_less order_trans)
  have "take 2 ?buf = [ucast (drop_bit 24 (offset h)), ucast (drop_bit 16 (offset h))]"
    by (simp add: packet_buf_def assms(3) encode_header_def be32_def)
  moreover have "(ucast (drop_bit 24 (offset h)) :: byte) \<noteq> 1"
  proof -
    have "unat (offset h) \<le> 0x20000" using small by (simp add: word_le_nat_alt)
    then have "unat (drop_bit 24 (offset h)) = 0" by (simp only: unat_drop_bit_eq) (simp add: drop_bit_eq_div)
    then have "drop_bit 24 (offset h) = 0" by (simp add: unat_eq_zero)
    then show ?thesis by simp
  qed
  ultimately have st: "take 2 ?buf \<noteq> [1, 1]" by simp
  have u: "uint (msg_type h) \<noteq> ML_CON_MSG" "uint (msg_type h) \<noteq> ML_NACK_MSG"
    using assms(6) by (auto simp: ML_CON_MSG_def ML_NACK_MSG_def word_less_def)
  have pos: "int MSG_HEADER_SIZE + uint (len_mon_packet_hdr h) = int (MSG_HEADER_SIZE + length ph)"
    using assms(4) by simp
  have n: "int (length bytes) - int (MSG_HEADER_SIZE + length ph) = int (length rest)"
    using l by (simp add: assms(3))
  show "recv_pkg env stack (Some (bytes, a)) s
    = Some (recv_data_msg env h ?buf (int (MSG_HEADER_SIZE + length ph)) (int (length rest)) s)"
    unfolding recv_pkg_def Let_def d option.case prod.case pos n
    using st assms(5-7) u l by (simp add: handle_msg_def assms(3))
  have "drop (MSG_HEADER_SIZE + length ph) ?buf = rest @ drop (length bytes) stack"
    using l by (simp add: packet_buf_def assms(3))
  then show "mem_read ?buf (int (MSG_HEADER_SIZE + length ph)) (int (length rest)) = Inr rest"
    using l by (simp add: mem_read_def packet_buf_def assms(3))
qed

section \<open>From sender to receiver\<close>

definition wire_bytes :: "datagram \<Rightarrow> byte list" where
  "wire_bytes d = concat (fst (snd d))"

text \<open>The message that the datagrams of a job carry, seen by the receiver.\<close>

definition job_rx :: "send_job \<Rightarrow> byte list \<Rightarrow> rx_msg" where
  "job_rx job h_data =
     \<lparr> rx_con = sint (sj_remote job), rx_seq = sint (sj_seq job), rx_type = word_of_int (sj_msg_type job),
       rx_mon = h_data, rx_data = sj_msg job \<rparr>"

lemma fragment_room:
  assumes "(o', b) \<in> set (fragment r0 r off bs)" "0 < r0" "0 < r"
  shows "length b \<le> (if o' = off then r0 else r)"
  using assms
proof (induction r0 r off bs rule: fragment.induct)
  case (1 r0 r off bs)
  show ?case
  proof (cases "length bs \<le> r0 \<or> r0 = 0")
    case True
    with 1(2,3) show ?thesis by (simp add: fragment.simps)
  next
    case False
    then consider "o' = off" "b = take r0 bs" | "(o', b) \<in> set (fragment r r (off + r0) (drop r0 bs))"
      using 1(2) by (subst (asm) fragment.simps) auto
    then show ?thesis
    proof cases
      case 2
      then have ge: "off + r0 \<le> o'" using fragment_in [of o' b r r "off + r0" "drop r0 bs"] by simp
      show ?thesis
        using "1.IH" 2 \<open>\<not> (length bs \<le> r0 \<or> r0 = 0)\<close> ge 1(3,4) by (auto split: if_splits)
    qed simp
  qed
qed

lemma frag_received:
  assumes "hooks_ok env" "pmtusize c \<in> pmtu_values" "\<not> sj_truncable job" "job_ok job"
    and "0 \<le> sj_msg_type job" "sj_msg_type job < 127" "sj_msg job \<noteq> []" "length (sj_msg job) \<le> 0x20000"
    and "length h_data \<le> MON_HEADER_SPACE" "frag_rooms env job c h_data = (r0, r)"
    and "ob \<in> set (fragment r0 r 0 (sj_msg job))" "length stack = MAX_PKT" "\<not> get_Recv_pkt_inf_cb env2"
  shows "\<exists>p. carries (job_rx job h_data) p ob
    \<and> (\<forall>s. recv_pkg env2 stack (Some (wire_bytes (frag_dgram env sock job c h_data ob), a)) s
            = Some (case p of (h, buf, pos, n) \<Rightarrow> recv_data_msg env2 h buf pos n s))"
proof -
  obtain off bs where ob: "ob = (off, bs)" by fastforce
  let ?l1 = "pkt_hdr_len env job c"
  let ?ph = "take ?l1 (stack_h_pkt env)"
  let ?h = "frag_header job (word_of_nat (length h_data)) ?l1 (int off) (int (length bs))"
  let ?rest = "(if off = 0 then h_data else []) @ bs"
  let ?bytes = "encode_header ?h @ ?ph @ ?rest"
  have l1: "?l1 \<le> 32" "length ?ph = ?l1"
    using pkt_hdr_len_le [OF assms(1), of job c] assms(1) by (auto simp: hooks_ok_def MON_HEADER_SPACE_def)
  have pm: "472 \<le> nat (pmtusize c)" "nat (pmtusize c) \<le> 1472" using pmtu_bounds [OF assms(2)] by linarith+
  have hl: "length h_data \<le> 32" using assms(9) by (simp add: MON_HEADER_SPACE_def)
  have rs: "r0 = nat (pmtusize c) - length h_data - ?l1 - 23" "r = nat (pmtusize c) - ?l1 - 23"
    using assms(10) by (simp_all add: frag_rooms_def)
  have rpos: "0 < r0" "0 < r" using rs pm l1 hl by linarith+
  have frag: "off + length bs \<le> length (sj_msg job)" "bs = take (length bs) (drop off (sj_msg job))"
    using fragment_in [of off bs r0 r 0] assms(11) ob by auto
  have room: "length bs \<le> (if off = 0 then r0 else r)" using fragment_room [OF _ rpos] assms(11) ob by auto
  have w: "wire_bytes (frag_dgram env sock job c h_data ob) = ?bytes"
    by (simp add: wire_bytes_def frag_dgram_def ob Let_def)
  have hlen: "length (encode_header ?h) = 23" using header.length_enc [of ?h] by (simp add: MSG_HEADER_SIZE_def)
  have blen: "length ?bytes \<le> MAX_PKT"
    using hlen l1 room rs pm hl by (auto simp: MAX_PKT_def split: if_splits)
  have lph: "length ?ph = unat (len_mon_packet_hdr ?h)" using l1 by (simp add: frag_header_def unat_of_nat)
  have mlen: "sj_msg_len job = int (length (sj_msg job))" using assms(4) by (simp add: job_ok_def)
  have offs: "unat (offset ?h) = off" "unat (msg_length ?h) = length (sj_msg job)"
    using frag(1) assms(3,8) mlen by (simp_all add: frag_header_def unat_of_nat)
  then have lens: "\<not> bad_lengths ?h"
    using frag(1) assms(7,8) unfolding bad_lengths_def word_le_nat_alt word_less_nat_alt by (auto simp: unat_eq_zero)
  obtain k where k: "sj_msg_type job = int k" "k < 127"
    using assms(5,6) by (metis nonneg_int_cases of_nat_less_iff of_nat_numeral)
  have ty: "msg_type ?h < 127"
    using k by (simp add: frag_header_def word_less_nat_alt unat_of_nat)
  let ?buf = "packet_buf stack ?bytes" and ?pos = "int (MSG_HEADER_SIZE + length ?ph)" and ?n = "int (length ?rest)"
  note rp = recv_pkg_data [OF blen assms(12) refl lph lens ty assms(13)]
  have "hdr_off ?h = int off" "uint (msg_length ?h) = int (length (sj_msg job))"
    using offs unfolding hdr_off_def uint_nat by simp_all
  moreover have "hdr_mon ?h = int (length h_data)"
    using hl by (simp add: hdr_mon_def frag_header_def uint_nat unat_of_nat)
  moreover have "hdr_con ?h = rx_con (job_rx job h_data)" "hdr_seq ?h = rx_seq (job_rx job h_data)"
    "msg_type ?h = rx_type (job_rx job h_data)"
    by (simp_all add: hdr_con_def hdr_seq_def frag_header_def job_rx_def)
  ultimately have cr: "carries (job_rx job h_data) (?h, ?buf, ?pos, ?n) ob"
    using rp(2) frag ob by (simp add: carries_def job_rx_def)
  show ?thesis
    unfolding w by (rule exI [of _ "(?h, ?buf, ?pos, ?n)"], intro conjI allI, rule cr, unfold prod.case, rule rp(1))
qed

text \<open>A shuffled list of images is the image of a shuffled list.\<close>

lemma mset_map_shuffle:
  assumes "mset ys = mset (map f xs)" shows "\<exists>zs. mset zs = mset xs \<and> ys = map f zs"
  using assms
proof (induction ys arbitrary: xs)
  case Nil
  then show ?case by simp
next
  case (Cons y ys)
  then have "y \<in> set (map f xs)" by (metis list.set_intros(1) mset_eq_setD)
  then obtain x where x: "x \<in> set xs" "y = f x" by auto
  have m: "mset xs = add_mset x (mset (remove1 x xs))" using x(1) by simp
  have "mset (map f xs) = add_mset y (mset (map f (remove1 x xs)))"
    unfolding mset_map by (subst m) (simp only: image_mset_add_mset x(2))
  then have "mset ys = mset (map f (remove1 x xs))" using Cons.prems by simp
  from Cons.IH [OF this] obtain zs where zs: "mset zs = mset (remove1 x xs)" "ys = map f zs" by blast
  have "mset (x # zs) = mset xs" unfolding mset.simps zs(1) by (rule m [symmetric])
  moreover have "y # ys = map f (x # zs)" using x(2) zs(2) by simp
  ultimately show ?case by (intro exI [of _ "x # zs"] conjI)
qed

lemma recv_pkgs_data:
  assumes "\<forall>ob \<in> set obs. \<forall>stack a. length stack = MAX_PKT \<longrightarrow> (\<exists>p. carries m p ob
      \<and> (\<forall>s :: 'a ml_scheme. recv_pkg env stack (Some (f ob, a)) s = Some (case p of (h, buf, pos, n) \<Rightarrow> recv_data_msg env h buf pos n s)))"
    and "map fst ps = map f obs" and "\<forall>(d, stack, a) \<in> set ps. length stack = MAX_PKT"
  shows "\<exists>qs. list_all2 (carries m) qs obs \<and> (\<forall>s :: 'a ml_scheme. recv_pkgs env ps s = Some (recv_all env qs s))"
  using assms
proof (induction obs arbitrary: ps)
  case Nil
  then show ?case by simp
next
  case (Cons ob obs)
  then obtain stack a ps' where ps: "ps = (f ob, stack, a) # ps'" "map fst ps' = map f obs" "length stack = MAX_PKT"
    by (cases ps) auto
  obtain p where p: "carries m p ob"
    "\<And>s :: 'a ml_scheme. recv_pkg env stack (Some (f ob, a)) s = Some (case p of (h, buf, pos, n) \<Rightarrow> recv_data_msg env h buf pos n s)"
    using Cons.prems(1) [rule_format, OF list.set_intros(1) ps(3)] by blast
  have rest: "\<forall>ob \<in> set obs. \<forall>stack a. length stack = MAX_PKT \<longrightarrow> (\<exists>p. carries m p ob
      \<and> (\<forall>s :: 'a ml_scheme. recv_pkg env stack (Some (f ob, a)) s = Some (case p of (h, buf, pos, n) \<Rightarrow> recv_data_msg env h buf pos n s)))"
    "\<forall>(d, stack, a) \<in> set ps'. length stack = MAX_PKT"
    using Cons.prems(1,3) ps(1) by (meson list.set_intros(2), simp)
  obtain qs where qs: "list_all2 (carries m) qs obs" "\<And>s :: 'a ml_scheme. recv_pkgs env ps' s = Some (recv_all env qs s)"
    using Cons.IH [OF rest(1) ps(2) rest(2)] by blast
  obtain h buf pos n where pk: "p = (h, buf, pos, n)" by (cases p)
  have "recv_pkgs env ps s = Some (recv_all env (p # qs) s)" for s :: "'a ml_scheme"
  proof (cases "recv_data_msg env h buf pos n s")
    case (Inr s1)
    then show ?thesis using p(2) qs(2) by (simp add: ps(1) pk)
  qed (use p(2) in \<open>simp add: ps(1) pk\<close>)
  then show ?case using p(1) qs(1) by (intro exI [of _ "p # qs"]) simp
qed

text \<open>C1: From application to application: the datagrams that \<open>send_msg\<close> of a data message puts on an
  unlimited wire, handed to the receiver's \<open>recv_pkg\<close> in any order, each once, whatever the stack
  buffers hold, give one call of the receiver's callback, with the message that was sent, complete.
  The receiver knows the connection under the identifier the sender learnt in the handshake, has a
  free slot, and has registered a callback for the type.\<close>

theorem end_to_end:
  fixes t :: "'b ml_scheme"
  assumes "hooks_ok env" "conn cid s = Inr c" "pmtusize c \<in> pmtu_values" "unlimited env s" "1472 \<le> RTXmaxSize s"
    and "0 \<le> mtype" "mtype < 127" "msg \<noteq> []" "length msg \<le> 0x20000"
    and "job = make_job c cid mtype msg (int (length msg)) False" "data_header env job sp c = Inr h_data"
    and "rx_ready env2 (job_rx job h_data) f t" "rx_slot (job_rx job h_data) [] t" "\<not> get_Recv_pkt_inf_cb env2"
  shows "\<exists>s1 ds. send_msg env cid mtype msg (int (length msg)) False sp s = Some (Inr s1) \<and> wire s1 = wire s @ ds
    \<and> (\<forall>ps. mset (map fst ps) = mset (map wire_bytes ds) \<longrightarrow> (\<forall>(d, stack, a) \<in> set ps. length stack = MAX_PKT) \<longrightarrow>
        (\<exists>t1 p. recv_pkgs env2 ps t = Some (Inr t1) \<and> trace t1 = trace t @ [Recv_data f msg (word_of_int mtype) p]
          \<and> rp_connectionID p = sint (word_of_int (external_connectionID c) :: u32) \<and> nrMissingBytes p = 0
          \<and> rp_recvFragments p = int (length ds)))"
proof -
  obtain r0 r where rr: "frag_rooms env job c h_data = (r0, r)" by fastforce
  obtain s1 where s1: "send_msg env cid mtype msg (int (length msg)) False sp s = Some (Inr s1)"
    "wire s1 = wire s @ map (frag_dgram env (socketfd s) job c h_data) (fragment r0 r 0 msg)"
    using send_msg_wire [OF assms(1-5,10,11) rr] by blast
  let ?D = "frag_dgram env (socketfd s) job c h_data" and ?fs = "fragment r0 r 0 msg"
  have hl: "length h_data \<le> MON_HEADER_SPACE" using data_header_ok [OF assms(1), of job sp c] assms(11) by auto
  have j: "\<not> sj_truncable job" "job_ok job" "sj_msg_type job = mtype" "sj_msg job = msg"
    "sj_remote job = word_of_int (external_connectionID c)"
    by (simp_all add: assms(10) make_job_def job_ok_def)
  have rpos: "0 < r0" "0 < r"
    using rr pmtu_bounds [OF assms(3)] hl pkt_hdr_len_le [OF assms(1), of job c]
    by (auto simp: frag_rooms_def MON_HEADER_SPACE_def)
  have got: "\<exists>t1 p. recv_pkgs env2 ps t = Some (Inr t1) \<and> trace t1 = trace t @ [Recv_data f msg (word_of_int mtype) p]
          \<and> rp_connectionID p = sint (word_of_int (external_connectionID c) :: u32) \<and> nrMissingBytes p = 0
          \<and> rp_recvFragments p = int (length (map ?D ?fs))"
    if ps: "mset (map fst ps) = mset (map wire_bytes (map ?D ?fs))" "\<forall>(d, stack, a) \<in> set ps. length stack = MAX_PKT" for ps
  proof -
    obtain obs where obs: "mset obs = mset ?fs" "map fst ps = map (\<lambda>ob. wire_bytes (?D ob)) obs"
      using mset_map_shuffle [of "map fst ps" "\<lambda>ob. wire_bytes (?D ob)" ?fs] ps(1) by (auto simp: comp_def)
    have each: "\<forall>ob \<in> set obs. \<forall>stack a. length stack = MAX_PKT \<longrightarrow> (\<exists>p. carries (job_rx job h_data) p ob
      \<and> (\<forall>s :: 'b ml_scheme. recv_pkg env2 stack (Some (wire_bytes (?D ob), a)) s = Some (case p of (h, buf, pos, n) \<Rightarrow> recv_data_msg env2 h buf pos n s)))"
    proof (intro ballI allI impI)
      fix ob :: "nat \<times> byte list" and stack :: "byte list" and a
      assume o: "ob \<in> set obs" and st: "length stack = MAX_PKT"
      have "ob \<in> set (fragment r0 r 0 (sj_msg job))" using o mset_eq_setD [OF obs(1)] j(4) by simp
      then show "\<exists>p. carries (job_rx job h_data) p ob
        \<and> (\<forall>s :: 'b ml_scheme. recv_pkg env2 stack (Some (wire_bytes (?D ob), a)) s = Some (case p of (h, buf, pos, n) \<Rightarrow> recv_data_msg env2 h buf pos n s))"
        using frag_received [OF assms(1,3) j(1,2) _ _ _ _ hl rr _ st assms(14)] assms(6-9) j(3,4) by blast
    qed
    obtain qs where qs: "list_all2 (carries (job_rx job h_data)) qs obs"
      "\<And>s :: 'b ml_scheme. recv_pkgs env2 ps s = Some (recv_all env2 qs s)"
      using recv_pkgs_data [OF each obs(2) ps(2)] by blast
    have data: "rx_data (job_rx job h_data) = msg" "rx_type (job_rx job h_data) = word_of_int mtype"
      "rx_con (job_rx job h_data) = sint (word_of_int (external_connectionID c) :: u32)"
      by (simp_all add: job_rx_def j)
    have "length obs = length ?fs" using obs(1) by (metis size_mset)
    then show ?thesis
      using reassembly [OF qs(1) _ rpos assms(12,13)] obs(1) qs(2) [of t] unfolding data by auto
  qed
  show ?thesis using s1 got by blast
qed

section \<open>What arrives unchecked\<close>

text \<open>C29: The bound that \<open>recv_pkg\<close> checks is on the offset, not on the end of the fragment: a data packet for
  any known connection whose payload reaches beyond the length it announces for a message not
  seen before overruns the receive buffer, allocated with that length.\<close>

theorem fragment_overruns_buffer:
  assumes "length bytes \<le> MAX_PKT" "length stack = MAX_PKT" "bytes = encode_header h @ ph @ rest"
    and "length ph = unat (len_mon_packet_hdr h)" "\<not> bad_lengths h" "msg_type h < 127" "\<not> get_Recv_pkt_inf_cb env"
    and "in_table CONNECTBUFSIZE (hdr_con h)" "connectbuf s (hdr_con h) \<noteq> None" "find_rd h s = None"
    and "in_table RECVDATABUFSIZE (first_free RECVDATABUFSIZE (recvdatabuf s))"
    and "offset h \<noteq> 0" "uint (msg_length h) < uint (offset h) + int (length rest)"
  shows "recv_pkg env stack (Some (bytes, a)) s = Some (Inl OutOfBounds)"
proof -
  note rp = recv_pkg_data [OF assms(1-7)]
  let ?buf = "packet_buf stack bytes" and ?pos = "int (MSG_HEADER_SIZE + length ph)" and ?n = "int (length rest)"
  let ?s = "s\<lparr> receivedDataPktCounter := receivedDataPktCounter s + 1 \<rparr>"
  let ?i = "first_free RECVDATABUFSIZE (recvdatabuf s)"
  let ?r = "new_rd env h ?i ?s"
  have g: "get_rd env h ?s = Inr (?i, ?r)"
    using assms(10,11) by (simp add: get_rd_def find_rd_def Let_def)
  have f: "store_first h ?buf ?pos ?n ?r = Inr (?pos, ?n, ?r)" using assms(12) by (simp add: store_first_def)
  have l: "int (length (recvbuf ?r)) = uint (msg_length h) + hdr_mon h" by (simp add: new_rd_def Let_def hdr_mon_def)
  have "mem_write (recvbuf ?r) (hdr_mon h + hdr_off h) rest = Inl OutOfBounds"
    unfolding mem_write_def l hdr_off_def using assms(13) by simp
  then have d: "store_data h ?buf ?pos ?n ?r = Inl OutOfBounds" using rp(2) by (simp add: store_data_def)
  have "rd_status ?r = ACTIVE" by (simp add: new_rd_def Let_def)
  then have "recv_data_msg env h ?buf ?pos ?n s = Inl OutOfBounds"
    using assms(8,9) g f d by (simp add: recv_data_msg_def slot_def)
  with rp(1) [of a s] show ?thesis by simp
qed

text \<open>The connection identifier of a packet is an index that is not checked: unless the monitoring hook
  for packets is registered, a data packet with an identifier outside the connection table
  reads outside it.\<close>

theorem wild_connection_id:
  assumes "length bytes \<le> MAX_PKT" "length stack = MAX_PKT" "bytes = encode_header h @ ph @ rest"
    and "length ph = unat (len_mon_packet_hdr h)" "\<not> bad_lengths h" "msg_type h < 127" "\<not> get_Recv_pkt_inf_cb env"
    and "\<not> in_table CONNECTBUFSIZE (hdr_con h)"
  shows "recv_pkg env stack (Some (bytes, a)) s = Some (Inl OutOfBounds)"
  using recv_pkg_data(1) [OF assms(1-7)] assms(8) by (simp add: recv_data_msg_def slot_def)

text \<open>A datagram of less than 20 bytes changes nothing, whatever is left in the stack buffer behind it:
  it is dropped as too short for a message, as having bad lengths, or as a STUN answer without a
  complete header.\<close>

theorem short_datagram_ignored:
  assumes "length bytes < STUN_HDR_SIZE" and "length stack = MAX_PKT"
  shows "recv_pkg env stack (Some (bytes, a)) s = Some (Inr s)"
proof -
  have "recv_stun_msg env buf (length bytes) s = Inr s" for buf
    using assms(1) by (simp add: recv_stun_msg_def recv_stun_message_def stunParseMessage_def)
  then show ?thesis
    using assms(1) by (simp add: recv_pkg_def Let_def STUN_HDR_SIZE_def MSG_HEADER_SIZE_def)
qed

lemma menv_os0: "rx_ready os0 m f s = rx_ready menv0 m f s" "get_Recv_pkt_inf_cb os0 = False"
  by (simp_all add: rx_ready_def os0_def ml_env.defs menv0_def env0_def env.defs)

lemma end_to_end_witness:
  "\<exists>s1 ds. send_msg menv0 0 5 (replicate 2000 7) 2000 False params0 ml0 = Some (Inr s1) \<and> wire s1 = ds
    \<and> (\<exists>t1 p. recv_pkgs os0 (map (\<lambda>d. (wire_bytes d, replicate MAX_PKT 9, zero_sockaddr)) (rev ds)) ml0 = Some (Inr t1)
         \<and> trace t1 = [Recv_data 77 (replicate 2000 7) 5 p])"
proof -
  let ?msg = "replicate 2000 (7 :: byte)"
  let ?job = "make_job conn0 0 5 ?msg (int (length ?msg)) False"
  have h: "data_header menv0 ?job params0 conn0 = Inr []" by (simp add: data_header_def)
  let ?m = "job_rx ?job []"
  have rx: "rx_ready os0 ?m 77 ml0"
    unfolding menv_os0 by (simp add: rx_ready_def job_rx_def make_job_def conn0_def in_table_def CONNECTBUFSIZE_def MSGMULTIPLEXSIZE_def)
  have "\<exists>i. in_table RECVDATABUFSIZE i" by (rule exI [of _ 0]) (simp add: in_table_def RECVDATABUFSIZE_def)
  then have "in_table RECVDATABUFSIZE (first_free RECVDATABUFSIZE (\<lambda>_. None :: recvdata option))"
    using first_free_cases [of RECVDATABUFSIZE "\<lambda>_. None :: recvdata option"] by auto
  then have sl: "rx_slot ?m [] ml0" by (simp add: rx_slot_def first_match_None)
  have nh: "\<not> get_Recv_pkt_inf_cb os0" by (simp add: menv_os0)
  have E: "\<exists>s1 ds. send_msg menv0 0 5 ?msg (int (length ?msg)) False params0 ml0 = Some (Inr s1) \<and> wire s1 = wire ml0 @ ds
    \<and> (\<forall>ps. mset (map fst ps) = mset (map wire_bytes ds) \<longrightarrow> (\<forall>(d, stack, a) \<in> set ps. length stack = MAX_PKT) \<longrightarrow>
        (\<exists>t1 p. recv_pkgs os0 ps ml0 = Some (Inr t1) \<and> trace t1 = trace ml0 @ [Recv_data 77 ?msg (word_of_int 5) p]
          \<and> rp_connectionID p = sint (word_of_int (external_connectionID conn0) :: u32) \<and> nrMissingBytes p = 0
          \<and> rp_recvFragments p = int (length ds)))"
    by (rule end_to_end [OF menv0_hooks conn_ml0 conn0_pmtu ml0_unlimited _ _ _ _ _ refl h rx sl nh]) simp_all
  obtain s1 ds where e: "send_msg menv0 0 5 ?msg (int (length ?msg)) False params0 ml0 = Some (Inr s1)" "wire s1 = wire ml0 @ ds"
    "\<forall>ps. mset (map fst ps) = mset (map wire_bytes ds) \<longrightarrow> (\<forall>(d, stack, a) \<in> set ps. length stack = MAX_PKT) \<longrightarrow>
        (\<exists>t1 p. recv_pkgs os0 ps ml0 = Some (Inr t1) \<and> trace t1 = trace ml0 @ [Recv_data 77 ?msg (word_of_int 5) p]
          \<and> rp_connectionID p = sint (word_of_int (external_connectionID conn0) :: u32) \<and> nrMissingBytes p = 0
          \<and> rp_recvFragments p = int (length ds))"
    using E by blast
  let ?ps = "map (\<lambda>d. (wire_bytes d, replicate MAX_PKT (9 :: byte), zero_sockaddr)) (rev ds)"
  have "map fst ?ps = rev (map wire_bytes ds)" by (simp add: rev_map comp_def)
  then have a1: "mset (map fst ?ps) = mset (map wire_bytes ds)" by simp
  have a2: "\<forall>(d, stack, a) \<in> set ?ps. length stack = MAX_PKT" by auto
  from e(3) [THEN spec [of _ ?ps], THEN mp, OF a1, THEN mp, OF a2]
  obtain t1 p where "recv_pkgs os0 ?ps ml0 = Some (Inr t1)" "trace t1 = trace ml0 @ [Recv_data 77 ?msg (word_of_int 5) p]"
    by blast
  then show ?thesis using e(1,2) by auto
qed

text \<open>A data packet for the connection of \<open>ml0\<close>, or another one, for the witnesses.\<close>

definition evil :: "u32 \<Rightarrow> u32 \<Rightarrow> u32 \<Rightarrow> msg_header" where
  "evil con off len = \<lparr> offset = off, msg_length = len, local_con_id = 4, remote_con_id = con, msg_seq_num = 9,
     msg_type = 5, len_mon_data_hdr = 0, len_mon_packet_hdr = 0 \<rparr>"

lemma evil_length: "length (encode_header (evil con off len)) = 23"
  using header.length_enc [of "evil con off len"] by (simp add: MSG_HEADER_SIZE_def)

lemma fragment_overruns_buffer_witness:
  "recv_pkg os0 (replicate MAX_PKT 0) (Some (encode_header (evil 0 1 2) @ [] @ replicate 1000 0x41, zero_sockaddr)) ml0
     = Some (Inl OutOfBounds)"
proof (rule fragment_overruns_buffer [where h = "evil 0 1 2" and ph = "[]" and rest = "replicate 1000 0x41"])
  have "\<exists>i. in_table RECVDATABUFSIZE i" by (rule exI [of _ 0]) (simp add: in_table_def RECVDATABUFSIZE_def)
  then show "in_table RECVDATABUFSIZE (first_free RECVDATABUFSIZE (recvdatabuf ml0))"
    using first_free_cases [of RECVDATABUFSIZE "\<lambda>_. None :: recvdata option"] by auto
qed (simp_all add: evil_length, simp_all add: evil_def MAX_PKT_def bad_lengths_def menv_os0 hdr_con_def in_table_def
    CONNECTBUFSIZE_def find_rd_def first_match_None)

lemma wild_connection_id_witness:
  "recv_pkg os0 (replicate MAX_PKT 0) (Some (encode_header (evil 20000 0 1) @ [] @ [0x41], zero_sockaddr)) ml0
     = Some (Inl OutOfBounds)"
  by (rule wild_connection_id [where h = "evil 20000 0 1" and ph = "[]" and rest = "[0x41]"])
    (simp_all add: evil_length, simp_all add: evil_def MAX_PKT_def bad_lengths_def menv_os0 hdr_con_def in_table_def CONNECTBUFSIZE_def)

lemma short_datagram_ignored_witness:
  "recv_pkg os0 (replicate MAX_PKT 1) (Some ([1], zero_sockaddr)) ml0 = Some (Inr ml0)"
  using short_datagram_ignored [of "[1]" "replicate MAX_PKT 1" os0 zero_sockaddr ml0] by (simp add: STUN_HDR_SIZE_def)

end
