(* ===== verification/Ml_Step.thy ===== *)
theory Ml_Step
  imports Recv_Pkg
begin

text \<open>
  The messaging layer as a whole: whatever the event loop does (datagrams, timers, one-shot events)
  and whatever the application calls is a step, and the invariant \<open>conn_inv\<close> of the tables and of the
  transmit path holds in every state that steps reach.
\<close>

section \<open>Receiving keeps the invariant\<close>

lemma fill_gaps_length [simp]: "length (fill_gaps off n gs) = length gs"
  by (induction off n gs rule: fill_gaps.induct) auto

text \<open>A fragment being stored: the status is decided only at the end.\<close>

definition rd_shape :: "int \<Rightarrow> recvdata \<Rightarrow> bool" where
  "rd_shape i r \<longleftrightarrow>
     in_table RECVDATABUFSIZE i \<and> in_table CONNECTBUFSIZE (rd_connectionID r)
     \<and> in_table MSGMULTIPLEXSIZE (uint (rd_msgtype r))
     \<and> int (length (recvbuf r)) = bufsize r \<and> 0 \<le> monitoringDataHeaderLen r \<and> monitoringDataHeaderLen r \<le> bufsize r
     \<and> length (gapArray r) = RTX_MAX_GAPS \<and> gapCounter r \<le> RTX_MAX_GAPS"

lemma rd_ok_shape: "rd_ok i r \<Longrightarrow> rd_shape i r"
  by (simp add: rd_ok_def rd_shape_def)

lemma update_status_ok: "rd_shape i r \<Longrightarrow> rd_ok i (update_status r)"
  by (simp add: rd_ok_def rd_shape_def update_status_def)

lemma start_timers_ok [simp]: "rd_ok i (start_timers r s) = rd_ok i r"
  by (simp add: rd_ok_def start_timers_def)

lemma rd_shape_steps [intro]:
  "rd_shape i r \<Longrightarrow> rd_shape i (update_expected h n r)"
  "rd_shape i r \<Longrightarrow> rd_shape i (fill_gap h n r)"
  "rd_shape i r \<Longrightarrow> rd_shape i (fst (open_gap j h r))"
  by (auto simp: rd_shape_def update_expected_def fill_gap_def open_gap_def min_def)

lemma get_rd_shape:
  assumes "get_rd env h s = Inr (i, r)" "conn_inv X s" "in_table CONNECTBUFSIZE (hdr_con h)" "msg_type h < 127"
  shows "rd_shape i r"
proof (cases "find_rd h s")
  case None
  then have r: "in_table RECVDATABUFSIZE i" "r = new_rd env h i s"
    using assms(1) by (auto simp: get_rd_def Let_def split: if_splits)
  have "in_table MSGMULTIPLEXSIZE (uint (msg_type h))"
    using assms(4) by (simp add: in_table_def MSGMULTIPLEXSIZE_def word_less_def)
  then show ?thesis using r assms(3) by (simp add: rd_shape_def new_rd_def Let_def hdr_mon_def)
next
  case (Some j)
  then have "rd j s = Inr r" "i = j" using assms(1) by (auto simp: get_rd_def res_map_Inr)
  with assms(2) show ?thesis by (auto simp: rd_Inr conn_inv_def intro: rd_ok_shape)
qed

lemma store_shape:
  assumes "store_first h buf pos n r = Inr (pos1, n1, r1)" "store_data h buf pos1 n1 r1 = Inr r2" "rd_shape i r"
  shows "rd_shape i r2"
proof -
  have "rd_shape i r1"
    using assms(1,3) by (auto simp: store_first_def res_bind_Inr res_map_Inr rd_shape_def dest!: mem_write_length split: if_splits)
  then show ?thesis
    using assms(2) by (auto simp: store_data_def res_bind_Inr res_map_Inr rd_shape_def dest!: mem_write_length)
qed

lemma deliver_frame:
  assumes "deliver env h r s = Inr s'"
  shows "connectbuf s' = connectbuf s \<and> recvdatabuf s' = recvdatabuf s \<and> awake s' = awake s"
  using assms by (auto simp: deliver_def Let_def res_bind_Inr res_map_Inr split: option.splits if_splits)

lemma conn_inv_set_rd: "conn_inv X s \<Longrightarrow> rd_ok i r \<Longrightarrow> conn_inv X (set_rd i r s)"
  by (simp add: conn_inv_def set_rd_def)

lemma finish_recv_inv:
  assumes "finish_recv env h i r s = Inr s'" "conn_inv X s" "rd_ok i r" shows "conn_inv X s'"
proof (cases "recv_data_callback s")
  case True
  then obtain s1 where s1: "(if rd_status r = COMPLETE then deliver env h r s else Inr s) = Inr s1"
    "s' = set_rd i (start_timers r s1) s1"
    using assms(1) by (auto simp: finish_recv_def res_map_Inr)
  have "conn_inv X s1"
  proof (cases "rd_status r = COMPLETE")
    case True
    with s1(1) have "deliver env h r s = Inr s1" by simp
    with deliver_frame [OF this] assms(2) show ?thesis by (simp add: conn_inv_def)
  qed (use s1(1) assms(2) in simp)
  then show ?thesis unfolding s1(2) by (rule conn_inv_set_rd) (simp add: assms(3))
next
  case False
  with assms show ?thesis by (auto simp: finish_recv_def intro: conn_inv_set_rd)
qed

lemma recv_data_msg_cases:
  assumes "recv_data_msg env h buf pos n s0 = Inr s'" "conn_inv X s0" "msg_type h < 127"
  obtains (ignored) k where "s' = s0\<lparr> receivedDataPktCounter := k \<rparr>"
  | (stored) i r s1 where "finish_recv env h i r s1 = Inr s'" "rd_ok i r" "conn_inv X s1" "trace s1 = trace s0"
proof -
  obtain c where c: "slot CONNECTBUFSIZE (connectbuf s0) (hdr_con h) = Inr c"
    using assms(1) by (auto simp: recv_data_msg_def res_bind_Inr)
  then have t: "in_table CONNECTBUFSIZE (hdr_con h)" by (auto simp: slot_def split: if_splits)
  let ?s = "s0\<lparr> receivedDataPktCounter := receivedDataPktCounter s0 + 1 \<rparr>"
  have iv: "conn_inv X ?s" using assms(2) by (simp add: conn_inv_def)
  show thesis
  proof (cases "c = None")
    case True
    with c assms(1) have "s' = s0\<lparr> receivedDataPktCounter := receivedDataPktCounter s0 \<rparr>" by (simp add: recv_data_msg_def)
    then show thesis by (rule ignored)
  next
    case False
    then obtain i r where g: "get_rd env h ?s = Inr (i, r)"
      using c assms(1) by (auto simp: recv_data_msg_def res_bind_Inr Let_def)
    note shape = get_rd_shape [OF g iv t assms(3)]
    show thesis
    proof (cases "rd_status r = COMPLETE")
      case True
      then have "s' = ?s" using assms(1) c False g by (simp add: recv_data_msg_def)
      then show thesis by (rule ignored)
    next
      case nc: False
      obtain pos1 n1 r1 r2 where st: "store_first h buf pos n r = Inr (pos1, n1, r1)" "store_data h buf pos1 n1 r1 = Inr r2"
        using assms(1) c False g nc by (auto simp: recv_data_msg_def res_bind_Inr)
      obtain r3 ev where og: "open_gap i h r2 = (r3, ev)" by fastforce
      have "rd_shape i r3" using rd_shape_steps(3) [OF store_shape [OF st shape], of i h] by (simp add: og)
      then have ok: "rd_ok i (update_status (update_expected h n1 (fill_gap h n1 r3)))" by (intro update_status_ok rd_shape_steps)
      obtain k where f: "finish_recv env h i (update_status (update_expected h n1 (fill_gap h n1 r3)))
          (?s\<lparr> once := once ?s @ ev, receivedRTXDataPktCounter := k \<rparr>) = Inr s'"
        using assms(1) c False g nc st og by (simp add: recv_data_msg_def Let_def)
      show thesis by (rule stored [OF f ok]) (use iv in \<open>simp_all add: conn_inv_def\<close>)
    qed
  qed
qed

lemma recv_data_msg_inv:
  assumes "recv_data_msg env h buf pos n s0 = Inr s'" "conn_inv X s0" "msg_type h < 127" shows "conn_inv X s'"
proof (rule recv_data_msg_cases [OF assms])
  show "conn_inv X s'" if "s' = s0\<lparr> receivedDataPktCounter := k \<rparr>" for k using that assms(2) by (simp add: conn_inv_def)
  show "conn_inv X s'" if "finish_recv env h i r s1 = Inr s'" "rd_ok i r" "conn_inv X s1" for i r s1
    using finish_recv_inv [OF that(1,3,2)] .
qed

lemma recv_timeout_inv:
  assumes "recv_timeout_cb env i s = Inr s'" "conn_inv X s" shows "conn_inv X s'"
proof -
  have drop: "conn_inv X (s1\<lparr> recvdatabuf := (recvdatabuf s1)(i := None) \<rparr>)" if "conn_inv X s1" for s1 :: "'a ml_scheme"
    using that by (simp add: conn_inv_def)
  have iv: "conn_inv X (s\<lparr> ticks := k, receivedIncompleteMsgCounter := n \<rparr>)" for k n
    using assms(2) by (simp add: conn_inv_def)
  obtain x where x: "slot RECVDATABUFSIZE (recvdatabuf s) i = Inr x"
    using assms(1) by (auto simp: recv_timeout_cb_def res_bind_Inr)
  show ?thesis
  proof (cases x)
    case None
    with assms x show ?thesis by (simp add: recv_timeout_cb_def)
  next
    case (Some r)
    show ?thesis
    proof (cases "rd_status r = ACTIVE")
      case True
      with assms(1) x Some drop [OF iv] show ?thesis by (auto simp: recv_timeout_cb_def Let_def simp del: fun_upd_apply)
    next
      case False
      with assms(1) x Some drop [OF assms(2)] show ?thesis by (auto simp: recv_timeout_cb_def Let_def simp del: fun_upd_apply)
    qed
  qed
qed

lemma send_nack_sends:
  assumes "send_nack env r a b s = Some (Inr s')" shows "sends s s'"
  using assms by (auto simp: send_nack_def split: sum.splits intro: send_msg_sends)

lemma pkt_timeout_cases:
  assumes "pkt_recv_timeout_cb env i seq gap retry s = Some (Inr s')"
  obtains (nothing) "s' = s" | (nack) r a b s1 e where "send_nack env r a b s = Some (Inr s1)" "s' = s1 \<or> s' = s1\<lparr> once := e \<rparr>"
proof -
  obtain x where x: "slot RECVDATABUFSIZE (recvdatabuf s) i = Inr x"
    using assms by (auto simp: pkt_recv_timeout_cb_def split: sum.splits)
  show thesis
  proof (cases "\<exists>r. x = Some r \<and> rd_seqnr r = seq \<and> gap < length (gapArray r) \<and> fst (gapArray r ! gap) \<noteq> snd (gapArray r ! gap)")
    case False
    then have "s' = s"
      using assms x by (auto simp: pkt_recv_timeout_cb_def not_less split: option.splits if_splits prod.splits)
    then show thesis by (rule nothing)
  next
    case True
    then obtain r where r0: "x = Some r" "rd_seqnr r = seq" "gap < length (gapArray r)" "fst (gapArray r ! gap) \<noteq> snd (gapArray r ! gap)"
      by blast
    obtain a b where ab: "gapArray r ! gap = (a, b)" by fastforce
    note r = r0(1,2) ab
    have r': "\<not> length (gapArray r) \<le> gap" "a \<noteq> b" using r0 ab by simp_all
    then obtain s1 e where s1: "send_nack env r a b s = Some (Inr s1)" "s' = s1 \<or> s' = s1\<lparr> once := e \<rparr>"
      using assms x r r' by (auto simp: pkt_recv_timeout_cb_def res_map_Inr split: if_splits)
    then show thesis by (rule nack)
  qed
qed

lemma pkt_timeout_inv:
  assumes "pkt_recv_timeout_cb env i seq gap retry s = Some (Inr s')" "conn_inv X s" shows "conn_inv X s'"
proof (rule pkt_timeout_cases [OF assms(1)])
  show "conn_inv X s'" if "send_nack env r a b s = Some (Inr s1)" "s' = s1 \<or> s' = s1\<lparr> once := e \<rparr>" for r a b s1 e
    using conn_inv_sends [OF send_nack_sends [OF that(1)] assms(2)] that(2) by (auto simp: conn_inv_def)
qed (use assms(2) in simp)

lemma last_pkt_timeout_inv:
  assumes "last_pkt_recv_timeout_cb env i s = Some (Inr s')" "conn_inv X s" shows "conn_inv X s'"
proof -
  obtain x where x: "slot RECVDATABUFSIZE (recvdatabuf s) i = Inr x"
    using assms(1) by (auto simp: last_pkt_recv_timeout_cb_def split: sum.splits)
  show ?thesis
  proof (cases x)
    case None
    with assms x show ?thesis by (simp add: last_pkt_recv_timeout_cb_def)
  next
    case (Some r)
    let ?r = "r\<lparr> last_pkt_timeout_event := None \<rparr>"
    have "recvdatabuf s i = Some r" using x Some by (auto simp: slot_def split: if_splits)
    then have "rd_ok i r" using assms(2) by (simp add: conn_inv_def)
    then have "rd_ok i ?r" by (simp add: rd_ok_def)
    then have iv: "conn_inv X (set_rd i ?r s)" by (rule conn_inv_set_rd [OF assms(2)])
    show ?thesis
    proof (cases "expectedOffset r = bufsize r - monitoringDataHeaderLen r")
      case True
      with assms(1) x Some iv show ?thesis by (simp add: last_pkt_recv_timeout_cb_def)
    next
      case False
      with assms(1) x Some
      have "send_nack env r (expectedOffset r) (bufsize r - monitoringDataHeaderLen r) (set_rd i ?r s) = Some (Inr s')"
        by (simp add: last_pkt_recv_timeout_cb_def Let_def)
      from send_nack_sends [OF this] iv show ?thesis by (rule conn_inv_sends)
    qed
  qed
qed

section \<open>Connections keep the invariant\<close>

lemma conn_inv_frame [simp]:
  "conn_inv X (s\<lparr> once := e \<rparr>) = conn_inv X s" "conn_inv X (s\<lparr> trace := t \<rparr>) = conn_inv X s"
  "conn_inv X (s\<lparr> ticks := k \<rparr>) = conn_inv X s" "conn_inv X (s\<lparr> ticks := k, trace := t \<rparr>) = conn_inv X s"
  "conn_inv X (s\<lparr> local_socketID := l \<rparr>) = conn_inv X s" "conn_inv X (s\<lparr> recvcbbuf := rc \<rparr>) = conn_inv X s"
  "conn_inv X (s\<lparr> NAT_traversal := b \<rparr>) = conn_inv X s"
  by (simp_all add: conn_inv_def)

lemma setupKeepalive_conn_inv:
  assumes "setupKeepalive cid s = Inr s'" "conn_inv X s" shows "conn_inv X s'"
  using assms by (auto simp: setupKeepalive_def res_map_Inr Let_def)

lemma keepalive_fn_inv:
  assumes "keepalive_fn env peer s = Some (Inr s')" "conn_inv X s" shows "conn_inv X s'"
proof -
  let ?cid = "mlConnectionExist env peer False s"
  show ?thesis
  proof (cases "?cid < 0")
    case True
    with assms show ?thesis by (simp add: keepalive_fn_def Let_def)
  next
    case False
    then obtain c where c: "conn ?cid s = Inr c"
      using assms(1) by (auto simp: keepalive_fn_def Let_def opt_bind_Inr)
    show ?thesis
    proof (cases "keepalive (defaultSendParams c) \<le> 0")
      case True
      with assms False c show ?thesis by (simp add: keepalive_fn_def Let_def)
    next
      case pos: False
      let ?msg = "keepalive_text (keepalive_seq c)" and ?s = "set_conn ?cid (c\<lparr> keepalive_seq := keepalive_seq c + 1 \<rparr>) s"
      obtain s1 e where s1: "(if status c = READY then send_msg env ?cid MSG_TYPE_ML_KEEPALIVE ?msg (int (length ?msg)) False
            (defaultSendParams c) ?s else Some (Inr s)) = Some (Inr s1)" "s' = s1\<lparr> once := e \<rparr>"
        using assms(1) False c pos unfolding keepalive_fn_def Let_def by (simp add: opt_bind_Inr) blast
      have "conn_inv X ?s"
        using conn_inv_get [OF assms(2) c] by (intro conn_inv_set_conn [OF assms(2)]) (auto simp: ctrl_ok_def cbs_ok_def)
      then have "conn_inv X s1"
        using s1(1) assms(2) send_msg_sends conn_inv_sends by (cases "status c = READY") (auto, blast)
      then show ?thesis by (simp add: s1(2))
    qed
  qed
qed

lemma open_known_inv:
  assumes "mlOpenConnection env (Some ext) (Some f) arg params s = Some (Inr (i, s'))" "conn_inv {} s"
    and "NAT_traversal s" "mlConnectionExist env ext False s \<ge> 0"
  shows "conn_inv {} s'"
proof -
  let ?cid = "mlConnectionExist env ext False s"
  obtain c where c: "conn ?cid s = Inr c"
    using assms(1,3,4) by (auto simp: mlOpenConnection_def Let_def opt_bind_Inr)
  let ?nk = "keepalive (defaultSendParams c) = 0 \<and> keepalive params \<noteq> 0"
  let ?s1 = "set_conn ?cid (c\<lparr> defaultSendParams := params \<rparr>) s"
  obtain s2 where s2: "(if ?nk then setupKeepalive ?cid ?s1 else Inr ?s1) = Inr s2"
    and r: "(if status c = READY then Some (Inr (?cid, s2\<lparr> trace := trace s2 @ [Connection_cb f ?cid arg] \<rparr>))
      else Some (res_map (\<lambda>s3. (?cid, s3)) (upd_conn ?cid (\<lambda>c. c\<lparr> connection_cbs := connection_cbs c @ [(f, arg)] \<rparr>) s2)))
      = Some (Inr (i, s'))"
    using assms(1,3,4) c by (auto simp: mlOpenConnection_def Let_def opt_bind_Inr)
  note cc = conn_inv_get [OF assms(2) c]
  have "conn_inv {} ?s1" using cc by (intro conn_inv_set_conn [OF assms(2)]) (auto simp: ctrl_ok_def cbs_ok_def)
  then have iv: "conn_inv {} s2" using s2 setupKeepalive_conn_inv [of ?cid ?s1 s2] by (simp split: if_splits)
  have cb: "connectbuf s2 = connectbuf ?s1" using s2 setupKeepalive_inv [of ?cid ?s1 s2] by (simp split: if_splits)
  show ?thesis
  proof (cases "status c = READY")
    case True
    with r iv show ?thesis by auto
  next
    case False
    then obtain c2 where c2: "conn ?cid s2 = Inr c2" "s' = set_conn ?cid (c2\<lparr> connection_cbs := connection_cbs c2 @ [(f, arg)] \<rparr>) s2"
      using r by (auto simp: upd_conn_def res_map_Inr)
    then have "c2 = c\<lparr> defaultSendParams := params \<rparr>" using cb by (simp add: conn_Inr set_conn_def)
    then show ?thesis unfolding c2(2) using conn_inv_get [OF iv c2(1)] False
      by (intro conn_inv_set_conn [OF iv]) (auto simp: ctrl_ok_def cbs_ok_def)
  qed
qed

lemma open_new_sends:
  assumes "mlOpenConnection env (Some ext) (Some f) arg params s = Some (Inr (i, s'))"
    and "NAT_traversal s" "\<not> mlConnectionExist env ext False s \<ge> 0" "first_free CONNECTBUFSIZE (connectbuf s) \<noteq> -1"
    and "j = first_free CONNECTBUFSIZE (connectbuf s)"
    and "s1 = set_conn j ((new_conn env ext s)\<lparr> pmtusize := 1372,
      internal_connect := internal_connect_plausible ext (local_socketID s), connectionID := j,
      connection_cbs := [(f, arg)], external_connectionID := -1, defaultSendParams := params \<rparr>) s"
  obtains s2 n where "(if keepalive params \<noteq> 0 then setupKeepalive j s1 else Inr s1) = Inr s2"
    "send_conn_msg_with_pmtu_discovery env j n INVITE s2 = Some (Inr s')"
proof -
  let ?go = "if keepalive params \<noteq> 0 then setupKeepalive j s1 else Inr s1"
  have "opt_bind (Some ?go) (\<lambda>s2. opt_bind (Some (conn j s2))
      (\<lambda>c. opt_bind (send_conn_msg_with_pmtu_discovery env j (pmtusize c) INVITE s2) (\<lambda>s3. Some (Inr (j, s3)))))
      = Some (Inr (i, s'))"
    using assms(1-4) unfolding assms(5,6) by (simp add: mlOpenConnection_def Let_def)
  then obtain s2 where go: "Some ?go = Some (Inr s2)"
    and op: "opt_bind (Some (conn j s2)) (\<lambda>c. opt_bind (send_conn_msg_with_pmtu_discovery env j (pmtusize c) INVITE s2)
      (\<lambda>s3. Some (Inr (j, s3)))) = Some (Inr (i, s'))"
    by (rule opt_bind_InrE)
  have s2: "?go = Inr s2" using go by (rule option.inject [THEN iffD1])
  obtain c :: connect_data where p: "send_conn_msg_with_pmtu_discovery env j (pmtusize c) INVITE s2 = Some (Inr s')"
    using op by (auto simp: opt_bind_Inr)
  show thesis by (rule that [OF s2 p])
qed

lemma open_new_inv:
  assumes "mlOpenConnection env (Some ext) (Some f) arg params s = Some (Inr (i, s'))" "conn_inv {} s"
    and "NAT_traversal s" "\<not> mlConnectionExist env ext False s \<ge> 0" "first_free CONNECTBUFSIZE (connectbuf s) \<noteq> -1"
  shows "conn_inv {} s'"
proof -
  define j where "j = first_free CONNECTBUFSIZE (connectbuf s)"
  define c where "c = (new_conn env ext s)\<lparr> pmtusize := 1372,
      internal_connect := internal_connect_plausible ext (local_socketID s), connectionID := j,
      connection_cbs := [(f, arg)], external_connectionID := -1, defaultSendParams := params \<rparr>"
  obtain s2 n where s2: "(if keepalive params \<noteq> 0 then setupKeepalive j (set_conn j c s) else Inr (set_conn j c s)) = Inr s2"
    and p: "send_conn_msg_with_pmtu_discovery env j n INVITE s2 = Some (Inr s')"
    by (rule open_new_sends [OF assms(1,3-5) j_def, folded c_def, OF refl])
  have t: "in_table CONNECTBUFSIZE j" using first_free_cases [of CONNECTBUFSIZE "connectbuf s"] assms(5) by (auto simp: j_def)
  have "ctrl_ok c" "cbs_ok c" by (simp_all add: ctrl_ok_def cbs_ok_def new_conn_def c_def)
  then have "conn_inv {} (set_conn j c s)" by (intro conn_inv_set_conn [OF assms(2) t]) auto
  then have "conn_inv {} s2" using s2 setupKeepalive_conn_inv [of j "set_conn j c s" s2] by (simp split: if_splits)
  then show ?thesis by (rule send_pmtu_inv [OF p])
qed

lemma mlOpenConnection_inv:
  assumes "mlOpenConnection env sid cb arg params s = Some (Inr (i, s'))" "conn_inv {} s" shows "conn_inv {} s'"
proof (cases "sid = None \<or> cb = None \<or> \<not> NAT_traversal s")
  case True
  with assms show ?thesis by (auto simp: mlOpenConnection_def split: option.splits)
next
  case False
  then obtain ext f where p: "sid = Some ext" "cb = Some f" "NAT_traversal s" by auto
  note op = assms(1) [unfolded p(1,2)]
  consider "mlConnectionExist env ext False s \<ge> 0"
    | "\<not> mlConnectionExist env ext False s \<ge> 0" "first_free CONNECTBUFSIZE (connectbuf s) \<noteq> -1"
    | "\<not> mlConnectionExist env ext False s \<ge> 0" "first_free CONNECTBUFSIZE (connectbuf s) = -1" by blast
  then show ?thesis
  proof cases
    case 1
    show ?thesis by (rule open_known_inv [OF op assms(2) p(3) 1])
  next
    case 2
    show ?thesis by (rule open_new_inv [OF op assms(2) p(3) 2])
  next
    case 3
    with op p(3) assms(2) show ?thesis by (simp add: mlOpenConnection_def Let_def)
  qed
qed

section \<open>The other handlers\<close>

lemma send_first_more:
  fixes s s' :: "'a rate_scheme"
  assumes "send_first env s = Some (Inr s')" shows "rate.more s' = rate.more s"
proof -
  obtain p s1 where p: "takePacketToSend s = Inr (p, s1)"
    using assms by (auto simp: send_first_def split: sum.splits)
  then have tk: "rate.more s1 = rate.more s"
    by (auto simp: takePacketToSend_def deref_def set_next_def Let_def split: option.splits if_splits)
  show ?thesis
  proof (cases p)
    case None
    with assms p tk show ?thesis by (auto simp: send_first_def)
  next
    case (Some a)
    then obtain k where k: "deref s1 (Some a) = Inr k" using assms p by (auto simp: send_first_def split: sum.splits)
    let ?s3 = "s1\<lparr> ticks := ticks s1 + 1, bib_then := clock env (ticks s1) \<rparr>"
    obtain r v1 s4 where sp: "sendPacket env (udpSocket k) (iov k) (socketaddr k) ?s3 = (r, v1, s4)" using prod_cases3 by blast
    let ?s5 = "s4\<lparr> heap := (heap s4)(a \<mapsto> k\<lparr> iov := v1 \<rparr>) \<rparr>"
    have "(if priority k AND NO_RTX = 0 then add_rtx env a ?s5 else Some (destroyPacketContainer (Some a) ?s5)) = Some (Inr s')"
      using assms p Some k sp by (simp add: send_first_def gettimeofday_def Let_def)
    then have "rate.more s' = rate.more ?s5" by (cases "priority k AND NO_RTX = 0") (auto dest: add_rtx_more destroy_more)
    with sendPacket_more [OF sp] tk show ?thesis by simp
  qed
qed

lemma free_space_loop_more:
  fixes s :: "'a rate_scheme"
  assumes "free_space_loop env s = Some r" shows "\<forall>s'. r = Inr s' \<longrightarrow> rate.more s' = rate.more s"
proof (rule free_space_loop.raw_induct [where P = "\<lambda>env s r. \<forall>s'. r = Inr s' \<longrightarrow> rate.more s' = rate.more s", OF _ assms], goal_cases)
  case (1 f env s r)
  then show ?case
    by (auto dest!: outputRateControl_more send_first_more split: sum.splits prod.splits option.splits if_splits)
qed

lemma fire_free_space_more:
  fixes s s' :: "'a rate_scheme"
  assumes "fire_free_space env s = Some (Inr s')" shows "rate.more s' = rate.more s"
proof -
  let ?s = "s\<lparr> planned := tl (planned s) \<rparr>"
  obtain s1 where s1: "free_space_loop env ?s = Some (Inr s1)"
    using assms by (auto simp: fire_free_space_def freeSpaceInBucket_cb_def split: option.splits sum.splits)
  have "(if \<not> isQueueEmpty s1 then Some (res_bind (getFirstPacketSize s1) (\<lambda>n. planFreeSpaceInBucketEvent n s1))
      else Some (Inr s1)) = Some (Inr s')"
    using assms s1 by (simp add: fire_free_space_def freeSpaceInBucket_cb_def)
  then have "s' = s1 \<or> (\<exists>n. planFreeSpaceInBucketEvent n s1 = Inr s')" by (auto simp: res_bind_Inr split: if_splits)
  then have "rate.more s' = rate.more s1" using plan_more by blast
  moreover have "rate.more s1 = rate.more s" using free_space_loop_more [OF s1] by simp
  ultimately show ?thesis by simp
qed

lemma fire_free_space_sends:
  fixes s s' :: "'a ml_scheme"
  assumes "fire_free_space env s = Some (Inr s')" shows "sends s s'"
  by (rule sends_more [OF fire_free_space_more [OF assms] fire_free_space_awake(2) [OF assms refl]])

lemma resend_keeps:
  fixes s s' :: "'a rate_scheme"
  assumes "resend env a s = Inr (n, s')"
  shows "rate.more s' = rate.more s \<and> tx_head s' = tx_head s \<and> planned s' = planned s"
proof -
  obtain k where k: "deref s (Some a) = Inr k" using assms by (auto simp: resend_def res_bind_Inr)
  obtain r v1 s1 where sp: "sendPacket env (udpSocket k) (iov k) (socketaddr k) s = (r, v1, s1)" using prod_cases3 by blast
  have "s' = s1\<lparr> heap := (heap s1)(a \<mapsto> k\<lparr> iov := v1 \<rparr>), sentRTXDataPktCounter := sentRTXDataPktCounter s1 + 1 \<rparr>"
    using assms k sp by (simp add: resend_def)
  with sendPacket_more [OF sp] sendPacket_frame(1,2) [OF sp] show ?thesis by simp
qed

lemma search_keeps:
  "searchPacketInRTX con seq off True s = Some (Inr (p, s')) \<Longrightarrow> s' = s"
  by (auto simp: searchPacketInRTX_def split: option.splits sum.splits prod.splits)

lemma rtxPackets_keeps:
  fixes s :: "'a rate_scheme"
  assumes "rtxPacketsFromTo env con seq off fin s = Some r"
  shows "\<forall>x s'. r = Inr (x, s') \<longrightarrow> rate.more s' = rate.more s \<and> tx_head s' = tx_head s \<and> planned s' = planned s"
proof (rule rtxPacketsFromTo.raw_induct [where P = "\<lambda>env con seq off fin s r. \<forall>x s'. r = Inr (x, s')
    \<longrightarrow> rate.more s' = rate.more s \<and> tx_head s' = tx_head s \<and> planned s' = planned s", OF _ assms], goal_cases)
  case (1 f env con seq off fin s r)
  then show ?case
    by (auto dest!: search_keeps resend_keeps split: option.splits sum.splits prod.splits if_splits)
qed

lemma recv_nack_sends:
  fixes s s' :: "'a ml_scheme"
  assumes "recv_nack_msg env h buf pos s = Some (Inr s')" shows "sends s s'"
proof -
  obtain con seq off fin x where "rtxPacketsFromTo env con seq off fin s = Some (Inr (x, s'))"
    using assms by (auto simp: recv_nack_msg_def Let_def res_map_Inr split: sum.splits)
  from rtxPackets_keeps [OF this] show ?thesis by (intro sends_more) (auto simp: awake_def isQueueEmpty_def)
qed

lemma handle_msg_inv:
  assumes "handle_msg env h buf pos n a s = Some (Inr s')" "conn_inv {} s" shows "conn_inv {} s'"
  using assms
  by (auto simp: handle_msg_def dest: recv_conn_msg_inv recv_data_msg_inv
      intro: conn_inv_sends [OF recv_nack_sends] split: if_splits)

lemma sendPacketFinal_tables:
  fixes s :: "'a ml_scheme"
  assumes "sendPacketFinal env sock v a s = (r, s')" shows "conn_inv X s' = conn_inv X s \<and> trace s' = trace s"
  using assms by (auto simp: sendPacketFinal_def conn_inv_def awake_def isQueueEmpty_def split: option.splits errno.splits)

lemma conn_inv_stun_frame [simp]:
  "conn_inv X (s\<lparr> stun_server := a \<rparr>) = conn_inv X s" "conn_inv X (s\<lparr> socketfd := fd \<rparr>) = conn_inv X s"
  "conn_inv X (s\<lparr> receive_SocketID_cb := cb1 \<rparr>) = conn_inv X s" "conn_inv X (s\<lparr> receive_Connection_cb := cb2 \<rparr>) = conn_inv X s"
  "conn_inv X (s\<lparr> failed_Connection_cb := cb3 \<rparr>) = conn_inv X s" "conn_inv X (s\<lparr> recv_data_callback := b \<rparr>) = conn_inv X s"
  "conn_inv X (s\<lparr> recv_timeout := t1, last_pkt_recv_timeout := t2 \<rparr>) = conn_inv X s"
  "conn_inv X (report_socketID st s) = conn_inv X s"
  by (simp_all add: conn_inv_def awake_def isQueueEmpty_def report_socketID_def split: option.splits)

lemma try_stun_inv:
  assumes "try_stun env s = Inr s'" "conn_inv X s" shows "conn_inv X s'"
proof (cases "isStunDefined s")
  case False
  then have "s' = report_socketID 0 (s\<lparr> local_socketID := (local_socketID s)\<lparr> external_addr := internal_addr (local_socketID s) \<rparr>,
              NAT_traversal := True \<rparr>)"
    using assms(1) by (simp add: try_stun_def)
  moreover have "conn_inv X (s\<lparr> local_socketID := l, NAT_traversal := b \<rparr>)" for l b using assms(2) by (simp add: conn_inv_def)
  ultimately show ?thesis by simp
next
  case True
  then obtain s1 where s1: "send_stun_request env (socketfd s) (stun_server s) s = Inr s1"
    "s' = s1\<lparr> once := once s1 @ [(Nat_timeout, \<lparr> tv_sec = 1, tv_usec = 0 \<rparr>)], NAT_traversal := False \<rparr>"
    using assms(1) by (auto simp: try_stun_def res_map_Inr)
  obtain v where v: "s1 = snd (sendPacketFinal env (socketfd s) v (stun_server s) (s\<lparr> ticks := ticks s + 4 \<rparr>))"
    using s1(1) by (auto simp: send_stun_request_def Let_def res_map_Inr)
  have "sendPacketFinal env (socketfd s) v (stun_server s) (s\<lparr> ticks := ticks s + 4 \<rparr>)
      = (fst (sendPacketFinal env (socketfd s) v (stun_server s) (s\<lparr> ticks := ticks s + 4 \<rparr>)), s1)"
    by (simp add: v)
  from sendPacketFinal_tables [OF this, of X] have "conn_inv X s1" using assms(2) by simp
  then show ?thesis by (simp add: s1(2) conn_inv_def)
qed

lemma mlInit_inv:
  assumes "mlInit env poll t port ip sport host cb s = Inr (fd, s')" "conn_inv X s" shows "conn_inv X s'"
proof -
  let ?s1 = "mlSetRecvTimeout t (s\<lparr> recv_data_callback := poll \<rparr>)"
  have s1: "conn_inv X ?s1" using assms(2) by (simp add: mlSetRecvTimeout_def Let_def)
  have unset: "conn_inv X (unsetStunServer env v) = conn_inv X v" for v by (simp add: unsetStunServer_def)
  have reg: "conn_inv X (register_recv_localsocketID_cb cb v) = conn_inv X v" for v
    by (simp add: register_recv_localsocketID_cb_def split: option.splits)
  have u: "\<exists>u. conn_inv X u \<and> create_socket env port ip u = Inr (fd, s')"
  proof (cases host)
    case None
    with assms(1) s1 show ?thesis
      by (intro exI [of _ "register_recv_localsocketID_cb cb (unsetStunServer env ?s1)"]) (simp add: mlInit_def unset reg)
  next
    case (Some h)
    obtain r v where v: "mlSetStunServer env sport h ?s1 = (r, v)" by fastforce
    then have "conn_inv X v" using s1 by (auto simp: mlSetStunServer_def split: prod.splits)
    with assms(1) Some v show ?thesis
      by (intro exI [of _ "register_recv_localsocketID_cb cb (if r = 0 then unsetStunServer env v else v)"])
        (simp add: mlInit_def unset reg)
  qed
  then obtain u where u: "conn_inv X u" "create_socket env port ip u = Inr (fd, s')" by blast
  have "conn_inv X (u\<lparr> local_socketID := l, socketfd := k \<rparr>)" for l k using u(1) by (simp add: conn_inv_def)
  with u(2) show ?thesis
    by (auto simp: create_socket_def Let_def res_map_Inr intro: try_stun_inv split: if_splits)
qed

lemma recv_stun_msg_inv:
  assumes "recv_stun_msg env buf n s = Inr s'" "conn_inv X s" shows "conn_inv X s'"
proof -
  have "conn_inv X (s\<lparr> local_socketID := l, NAT_traversal := b \<rparr>)" for l b using assms(2) by (simp add: conn_inv_def)
  with assms show ?thesis by (auto simp: recv_stun_msg_def res_bind_Inr Let_def split: if_splits)
qed

lemma recv_pkg_inv:
  assumes "recv_pkg env stack d s = Some (Inr s')" "conn_inv {} s" shows "conn_inv {} s'"
proof (cases d)
  case None
  with assms show ?thesis by (simp add: recv_pkg_def)
next
  case (Some da)
  obtain bytes a where da: "da = (bytes, a)" by fastforce
  let ?buf = "packet_buf stack bytes"
  let ?h = "decode_header ?buf" and ?n = "int (length bytes)"
  let ?pos = "int MSG_HEADER_SIZE + uint (len_mon_packet_hdr ?h)"
  let ?s = "s\<lparr> ticks := ticks s + 1, trace := trace s @ [Mon_recv_pkt (drop (nat ?pos) ?buf) ?n] \<rparr>"
  have "s' = s \<or> recv_stun_msg env ?buf (length bytes) s = Inr s'
      \<or> handle_msg env ?h ?buf ?pos (?n - ?pos) a s = Some (Inr s') \<or> handle_msg env ?h ?buf ?pos (?n - ?pos) a ?s = Some (Inr s')"
    using assms(1) unfolding recv_pkg_def Some da option.case prod.case Let_def by (simp only: split: if_splits) auto
  moreover have "conn_inv {} ?s" using assms(2) by simp
  ultimately show ?thesis using assms(2) recv_stun_msg_inv handle_msg_inv by blast
qed

lemma mlSendAllData_inv:
  assumes "mlSendAllData env cid c nr ty sp s = Some (Inr (r, s'))" "conn_inv X s" shows "conn_inv X s'"
proof -
  have "s' = s \<or> (\<exists>b n. mlSendData env cid b n ty sp s = Some (Inr s'))"
    using assms(1) by (auto simp: mlSendAllData_def opt_bind_Inr split: if_splits)
  with assms(2) mlSendData_sends conn_inv_sends show ?thesis by blast
qed

section \<open>Steps\<close>

text \<open>
  What may happen: a datagram arrives (with what the stack holds), a timer that is set goes off, the
  event loop fires a one-shot event (\<open>Once k\<close>: the \<open>k\<close>-th pending one) or a planned free-space event,
  or the application calls the library.
\<close>

datatype ml_event =
    Packet "byte list" "(byte list \<times> sockaddr) option"
  | Pmtu_timer int
  | Recv_timer int
  | Last_pkt_timer int
  | Once nat
  | Free_space
  | Open "socket_ID option" "nat option" nat send_params
  | Close int
  | Send int "byte list" int byte "send_params option"
  | Send_all int send_all_data_container int byte "send_params option"
  | Register_data "nat option" byte
  | Register_connection "nat option"
  | Register_error "nat option"
  | Register_socketID "nat option"
  | Set_timeout timeval
  | Set_stun int string
  | Set_rate int int int int timeval
  | Init bool timeval int "string option" int "string option" "nat option"

fun pending :: "ml_event \<Rightarrow> 'a ml_scheme \<Rightarrow> bool" where
  "pending (Pmtu_timer i) s = (case connectbuf s i of None \<Rightarrow> False | Some c \<Rightarrow> timeout_event c \<noteq> None)"
| "pending (Recv_timer i) s = (case recvdatabuf s i of None \<Rightarrow> False | Some r \<Rightarrow> rd_timeout_event r \<noteq> None)"
| "pending (Last_pkt_timer i) s = (case recvdatabuf s i of None \<Rightarrow> False | Some r \<Rightarrow> last_pkt_timeout_event r \<noteq> None)"
| "pending (Once k) s = (k < length (once s))"
| "pending Free_space s = (planned s \<noteq> [])"
| "pending _ s = True"

fun fire_once :: "'e os_env_scheme \<Rightarrow> once_event \<Rightarrow> 'a ml_scheme \<Rightarrow> 'a ml_scheme res option" where
  "fire_once env (Pkt_recv_timeout i seq gap retry) s = pkt_recv_timeout_cb env i seq gap retry s"
| "fire_once env (Keepalive_fn peer) s = keepalive_fn env peer s"
| "fire_once env Nat_timeout s = Some (nat_traversal_timeout env s)"

fun ml_exec :: "'e os_env_scheme \<Rightarrow> ml_event \<Rightarrow> 'a ml_scheme \<Rightarrow> 'a ml_scheme res option" where
  "ml_exec env (Packet stack d) s = recv_pkg env stack d s"
| "ml_exec env (Pmtu_timer i) s = pmtu_timeout_cb env i s"
| "ml_exec env (Recv_timer i) s = Some (recv_timeout_cb env i s)"
| "ml_exec env (Last_pkt_timer i) s = last_pkt_recv_timeout_cb env i s"
| "ml_exec env (Once k) s = fire_once env (fst (once s ! k)) (s\<lparr> once := take k (once s) @ drop (Suc k) (once s) \<rparr>)"
| "ml_exec env Free_space s = fire_free_space env s"
| "ml_exec env (Open sid cb arg params) s = map_option (res_map snd) (mlOpenConnection env sid cb arg params s)"
| "ml_exec env (Close i) s = Some (mlCloseConnection i s)"
| "ml_exec env (Send i buf n ty sp) s = mlSendData env i buf n ty sp s"
| "ml_exec env (Send_all i c nr ty sp) s = map_option (res_map snd) (mlSendAllData env i c nr ty sp s)"
| "ml_exec env (Register_data cb ty) s = Some (mlRegisterRecvDataCb cb ty s)"
| "ml_exec env (Register_connection cb) s = Some (Inr (mlRegisterRecvConnectionCb cb s))"
| "ml_exec env (Register_error cb) s = Some (Inr (mlRegisterErrorConnectionCb cb s))"
| "ml_exec env (Register_socketID cb) s = Some (Inr (register_recv_localsocketID_cb cb s))"
| "ml_exec env (Set_timeout t) s = Some (Inr (mlSetRecvTimeout t s))"
| "ml_exec env (Set_stun port host) s = Some (Inr (snd (mlSetStunServer env port host s)))"
| "ml_exec env (Set_rate b d q1 q2 h) s = Some (Inr (mlSetRateLimiterParams env b d q1 q2 h s))"
| "ml_exec env (Init poll t port ip sport host cb) s = Some (res_map snd (mlInit env poll t port ip sport host cb s))"

inductive ml_step :: "'e os_env_scheme \<Rightarrow> 'a ml_scheme \<Rightarrow> 'a ml_scheme \<Rightarrow> bool" for env where
  happens: "pending ev s \<Longrightarrow> ml_exec env ev s = Some (Inr s') \<Longrightarrow> ml_step env s s'"

inductive_cases ml_stepE: "ml_step env s s'"

lemma fire_once_inv:
  assumes "fire_once env e s = Some (Inr s')" "conn_inv {} s" shows "conn_inv {} s'"
proof (cases e)
  case (Pkt_recv_timeout i seq gap retry)
  with assms pkt_timeout_inv show ?thesis by auto
next
  case (Keepalive_fn peer)
  with assms keepalive_fn_inv show ?thesis by auto
next
  case Nat_timeout
  with assms show ?thesis by (auto simp: nat_traversal_timeout_def split: if_splits intro: try_stun_inv)
qed

lemma set_rate_inv:
  assumes "conn_inv X s" shows "conn_inv X (mlSetRateLimiterParams env b d q1 q2 h s)"
proof -
  let ?t = "setOutputRateParams env b d s"
  obtain r s1 where o: "outputRateControl env 0 (s\<lparr> bucket_size := b \<rparr>) = (r, s1)" by fastforce
  have "rate.more ?t = rate.more s" using outputRateControl_more [OF o] by (simp add: setOutputRateParams_def o)
  then have "sends s ?t" by (rule sends_more) (rule setOutputRateParams_awake)
  then have "conn_inv X ?t" by (rule conn_inv_sends [OF _ assms])
  then show ?thesis
    by (simp add: mlSetRateLimiterParams_def setQueuesParams_def conn_inv_def awake_def isQueueEmpty_def)
qed

lemma ml_exec_inv:
  assumes "ml_exec env ev s = Some (Inr s')" "conn_inv {} s" shows "conn_inv {} s'"
proof (cases ev)
  case (Once k)
  have "conn_inv {} (s\<lparr> once := take k (once s) @ drop (Suc k) (once s) \<rparr>)" using assms(2) by simp
  with assms(1) Once show ?thesis by (auto intro: fire_once_inv)
next
  case (Open sid cb arg params)
  with assms obtain i where "mlOpenConnection env sid cb arg params s = Some (Inr (i, s'))" by (auto simp: res_map_Inr)
  then show ?thesis by (rule mlOpenConnection_inv [OF _ assms(2)])
next
  case (Send_all i c nr ty sp)
  with assms obtain r where "mlSendAllData env i c nr ty sp s = Some (Inr (r, s'))" by (auto simp: res_map_Inr)
  then show ?thesis by (rule mlSendAllData_inv [OF _ assms(2)])
next
  case Free_space
  with assms show ?thesis by (auto intro: conn_inv_sends [OF fire_free_space_sends])
next
  case (Send i buf n ty sp)
  with assms show ?thesis by (auto intro: conn_inv_sends [OF mlSendData_sends])
next
  case (Set_rate b d q1 q2 h)
  with assms show ?thesis by (auto intro: set_rate_inv)
next
  case (Init poll t port ip sport host cb)
  with assms obtain fd where "mlInit env poll t port ip sport host cb s = Inr (fd, s')" by (auto simp: res_map_Inr)
  then show ?thesis by (rule mlInit_inv [OF _ assms(2)])
qed (use assms in \<open>auto simp: mlRegisterRecvDataCb_def mlRegisterRecvConnectionCb_def mlRegisterErrorConnectionCb_def
    register_recv_localsocketID_cb_def mlSetRecvTimeout_def mlSetStunServer_def Let_def res_map_Inr
    intro: recv_pkg_inv pmtu_timeout_cb_inv recv_timeout_inv last_pkt_timeout_inv mlCloseConnection_inv
    split: option.splits prod.splits\<close>)

end
