(* ===== verification/Handshake.thy ===== *)
theory Handshake
  imports Recv_Pkg
begin

text \<open>
  Two hosts establish a connection: the INVITE that \<open>mlOpenConnection\<close> sends, the CONNECT it is answered
  with and the READY that closes the handshake, from the application's call on one host to the
  callbacks on both (\<open>ml/ml.c\<close>: \<open>mlOpenConnection\<close>, \<open>send_conn_msg\<close>, \<open>recv_pkg\<close>, \<open>recv_conn_msg\<close>).
\<close>

section \<open>A connection message on the wire\<close>

text \<open>A truncable message is its first fragment.\<close>

lemma send_msg_trunc_wire:
  assumes "hooks_ok env" "conn cid s = Inr c" "pmtusize c \<in> pmtu_values" "unlimited env s" "1472 \<le> RTXmaxSize s"
    and "job = make_job c cid mtype msg (int (length msg)) True" "data_header env job sp c = Inr h_data"
    and "frag_rooms env job c h_data = (r0, r)"
  shows "\<exists>s1. send_msg env cid mtype msg (int (length msg)) True sp s = Some (Inr s1)
    \<and> wire s1 = wire s @ [frag_dgram env (socketfd s) job c h_data (0, take r0 msg)]
    \<and> connectbuf s1 = (connectbuf s)(cid \<mapsto> c\<lparr> seqnr := seqnr c + 1 \<rparr>) \<and> unlimited env s1 \<and> RTXmaxSize s1 = RTXmaxSize s"
proof -
  let ?c = "c\<lparr> seqnr := seqnr c + 1 \<rparr>" and ?s = "set_conn cid (c\<lparr> seqnr := seqnr c + 1 \<rparr>) s"
  have j: "sj_con_id job = cid" "sj_msg job = msg" "sj_truncable job" "job_ok job"
    by (simp_all add: assms(6) make_job_def job_ok_def)
  have c1: "conn (sj_con_id job) ?s = Inr ?c" using conn_set_conn [OF assms(2)] j by simp
  have hl: "length h_data \<le> MON_HEADER_SPACE" using data_header_ok [OF assms(1), of job sp c] assms(7) by auto
  have u: "unlimited env ?s" "1472 \<le> RTXmaxSize ?s" "socketfd ?s = socketfd s" "wire ?s = wire s" "RTXmaxSize ?s = RTXmaxSize s"
    using assms(4,5) by (simp_all add: set_conn_ready, simp_all add: set_conn_def)
  have pm: "pmtusize ?c \<in> pmtu_values" using assms(3) by simp
  have r0: "nat (pmtusize ?c) - length h_data - pkt_hdr_len env job ?c - 23 = r0"
    using assms(8) by (simp add: frag_rooms_def)
  have z: "(0 :: nat) \<le> length (sj_msg job)" by simp
  obtain s1 where s1: "send_frag env job (word_of_nat (length h_data)) h_data (int 0) ?s = Some (Inr (Sent (int (0 + length (take r0 msg))), s1))"
    "wire s1 = wire ?s @ [(socketfd ?s, [encode_header (frag_header job (word_of_nat (length h_data)) (pkt_hdr_len env job ?c) (int 0)
          (int (length (take r0 msg)))), take (pkt_hdr_len env job ?c) (stack_h_pkt env), h_data, take r0 msg], sj_addr job)]"
    "unlimited env s1" "connectbuf s1 = connectbuf ?s" "RTXmaxSize s1 = RTXmaxSize ?s"
    using send_frag_unlimited [OF assms(1) j(4) u(1,2) job_priority_low c1 pm hl z, where ld = "word_of_nat (length h_data)"]
    unfolding r0 j(2) drop_0 by blast
  have fr: "send_frags env job (word_of_nat (length h_data)) h_data 0 ?s = Some (Inr (False, s1))"
    using s1(1) j(3) by (subst send_frags.simps) simp
  have "send_msg env cid mtype msg (int (length msg)) True sp s = send_loop env job sp ?s"
    using assms(2,6) by (simp add: send_msg_def)
  also have "\<dots> = Some (Inr s1)"
    using c1 assms(7) fr by (subst send_loop.simps) simp
  finally show ?thesis
    using s1(2-5) u(3-5) by (simp add: frag_dgram_def set_conn_def Let_def)
qed

definition conn_dgram :: "datagram \<Rightarrow> int \<Rightarrow> int \<Rightarrow> con_status \<Rightarrow> int \<Rightarrow> socket_ID \<Rightarrow> bool" where
  "conn_dgram d lcon rcon cmd pm sid \<longleftrightarrow>
     (\<exists>h ph hd rest. wire_bytes d = encode_header h @ ph @ hd @ encode_conn \<lparr> comand_type = status_code cmd,
          pmtu_size = word_of_int pm, sock_id = swap_families sid \<rparr> @ rest
        \<and> local_con_id h = word_of_int lcon \<and> remote_con_id h = word_of_int rcon \<and> msg_type h = 127 \<and> offset h = 0
        \<and> \<not> bad_lengths h \<and> length ph = unat (len_mon_packet_hdr h) \<and> length hd = unat (len_mon_data_hdr h)
        \<and> length (wire_bytes d) \<le> MAX_PKT)"

definition buf_fits :: "connect_data \<Rightarrow> int \<Rightarrow> bool" where
  "buf_fits c n \<longleftrightarrow> (\<forall>b. ctrl_msg_buf c = Some b \<longrightarrow> int (length b) = n)"

lemma swap_families_wf [simp]: "socket_ID_wf (swap_families sid) = socket_ID_wf sid"
  by (simp add: swap_families_def socket_ID_wf_def sockaddr_wf_def Let_def)

lemma conn_bytes_length:
  assumes "socket_ID_wf (local_socketID s)" shows "length (conn_msg_bytes c cmd s) = 264"
  using assms by (subst conn_msg_bytes_def, subst conn.length_enc) (simp_all add: CONN_MSG_SIZE_def)

lemma mem_write_front:
  assumes "mem_write b 0 bs = Inr b'" shows "take (length bs) b' = bs \<and> length b' = length b"
  using assms by (auto simp: mem_write_def min_def split: if_splits)

lemma conn_dgram_frag:
  assumes "hooks_ok env" "pmtusize c \<in> pmtu_values" "length h_data \<le> MON_HEADER_SPACE"
    and "job = make_job c cid ML_CON_MSG b (int (length b)) True" "frag_rooms env job c h_data = (r0, r)"
    and "take 264 b = encode_conn \<lparr> comand_type = status_code cmd, pmtu_size = word_of_int pm, sock_id = swap_families sid \<rparr>"
    and "264 \<le> length b"
  shows "conn_dgram (frag_dgram env sock job c h_data (0, take r0 b)) cid (external_connectionID c) cmd pm sid"
proof -
  let ?l1 = "pkt_hdr_len env job c"
  let ?bs = "take r0 b"
  let ?h = "frag_header job (word_of_nat (length h_data)) ?l1 (int 0) (int (length ?bs))"
  have pm: "472 \<le> nat (pmtusize c)" "nat (pmtusize c) \<le> 1472" using pmtu_bounds [OF assms(2)] by linarith+
  have l1: "?l1 \<le> 32" "length (take ?l1 (stack_h_pkt env)) = ?l1"
    using pkt_hdr_len_le [OF assms(1), of job c] assms(1) by (auto simp: hooks_ok_def MON_HEADER_SPACE_def)
  have hl: "length h_data \<le> 32" using assms(3) by (simp add: MON_HEADER_SPACE_def)
  have r0: "r0 = nat (pmtusize c) - length h_data - ?l1 - 23" using assms(5) by (simp add: frag_rooms_def)
  have r0b: "264 \<le> r0" "length ?bs \<le> 1472" "264 \<le> length ?bs" using r0 pm l1 hl assms(7) by auto
  have split: "?bs = take 264 b @ drop 264 ?bs"
    using append_take_drop_id [of 264 ?bs] r0b(1) by (simp add: min_def)
  have w: "wire_bytes (frag_dgram env sock job c h_data (0, ?bs))
      = encode_header ?h @ take ?l1 (stack_h_pkt env) @ h_data @ encode_conn \<lparr> comand_type = status_code cmd,
          pmtu_size = word_of_int pm, sock_id = swap_families sid \<rparr> @ drop 264 ?bs"
    unfolding assms(6) [symmetric] split [symmetric] by (simp add: wire_bytes_def frag_dgram_def Let_def)
  have mlen: "unat (msg_length ?h) = length ?bs" "offset ?h = 0"
    using r0b by (simp_all add: frag_header_def assms(4) make_job_def unat_of_nat)
  have lens: "\<not> bad_lengths ?h"
    using mlen r0b unfolding bad_lengths_def word_le_nat_alt word_less_nat_alt by (auto simp: unat_eq_zero)
  have fields: "local_con_id ?h = word_of_int cid" "remote_con_id ?h = word_of_int (external_connectionID c)"
    "msg_type ?h = 127" "unat (len_mon_packet_hdr ?h) = ?l1" "unat (len_mon_data_hdr ?h) = length h_data"
    using l1 hl by (simp_all add: frag_header_def assms(4) make_job_def ML_CON_MSG_def unat_of_nat)
  have "length (wire_bytes (frag_dgram env sock job c h_data (0, ?bs))) = 23 + ?l1 + length h_data + length ?bs"
    using header.length_enc [of ?h] l1(2) by (simp add: wire_bytes_def frag_dgram_def Let_def MSG_HEADER_SIZE_def)
  moreover have "length ?bs \<le> r0" by simp
  ultimately have "length (wire_bytes (frag_dgram env sock job c h_data (0, ?bs))) \<le> MAX_PKT"
    using r0 pm l1 hl unfolding MAX_PKT_def by linarith
  then show ?thesis
    unfolding conn_dgram_def using w mlen(2) lens fields l1(2)
    by (intro exI [of _ ?h] exI [of _ "take ?l1 (stack_h_pkt env)"] exI [of _ h_data] exI [of _ "drop 264 ?bs"]) auto
qed

lemma send_conn_wire:
  assumes "hooks_ok env" "conn cid s = Inr c" "pmtusize c \<in> pmtu_values" "unlimited env s" "1472 \<le> RTXmaxSize s"
    and "socket_ID_wf (local_socketID s)" "buf_fits c n" "264 \<le> n"
  shows "\<exists>s1 d b. send_conn_msg env cid n cmd s = Some (Inr s1) \<and> wire s1 = wire s @ [d]
    \<and> conn_dgram d cid (external_connectionID c) cmd (pmtusize c) (local_socketID s)
    \<and> connectbuf s1 = (connectbuf s)(cid \<mapsto> c\<lparr> ctrl_msg_buf := Some b, seqnr := seqnr c + 1 \<rparr>)
    \<and> int (length b) = n \<and> unlimited env s1 \<and> RTXmaxSize s1 = RTXmaxSize s \<and> trace s1 = trace s
    \<and> local_socketID s1 = local_socketID s \<and> receive_Connection_cb s1 = receive_Connection_cb s"
proof -
  define b0 where "b0 = (case ctrl_msg_buf c of Some b \<Rightarrow> b | None \<Rightarrow> replicate (nat n) 0)"
  have b0: "int (length b0) = n" using assms(7,8) by (auto simp: b0_def buf_fits_def split: option.splits)
  let ?m = "conn_msg_bytes c cmd s"
  have ml: "length ?m = 264" by (rule conn_bytes_length [OF assms(6)])
  obtain b where b: "mem_write b0 0 ?m = Inr b"
    using mem_write_ok [of b0 0 ?m] b0 ml assms(8) by (auto simp: ok_iff)
  have bl: "int (length b) = n" "take 264 b = ?m" using mem_write_front [OF b] b0 ml by simp_all
  let ?c = "c\<lparr> ctrl_msg_buf := Some b \<rparr>" and ?s = "set_conn cid (c\<lparr> ctrl_msg_buf := Some b \<rparr>) s"
  have go: "send_conn_msg env cid n cmd s = send_msg env cid ML_CON_MSG b n True (defaultSendParams c) ?s"
    using assms(2,8) b by (simp add: send_conn_msg_def CONN_MSG_SIZE_def b0_def split: option.splits)
  let ?job = "make_job ?c cid ML_CON_MSG b (int (length b)) True"
  obtain hd where hd: "data_header env ?job (defaultSendParams c) ?c = Inr hd" "length hd \<le> MON_HEADER_SPACE"
    using data_header_ok [OF assms(1)] by blast
  obtain r0 r where rr: "frag_rooms env ?job ?c hd = (r0, r)" by fastforce
  have c1: "conn cid ?s = Inr ?c" by (rule conn_set_conn [OF assms(2)])
  have u: "unlimited env ?s" "1472 \<le> RTXmaxSize ?s" "pmtusize ?c \<in> pmtu_values"
    using assms(3-5) by (simp_all add: set_conn_ready)
  obtain s1 where s1: "send_msg env cid ML_CON_MSG b (int (length b)) True (defaultSendParams c) ?s = Some (Inr s1)"
    "wire s1 = wire ?s @ [frag_dgram env (socketfd ?s) ?job ?c hd (0, take r0 b)]"
    "connectbuf s1 = (connectbuf ?s)(cid \<mapsto> ?c\<lparr> seqnr := seqnr ?c + 1 \<rparr>)" "unlimited env s1" "RTXmaxSize s1 = RTXmaxSize ?s"
    using send_msg_trunc_wire [OF assms(1) c1 u(3,1,2) refl hd(1) rr] by blast
  have sm: "trace s1 = trace s" "local_socketID s1 = local_socketID s" "receive_Connection_cb s1 = receive_Connection_cb s"
    using send_msg_sends [OF s1(1)] by (simp_all add: sends_def set_conn_def)
  have long: "264 \<le> length b" using bl(1) assms(8) by linarith
  let ?d = "frag_dgram env (socketfd ?s) ?job ?c hd (0, take r0 b)"
  have dg: "conn_dgram ?d cid (external_connectionID ?c) cmd
      (pmtusize c) (local_socketID s)"
    by (rule conn_dgram_frag [OF assms(1) u(3) hd(2) refl rr _ long]) (simp add: bl(2) conn_msg_bytes_def)
  have fin: "send_conn_msg env cid n cmd s = Some (Inr s1)" "wire s1 = wire s @ [?d]"
    "connectbuf s1 = (connectbuf s)(cid \<mapsto> c\<lparr> ctrl_msg_buf := Some b, seqnr := seqnr c + 1 \<rparr>)" "RTXmaxSize s1 = RTXmaxSize s"
    using go bl(1) s1 by (simp_all add: set_conn_def)
  show ?thesis
    by (intro exI [of _ s1] exI [of _ ?d] exI [of _ b] conjI) (use fin dg bl(1) s1(4) sm in simp_all)
qed

text \<open>What the handshake looks at in a connection, unchanged by sending.\<close>

definition kept :: "int \<Rightarrow> connect_data \<Rightarrow> connect_data \<Rightarrow> bool" where
  "kept n c c' \<longleftrightarrow> status c' = status c \<and> external_connectionID c' = external_connectionID c \<and> pmtusize c' = pmtusize c
     \<and> connection_cbs c' = connection_cbs c \<and> buf_fits c' n"

lemma unlimited_upd [simp]:
  "unlimited env (s\<lparr> ticks := t \<rparr>) = unlimited env s"
  "unlimited env (s\<lparr> trace := tr \<rparr>) = unlimited env s"
  by (simp_all add: unlimited_def tx_safe_def queues_inv_def)

lemma send_pmtu_wire:
  assumes "hooks_ok env" "conn cid s = Inr c" "pmtusize c \<in> pmtu_values" "unlimited env s" "1472 \<le> RTXmaxSize s"
    and "socket_ID_wf (local_socketID s)" "buf_fits c n" "264 \<le> n"
  shows "\<exists>s1 d c1. send_conn_msg_with_pmtu_discovery env cid n cmd s = Some (Inr s1) \<and> wire s1 = wire s @ [d]
    \<and> conn_dgram d cid (external_connectionID c) cmd (pmtusize c) (local_socketID s)
    \<and> connectbuf s1 = (connectbuf s)(cid \<mapsto> c1) \<and> kept n c c1
    \<and> unlimited env s1 \<and> RTXmaxSize s1 = RTXmaxSize s \<and> trace s1 = trace s
    \<and> local_socketID s1 = local_socketID s \<and> receive_Connection_cb s1 = receive_Connection_cb s"
proof -
  obtain tout where j: "jittered env s = (tout, s\<lparr> ticks := ticks s + 1 \<rparr>)" by (simp add: jittered_def)
  let ?c = "c\<lparr> timeout_value := tout, trials := 1 \<rparr>" and ?t = "s\<lparr> ticks := ticks s + 1 \<rparr>"
  let ?s = "set_conn cid ?c ?t"
  have ct: "conn cid ?t = Inr c" using assms(2) by (simp add: conn_Inr)
  have ut: "unlimited env ?t" using assms(4) by simp
  have cs: "conn cid ?s = Inr ?c" by (rule conn_set_conn [OF ct])
  have u: "unlimited env ?s" "1472 \<le> RTXmaxSize ?s" "pmtusize ?c \<in> pmtu_values" "socket_ID_wf (local_socketID ?s)" "buf_fits ?c n"
    using ut assms(3,5-7) by (simp_all add: set_conn_ready, simp_all add: set_conn_def buf_fits_def)
  obtain s1 d b where s1: "send_conn_msg env cid n cmd ?s = Some (Inr s1)" "wire s1 = wire ?s @ [d]"
    "conn_dgram d cid (external_connectionID ?c) cmd (pmtusize ?c) (local_socketID ?s)"
    "connectbuf s1 = (connectbuf ?s)(cid \<mapsto> ?c\<lparr> ctrl_msg_buf := Some b, seqnr := seqnr ?c + 1 \<rparr>)"
    "int (length b) = n" "unlimited env s1" "RTXmaxSize s1 = RTXmaxSize ?s" "trace s1 = trace ?s"
    "local_socketID s1 = local_socketID ?s" "receive_Connection_cb s1 = receive_Connection_cb ?s"
    using send_conn_wire [OF assms(1) cs u(3,1,2,4,5) assms(8)] by blast
  let ?c1 = "?c\<lparr> ctrl_msg_buf := Some b, seqnr := seqnr ?c + 1 \<rparr>"
  have c1: "conn cid s1 = Inr ?c1" using cs s1(4) by (simp add: conn_Inr)
  let ?c2 = "?c1\<lparr> timeout_event := Some (timeout_value ?c1) \<rparr>"
  have r: "reschedule_conn_msg cid s1 = Inr (set_conn cid ?c2 s1)"
    using c1 by (simp add: reschedule_conn_msg_def upd_conn_def)
  have up: "upd_conn cid (\<lambda>c. c\<lparr> timeout_value := tout, trials := 1 \<rparr>) ?t = Inr ?s" using ct by (simp add: upd_conn_def)
  have go: "send_conn_msg_with_pmtu_discovery env cid n cmd s = Some (Inr (set_conn cid ?c2 s1))"
    unfolding send_conn_msg_with_pmtu_discovery_def j Let_def prod.case up opt_bind_simps s1(1) r ..
  have k: "kept n c ?c2" using s1(5) by (simp add: kept_def buf_fits_def)
  have f: "wire (set_conn cid ?c2 s1) = wire s @ [d]" "connectbuf (set_conn cid ?c2 s1) = (connectbuf s)(cid \<mapsto> ?c2)"
    "RTXmaxSize (set_conn cid ?c2 s1) = RTXmaxSize s" "trace (set_conn cid ?c2 s1) = trace s"
    "local_socketID (set_conn cid ?c2 s1) = local_socketID s"
    "receive_Connection_cb (set_conn cid ?c2 s1) = receive_Connection_cb s" "unlimited env (set_conn cid ?c2 s1)"
    "conn_dgram d cid (external_connectionID c) cmd (pmtusize c) (local_socketID s)"
    using s1 by (simp_all add: set_conn_ready drain_connectbuf, simp_all add: set_conn_def)
  show ?thesis
    by (intro exI [of _ "set_conn cid ?c2 s1"] exI [of _ d] exI [of _ ?c2] conjI) (rule go f k)+
qed

section \<open>Its reception\<close>

lemma swap_internal [simp]: "internal_addr (swap_families (swap_families sid)) = internal_addr sid"
  by (simp add: swap_families_def Let_def)

lemma recv_conn_dgram:
  assumes "conn_dgram d lcon rcon cmd pm sid" "socket_ID_wf sid" "length stack = MAX_PKT"
    and "\<not> get_Recv_pkt_inf_cb env" "\<not> get_Recv_data_inf_cb env" "mlCompareAddr (internal_addr sid) a = 0"
  obtains h m where "recv_pkg env stack (Some (wire_bytes d, a)) s
      = (case cmd of INVITE \<Rightarrow> recv_invite env h m a s | CONNECT \<Rightarrow> recv_connect env h m s | READY \<Rightarrow> Some (recv_ready h s))"
    "local_con_id h = word_of_int lcon" "remote_con_id h = word_of_int rcon" "pmtu_size m = word_of_int pm"
    "sock_id m = swap_families (swap_families sid)"
proof -
  let ?cm = "\<lparr> comand_type = status_code cmd, pmtu_size = word_of_int pm, sock_id = swap_families sid \<rparr>"
  obtain h ph hd rest where d: "wire_bytes d = encode_header h @ ph @ hd @ encode_conn ?cm @ rest"
    "local_con_id h = word_of_int lcon" "remote_con_id h = word_of_int rcon" "msg_type h = 127" "offset h = 0"
    "\<not> bad_lengths h" "length ph = unat (len_mon_packet_hdr h)" "length hd = unat (len_mon_data_hdr h)"
    "length (wire_bytes d) \<le> MAX_PKT"
    using assms(1) unfolding conn_dgram_def by blast
  let ?buf = "packet_buf stack (wire_bytes d)"
  have hl: "length (encode_header h) = 23" using header.length_enc [of h] by (simp add: MSG_HEADER_SIZE_def)
  have el: "length (encode_conn ?cm) = 264" using assms(2) by (subst conn.length_enc) (simp_all add: CONN_MSG_SIZE_def)
  have dec: "decode_header ?buf = h" using header.dec_enc [of h] by (simp add: packet_buf_def d(1))
  have st: "take 2 ?buf \<noteq> [1, 1]" by (simp add: packet_buf_def d(1,5) encode_header_def be32_def)
  have u: "uint (len_mon_packet_hdr h) = int (length ph)" "hdr_mon h = int (length hd)"
    unfolding hdr_mon_def uint_nat d(7,8) by (rule refl)+
  let ?pos = "int MSG_HEADER_SIZE + uint (len_mon_packet_hdr h)" and ?n = "int (length (wire_bytes d)) - (int MSG_HEADER_SIZE + uint (len_mon_packet_hdr h))"
  have n: "?n = int (length hd + 264 + length rest)"
    using hl el u(1) by (simp add: d(1) MSG_HEADER_SIZE_def)
  have pkg: "recv_pkg env stack (Some (wire_bytes d, a)) s = recv_conn_msg env h ?buf ?pos ?n a s"
  proof -
    have big: "\<not> length (wire_bytes d) < MSG_HEADER_SIZE" using hl by (simp add: d(1) MSG_HEADER_SIZE_def)
    have con: "uint (msg_type h) = ML_CON_MSG" by (simp add: d(4) ML_CON_MSG_def)
    have pos: "\<not> ?n < 0" using n by linarith
    show ?thesis
      unfolding recv_pkg_def option.case prod.case Let_def dec handle_msg_def
      by (simp only: st d(6) big pos assms(4) con if_False if_True simp_thms)
  qed
  have blen: "length ?buf = MAX_PKT" using d(9) assms(3) by (simp add: packet_buf_def)
  have "drop (nat (?pos + hdr_mon h)) ?buf = encode_conn ?cm @ rest @ drop (length (wire_bytes d)) stack"
    using hl u by (simp add: packet_buf_def d(1) MSG_HEADER_SIZE_def nat_add_distrib nat_int_add)
  moreover have "?pos + hdr_mon h + 264 \<le> int (length ?buf)"
    using blen d(9) hl el u by (simp add: d(1) MSG_HEADER_SIZE_def)
  ultimately have rd: "mem_read ?buf (?pos + hdr_mon h) (int CONN_MSG_SIZE) = Inr (encode_conn ?cm)"
    using el u(2) by (simp add: mem_read_def CONN_MSG_SIZE_def)
  have dc: "decode_conn (encode_conn ?cm) = ?cm" using conn.dec_enc [of ?cm "[]"] assms(2) by simp
  let ?m = "?cm\<lparr> sock_id := swap_families (swap_families sid) \<rparr>"
  have "recv_conn_msg env h ?buf ?pos ?n a s
      = (case cmd of INVITE \<Rightarrow> recv_invite env h ?m a s | CONNECT \<Rightarrow> recv_connect env h ?m s | READY \<Rightarrow> Some (recv_ready h s))"
    unfolding recv_conn_msg_def rd sum.case dc Let_def
    using n u(2) assms(5,6) by (cases cmd) (simp_all add: CONN_MSG_SIZE_def status_code_def status_rank_def)
  with pkg that [of h ?m] d(2,3) show thesis by simp
qed

section \<open>The four steps\<close>

text \<open>A host that can play its part: hooks within their bounds, no monitoring of received packets, an
  unlimited rate, and its own socket ID known.\<close>

definition host_ok :: "'e os_env_scheme \<Rightarrow> 'a ml_scheme \<Rightarrow> bool" where
  "host_ok env s \<longleftrightarrow> hooks_ok env \<and> unlimited env s \<and> 1472 \<le> RTXmaxSize s \<and> socket_ID_wf (local_socketID s)
     \<and> \<not> get_Recv_pkt_inf_cb env \<and> \<not> get_Recv_data_inf_cb env"

definition same_host :: "'a ml_scheme \<Rightarrow> 'a ml_scheme \<Rightarrow> bool" where
  "same_host s s' \<longleftrightarrow> local_socketID s' = local_socketID s \<and> receive_Connection_cb s' = receive_Connection_cb s"

lemma con_id_roundtrip: "in_table CONNECTBUFSIZE i \<or> i = -1 \<Longrightarrow> sint (word_of_int i :: u32) = i"
  by (rule sint_of_int32) (auto simp: in_table_def CONNECTBUFSIZE_def)

lemma pmtu_1372 [simp]: "1372 \<in> pmtu_values" "sint (1372 :: u32) = 1372"
  by (simp_all add: pmtu_values_def)

lemma open_invites:
  assumes "host_ok env s" "NAT_traversal s" "mlConnectionExist env ext False s < 0"
    and "first_free CONNECTBUFSIZE (connectbuf s) = i" "in_table CONNECTBUFSIZE i" "keepalive params = 0"
  shows "\<exists>s1 d c1. mlOpenConnection env (Some ext) (Some f) arg params s = Some (Inr (i, s1)) \<and> wire s1 = wire s @ [d]
    \<and> conn_dgram d i (-1) INVITE 1372 (local_socketID s) \<and> connectbuf s1 = (connectbuf s)(i \<mapsto> c1)
    \<and> status c1 = INVITE \<and> pmtusize c1 = 1372 \<and> connection_cbs c1 = [(f, arg)] \<and> buf_fits c1 1372
    \<and> host_ok env s1 \<and> same_host s s1 \<and> trace s1 = trace s"
proof -
  let ?c = "(new_conn env ext s)\<lparr> pmtusize := 1372,
      internal_connect := internal_connect_plausible ext (local_socketID s), connectionID := i,
      connection_cbs := [(f, arg)], external_connectionID := -1, defaultSendParams := params \<rparr>"
  let ?s = "set_conn i ?c s"
  have c: "conn i ?s = Inr ?c" using assms(5) by (simp add: conn_Inr set_conn_def)
  have h: "hooks_ok env" "unlimited env ?s" "1472 \<le> RTXmaxSize ?s" "socket_ID_wf (local_socketID ?s)"
    "pmtusize ?c \<in> pmtu_values" "buf_fits ?c 1372" "(264 :: int) \<le> 1372"
    using assms(1) by (simp_all add: host_ok_def set_conn_ready, simp_all add: set_conn_def buf_fits_def new_conn_def)
  obtain s1 d c1 where s1: "send_conn_msg_with_pmtu_discovery env i 1372 INVITE ?s = Some (Inr s1)" "wire s1 = wire ?s @ [d]"
    "conn_dgram d i (external_connectionID ?c) INVITE (pmtusize ?c) (local_socketID ?s)"
    "connectbuf s1 = (connectbuf ?s)(i \<mapsto> c1)" "kept 1372 ?c c1"
    "unlimited env s1" "RTXmaxSize s1 = RTXmaxSize ?s" "trace s1 = trace ?s"
    "local_socketID s1 = local_socketID ?s" "receive_Connection_cb s1 = receive_Connection_cb ?s"
    using send_pmtu_wire [OF h(1) c h(5,2,3,4,6,7)] by blast
  have i: "i \<noteq> -1" using assms(5) by (auto simp: in_table_def)
  have go: "mlOpenConnection env (Some ext) (Some f) arg params s = Some (Inr (i, s1))"
    using assms(2-4,6) c s1(1) i by (simp add: mlOpenConnection_def Let_def)
  have hs: "host_ok env s1" "same_host s s1"
    using assms(1) s1(6,7,9,10) by (simp_all add: host_ok_def same_host_def set_conn_def)
  have c1: "status c1 = INVITE" "pmtusize c1 = 1372" "connection_cbs c1 = [(f, arg)]" "buf_fits c1 1372"
    using s1(5) by (simp_all add: kept_def new_conn_def)
  have f: "wire s1 = wire s @ [d]" "conn_dgram d i (-1) INVITE 1372 (local_socketID s)"
    "connectbuf s1 = (connectbuf s)(i \<mapsto> c1)" "trace s1 = trace s"
    using s1(2-4,8) by (simp_all add: set_conn_def)
  show ?thesis
    by (intro exI [of _ s1] exI [of _ d] exI [of _ c1] conjI) (rule go f c1 hs)+
qed

lemma invite_answered:
  assumes "host_ok env s" "first_match CONNECTBUFSIZE (connectbuf s) (same_peer (env_gai env) (sock_id m)) = None"
    and "first_free CONNECTBUFSIZE (connectbuf s) = j" "in_table CONNECTBUFSIZE j"
    and "local_con_id h = word_of_int i" "in_table CONNECTBUFSIZE i" "pmtu_size m = word_of_int 1372"
  shows "\<exists>s1 d c1. recv_invite env h m a s = Some (Inr s1) \<and> wire s1 = wire s @ [d]
    \<and> conn_dgram d j i CONNECT 1372 (local_socketID s) \<and> connectbuf s1 = (connectbuf s)(j \<mapsto> c1)
    \<and> status c1 = CONNECT \<and> pmtusize c1 = 1372 \<and> connection_cbs c1 = [] \<and> external_connectionID c1 = i
    \<and> host_ok env s1 \<and> same_host s s1 \<and> trace s1 = trace s"
proof -
  have id: "sint (word_of_int i :: u32) = i" using assms(6) by (simp add: con_id_roundtrip)
  have pm: "sint (word_of_int 1372 :: u32) = 1372" by simp
  let ?new = "(new_conn env (sock_id m) s)\<lparr> pmtusize := 1372, external_connectionID := i,
                internal_connect := mlCompareAddr (internal_addr (sock_id m)) a = 0 \<rparr>"
  let ?c = "?new\<lparr> status := CONNECT \<rparr>"
  let ?s = "set_conn j ?c (set_conn j ?new s)"
  have cb: "connectbuf ?s = (connectbuf s)(j \<mapsto> ?c)" by (simp add: set_conn_def)
  have c: "conn j ?s = Inr ?c" using assms(4) by (simp add: conn_Inr cb)
  have h: "hooks_ok env" "unlimited env ?s" "1472 \<le> RTXmaxSize ?s" "socket_ID_wf (local_socketID ?s)"
    "pmtusize ?c \<in> pmtu_values" "buf_fits ?c 1372" "(264 :: int) \<le> 1372"
    using assms(1) by (simp_all add: host_ok_def set_conn_ready, simp_all add: set_conn_def buf_fits_def new_conn_def)
  obtain s1 d c1 where s1: "send_conn_msg_with_pmtu_discovery env j 1372 CONNECT ?s = Some (Inr s1)" "wire s1 = wire ?s @ [d]"
    "conn_dgram d j (external_connectionID ?c) CONNECT (pmtusize ?c) (local_socketID ?s)"
    "connectbuf s1 = (connectbuf ?s)(j \<mapsto> c1)" "kept 1372 ?c c1"
    "unlimited env s1" "RTXmaxSize s1 = RTXmaxSize ?s" "trace s1 = trace ?s"
    "local_socketID s1 = local_socketID ?s" "receive_Connection_cb s1 = receive_Connection_cb ?s"
    using send_pmtu_wire [OF h(1) c h(5,2,3,4,6,7)] by blast
  have j: "j \<noteq> -1" using assms(4) by (auto simp: in_table_def)
  have up: "upd_conn j (\<lambda>c. c\<lparr> status := CONNECT \<rparr>) (set_conn j ?new s) = Inr ?s"
    using assms(4) by (simp add: upd_conn_def conn_def entry_def slot_def set_conn_def)
  have go: "recv_invite env h m a s = Some (Inr s1)"
    by (simp only: recv_invite_def Let_def assms(2,3,5,7) id pm option.case j if_False up opt_bind_simps s1(1))
  have hs: "host_ok env s1" "same_host s s1"
    using assms(1) s1(6,7,9,10) by (simp_all add: host_ok_def same_host_def set_conn_def)
  have c1: "status c1 = CONNECT" "pmtusize c1 = 1372" "connection_cbs c1 = []" "external_connectionID c1 = i"
    using s1(5) by (simp_all add: kept_def new_conn_def)
  have f: "wire s1 = wire s @ [d]" "conn_dgram d j i CONNECT 1372 (local_socketID s)"
    "connectbuf s1 = (connectbuf s)(j \<mapsto> c1)" "trace s1 = trace s"
    using s1(2-4,8) by (simp_all add: set_conn_def)
  show ?thesis
    by (intro exI [of _ s1] exI [of _ d] exI [of _ c1] conjI) (rule go f c1 hs)+
qed

text \<open>What the application is told when a connection becomes READY.\<close>

definition ready_calls :: "int \<Rightarrow> connect_data \<Rightarrow> 'a ml_scheme \<Rightarrow> ml_action list" where
  "ready_calls i c s = (case receive_Connection_cb s of None \<Rightarrow> [] | Some f \<Rightarrow> [Recv_connection f i])
     @ map (\<lambda>(f, arg). Connection_cb f i arg) (connection_cbs c)"

lemma run_conn_cbs_value:
  assumes "conn i s = Inr c"
  shows "run_conn_cbs i s = Inr (set_conn i (c\<lparr> connection_cbs := [] \<rparr>) (s\<lparr> trace := trace s @ ready_calls i c s \<rparr>))"
proof -
  have "(case receive_Connection_cb s of None \<Rightarrow> s | Some f \<Rightarrow> s\<lparr> trace := trace s @ [Recv_connection f i] \<rparr>)
      = s\<lparr> trace := trace s @ (case receive_Connection_cb s of None \<Rightarrow> [] | Some f \<Rightarrow> [Recv_connection f i]) \<rparr>"
    by (simp split: option.splits)
  moreover have "conn i (s\<lparr> trace := t \<rparr>) = Inr c" for t using assms by (simp add: conn_Inr)
  ultimately show ?thesis by (simp add: run_conn_cbs_def Let_def ready_calls_def)
qed

lemma connect_accepted:
  assumes "host_ok env s" "conn i s = Inr c" "status c = INVITE" "pmtusize c = 1372" "buf_fits c 1372"
    and "remote_con_id h = word_of_int i" "local_con_id h = word_of_int j" "in_table CONNECTBUFSIZE j"
    and "pmtu_size m = word_of_int 1372"
  shows "\<exists>s1 d c1. recv_connect env h m s = Some (Inr s1) \<and> wire s1 = wire s @ [d]
    \<and> conn_dgram d i j READY 1372 (local_socketID s) \<and> connectbuf s1 = (connectbuf s)(i \<mapsto> c1)
    \<and> status c1 = READY \<and> pmtusize c1 = 1372 \<and> external_connectionID c1 = j
    \<and> trace s1 = trace s @ ready_calls i c s"
proof -
  have t: "in_table CONNECTBUFSIZE i" "connectbuf s i = Some c" using assms(2) by (simp_all add: conn_Inr)
  have id: "hdr_con h = i" "sint (word_of_int j :: u32) = j"
    using t(1) assms(8) by (simp_all add: hdr_con_def assms(6) con_id_roundtrip)
  let ?c = "c\<lparr> external_connectionID := j, status := READY \<rparr>"
  let ?s = "set_conn i ?c s"
  have c: "conn i ?s = Inr ?c" by (rule conn_set_conn [OF assms(2)])
  have h: "hooks_ok env" "unlimited env ?s" "1472 \<le> RTXmaxSize ?s" "socket_ID_wf (local_socketID ?s)"
    "pmtusize ?c \<in> pmtu_values" "buf_fits ?c 1372" "(264 :: int) \<le> 1372"
    using assms(1,4,5) by (simp_all add: host_ok_def set_conn_ready, simp_all add: set_conn_def buf_fits_def)
  obtain s1 d c1 where s1: "send_conn_msg_with_pmtu_discovery env i 1372 READY ?s = Some (Inr s1)" "wire s1 = wire ?s @ [d]"
    "conn_dgram d i (external_connectionID ?c) READY (pmtusize ?c) (local_socketID ?s)"
    "connectbuf s1 = (connectbuf ?s)(i \<mapsto> c1)" "kept 1372 ?c c1"
    "unlimited env s1" "RTXmaxSize s1 = RTXmaxSize ?s" "trace s1 = trace ?s"
    "local_socketID s1 = local_socketID ?s" "receive_Connection_cb s1 = receive_Connection_cb ?s"
    using send_pmtu_wire [OF h(1) c h(5,2,3,4,6,7)] by blast
  have c1: "conn i s1 = Inr c1" using t(1) s1(4) by (simp add: conn_Inr)
  have calls: "ready_calls i c1 s1 = ready_calls i c s"
    using s1(5,10) by (simp add: ready_calls_def kept_def set_conn_def)
  let ?s1 = "set_conn i (c1\<lparr> connection_cbs := [] \<rparr>) (s1\<lparr> trace := trace s1 @ ready_calls i c s \<rparr>)"
  have neg: "i \<noteq> -1" using t(1) by (auto simp: in_table_def)
  have "slot CONNECTBUFSIZE (connectbuf s) i = Inr (Some c)" using t by (simp add: slot_def)
  then have go: "recv_connect env h m s = Some (Inr ?s1)"
    using assms(2,3) s1(1) run_conn_cbs_value [OF c1] neg by (simp add: recv_connect_def Let_def id assms(7,9) calls)
  have f: "wire ?s1 = wire s @ [d]" "conn_dgram d i j READY 1372 (local_socketID s)"
    "connectbuf ?s1 = (connectbuf s)(i \<mapsto> c1\<lparr> connection_cbs := [] \<rparr>)" "trace ?s1 = trace s @ ready_calls i c s"
    "status (c1\<lparr> connection_cbs := [] \<rparr>) = READY" "pmtusize (c1\<lparr> connection_cbs := [] \<rparr>) = 1372"
    "external_connectionID (c1\<lparr> connection_cbs := [] \<rparr>) = j"
    using s1(2-5,8) assms(4) by (simp_all add: set_conn_def kept_def)
  show ?thesis
    by (intro exI [of _ ?s1] exI [of _ d] exI [of _ "c1\<lparr> connection_cbs := [] \<rparr>"] conjI) (rule go f)+
qed

lemma ready_received:
  assumes "conn j s = Inr c" "status c = CONNECT" "remote_con_id h = word_of_int j"
  shows "recv_ready h s = Inr (set_conn j (c\<lparr> status := READY, connection_cbs := [] \<rparr>)
    (s\<lparr> trace := trace s @ ready_calls j c s \<rparr>))"
proof -
  have t: "in_table CONNECTBUFSIZE j" "connectbuf s j = Some c" using assms(1) by (simp_all add: conn_Inr)
  have id: "hdr_con h = j" using t(1) by (simp add: hdr_con_def assms(3) con_id_roundtrip)
  have c1: "conn j (set_conn j (c\<lparr> status := READY \<rparr>) s) = Inr (c\<lparr> status := READY \<rparr>)" by (rule conn_set_conn [OF assms(1)])
  have "ready_calls j (c\<lparr> status := READY \<rparr>) (set_conn j (c\<lparr> status := READY \<rparr>) s) = ready_calls j c s"
    by (simp add: ready_calls_def set_conn_def)
  then show ?thesis
    using t assms(2) run_conn_cbs_value [OF c1] by (simp add: recv_ready_def slot_def id set_conn_def)
qed

section \<open>The handshake\<close>

text \<open>A socket ID as it comes out of a connection message.\<close>

definition as_received :: "socket_ID \<Rightarrow> socket_ID" where
  "as_received sid = swap_families (swap_families sid)"

lemma connection_unknown:
  assumes "mlConnectionExist env sid False s < 0"
  shows "first_match CONNECTBUFSIZE (connectbuf s) (same_peer (env_gai env) sid) = None"
proof (cases "first_match CONNECTBUFSIZE (connectbuf s) (same_peer (env_gai env) sid)")
  case (Some i)
  then have "0 \<le> i" using first_match_Some [OF Some] by (simp add: in_table_def)
  with Some assms show ?thesis by (simp add: mlConnectionExist_def)
qed

definition established :: "int \<Rightarrow> int \<Rightarrow> 'a ml_scheme \<Rightarrow> bool" where
  "established i j s \<longleftrightarrow> (\<exists>c. connectbuf s i = Some c \<and> status c = READY \<and> external_connectionID c = j \<and> pmtusize c = 1372)"

text \<open>C4: A connection is established in three messages. When the application of host A opens a connection
  to a peer that neither side knows yet, A sends one INVITE; handing it to B's dispatcher makes B send
  one CONNECT; handing that to A makes A send one READY and call the callback given to
  \<open>mlOpenConnection\<close>; handing that to B completes the handshake silently but for B's callback. Then
  both ends are READY, each knows the other's connection identifier, both use a path MTU of 1372, no
  other connection has changed, and each application has been told exactly once.\<close>

theorem handshake:
  assumes "host_ok envA sA" "NAT_traversal sA" "mlConnectionExist envA ext False sA < 0"
    and "first_free CONNECTBUFSIZE (connectbuf sA) = i" "in_table CONNECTBUFSIZE i" "keepalive params = 0"
    and "host_ok envB sB" "mlConnectionExist envB (as_received (local_socketID sA)) False sB < 0"
    and "first_free CONNECTBUFSIZE (connectbuf sB) = j" "in_table CONNECTBUFSIZE j"
    and "mlCompareAddr (internal_addr (local_socketID sA)) aA = 0" "mlCompareAddr (internal_addr (local_socketID sB)) aB = 0"
    and "length st1 = MAX_PKT" "length st2 = MAX_PKT" "length st3 = MAX_PKT"
  shows "\<exists>sA1 sA2 sB1 sB2 invite connect ready cA cB.
      mlOpenConnection envA (Some ext) (Some f) arg params sA = Some (Inr (i, sA1)) \<and> wire sA1 = wire sA @ [invite]
    \<and> recv_pkg envB st1 (Some (wire_bytes invite, aA)) sB = Some (Inr sB1) \<and> wire sB1 = wire sB @ [connect]
    \<and> recv_pkg envA st2 (Some (wire_bytes connect, aB)) sA1 = Some (Inr sA2) \<and> wire sA2 = wire sA1 @ [ready]
    \<and> recv_pkg envB st3 (Some (wire_bytes ready, aA)) sB1 = Some (Inr sB2) \<and> wire sB2 = wire sB1
    \<and> established i j sA2 \<and> established j i sB2
    \<and> connectbuf sA2 = (connectbuf sA)(i \<mapsto> cA) \<and> connectbuf sB2 = (connectbuf sB)(j \<mapsto> cB)
    \<and> trace sA2 = trace sA @ (case receive_Connection_cb sA of None \<Rightarrow> [] | Some g \<Rightarrow> [Recv_connection g i]) @ [Connection_cb f i arg]
    \<and> trace sB2 = trace sB @ (case receive_Connection_cb sB of None \<Rightarrow> [] | Some g \<Rightarrow> [Recv_connection g j])"
proof -
  obtain sA1 d1 cA1 where A1: "mlOpenConnection envA (Some ext) (Some f) arg params sA = Some (Inr (i, sA1))" "wire sA1 = wire sA @ [d1]"
    "conn_dgram d1 i (-1) INVITE 1372 (local_socketID sA)" "connectbuf sA1 = (connectbuf sA)(i \<mapsto> cA1)"
    "status cA1 = INVITE" "pmtusize cA1 = 1372" "connection_cbs cA1 = [(f, arg)]" "buf_fits cA1 1372"
    "host_ok envA sA1" "same_host sA sA1" "trace sA1 = trace sA"
    using open_invites [OF assms(1-6)] by blast
  have wf: "socket_ID_wf (local_socketID sA)" "socket_ID_wf (local_socketID sB)"
    and nomon: "\<not> get_Recv_pkt_inf_cb envA" "\<not> get_Recv_data_inf_cb envA" "\<not> get_Recv_pkt_inf_cb envB" "\<not> get_Recv_data_inf_cb envB"
    using assms(1,7) by (simp_all add: host_ok_def)
  obtain h1 m1 where p1: "recv_pkg envB st1 (Some (wire_bytes d1, aA)) sB = recv_invite envB h1 m1 aA sB"
    "local_con_id h1 = word_of_int i" "pmtu_size m1 = word_of_int 1372" "sock_id m1 = as_received (local_socketID sA)"
    by (rule recv_conn_dgram [OF A1(3) wf(1) assms(13) nomon(3,4) assms(11), of sB])
      (rule that, simp_all add: as_received_def)
  have nm: "first_match CONNECTBUFSIZE (connectbuf sB) (same_peer (env_gai envB) (sock_id m1)) = None"
    unfolding p1(4) by (rule connection_unknown [OF assms(8)])
  obtain sB1 d2 cB1 where B1: "recv_invite envB h1 m1 aA sB = Some (Inr sB1)" "wire sB1 = wire sB @ [d2]"
    "conn_dgram d2 j i CONNECT 1372 (local_socketID sB)" "connectbuf sB1 = (connectbuf sB)(j \<mapsto> cB1)"
    "status cB1 = CONNECT" "pmtusize cB1 = 1372" "connection_cbs cB1 = []" "external_connectionID cB1 = i"
    "host_ok envB sB1" "same_host sB sB1" "trace sB1 = trace sB"
    using invite_answered [OF assms(7) nm assms(9,10) p1(2) assms(5) p1(3)] by blast
  obtain h2 m2 where p2: "recv_pkg envA st2 (Some (wire_bytes d2, aB)) sA1 = recv_connect envA h2 m2 sA1"
    "local_con_id h2 = word_of_int j" "remote_con_id h2 = word_of_int i" "pmtu_size m2 = word_of_int 1372"
    by (rule recv_conn_dgram [OF B1(3) wf(2) assms(14) nomon(1,2) assms(12), of sA1]) (rule that, simp_all)
  have cA1: "conn i sA1 = Inr cA1" using assms(5) A1(4) by (simp add: conn_Inr)
  obtain sA2 d3 cA2 where A2: "recv_connect envA h2 m2 sA1 = Some (Inr sA2)" "wire sA2 = wire sA1 @ [d3]"
    "conn_dgram d3 i j READY 1372 (local_socketID sA1)" "connectbuf sA2 = (connectbuf sA1)(i \<mapsto> cA2)"
    "status cA2 = READY" "pmtusize cA2 = 1372" "external_connectionID cA2 = j"
    "trace sA2 = trace sA1 @ ready_calls i cA1 sA1"
    using connect_accepted [OF A1(9) cA1 A1(5,6,8) p2(3,2) assms(10) p2(4)] by blast
  have loc: "local_socketID sA1 = local_socketID sA" "receive_Connection_cb sA1 = receive_Connection_cb sA"
    "receive_Connection_cb sB1 = receive_Connection_cb sB"
    using A1(10) B1(10) by (simp_all add: same_host_def)
  obtain h3 where p3: "recv_pkg envB st3 (Some (wire_bytes d3, aA)) sB1 = Some (recv_ready h3 sB1)" "remote_con_id h3 = word_of_int j"
    by (rule recv_conn_dgram [OF A2(3) [unfolded loc(1)] wf(1) assms(15) nomon(3,4) assms(11), of sB1]) (rule that, simp_all)
  have cB1: "conn j sB1 = Inr cB1" using assms(10) B1(4) by (simp add: conn_Inr)
  let ?cB = "cB1\<lparr> status := READY, connection_cbs := [] \<rparr>"
  let ?sB2 = "set_conn j ?cB (sB1\<lparr> trace := trace sB1 @ ready_calls j cB1 sB1 \<rparr>)"
  have B2: "recv_ready h3 sB1 = Inr ?sB2" by (rule ready_received [OF cB1 B1(5) p3(2)])
  have est: "established i j sA2" "established j i ?sB2"
    using A2(4-7) B1(6,8) by (simp_all add: established_def set_conn_def)
  have tabs: "connectbuf sA2 = (connectbuf sA)(i \<mapsto> cA2)" "connectbuf ?sB2 = (connectbuf sB)(j \<mapsto> ?cB)" "wire ?sB2 = wire sB1"
    using A1(4) A2(4) B1(4) by (simp_all add: set_conn_def)
  have calls: "ready_calls i cA1 sA1 = (case receive_Connection_cb sA of None \<Rightarrow> [] | Some g \<Rightarrow> [Recv_connection g i]) @ [Connection_cb f i arg]"
    "ready_calls j cB1 sB1 = (case receive_Connection_cb sB of None \<Rightarrow> [] | Some g \<Rightarrow> [Recv_connection g j])"
    by (simp_all add: ready_calls_def loc A1(7) B1(7))
  have tr: "trace sA2 = trace sA @ (case receive_Connection_cb sA of None \<Rightarrow> [] | Some g \<Rightarrow> [Recv_connection g i]) @ [Connection_cb f i arg]"
    "trace ?sB2 = trace sB @ (case receive_Connection_cb sB of None \<Rightarrow> [] | Some g \<Rightarrow> [Recv_connection g j])"
    unfolding A2(8) A1(11) calls(1) by (simp_all add: set_conn_def B1(11) calls(2))
  show ?thesis
    by (intro exI [of _ sA1] exI [of _ sA2] exI [of _ sB1] exI [of _ ?sB2] exI [of _ d1] exI [of _ d2] exI [of _ d3]
        exI [of _ cA2] exI [of _ ?cB] conjI)
      (rule A1(1,2) B1(2) A2(2) est tabs tr | simp only: p1(1) p2(1) p3(1) A2(1) B1(1) B2)+
qed

text \<open>A started host without connections, and the address datagrams from it come from.\<close>

definition idle :: ml where "idle = ml0\<lparr> connectbuf := (\<lambda>_. None) \<rparr>"

lemma idle_ok: "host_ok os0 idle" "NAT_traversal idle" "connectbuf idle = (\<lambda>_. None)" "trace idle = []"
    "receive_Connection_cb idle = None" "local_socketID idle = sid0" "mlConnectionExist os0 sid False idle < 0"
proof -
  have "hooks_ok os0" by (simp add: hooks_ok_def os0_def ml_env.defs menv0_def env.defs env0_def MON_HEADER_SPACE_def)
  moreover have "unlimited os0 idle"
    using ml0_unlimited by (simp add: unlimited_def idle_def tx_safe_def queues_inv_def os0_def ml_env.defs menv0_def env.defs)
  moreover have "socket_ID_wf sid0" by (simp add: socket_ID_wf_def sockaddr_wf_def sid0_def ipv4_sockaddr_def)
  ultimately show "host_ok os0 idle" by (simp add: host_ok_def idle_def menv_os0 os0_def ml_env.defs menv0_def env.defs)
  show "mlConnectionExist os0 sid False idle < 0"
  proof -
    have "first_match CONNECTBUFSIZE (connectbuf idle) P = None" for P by (simp add: idle_def first_match_None)
    then show ?thesis by (simp add: mlConnectionExist_def)
  qed
qed (simp_all add: idle_def)

lemma free_slot: "in_table CONNECTBUFSIZE (first_free CONNECTBUFSIZE (\<lambda>_. None :: connect_data option))"
proof -
  have "in_table CONNECTBUFSIZE 0" by (simp add: in_table_def CONNECTBUFSIZE_def)
  then show ?thesis using first_free_cases [of CONNECTBUFSIZE "\<lambda>_. None :: connect_data option"] by auto
qed

lemma handshake_witness:
  "\<exists>i s1 s2 t1 t2 invite connect ready. mlOpenConnection os0 (Some sid0) (Some 7) 8 params0 idle = Some (Inr (i, s1))
    \<and> recv_pkg os0 (replicate MAX_PKT 0) (Some (wire_bytes invite, internal_addr sid0)) idle = Some (Inr t1)
    \<and> recv_pkg os0 (replicate MAX_PKT 0) (Some (wire_bytes connect, internal_addr sid0)) s1 = Some (Inr s2)
    \<and> recv_pkg os0 (replicate MAX_PKT 0) (Some (wire_bytes ready, internal_addr sid0)) t1 = Some (Inr t2)
    \<and> wire s1 = wire idle @ [invite] \<and> wire t1 = wire idle @ [connect] \<and> wire s2 = wire s1 @ [ready]
    \<and> established i i s2 \<and> established i i t2 \<and> trace s2 = [Connection_cb 7 i 8] \<and> trace t2 = []"
proof -
  define i where "i = first_free CONNECTBUFSIZE (\<lambda>_. None :: connect_data option)"
  have i: "first_free CONNECTBUFSIZE (connectbuf idle) = i" "in_table CONNECTBUFSIZE i"
    using free_slot by (simp_all add: i_def idle_ok)
  have k: "keepalive params0 = 0" by (simp add: params0_def)
  have a: "mlCompareAddr (internal_addr (local_socketID idle)) (internal_addr sid0) = 0" by (simp add: idle_ok mlCompareAddr_same)
  have st: "length (replicate MAX_PKT (0 :: byte)) = MAX_PKT" by simp
  show ?thesis
    using handshake [OF idle_ok(1,2,7) i k idle_ok(1,7) i a a st st st, of sid0 7 8] unfolding idle_ok(4,5) option.case append_Nil
    by blast
qed

end
