(* ===== verification/Ml_Told.thy ===== *)
theory Ml_Told
  imports Ml_Step Handshake
begin

text \<open>
  What the application learns through its callbacks: each call that a step of the messaging layer
  makes is so in the tables of the library after the step, and only datagrams deliver messages, one at most.
\<close>

section \<open>What the application is told\<close>

text \<open>
  \<open>told a s\<close>: what the call \<open>a\<close> of an application's callback says is so in the state \<open>s\<close>. For a delivered message this
  is what the library knows: the status and the counters of the receive slot it comes from, the bytes of its
  buffer and their number. That all fragments have come is \<open>reassembly_any_order\<close>, for a network that does not duplicate
  them.
\<close>

definition ready :: "int \<Rightarrow> 'a ml_scheme \<Rightarrow> bool" where
  "ready i s \<longleftrightarrow> (\<exists>c. connectbuf s i = Some c \<and> status c = READY)"

fun told :: "ml_action \<Rightarrow> 'a ml_scheme \<Rightarrow> bool" where
  "told (Recv_data f bs ty p) s \<longleftrightarrow>
     (\<exists>t. recvcbbuf s t = Some f)
     \<and> (\<exists>i r. recvdatabuf s i = Some r \<and> rd_status r = COMPLETE \<and> rd_msgtype r = ty
        \<and> rd_connectionID r = rp_connectionID p \<and> rp_msgtype p = ty \<and> rp_recvFragments p = recvFragments r
        \<and> nrMissingBytes p = 0 \<and> arrivedBytes r = int (length bs)
        \<and> int (length bs) = bufsize r - monitoringDataHeaderLen r \<and> bs = drop (nat (monitoringDataHeaderLen r)) (recvbuf r))"
| "told (Recv_connection f i) s \<longleftrightarrow> ready i s \<and> receive_Connection_cb s = Some f"
| "told (Connection_cb f i arg) s \<longleftrightarrow> ready i s"
| "told (Failed_connection f i) s \<longleftrightarrow> connectbuf s i = None \<and> failed_Connection_cb s = Some f"
| "told _ s \<longleftrightarrow> True"

text \<open>The deliveries of messages among the calls, and how many of them an event may cause.\<close>

fun delivery :: "ml_action \<Rightarrow> bool" where
  "delivery (Recv_data f bs ty p) = True"
| "delivery _ = False"

abbreviation deliveries :: "ml_action list \<Rightarrow> nat" where
  "deliveries es \<equiv> length (filter delivery es)"

fun may_deliver :: "ml_event \<Rightarrow> nat" where
  "may_deliver (Packet stack d) = 1"
| "may_deliver _ = 0"

definition tells :: "nat \<Rightarrow> 'a ml_scheme \<Rightarrow> 'a ml_scheme \<Rightarrow> bool" where
  "tells n s s' \<longleftrightarrow> (\<exists>es. trace s' = trace s @ es \<and> (\<forall>a \<in> set es. told a s') \<and> deliveries es \<le> n)"

lemma tells_le: "tells n s s' \<Longrightarrow> n \<le> k \<Longrightarrow> tells k s s'"
  unfolding tells_def by (meson le_trans)

lemma no_delivery: "\<forall>a \<in> set es. \<not> delivery a \<Longrightarrow> deliveries es = 0"
  by simp

text \<open>Steps that call no callback and leave the status of every connection as it is.\<close>

definition keeps :: "'a ml_scheme \<Rightarrow> 'a ml_scheme \<Rightarrow> bool" where
  "keeps s s' \<longleftrightarrow> trace s' = trace s \<and> (\<forall>i. map_option status (connectbuf s' i) = map_option status (connectbuf s i))"

lemma keeps_trans: "keeps s t \<Longrightarrow> keeps t u \<Longrightarrow> keeps s u"
  by (simp add: keeps_def)

lemma keeps_ready: "keeps s s' \<Longrightarrow> ready i s' = ready i s"
  unfolding keeps_def ready_def by (metis (no_types, lifting) map_option_eq_Some)

lemma tells_keeps: "keeps s s' \<Longrightarrow> tells n s s'"
  by (simp add: keeps_def tells_def)

lemma tells_trace_eq: "trace s' = trace s \<Longrightarrow> tells n s s'"
  by (simp add: tells_def)

lemma tells_add:
  assumes "trace s' = trace s @ es" "\<And>a. a \<in> set es \<Longrightarrow> told a s'" "deliveries es \<le> n" shows "tells n s s'"
  using assms by (auto simp: tells_def)

lemma tells_trans_trace:
  assumes "trace t = trace s @ es" "\<And>a u. a \<in> set es \<Longrightarrow> \<not> delivery a \<and> told a (u :: 'a ml_scheme)" "tells n t s'"
  shows "tells n (s :: 'a ml_scheme) s'"
proof -
  obtain fs where fs: "trace s' = trace t @ fs" "\<forall>a \<in> set fs. told a s'" "deliveries fs \<le> n"
    using assms(3) by (auto simp: tells_def)
  have "filter delivery es = []" using assms(2) by (simp add: filter_empty_conv)
  then show ?thesis by (intro tells_add [of _ _ "es @ fs"]) (use assms(1,2) fs in auto)
qed

lemma sends_keeps:
  assumes "sends s s'" shows "keeps s s'"
proof -
  have "map_option status (connectbuf s' i) = map_option status (connectbuf s i)" for i
  proof -
    have "rel_option same_but_pmtu (connectbuf s i) (connectbuf s' i)" using assms by (simp add: sends_def)
    then show ?thesis by (cases "connectbuf s i"; cases "connectbuf s' i") (auto simp: same_but_pmtu_def)
  qed
  with assms show ?thesis by (simp add: keeps_def sends_def)
qed

lemma upd_conn_keeps:
  assumes "upd_conn i f s = Inr s'" "\<And>c. status (f c) = status c" shows "keeps s s'"
proof -
  obtain c where "conn i s = Inr c" "s' = set_conn i (f c) s" using assms(1) by (auto simp: upd_conn_def res_map_Inr)
  with assms(2) show ?thesis by (auto simp: keeps_def set_conn_def conn_Inr)
qed

lemma send_conn_msg_keeps:
  assumes "send_conn_msg env cid n cmd s = Some (Inr s')" shows "keeps s s'"
proof (cases "0 \<le> n \<and> n < int CONN_MSG_SIZE")
  case True
  with assms show ?thesis by (simp add: send_conn_msg_def keeps_def)
next
  case False
  obtain c b0 b where c: "conn cid s = Inr c" "mem_write b0 0 (conn_msg_bytes c cmd s) = Inr b"
    "case ctrl_msg_buf c of Some b \<Rightarrow> b0 = b | None \<Rightarrow> 0 \<le> n \<and> b0 = replicate (nat n) 0"
    and m: "send_msg env cid ML_CON_MSG b n True (defaultSendParams c) (set_conn cid (c\<lparr> ctrl_msg_buf := Some b \<rparr>) s)
        = Some (Inr s')"
    by (rule send_conn_msg_cases [OF assms False])
  have "keeps s (set_conn cid (c\<lparr> ctrl_msg_buf := Some b \<rparr>) s)" using c(1) by (auto simp: keeps_def set_conn_def conn_Inr)
  then show ?thesis by (rule keeps_trans) (rule sends_keeps [OF send_msg_sends [OF m]])
qed

lemma send_pmtu_keeps:
  assumes "send_conn_msg_with_pmtu_discovery env cid n cmd s = Some (Inr s')" shows "keeps s s'"
proof -
  obtain s1 s2 where s1: "upd_conn cid (\<lambda>c. c\<lparr> timeout_value := \<lparr> tv_sec = 0, tv_usec = pmtu_jitter env (ticks s) \<rparr>, trials := 1 \<rparr>)
      (s\<lparr> ticks := ticks s + 1 \<rparr>) = Inr s1"
    "send_conn_msg env cid n cmd s1 = Some (Inr s2)" "reschedule_conn_msg cid s2 = Inr s'"
    using assms(1) by (auto simp: send_conn_msg_with_pmtu_discovery_def jittered_def Let_def opt_bind_Inr)
  have "keeps s (s\<lparr> ticks := ticks s + 1 \<rparr>)" by (simp add: keeps_def)
  moreover have "keeps (s\<lparr> ticks := ticks s + 1 \<rparr>) s1" by (rule upd_conn_keeps [OF s1(1)]) simp
  moreover have "keeps s2 s'" by (rule upd_conn_keeps [OF s1(3) [unfolded reschedule_conn_msg_def]]) simp
  ultimately show ?thesis using send_conn_msg_keeps [OF s1(2)] by (blast intro: keeps_trans)
qed

lemma resend_conn_keeps:
  assumes "resend_conn_msg env cid s = Some (Inr s')" shows "keeps s s'"
proof -
  obtain s1 c s2 where s1: "upd_conn cid (\<lambda>c. c\<lparr> trials := trials c + 1 \<rparr>) s = Inr s1" "conn cid s1 = Inr c"
    "send_conn_msg env cid (pmtusize c) (status c) s1 = Some (Inr s2)" "reschedule_conn_msg cid s2 = Inr s'"
    using assms(1) unfolding resend_conn_msg_def opt_bind_Inr option.inject by blast
  have "keeps s s1" by (rule upd_conn_keeps [OF s1(1)]) simp
  moreover have "keeps s2 s'" by (rule upd_conn_keeps [OF s1(4) [unfolded reschedule_conn_msg_def]]) simp
  ultimately show ?thesis using send_conn_msg_keeps [OF s1(3)] by (blast intro: keeps_trans)
qed

lemma run_conn_cbs_tells:
  assumes "run_conn_cbs cid s = Inr s'" "ready cid s" shows "tells 0 s s'"
proof -
  define es where "es = (case receive_Connection_cb s of None \<Rightarrow> [] | Some f \<Rightarrow> [Recv_connection f cid])"
  have s1: "(case receive_Connection_cb s of None \<Rightarrow> s | Some f \<Rightarrow> s\<lparr> trace := trace s @ [Recv_connection f cid] \<rparr>)
      = s\<lparr> trace := trace s @ es \<rparr>"
    by (simp add: es_def split: option.splits)
  obtain c where c: "conn cid s = Inr c" "s' = set_conn cid (c\<lparr> connection_cbs := [] \<rparr>)
      (s\<lparr> trace := (trace s @ es) @ map (\<lambda>(f, arg). Connection_cb f cid arg) (connection_cbs c) \<rparr>)"
    using assms(1) by (auto simp: run_conn_cbs_def s1 Let_def res_map_Inr conn_def)
  have r: "ready cid s'" "receive_Connection_cb s' = receive_Connection_cb s"
    using assms(2) c by (simp_all add: ready_def conn_Inr set_conn_def)
  show ?thesis
  proof (rule tells_add [of _ _ "es @ map (\<lambda>(f, arg). Connection_cb f cid arg) (connection_cbs c)"])
    show "trace s' = trace s @ es @ map (\<lambda>(f, arg). Connection_cb f cid arg) (connection_cbs c)"
      by (simp add: c(2) set_conn_def)
    show "told a s'" if "a \<in> set (es @ map (\<lambda>(f, arg). Connection_cb f cid arg) (connection_cbs c))" for a
      using that r by (auto simp: es_def split: option.splits)
    show "deliveries (es @ map (\<lambda>(f, arg). Connection_cb f cid arg) (connection_cbs c)) \<le> 0"
      by (auto simp: es_def filter_empty_conv split: option.splits)
  qed
qed

lemma upd_conn_trace: "upd_conn i f s = Inr s' \<Longrightarrow> trace s' = trace s"
  by (auto simp: upd_conn_def res_map_Inr set_conn_def)

lemma set_conn_trace [simp]: "trace (set_conn i c s) = trace s"
  by (simp add: set_conn_def)

lemma keeps_trace: "keeps s s' \<Longrightarrow> trace s' = trace s"
  by (simp add: keeps_def)

lemma recv_invite_trace:
  assumes "recv_invite env h m a s = Some (Inr s')" shows "trace s' = trace s"
proof -
  let ?ans = "\<lambda>cid s1. opt_bind (Some (upd_conn cid (\<lambda>c. c\<lparr> status := CONNECT \<rparr>) s1)) (\<lambda>s2.
      send_conn_msg_with_pmtu_discovery env cid (sint (pmtu_size m)) CONNECT s2)"
  have ans: "trace s' = trace s1" if "?ans cid s1 = Some (Inr s')" for cid s1
    using that by (auto simp: opt_bind_Inr dest!: upd_conn_trace send_pmtu_keeps keeps_trace)
  show ?thesis
  proof (cases "first_match CONNECTBUFSIZE (connectbuf s) (same_peer (env_gai env) (sock_id m))")
    case (Some cid)
    then obtain s1 where s1: "upd_conn cid (\<lambda>c. c\<lparr> external_connectionID := sint (local_con_id h) \<rparr>) s = Inr s1"
      "?ans cid s1 = Some (Inr s')"
      using assms(1) by (auto simp: recv_invite_def Let_def opt_bind_Inr)
    with ans [OF s1(2)] upd_conn_trace [OF s1(1)] show ?thesis by simp
  next
    case None
    let ?i = "first_free CONNECTBUFSIZE (connectbuf s)"
    show ?thesis
    proof (cases "?i = -1")
      case True
      with None assms show ?thesis by (simp add: recv_invite_def Let_def)
    next
      case False
      then obtain c where "?ans ?i (set_conn ?i c s) = Some (Inr s')"
        using assms(1) None by (auto simp: recv_invite_def Let_def)
      from ans [OF this] show ?thesis by simp
    qed
  qed
qed

lemma recv_connect_tells:
  assumes "recv_connect env h m s = Some (Inr s')" shows "tells 0 s s'"
proof -
  let ?cid = "hdr_con h"
  obtain go where go: "(if ?cid = -1 then Inr True
      else res_map (\<lambda>x. x \<noteq> None) (slot CONNECTBUFSIZE (connectbuf s) ?cid)) = Inr go"
    using assms(1) by (auto simp: recv_connect_def Let_def opt_bind_Inr)
  show ?thesis
  proof (cases go)
    case False
    with go assms show ?thesis by (simp add: recv_connect_def Let_def tells_trace_eq)
  next
    case True
    then obtain c where c: "conn ?cid s = Inr c"
      using go assms(1) by (auto simp: recv_connect_def Let_def opt_bind_Inr)
    show ?thesis
    proof (cases "status c = INVITE")
      case True
      let ?c = "c\<lparr> external_connectionID := sint (local_con_id h), status := READY \<rparr>"
      obtain s1 where s1: "send_conn_msg_with_pmtu_discovery env ?cid (sint (pmtu_size m)) READY (set_conn ?cid ?c s) = Some (Inr s1)"
        "run_conn_cbs ?cid s1 = Inr s'"
        using assms(1) go \<open>go\<close> c True by (auto simp: recv_connect_def Let_def opt_bind_Inr)
      note k = send_pmtu_keeps [OF s1(1)]
      have "ready ?cid (set_conn ?cid ?c s)" by (simp add: ready_def set_conn_def)
      then have "ready ?cid s1" using keeps_ready [OF k] by blast
      from run_conn_cbs_tells [OF s1(2) this] keeps_trace [OF k] show ?thesis by (simp add: tells_def)
    next
      case False
      then have "send_conn_msg_with_pmtu_discovery env ?cid (sint (pmtu_size m)) READY s = Some (Inr s')"
        using assms(1) go \<open>go\<close> c by (simp add: recv_connect_def Let_def)
      then show ?thesis by (rule tells_keeps [OF send_pmtu_keeps])
    qed
  qed
qed

lemma recv_ready_tells:
  assumes "recv_ready h s = Inr s'" shows "tells 0 s s'"
proof -
  obtain x where x: "slot CONNECTBUFSIZE (connectbuf s) (hdr_con h) = Inr x"
    using assms(1) by (auto simp: recv_ready_def res_bind_Inr)
  show ?thesis
  proof (cases "\<exists>c. x = Some c \<and> status c = CONNECT")
    case True
    then obtain c where c: "x = Some c" "status c = CONNECT" by blast
    let ?s = "set_conn (hdr_con h) (c\<lparr> status := READY \<rparr>) s"
    have r: "run_conn_cbs (hdr_con h) ?s = Inr s'" using assms(1) x c by (simp add: recv_ready_def)
    have "ready (hdr_con h) ?s" by (simp add: ready_def set_conn_def)
    from run_conn_cbs_tells [OF r this] show ?thesis by (simp add: tells_def)
  next
    case False
    with assms x show ?thesis by (auto simp: recv_ready_def tells_trace_eq split: option.splits)
  qed
qed

lemma recv_conn_msg_tells:
  fixes s s' :: "'b ml_scheme"
  assumes "recv_conn_msg env h buf pos n a s = Some (Inr s')" shows "tells 0 s s'"
proof -
  obtain bs where bs: "mem_read buf (pos + hdr_mon h) (int CONN_MSG_SIZE) = Inr bs"
    using assms(1) by (auto simp: recv_conn_msg_def split: sum.splits)
  let ?m = "(decode_conn bs)\<lparr> sock_id := swap_families (sock_id (decode_conn bs)) \<rparr>"
  let ?s = "if get_Recv_data_inf_cb env
            then s\<lparr> ticks := ticks s + 1, trace := trace s @ [Mon_recv_data bs (n - hdr_mon h)] \<rparr> else s"
  obtain es where es: "trace ?s = trace s @ es" "\<And>a u. a \<in> set es \<Longrightarrow> \<not> delivery a \<and> told a (u :: 'b ml_scheme)"
    by (cases "get_Recv_data_inf_cb env") auto
  have "s' = s \<or> recv_invite env h ?m a ?s = Some (Inr s') \<or> recv_connect env h ?m ?s = Some (Inr s')
      \<or> recv_ready h ?s = Inr s' \<or> s' = ?s"
    using assms(1) bs unfolding recv_conn_msg_def by (simp only: Let_def sum.case split: if_splits) auto
  then have "s' = s \<or> tells 0 ?s s'"
    by (elim disjE) (simp_all add: recv_connect_tells recv_ready_tells tells_trace_eq tells_trace_eq [OF recv_invite_trace])
  then show ?thesis using tells_trans_trace [OF es(1) es(2)] tells_trace_eq [OF refl, of 0 s] by blast
qed

lemma deliver_tells:
  assumes "deliver env h r s = Inr s'" "rd_ok i r" "rd_status r = COMPLETE" "rd_status r' = COMPLETE"
    and "rd_msgtype r' = rd_msgtype r" "rd_connectionID r' = rd_connectionID r"
    and "monitoringDataHeaderLen r' = monitoringDataHeaderLen r" "recvbuf r' = recvbuf r"
    and "arrivedBytes r' = arrivedBytes r" "bufsize r' = bufsize r" "recvFragments r' = recvFragments r"
  shows "tells 1 s (set_rd i r' s')"
proof -
  let ?mon = "monitoringDataHeaderLen r"
  define es where "es = (if get_Recv_data_inf_cb env then [Mon_recv_data (recvbuf r) (bufsize r)] else [])"
  have len: "0 \<le> ?mon" "?mon \<le> bufsize r" "int (length (recvbuf r)) = bufsize r" "arrivedBytes r = bufsize r - ?mon"
    using assms(2,3) by (auto simp: rd_ok_def)
  have all: "int (length (drop (nat ?mon) (recvbuf r))) = bufsize r - ?mon" using len by simp
  have bs: "bs = drop (nat ?mon) (recvbuf r)"
    if "mem_read (recvbuf r) ?mon (bufsize r - ?mon) = Inr bs" for bs
    using that len by (auto simp: mem_read_def nat_diff_distrib' split: if_splits)
  define says where "says f p \<longleftrightarrow> recvcbbuf s' (uint (msg_type h)) = Some f \<and> nrMissingBytes p = 0 \<and> rp_connectionID p = rd_connectionID r
      \<and> rp_msgtype p = rd_msgtype r \<and> rp_recvFragments p = recvFragments r"
    for f and p :: recv_params
  obtain fs where fs: "trace s' = trace s @ es @ fs"
    "fs = [] \<or> (\<exists>f p. fs = [Recv_data f (drop (nat ?mon) (recvbuf r)) (rd_msgtype r) p] \<and> says f p)"
    using assms(1) len(4)
    by (auto simp: deliver_def Let_def res_bind_Inr res_map_Inr es_def says_def slot_def dest!: bs split: option.splits if_splits)
  show ?thesis
  proof (rule tells_add [of _ _ "es @ fs"])
    show "trace (set_rd i r' s') = trace s @ es @ fs" using fs(1) by (simp add: set_rd_def)
    show "deliveries (es @ fs) \<le> 1" using fs(2) by (auto simp: es_def)
    have "told a (set_rd i r' s')" if "a \<in> set fs" for a
    proof -
      obtain f p where f: "a = Recv_data f (drop (nat ?mon) (recvbuf r)) (rd_msgtype r) p" "says f p"
        using fs(2) \<open>a \<in> set fs\<close> by auto
      have "recvdatabuf (set_rd i r' s') i = Some r'" "recvcbbuf (set_rd i r' s') = recvcbbuf s'"
        by (simp_all add: set_rd_def)
      moreover have "arrivedBytes r' = int (length (drop (nat ?mon) (recvbuf r)))" using assms(9) len(4) all by simp
      ultimately show ?thesis
        unfolding f(1) told.simps using f(2) [unfolded says_def] assms(4-11) all by (intro conjI exI [of _ "uint (msg_type h)"] exI [of _ i] exI [of _ r']) simp_all
    qed
    then show "told a (set_rd i r' s')" if "a \<in> set (es @ fs)" for a
      using that by (auto simp: es_def split: if_splits)
  qed
qed

lemma start_timers_same:
  "rd_status (start_timers r s) = rd_status r" "rd_msgtype (start_timers r s) = rd_msgtype r"
  "rd_connectionID (start_timers r s) = rd_connectionID r" "recvbuf (start_timers r s) = recvbuf r"
  "monitoringDataHeaderLen (start_timers r s) = monitoringDataHeaderLen r" "arrivedBytes (start_timers r s) = arrivedBytes r"
  "bufsize (start_timers r s) = bufsize r" "recvFragments (start_timers r s) = recvFragments r"
  by (simp_all add: start_timers_def)

lemma finish_recv_tells:
  assumes "finish_recv env h i r s = Inr s'" "rd_ok i r" shows "tells 1 s s'"
proof (cases "recv_data_callback s \<and> rd_status r = COMPLETE")
  case True
  then obtain s1 where "deliver env h r s = Inr s1" "s' = set_rd i (start_timers r s1) s1"
    using assms(1) by (auto simp: finish_recv_def res_map_Inr)
  with True assms(2) show ?thesis by (auto intro: deliver_tells [unfolded One_nat_def] simp: start_timers_same)
next
  case False
  with assms(1) show ?thesis by (auto simp: finish_recv_def set_rd_def tells_trace_eq split: if_splits)
qed

lemma recv_data_msg_tells:
  assumes "recv_data_msg env h buf pos n s0 = Inr s'" "conn_inv X s0" "msg_type h < 127" shows "tells 1 s0 s'"
proof (rule recv_data_msg_cases [OF assms])
  show "tells 1 s0 s'" if "s' = s0\<lparr> receivedDataPktCounter := k \<rparr>" for k using that by (simp add: tells_trace_eq)
  show "tells 1 s0 s'" if "finish_recv env h i r s1 = Inr s'" "rd_ok i r" "trace s1 = trace s0" for i r s1
    using finish_recv_tells [OF that(1,2)] that(3) by (simp add: tells_def)
qed

lemma resend_conn_trace: "resend_conn_msg env cid s = Some (Inr s') \<Longrightarrow> trace s' = trace s"
  by (rule keeps_trace [OF resend_conn_keeps])

lemma pmtu_timeout_tells:
  assumes "pmtu_timeout_cb env cid s = Some (Inr s')" shows "tells 0 s s'"
proof -
  obtain x where x: "slot CONNECTBUFSIZE (connectbuf s) cid = Inr x"
    using assms(1) by (auto simp: pmtu_timeout_cb_def opt_bind_Inr)
  show ?thesis
  proof (cases "\<exists>c. x = Some c \<and> status c \<noteq> READY")
    case False
    with assms x show ?thesis by (auto simp: pmtu_timeout_cb_def intro: tells_trace_eq split: option.splits)
  next
    case True
    then obtain c where c: "x = Some c" "status c \<noteq> READY" by blast
    obtain tout s1 where j: "(if trials c = MAX_TRIALS then jittered env s else (timeout_value c, s)) = (tout, s1)"
      by fastforce
    have s1: "trace s1 = trace s" using j by (auto simp: jittered_def split: if_splits)
    let ?c1 = "pmtu_reduce tout (pmtu_backoff c)"
    define es where "es = (case failed_Connection_cb s1 of None \<Rightarrow> [] | Some f \<Rightarrow> [Failed_connection f cid])"
    have es: "(case failed_Connection_cb s1 of None \<Rightarrow> s1 | Some f \<Rightarrow> s1\<lparr> trace := trace s1 @ [Failed_connection f cid] \<rparr>)
        = s1\<lparr> trace := trace s1 @ es \<rparr>" by (simp add: es_def split: option.splits)
    have "pmtu_timeout_cb env cid s = (if pmtusize ?c1 = -1 then
           (if internal_connect ?c1
            then resend_conn_msg env cid (set_conn cid (?c1\<lparr> internal_connect := False, pmtusize := 1372 \<rparr>) s1)
            else Some (mlCloseConnection cid (set_conn cid ?c1 (s1\<lparr> trace := trace s1 @ es \<rparr>))))
         else resend_conn_msg env cid (set_conn cid ?c1 s1))"
      using x c j unfolding pmtu_timeout_cb_def by (simp add: Let_def es)
    then consider "resend_conn_msg env cid (set_conn cid (?c1\<lparr> internal_connect := False, pmtusize := 1372 \<rparr>) s1) = Some (Inr s')"
      | "mlCloseConnection cid (set_conn cid ?c1 (s1\<lparr> trace := trace s1 @ es \<rparr>)) = Inr s'"
      | "resend_conn_msg env cid (set_conn cid ?c1 s1) = Some (Inr s')"
      using assms(1) by (metis option.inject)
    then show ?thesis
    proof cases
      case 1
      from resend_conn_trace [OF this] s1 show ?thesis by (simp add: tells_trace_eq)
    next
      case 2
      then have s': "trace s' = trace s @ es" "connectbuf s' cid = None" "failed_Connection_cb s' = failed_Connection_cb s1"
        using s1 by (auto simp: mlCloseConnection_def res_map_Inr set_conn_def)
      show ?thesis by (rule tells_add [OF s'(1)]) (use s'(2,3) in \<open>auto simp: es_def split: option.splits\<close>)
    next
      case 3
      from resend_conn_trace [OF this] s1 show ?thesis by (simp add: tells_trace_eq)
    qed
  qed
qed

lemma open_known_tells:
  assumes "mlOpenConnection env (Some ext) (Some f) arg params s = Some (Inr (i, s'))"
    and "NAT_traversal s" "mlConnectionExist env ext False s \<ge> 0"
  shows "tells 0 s s'"
proof -
  let ?cid = "mlConnectionExist env ext False s"
  obtain c where c: "conn ?cid s = Inr c"
    using assms by (auto simp: mlOpenConnection_def Let_def opt_bind_Inr)
  let ?nk = "keepalive (defaultSendParams c) = 0 \<and> keepalive params \<noteq> 0"
  let ?s1 = "set_conn ?cid (c\<lparr> defaultSendParams := params \<rparr>) s"
  obtain s2 where s2: "(if ?nk then setupKeepalive ?cid ?s1 else Inr ?s1) = Inr s2"
    and r: "(if status c = READY then Some (Inr (?cid, s2\<lparr> trace := trace s2 @ [Connection_cb f ?cid arg] \<rparr>))
      else Some (res_map (\<lambda>s3. (?cid, s3)) (upd_conn ?cid (\<lambda>c. c\<lparr> connection_cbs := connection_cbs c @ [(f, arg)] \<rparr>) s2)))
      = Some (Inr (i, s'))"
    using assms c by (auto simp: mlOpenConnection_def Let_def opt_bind_Inr)
  have cb: "connectbuf s2 = connectbuf ?s1" "trace s2 = trace s"
    using s2 setupKeepalive_inv [of ?cid ?s1 s2] by (auto split: if_splits)
  show ?thesis
  proof (cases "status c = READY")
    case True
    then have s': "s' = s2\<lparr> trace := trace s2 @ [Connection_cb f ?cid arg] \<rparr>" using r by auto
    have "ready ?cid s'" using True by (simp add: s' ready_def cb set_conn_def)
    then show ?thesis by (intro tells_add [of _ _ "[Connection_cb f ?cid arg]"]) (auto simp: s' cb)
  next
    case False
    then have "upd_conn ?cid (\<lambda>c. c\<lparr> connection_cbs := connection_cbs c @ [(f, arg)] \<rparr>) s2 = Inr s'"
      using r by (auto simp: res_map_Inr)
    from upd_conn_trace [OF this] cb(2) show ?thesis by (simp add: tells_trace_eq)
  qed
qed

lemma open_new_trace:
  assumes "mlOpenConnection env (Some ext) (Some f) arg params s = Some (Inr (i, s'))"
    and "NAT_traversal s" "\<not> mlConnectionExist env ext False s \<ge> 0" "first_free CONNECTBUFSIZE (connectbuf s) \<noteq> -1"
  shows "trace s' = trace s"
proof -
  define j where "j = first_free CONNECTBUFSIZE (connectbuf s)"
  define s1 where "s1 = set_conn j ((new_conn env ext s)\<lparr> pmtusize := 1372,
      internal_connect := internal_connect_plausible ext (local_socketID s), connectionID := j,
      connection_cbs := [(f, arg)], external_connectionID := -1, defaultSendParams := params \<rparr>) s"
  obtain s2 n where s2: "(if keepalive params \<noteq> 0 then setupKeepalive j s1 else Inr s1) = Inr s2"
    and p: "send_conn_msg_with_pmtu_discovery env j n INVITE s2 = Some (Inr s')"
    by (rule open_new_sends [OF assms j_def s1_def])
  have "trace s1 = trace s" by (simp add: s1_def)
  then have "trace s2 = trace s" using s2 setupKeepalive_inv [of j s1 s2] by (auto split: if_splits)
  then show ?thesis using keeps_trace [OF send_pmtu_keeps [OF p]] by simp
qed

lemma mlOpenConnection_tells:
  assumes "mlOpenConnection env sid cb arg params s = Some (Inr (i, s'))" shows "tells 0 s s'"
proof (cases "sid = None \<or> cb = None \<or> \<not> NAT_traversal s")
  case True
  with assms show ?thesis by (auto simp: mlOpenConnection_def tells_trace_eq split: option.splits)
next
  case False
  then obtain ext f where p: "sid = Some ext" "cb = Some f" "NAT_traversal s" by auto
  note op = assms(1) [unfolded p(1,2)]
  consider "mlConnectionExist env ext False s \<ge> 0"
    | "\<not> mlConnectionExist env ext False s \<ge> 0" "first_free CONNECTBUFSIZE (connectbuf s) \<noteq> -1"
    | "\<not> mlConnectionExist env ext False s \<ge> 0" "first_free CONNECTBUFSIZE (connectbuf s) = -1" by blast
  then show ?thesis
  proof cases
    case 1
    show ?thesis by (rule open_known_tells [OF op p(3) 1])
  next
    case 2
    show ?thesis by (rule tells_trace_eq [OF open_new_trace [OF op p(3) 2]])
  next
    case 3
    with op p(3) show ?thesis by (simp add: mlOpenConnection_def Let_def tells_trace_eq)
  qed
qed

lemma keepalive_fn_trace:
  assumes "keepalive_fn env peer s = Some (Inr s')" shows "trace s' = trace s"
proof -
  let ?cid = "mlConnectionExist env peer False s"
  show ?thesis
  proof (cases "?cid < 0")
    case True
    with assms show ?thesis by (simp add: keepalive_fn_def Let_def)
  next
    case False
    then obtain c where c: "conn ?cid s = Inr c"
      using assms(1) by (auto simp: keepalive_fn_def Let_def opt_bind_Inr)
    show ?thesis
    proof (cases "keepalive (defaultSendParams c) \<le> 0")
      case True
      with assms False c show ?thesis by (simp add: keepalive_fn_def Let_def)
    next
      case pos: False
      let ?msg = "keepalive_text (keepalive_seq c)" and ?s = "set_conn ?cid (c\<lparr> keepalive_seq := keepalive_seq c + 1 \<rparr>) s"
      obtain s1 e where s1: "(if status c = READY then send_msg env ?cid MSG_TYPE_ML_KEEPALIVE ?msg (int (length ?msg)) False
            (defaultSendParams c) ?s else Some (Inr s)) = Some (Inr s1)" "s' = s1\<lparr> once := e \<rparr>"
        using assms(1) False c pos unfolding keepalive_fn_def Let_def by (simp add: opt_bind_Inr) blast
      then show ?thesis
        by (cases "status c = READY") (auto dest: keeps_trace [OF sends_keeps [OF send_msg_sends]])
    qed
  qed
qed

lemma report_socketID_tells: "tells 0 s (report_socketID st s)"
  by (auto simp: report_socketID_def tells_def split: option.splits)

lemma try_stun_tells:
  assumes "try_stun env s = Inr s'" shows "tells 0 s s'"
proof (cases "isStunDefined s")
  case False
  define t where "t = s\<lparr> local_socketID := (local_socketID s)\<lparr> external_addr := internal_addr (local_socketID s) \<rparr>, NAT_traversal := True \<rparr>"
  have "s' = report_socketID 0 t" using assms False by (simp add: try_stun_def t_def)
  with report_socketID_tells [of t 0] show ?thesis by (simp add: tells_def t_def)
next
  case True
  then obtain s1 where s1: "send_stun_request env (socketfd s) (stun_server s) s = Inr s1" "trace s' = trace s1"
    using assms by (auto simp: try_stun_def res_map_Inr)
  obtain v where v: "s1 = snd (sendPacketFinal env (socketfd s) v (stun_server s) (s\<lparr> ticks := ticks s + 4 \<rparr>))"
    using s1(1) by (auto simp: send_stun_request_def Let_def res_map_Inr)
  have "sendPacketFinal env (socketfd s) v (stun_server s) (s\<lparr> ticks := ticks s + 4 \<rparr>)
      = (fst (sendPacketFinal env (socketfd s) v (stun_server s) (s\<lparr> ticks := ticks s + 4 \<rparr>)), s1)"
    by (simp add: v)
  from sendPacketFinal_tables [OF this] s1(2) show ?thesis by (simp add: tells_trace_eq)
qed

lemma mlInit_tells:
  assumes "mlInit env poll t port ip sport host cb s = Inr (fd, s')" shows "tells 0 s s'"
proof -
  let ?s1 = "mlSetRecvTimeout t (s\<lparr> recv_data_callback := poll \<rparr>)"
  have s1: "trace ?s1 = trace s" by (simp add: mlSetRecvTimeout_def Let_def)
  have unset: "trace (unsetStunServer env v) = trace v" for v by (simp add: unsetStunServer_def)
  have reg: "trace (register_recv_localsocketID_cb cb v) = trace v" for v
    by (simp add: register_recv_localsocketID_cb_def split: option.splits)
  have "\<exists>u. trace u = trace s \<and> create_socket env port ip u = Inr (fd, s')"
  proof (cases host)
    case None
    with assms s1 show ?thesis
      by (intro exI [of _ "register_recv_localsocketID_cb cb (unsetStunServer env ?s1)"]) (simp add: mlInit_def unset reg)
  next
    case (Some h)
    obtain r v where v: "mlSetStunServer env sport h ?s1 = (r, v)" by fastforce
    then have "trace v = trace s" using s1 by (auto simp: mlSetStunServer_def split: prod.splits)
    with assms Some v show ?thesis
      by (intro exI [of _ "register_recv_localsocketID_cb cb (if r = 0 then unsetStunServer env v else v)"])
        (simp add: mlInit_def unset reg)
  qed
  then obtain u where u: "trace u = trace s" "create_socket env port ip u = Inr (fd, s')" by blast
  let ?u = "u\<lparr> local_socketID := (local_socketID u)\<lparr> internal_addr := fst (init_sockaddr (env_gai env) zero_sockaddr port ip) \<rparr>,
      socketfd := createSocket env port ip \<rparr>"
  from u(2) have "s' = ?u \<or> try_stun env ?u = Inr s'"
    by (auto simp: create_socket_def Let_def res_map_Inr split: if_splits)
  then have "tells 0 ?u s'" using try_stun_tells tells_trace_eq [OF refl] by blast
  then show ?thesis using u(1) by (simp add: tells_def)
qed

lemma nat_traversal_tells:
  fixes s s' :: "'b ml_scheme"
  assumes "nat_traversal_timeout env s = Inr s'" shows "tells 0 s s'"
proof (cases "NAT_traversal s")
  case True
  with assms show ?thesis by (simp add: nat_traversal_timeout_def tells_trace_eq)
next
  case False
  then have t: "try_stun env (report_socketID 2 s) = Inr s'" using assms by (simp add: nat_traversal_timeout_def)
  obtain es where es: "trace (report_socketID 2 s) = trace s @ es" "\<And>a u. a \<in> set es \<Longrightarrow> \<not> delivery a \<and> told a (u :: 'b ml_scheme)"
    by (cases "receive_SocketID_cb s") (auto simp: report_socketID_def)
  show ?thesis by (rule tells_trans_trace [OF es(1) es(2) try_stun_tells [OF t]])
qed

lemma recv_stun_msg_tells:
  assumes "recv_stun_msg env buf n s = Inr s'" shows "tells 0 s s'"
  using assms report_socketID_tells
  by (auto simp: recv_stun_msg_def res_bind_Inr Let_def report_socketID_def tells_def split: if_splits option.splits)

lemma handle_msg_tells:
  assumes "handle_msg env h buf pos n a s = Some (Inr s')" "conn_inv {} s" shows "tells 1 s s'"
  using assms
  by (auto simp: handle_msg_def dest: recv_data_msg_tells [unfolded One_nat_def]
      intro: tells_trace_eq tells_le [OF recv_conn_msg_tells le0] tells_keeps [OF sends_keeps [OF recv_nack_sends]] split: if_splits)

lemma recv_pkg_tells:
  fixes s s' :: "'b ml_scheme"
  assumes "recv_pkg env stack d s = Some (Inr s')" "conn_inv {} s" shows "tells 1 s s'"
proof (cases d)
  case None
  with assms show ?thesis by (simp add: recv_pkg_def tells_trace_eq)
next
  case (Some da)
  obtain bytes a where da: "da = (bytes, a)" by fastforce
  let ?buf = "packet_buf stack bytes"
  let ?h = "decode_header ?buf" and ?n = "int (length bytes)"
  let ?pos = "int MSG_HEADER_SIZE + uint (len_mon_packet_hdr ?h)"
  let ?m = "Mon_recv_pkt (drop (nat ?pos) ?buf) ?n"
  let ?s = "s\<lparr> ticks := ticks s + 1, trace := trace s @ [?m] \<rparr>"
  have iv: "conn_inv {} ?s" using assms(2) by simp
  have mon: "tells 1 s s'" if "handle_msg env ?h ?buf ?pos (?n - ?pos) a ?s = Some (Inr s')"
    by (rule tells_trans_trace [of ?s s "[?m]", OF _ _ handle_msg_tells [OF that iv]]) auto
  have "s' = s \<or> recv_stun_msg env ?buf (length bytes) s = Inr s'
      \<or> handle_msg env ?h ?buf ?pos (?n - ?pos) a s = Some (Inr s') \<or> handle_msg env ?h ?buf ?pos (?n - ?pos) a ?s = Some (Inr s')"
    using assms(1) unfolding recv_pkg_def Some da option.case prod.case Let_def by (simp only: split: if_splits) auto
  then show ?thesis using mon handle_msg_tells [OF _ assms(2)] tells_le [OF recv_stun_msg_tells le0] tells_trace_eq [OF refl, of 1 s] by auto
qed

lemma nack_trace: "send_nack env r a b s = Some (Inr s1) \<Longrightarrow> trace s1 = trace s"
  by (rule keeps_trace [OF sends_keeps [OF send_nack_sends]])

lemma pkt_timeout_trace:
  assumes "pkt_recv_timeout_cb env i seq gap retry s = Some (Inr s')" shows "trace s' = trace s"
proof (rule pkt_timeout_cases [OF assms])
  show "trace s' = trace s" if "send_nack env r a b s = Some (Inr s1)" "s' = s1 \<or> s' = s1\<lparr> once := e \<rparr>" for r a b s1 e
    using nack_trace [OF that(1)] that(2) by auto
qed simp

lemma last_pkt_timeout_trace:
  assumes "last_pkt_recv_timeout_cb env i s = Some (Inr s')" shows "trace s' = trace s"
  using assms
  by (auto simp: last_pkt_recv_timeout_cb_def Let_def set_rd_def dest!: nack_trace split: sum.splits option.splits if_splits)

lemma fire_once_tells:
  assumes "fire_once env e s = Some (Inr s')" shows "tells 0 s s'"
  using assms by (cases e) (auto intro: tells_trace_eq keepalive_fn_trace pkt_timeout_trace nat_traversal_tells)

lemma setOutputRateParams_trace: "trace (setOutputRateParams env b d s) = trace (s :: 'a ml_scheme)"
proof -
  obtain r s1 where o: "outputRateControl env 0 (s\<lparr> bucket_size := b \<rparr>) = (r, s1)" by fastforce
  from ml_same_more(7) [OF outputRateControl_more [OF o]] show ?thesis by (simp add: setOutputRateParams_def o)
qed

lemma ml_exec_tells:
  assumes "ml_exec env ev s = Some (Inr s')" "conn_inv {} s" shows "tells (may_deliver ev) s s'"
proof (cases ev)
  case (Once k)
  then have "fire_once env (fst (once s ! k)) (s\<lparr> once := take k (once s) @ drop (Suc k) (once s) \<rparr>) = Some (Inr s')"
    using assms(1) by simp
  from fire_once_tells [OF this] show ?thesis by (simp add: tells_def Once)
next
  case (Open sid cb arg params)
  with assms obtain i where "mlOpenConnection env sid cb arg params s = Some (Inr (i, s'))" by (auto simp: res_map_Inr)
  then show ?thesis by (rule tells_le [OF mlOpenConnection_tells le0])
next
  case (Send_all i c nr ty sp)
  then obtain r where "mlSendAllData env i c nr ty sp s = Some (Inr (r, s'))" using assms by (auto simp: res_map_Inr)
  then have "s' = s \<or> (\<exists>b n. mlSendData env i b n ty sp s = Some (Inr s'))"
    by (auto simp: mlSendAllData_def opt_bind_Inr split: if_splits)
  then show ?thesis using tells_keeps [OF sends_keeps [OF mlSendData_sends]] tells_trace_eq [OF refl, of "may_deliver ev" s] by auto
next
  case Free_space
  then show ?thesis using assms(1) by (auto intro: tells_keeps [OF sends_keeps [OF fire_free_space_sends]])
next
  case (Send i buf n ty sp)
  then show ?thesis using assms(1) by (auto intro: tells_keeps [OF sends_keeps [OF mlSendData_sends]])
next
  case (Recv_timer i)
  then show ?thesis using assms(1)
    by (auto simp: recv_timeout_cb_def res_bind_Inr Let_def intro!: tells_trace_eq split: option.splits)
next
  case (Close i)
  then show ?thesis using assms(1) by (auto simp: mlCloseConnection_def res_map_Inr intro!: tells_trace_eq)
next
  case (Set_rate b d q1 q2 h)
  then show ?thesis using assms(1)
    by (auto simp: mlSetRateLimiterParams_def setQueuesParams_def setOutputRateParams_trace intro!: tells_trace_eq)
next
  case (Init poll t port ip sport host cb)
  with assms(1) obtain fd where "mlInit env poll t port ip sport host cb s = Inr (fd, s')" by (auto simp: res_map_Inr)
  then show ?thesis by (rule tells_le [OF mlInit_tells le0])
qed (use assms in \<open>auto simp: mlRegisterRecvDataCb_def mlRegisterRecvConnectionCb_def mlRegisterErrorConnectionCb_def
    register_recv_localsocketID_cb_def mlSetRecvTimeout_def mlSetStunServer_def Let_def res_map_Inr
    intro: recv_pkg_tells [unfolded One_nat_def] pmtu_timeout_tells tells_trace_eq [OF last_pkt_timeout_trace] tells_trace_eq
    split: option.splits prod.splits\<close>)

section \<open>Every state, every step\<close>

abbreviation occurs :: "'e os_env_scheme \<Rightarrow> ml_event \<Rightarrow> 'a ml_scheme \<Rightarrow> 'a ml_scheme \<Rightarrow> bool" where
  "occurs env ev s s' \<equiv> pending ev s \<and> ml_exec env ev s = Some (Inr s')"

lemma ml_step_occurs: "(\<lambda>s s'. \<exists>ev. occurs env ev s s') = ml_step env"
  by (intro ext) (auto elim: ml_stepE intro: happens)

interpretation layer: step_system "occurs env" "conn_inv {}" "\<lambda>ev. tells (may_deliver ev)" for env
  by unfold_locales (auto intro: ml_exec_inv ml_exec_tells)

lemmas layer_inv = layer.reach_inv [unfolded ml_step_occurs]
lemmas layer_tells = layer.reach_guar [unfolded ml_step_occurs]

lemma empty_tables_inv:
  "connectbuf s = (\<lambda>_. None) \<Longrightarrow> recvdatabuf s = (\<lambda>_. None) \<Longrightarrow> isQueueEmpty s \<Longrightarrow> conn_inv {} s"
  by (simp add: conn_inv_def awake_def)

text \<open>C2: Whatever happens to the library, its tables stay well-formed. Started with empty tables and an
  empty transmit queue, every state it reaches through initialisation, datagrams with any contents,
  timers and calls of the application has every used slot inside its table, control buffers that
  hold a whole connection message, no callback waiting on an established connection, receive buffers
  of the size they are said to have for messages of possible connections and types, gap counters
  inside the gap array, and a planned event whenever a packet waits for the rate limiter.\<close>

theorem tables_invariant:
  assumes "(ml_step env)\<^sup>*\<^sup>* s0 s" and "connectbuf s0 = (\<lambda>_. None)" "recvdatabuf s0 = (\<lambda>_. None)" "isQueueEmpty s0"
  shows "(\<forall>i c. connectbuf s i = Some c \<longrightarrow> 0 \<le> i \<and> i < 10000
      \<and> (\<forall>b. ctrl_msg_buf c = Some b \<longrightarrow> CONN_MSG_SIZE \<le> length b) \<and> (status c = READY \<longrightarrow> connection_cbs c = []))
    \<and> (\<forall>i r. recvdatabuf s i = Some r \<longrightarrow> rd_ok i r)
    \<and> (isQueueEmpty s \<or> planned s \<noteq> [])"
proof -
  have "conn_inv {} s" by (rule layer_inv [OF assms(1) empty_tables_inv [OF assms(2-4)]])
  then show ?thesis by (simp add: conn_inv_def in_table_def CONNECTBUFSIZE_def ctrl_ok_def cbs_ok_def awake_def)
qed

text \<open>C3: The library tells the application only what it holds to be so: in every reachable state,
  whatever happens next, it only adds to the callbacks made before; nothing but a datagram delivers a
  message, and one datagram delivers at most one. A delivery goes to a callback that is registered
  and hands over all the bytes, after the data header, of a receive slot of the connection, type and number of fragments it
  names, as many as the message was announced to have and as the library has counted as received: its slot
  is COMPLETE. (That count is the library's own: it counts a fragment that comes twice as two, and
  \<open>duplicate_fragment_completes\<close> shows what it delivers then.) A callback for an established
  connection names one that is READY, one for a failed connection names a slot that is free, and both
  are the ones registered.\<close>

theorem callbacks_tell_truth:
  assumes "(ml_step env)\<^sup>*\<^sup>* s0 s" and "connectbuf s0 = (\<lambda>_. None)" "recvdatabuf s0 = (\<lambda>_. None)" "isQueueEmpty s0"
    and "pending ev s" "ml_exec env ev s = Some (Inr s')"
  shows "\<exists>es. trace s' = trace s @ es \<and> (\<forall>a \<in> set es. told a s') \<and> deliveries es \<le> may_deliver ev"
  using layer_tells [OF assms(1) empty_tables_inv [OF assms(2-4)] conjI [OF assms(5,6)]] by (simp only: tells_def)

text \<open>A run of a started library without connections (\<open>idle\<close>): a peer's INVITE comes in and gives it a
  connection, then a data packet with a message of three bytes. (The INVITE proposes a path MTU of 0,
  so that the library answers nothing and the state after it can be written down.)\<close>

lemma idle_tables:
  "isQueueEmpty idle" "connectbuf idle = (\<lambda>_. None)" "recvdatabuf idle = (\<lambda>_. None)"
  by (simp_all add: idle_def isQueueEmpty_def)

definition invite_bytes :: "byte list" where
  "invite_bytes = encode_header \<lparr> offset = 0, msg_length = 264, local_con_id = 4, remote_con_id = - 1, msg_seq_num = 0,
       msg_type = 127, len_mon_data_hdr = 0, len_mon_packet_hdr = 0 \<rparr>
     @ encode_conn \<lparr> comand_type = status_code INVITE, pmtu_size = word_of_int 0, sock_id = swap_families sid0 \<rparr>"

lemma sid0_wf: "socket_ID_wf sid0"
  by (simp add: socket_ID_wf_def sockaddr_wf_def sid0_def ipv4_sockaddr_def)

lemma invite_dgram: "conn_dgram (3, [invite_bytes], a) 4 (-1) INVITE 0 sid0"
  unfolding conn_dgram_def
proof (intro exI conjI)
  let ?h = "\<lparr> offset = 0, msg_length = 264, local_con_id = 4, remote_con_id = - 1, msg_seq_num = 0,
       msg_type = 127, len_mon_data_hdr = 0, len_mon_packet_hdr = 0 \<rparr> :: msg_header"
  let ?m = "\<lparr> comand_type = status_code INVITE, pmtu_size = word_of_int 0, sock_id = swap_families sid0 \<rparr>"
  show "wire_bytes (3, [invite_bytes], a) = encode_header ?h @ [] @ [] @ encode_conn ?m @ []"
    by (simp add: wire_bytes_def invite_bytes_def)
  have "length (encode_header ?h) = MSG_HEADER_SIZE" by (rule header.length_enc) simp
  moreover have "length (encode_conn ?m) = CONN_MSG_SIZE" by (rule conn.length_enc) (simp add: sid0_wf)
  ultimately show "length (wire_bytes (3, [invite_bytes], a)) \<le> MAX_PKT"
    by (simp add: wire_bytes_def invite_bytes_def MSG_HEADER_SIZE_def CONN_MSG_SIZE_def MAX_PKT_def)
qed (simp_all add: bad_lengths_def)

lemma first_free_empty: "first_free CONNECTBUFSIZE (\<lambda>_. None :: connect_data option) = 0"
  by (simp add: first_free_def CONNECTBUFSIZE_def upto_rec1)

lemma invited:
  obtains c t where "recv_pkg os0 (replicate MAX_PKT 0) (Some (invite_bytes, internal_addr sid0)) idle
    = Some (Inr (set_conn 0 c (idle\<lparr> ticks := t \<rparr>)))"
proof -
  obtain h m where p: "recv_pkg os0 (replicate MAX_PKT 0) (Some (invite_bytes, internal_addr sid0)) idle
      = recv_invite os0 h m (internal_addr sid0) idle" "pmtu_size m = word_of_int 0"
    by (rule recv_conn_dgram [OF invite_dgram [of "internal_addr sid0"] sid0_wf, where stack = "replicate MAX_PKT 0" and env = os0
        and a = "internal_addr sid0" and s = idle])
      (use idle_ok(1) in \<open>simp_all add: host_ok_def mlCompareAddr_same wire_bytes_def\<close>)
  have in0: "in_table CONNECTBUFSIZE 0" by (simp add: in_table_def CONNECTBUFSIZE_def)
  have set0 [simp]: "conn 0 (set_conn 0 c s) = Inr c" "conn 0 (s\<lparr> ticks := t \<rparr>) = conn 0 s" for c t and s :: ml
    using in0 by (simp_all add: conn_def entry_def slot_def set_conn_def)
  have none: "first_match CONNECTBUFSIZE (connectbuf idle) P = None" for P
    by (simp add: idle_tables(2) first_match_None)
  have free: "first_free CONNECTBUFSIZE (connectbuf idle) = 0" by (simp add: idle_tables(2) first_free_empty)
  have again: "set_conn 0 c (set_conn 0 d s) = set_conn 0 c s" "set_conn 0 c s\<lparr> ticks := t \<rparr> = set_conn 0 c (s\<lparr> ticks := t \<rparr>)"
    for c d t and s :: ml
    by (simp_all add: set_conn_def)
  have "\<exists>c t. recv_invite os0 h m (internal_addr sid0) idle = Some (Inr (set_conn 0 c (idle\<lparr> ticks := t \<rparr>)))"
    unfolding recv_invite_def Let_def none free option.case p(2)
    by (simp add: upd_conn_def send_conn_msg_with_pmtu_discovery_def jittered_def send_conn_msg_def CONN_MSG_SIZE_def
        reschedule_conn_msg_def again) blast
  with p(1) that show thesis by auto
qed

lemma idle_receives:
  assumes "s = set_conn 0 c (idle\<lparr> ticks := t \<rparr>)"
  shows "\<exists>s' p. recv_pkg os0 (replicate MAX_PKT 0) (Some (encode_header (hdr0 0 3) @ [1, 2, 3], internal_addr sid0)) s = Some (Inr s')
    \<and> trace s' = [Recv_data 77 [1, 2, 3] 5 p]"
proof -
  let ?bytes = "encode_header (hdr0 0 3) @ [1, 2, 3 :: byte]" and ?st = "replicate MAX_PKT (0 :: byte)"
  have len: "length ?bytes \<le> MAX_PKT" using header.length_enc [of "hdr0 0 3"] by (simp add: MSG_HEADER_SIZE_def MAX_PKT_def)
  note pkg = recv_pkg_data [OF len, where stack = ?st and h = "hdr0 0 3" and ph = "[]" and rest = "[1, 2, 3]" and env = os0]
  have p: "recv_pkg os0 ?st (Some (?bytes, internal_addr sid0)) s
      = Some (recv_data_msg os0 (hdr0 0 3) (packet_buf ?st ?bytes) (int MSG_HEADER_SIZE) 3 s)"
    "mem_read (packet_buf ?st ?bytes) (int MSG_HEADER_SIZE) 3 = Inr [1, 2, 3]"
    using pkg(1) [where a = "internal_addr sid0" and s = s] pkg(2) by (simp_all add: hdr0_def bad_lengths_def menv_os0)
  have c: "carries (rx0 [1, 2, 3]) (hdr0 0 3, packet_buf ?st ?bytes, int MSG_HEADER_SIZE, 3) (0, [1, 2, 3])"
    using p(2) by (simp add: carries_def rx0_def hdr0_def hdr_con_def hdr_seq_def hdr_off_def hdr_mon_def)
  have "rx_ready os0 (rx0 [1, 2, 3]) 77 s" using rx0_ready(1) [of "[1, 2, 3]"]
    by (simp add: menv_os0) (simp add: rx_ready_def rx0_def assms set_conn_def idle_def)
  moreover have "rx_slot (rx0 [1, 2, 3]) [] s" using rx0_ready(2) [of "[1, 2, 3]"]
    by (simp add: rx_slot_def assms set_conn_def idle_def)
  ultimately obtain s' r q where r: "recv_data_msg os0 (hdr0 0 3) (packet_buf ?st ?bytes) (int MSG_HEADER_SIZE) 3 s = Inr s'"
    "partial (rx0 [1, 2, 3]) ([] @ [(0, [1, 2, 3])]) r" "trace s' = trace s @ [Recv_data 77 (drop (length (rx_mon (rx0 [1, 2, 3]))) (recvbuf r)) (rx_type (rx0 [1, 2, 3])) q]"
    using recv_data_msg_step [OF c] by (fastforce simp: frag_bytes_def rx0_def)
  have "recvbuf r = [1, 2, 3]"
    using r(2) by (intro nth_equalityI) (auto simp: partial_def rx0_def less_Suc_eq numeral_3_eq_3)
  moreover have "trace s = []" by (simp add: assms set_conn_def idle_def)
  ultimately show ?thesis using p(1) r(1,3) by (auto simp: rx0_def)
qed

lemma idle_run:
  "(ml_step os0)\<^sup>*\<^sup>* idle (mlRegisterRecvConnectionCb (Some 4) idle)"
proof -
  have "ml_step os0 idle (mlRegisterRecvConnectionCb (Some 4) idle)"
    by (rule happens [of "Register_connection (Some 4)"]) simp_all
  then show ?thesis by blast
qed

lemma tables_invariant_witness:
  "awake (mlRegisterRecvConnectionCb (Some 4) idle)"
  using tables_invariant [OF idle_run idle_tables(2,3,1)] unfolding awake_def by blast

lemma callbacks_tell_truth_witness:
  "\<exists>s s' p. recv_pkg os0 (replicate MAX_PKT 0) (Some (invite_bytes, internal_addr sid0)) idle = Some (Inr s)
    \<and> recv_pkg os0 (replicate MAX_PKT 0) (Some (encode_header (hdr0 0 3) @ [1, 2, 3], internal_addr sid0)) s = Some (Inr s')
    \<and> trace s' = trace s @ [Recv_data 77 [1, 2, 3] 5 p] \<and> told (Recv_data 77 [1, 2, 3] 5 p) s'"
proof -
  let ?ev = "\<lambda>bs. Packet (replicate MAX_PKT 0) (Some (bs, internal_addr sid0))"
  obtain c t where inv: "recv_pkg os0 (replicate MAX_PKT 0) (Some (invite_bytes, internal_addr sid0)) idle
      = Some (Inr (set_conn 0 c (idle\<lparr> ticks := t \<rparr>)))" (is "_ = Some (Inr ?s)") by (rule invited)
  obtain s' p where d: "recv_pkg os0 (replicate MAX_PKT 0) (Some (encode_header (hdr0 0 3) @ [1, 2, 3], internal_addr sid0)) ?s
      = Some (Inr s')" "trace s' = [Recv_data 77 [1, 2, 3] 5 p]"
    using idle_receives [OF refl] by blast
  have "ml_step os0 idle ?s" by (rule happens [of "?ev invite_bytes"]) (simp_all add: inv)
  then have run: "(ml_step os0)\<^sup>*\<^sup>* idle ?s" by blast
  have ex: "pending (?ev (encode_header (hdr0 0 3) @ [1, 2, 3])) ?s"
    "ml_exec os0 (?ev (encode_header (hdr0 0 3) @ [1, 2, 3])) ?s = Some (Inr s')"
    using d(1) by simp_all
  have tr: "trace ?s = []" by (simp add: set_conn_def idle_def)
  have "told (Recv_data 77 [1, 2, 3] 5 p) s'"
    using callbacks_tell_truth [OF run idle_tables(2,3,1) ex] unfolding tr d(2) by simp
  then show ?thesis using inv d tr by (metis append_Nil)
qed

end
