(* ===== verification/Rep_Record.thy ===== *)
theory Rep_Record
  imports Packet_Queue
begin

text \<open>
  Measurement records of the repository client and their text form (\<open>rep/publish.c\<close>:
  \<open>encode_measurementrecord\<close>; \<open>rep/getmeasurements.c\<close>: \<open>parse_measurementrecord\<close>; \<open>rep/getpeers.c\<close>:
  \<open>constraints2str\<close>, \<open>rankings2str\<close>; \<open>common/common.c\<close>: \<open>timeval2str\<close>). Strings are C strings without
  their NUL, \<open>None\<close> is NULL. A \<open>double\<close> is of a type \<open>'d\<close>; how \<open>printf\<close> and \<open>sscanf\<close> convert it is in
  \<open>dbl\<close>.
\<close>

record 'd dbl =
  fmt_f :: "'d \<Rightarrow> string"
  fmt_float :: "'d \<Rightarrow> string"
  scan_lf :: "string \<Rightarrow> 'd option"
  is_nan :: "'d \<Rightarrow> bool"
  fp_nan :: 'd

record 'd measurement =
  originator :: "string option"
  targetA :: "string option"
  targetB :: "string option"
  published_name :: "string option"
  mr_value :: 'd
  string_value :: "string option"
  mr_timestamp :: timeval
  channel :: "string option"

section \<open>Printing\<close>

text \<open>\<open>printf\<close> of \<open>%s\<close> with NULL prints \<open>(null)\<close>; \<open>%03ld\<close> pads with zeros.\<close>

definition fmt_s :: "string option \<Rightarrow> string" where
  "fmt_s s = (case s of None \<Rightarrow> ''(null)'' | Some t \<Rightarrow> t)"

definition pad3 :: "int \<Rightarrow> string" where
  "pad3 n = (let t = dec_int n in
     if n < 0 then CHR ''-'' # replicate (3 - length t) (CHR ''0'') @ tl t else replicate (3 - length t) (CHR ''0'') @ t)"

definition timeval2str :: "timeval \<Rightarrow> string" where
  "timeval2str t =
     (if tv_sec t = 0 \<and> tv_usec t = 0 then ''0'' else dec_int (tv_sec t) @ pad3 (tv_usec t sdiv 1000))"

text \<open>The comparison of the value with NaN is true for every value, so the value is always printed.\<close>

definition record_text :: "'d dbl \<Rightarrow> 'd measurement \<Rightarrow> string" where
  "record_text env r =
     ''originator='' @ fmt_s (originator r) @ ''&''
     @ (case targetA r of None \<Rightarrow> [] | Some a \<Rightarrow> ''targetA='' @ a @ ''&'')
     @ (case targetB r of None \<Rightarrow> [] | Some b \<Rightarrow> ''targetB='' @ b @ ''&'')
     @ ''published_name='' @ fmt_s (published_name r)
     @ (case string_value r of Some v \<Rightarrow> ''&string_value='' @ v | None \<Rightarrow> ''&value='' @ fmt_f env (mr_value r))
     @ (case channel r of None \<Rightarrow> [] | Some c \<Rightarrow> ''&channel='' @ c)
     @ (if tv_sec (mr_timestamp r) + tv_usec (mr_timestamp r) \<noteq> 0 then ''&timestamp='' @ timeval2str (mr_timestamp r) else [])"

text \<open>
  The text is written into a memory stream that is rewound first. Rewinding does not truncate: the
  buffer keeps what an earlier, longer text left behind the new one, and its NUL is at the end of the
  longer one. The result is the buffer as a C string.
\<close>

definition rewrite :: "string \<Rightarrow> string \<Rightarrow> string" where
  "rewrite buf t = t @ drop (length t) buf"

definition encode_measurementrecord :: "'d dbl \<Rightarrow> 'd measurement \<Rightarrow> string \<Rightarrow> string \<times> string" where
  "encode_measurementrecord env r buf = (let b = rewrite buf (record_text env r) in (b, b))"

section \<open>Parsing\<close>

text \<open>
  \<open>strtok_r\<close> with one delimiter: it skips delimiters, and returns the token and the rest behind the
  delimiter that ends it; \<open>None\<close> when nothing but delimiters is left.
\<close>

definition strtok :: "char \<Rightarrow> string \<Rightarrow> (string \<times> string) option" where
  "strtok d s =
     (let t = dropWhile (\<lambda>c. c = d) s
      in if t = [] then None else Some (takeWhile (\<lambda>c. c \<noteq> d) t, drop 1 (dropWhile (\<lambda>c. c \<noteq> d) t)))"

lemma strtok_rest: "strtok d s = Some (t, rest) \<Longrightarrow> length rest < length s"
proof -
  assume a: "strtok d s = Some (t, rest)"
  have r: "rest = drop 1 (dropWhile (\<lambda>c. c \<noteq> d) (dropWhile (\<lambda>c. c = d) s))" and ne: "dropWhile (\<lambda>c. c = d) s \<noteq> []"
    using a by (simp_all add: strtok_def Let_def split: if_splits)
  obtain c u where cu: "dropWhile (\<lambda>c. c = d) s = c # u" using ne by (cases "dropWhile (\<lambda>c. c = d) s") simp_all
  have c: "c \<noteq> d" using hd_dropWhile [OF ne] cu by simp
  have "length rest \<le> length u"
    unfolding r cu using c length_dropWhile_le [of "\<lambda>c. c \<noteq> d" u] by simp
  also have "length u < length s" using length_dropWhile_le [of "\<lambda>c. c = d" s] cu by simp
  finally show ?thesis .
qed

definition str_arg :: "string option \<Rightarrow> (string option \<Rightarrow> 'a) \<Rightarrow> 'a res" where
  "str_arg v f = (case v of None \<Rightarrow> Inl NullDeref | Some t \<Rightarrow> Inr (f (Some t)))"

text \<open>One field: a missing name or, for the fields it knows, a missing value is a NULL pointer in use.\<close>

definition set_field :: "'d dbl \<Rightarrow> string option \<Rightarrow> string option \<Rightarrow> 'd measurement \<Rightarrow> 'd measurement res" where
  "set_field env name v r =
     (case name of None \<Rightarrow> Inl NullDeref
      | Some n \<Rightarrow>
          if n = ''originator'' then str_arg v (\<lambda>x. r\<lparr> originator := x \<rparr>)
          else if n = ''published_name'' then str_arg v (\<lambda>x. r\<lparr> published_name := x \<rparr>)
          else if n = ''string_value'' then str_arg v (\<lambda>x. r\<lparr> string_value := x \<rparr>)
          else if n = ''value'' then
            str_arg v (\<lambda>x. case scan_lf env (the x) of None \<Rightarrow> r | Some d \<Rightarrow> r\<lparr> mr_value := d \<rparr>)
          else if n = ''targetA'' then str_arg v (\<lambda>x. r\<lparr> targetA := x \<rparr>)
          else if n = ''targetB'' then str_arg v (\<lambda>x. r\<lparr> targetB := x \<rparr>)
          else if n = ''channel'' then str_arg v (\<lambda>x. r\<lparr> channel := x \<rparr>)
          else Inr r)"

definition parse_field :: "'d dbl \<Rightarrow> string \<Rightarrow> 'd measurement \<Rightarrow> 'd measurement res" where
  "parse_field env field r =
     (case strtok (CHR ''='') field of
        None \<Rightarrow> set_field env None None r
      | Some (n, rest) \<Rightarrow> set_field env (Some n) (map_option fst (strtok (CHR ''='') rest)) r)"

function parse_fields :: "'d dbl \<Rightarrow> string \<Rightarrow> 'd measurement \<Rightarrow> 'd measurement res" where
  "parse_fields env s r =
     (case strtok (CHR ''&'') s of
        None \<Rightarrow> Inr r
      | Some (field, rest) \<Rightarrow> res_bind (parse_field env field r) (parse_fields env rest))"
  by auto
termination by (relation "measure (\<lambda>(env, s, r). length s)") (auto simp: strtok_rest)

declare parse_fields.simps [simp del]

text \<open>
  Every string starts as a constant, and the value as \<open>FP_NAN\<close>, which is not a NaN but a constant of
  \<open>fpclassify\<close> (zero).
\<close>

definition parse_measurementrecord :: "'d dbl \<Rightarrow> string \<Rightarrow> 'd measurement res" where
  "parse_measurementrecord env line =
     parse_fields env line
       \<lparr> originator = Some ''(Unknown)'', targetA = Some ''(Unknown)'', targetB = None,
         published_name = Some ''(Unknown)'', mr_value = fp_nan env, string_value = None,
         mr_timestamp = \<lparr> tv_sec = 0, tv_usec = 0 \<rparr>, channel = None \<rparr>"

section \<open>Copying\<close>

definition copy_measurementrecord :: "'d measurement \<Rightarrow> 'd measurement" where
  "copy_measurementrecord r =
     \<lparr> originator = originator r, targetA = targetA r, targetB = targetB r, published_name = published_name r,
       mr_value = mr_value r, string_value = string_value r, mr_timestamp = mr_timestamp r, channel = channel r \<rparr>"

section \<open>What is printed is parsed\<close>

text \<open>Text that can stand in a field.\<close>

definition plain :: "string \<Rightarrow> bool" where
  "plain s \<longleftrightarrow> s \<noteq> [] \<and> CHR ''&'' \<notin> set s \<and> CHR ''='' \<notin> set s"

definition plain_opt :: "string option \<Rightarrow> bool" where
  "plain_opt s \<longleftrightarrow> (case s of None \<Rightarrow> True | Some t \<Rightarrow> plain t)"

lemma strtok_token:
  assumes "t \<noteq> []" "d \<notin> set t"
  shows "strtok d (t @ d # rest) = Some (t, rest)" "strtok d t = Some (t, [])"
proof -
  obtain c u where t: "t = c # u" "c \<noteq> d" using assms by (cases t) auto
  have all: "x \<in> set t \<Longrightarrow> x \<noteq> d" for x using assms(2) by auto
  have start: "dropWhile (\<lambda>c. c = d) (t @ z) = t @ z" for z unfolding t(1) using t(2) by simp
  have tw: "takeWhile (\<lambda>c. c \<noteq> d) (t @ d # rest) = t" "dropWhile (\<lambda>c. c \<noteq> d) (t @ d # rest) = d # rest"
    using all by (simp_all add: takeWhile_append2 dropWhile_append2)
  show "strtok d (t @ d # rest) = Some (t, rest)"
    unfolding strtok_def Let_def start tw by (simp add: assms(1))
  have tw': "takeWhile (\<lambda>c. c \<noteq> d) t = t" "dropWhile (\<lambda>c. c \<noteq> d) t = []" using all by (simp_all add: takeWhile_eq_all_conv)
  show "strtok d t = Some (t, [])"
    unfolding strtok_def Let_def start [of "[]", simplified] tw' by (simp add: assms(1))
qed

definition field_text :: "string \<times> string \<Rightarrow> string" where
  "field_text f = fst f @ CHR ''='' # snd f"

fun fields_text :: "(string \<times> string) list \<Rightarrow> string" where
  "fields_text [] = []"
| "fields_text [f] = field_text f"
| "fields_text (f # fs) = field_text f @ CHR ''&'' # fields_text fs"

definition plain_field :: "string \<times> string \<Rightarrow> bool" where
  "plain_field f \<longleftrightarrow> plain (fst f) \<and> plain (snd f)"

fun set_fields :: "'d dbl \<Rightarrow> (string \<times> string) list \<Rightarrow> 'd measurement \<Rightarrow> 'd measurement res" where
  "set_fields env [] r = Inr r"
| "set_fields env (f # fs) r = res_bind (set_field env (Some (fst f)) (Some (snd f)) r) (set_fields env fs)"

lemma parse_field_text:
  assumes "plain_field f" shows "parse_field env (field_text f) r = set_field env (Some (fst f)) (Some (snd f)) r"
proof -
  have p: "fst f \<noteq> []" "CHR ''='' \<notin> set (fst f)" "snd f \<noteq> []" "CHR ''='' \<notin> set (snd f)"
    using assms by (simp_all add: plain_field_def plain_def)
  have "strtok (CHR ''='') (field_text f) = Some (fst f, snd f)" "strtok (CHR ''='') (snd f) = Some (snd f, [])"
    unfolding field_text_def by (rule strtok_token(1) [OF p(1,2)], rule strtok_token(2) [OF p(3,4)])
  then show ?thesis by (simp only: parse_field_def option.case prod.case option.map fst_conv)
qed

lemma field_text_token:
  assumes "plain_field f" shows "field_text f \<noteq> []" "CHR ''&'' \<notin> set (field_text f)"
  using assms by (auto simp: field_text_def plain_field_def plain_def)

lemma parse_fields_Nil: "parse_fields env [] r = Inr r"
  by (subst parse_fields.simps) (simp add: strtok_def)

lemma parse_fields_last:
  assumes "plain_field f" shows "parse_fields env (field_text f) r = set_field env (Some (fst f)) (Some (snd f)) r"
proof -
  have "strtok (CHR ''&'') (field_text f) = Some (field_text f, [])"
    by (rule strtok_token(2)) (rule field_text_token [OF assms])+
  then have "parse_fields env (field_text f) r = res_bind (parse_field env (field_text f) r) (parse_fields env [])"
    by (subst parse_fields.simps) simp
  also have "\<dots> = set_field env (Some (fst f)) (Some (snd f)) r"
    unfolding parse_field_text [OF assms] by (cases "set_field env (Some (fst f)) (Some (snd f)) r") (simp_all add: parse_fields_Nil)
  finally show ?thesis .
qed

lemma parse_fields_more:
  assumes "plain_field f"
  shows "parse_fields env (field_text f @ CHR ''&'' # rest) r
    = res_bind (set_field env (Some (fst f)) (Some (snd f)) r) (parse_fields env rest)"
proof -
  have "strtok (CHR ''&'') (field_text f @ CHR ''&'' # rest) = Some (field_text f, rest)"
    by (rule strtok_token(1)) (rule field_text_token [OF assms])+
  then show ?thesis by (subst parse_fields.simps) (simp add: parse_field_text [OF assms])
qed

lemma parse_fields_text:
  assumes "\<forall>f \<in> set fs. plain_field f" shows "parse_fields env (fields_text fs) r = set_fields env fs r"
  using assms
proof (induction fs arbitrary: r rule: fields_text.induct)
  case 1
  then show ?case by (simp add: parse_fields_Nil)
next
  case (2 f)
  then have f: "plain_field f" by simp
  show ?case
    by (cases "set_field env (Some (fst f)) (Some (snd f)) r") (simp_all add: parse_fields_last [OF f])
next
  case (3 f g fs)
  then have f: "plain_field f" and "\<And>r. parse_fields env (fields_text (g # fs)) r = set_fields env (g # fs) r" by simp_all
  then have "parse_fields env (fields_text (g # fs)) = set_fields env (g # fs)" by (intro ext)
  then show ?case unfolding fields_text.simps set_fields.simps(2) [of _ f] by (simp only: parse_fields_more [OF f])
qed

definition record_fields :: "'d dbl \<Rightarrow> 'd measurement \<Rightarrow> (string \<times> string) list" where
  "record_fields env r =
     [(''originator'', fmt_s (originator r))]
     @ (case targetA r of None \<Rightarrow> [] | Some a \<Rightarrow> [(''targetA'', a)])
     @ (case targetB r of None \<Rightarrow> [] | Some b \<Rightarrow> [(''targetB'', b)])
     @ [(''published_name'', fmt_s (published_name r))]
     @ (case string_value r of Some v \<Rightarrow> [(''string_value'', v)] | None \<Rightarrow> [(''value'', fmt_f env (mr_value r))])
     @ (case channel r of None \<Rightarrow> [] | Some c \<Rightarrow> [(''channel'', c)])
     @ (if tv_sec (mr_timestamp r) + tv_usec (mr_timestamp r) \<noteq> 0 then [(''timestamp'', timeval2str (mr_timestamp r))] else [])"

lemma record_text_fields: "record_text env r = fields_text (record_fields env r)"
  by (simp add: record_text_def record_fields_def field_text_def split: option.splits)

text \<open>Every value a record prints can stand in a field.\<close>

definition plain_record :: "'d dbl \<Rightarrow> 'd measurement \<Rightarrow> bool" where
  "plain_record env r \<longleftrightarrow> list_all (\<lambda>f. plain (snd f)) (record_fields env r)"

lemma plain_names: "f \<in> set (record_fields env r) \<Longrightarrow> plain (fst f)"
  by (auto simp: record_fields_def plain_def split: option.splits if_splits)

lemma set_field_simps:
  "set_field env (Some ''originator'') (Some v) r = Inr (r\<lparr> originator := Some v \<rparr>)"
  "set_field env (Some ''targetA'') (Some v) r = Inr (r\<lparr> targetA := Some v \<rparr>)"
  "set_field env (Some ''targetB'') (Some v) r = Inr (r\<lparr> targetB := Some v \<rparr>)"
  "set_field env (Some ''published_name'') (Some v) r = Inr (r\<lparr> published_name := Some v \<rparr>)"
  "set_field env (Some ''string_value'') (Some v) r = Inr (r\<lparr> string_value := Some v \<rparr>)"
  "set_field env (Some ''value'') (Some v) r = Inr (case scan_lf env v of None \<Rightarrow> r | Some d \<Rightarrow> r\<lparr> mr_value := d \<rparr>)"
  "set_field env (Some ''channel'') (Some v) r = Inr (r\<lparr> channel := Some v \<rparr>)"
  "set_field env (Some ''timestamp'') (Some v) r = Inr r"
  by (simp_all add: set_field_def str_arg_def)

definition after_wire :: "'d dbl \<Rightarrow> 'd measurement \<Rightarrow> 'd measurement" where
  "after_wire env r =
     \<lparr> originator = Some (fmt_s (originator r)),
       targetA = Some (case targetA r of None \<Rightarrow> ''(Unknown)'' | Some a \<Rightarrow> a), targetB = targetB r,
       published_name = Some (fmt_s (published_name r)),
       mr_value = (if string_value r = None then (case scan_lf env (fmt_f env (mr_value r)) of None \<Rightarrow> fp_nan env | Some d \<Rightarrow> d)
                   else fp_nan env),
       string_value = string_value r, mr_timestamp = \<lparr> tv_sec = 0, tv_usec = 0 \<rparr>, channel = channel r \<rparr>"

lemma set_record_fields:
  "set_fields env (record_fields env r)
       \<lparr> originator = Some ''(Unknown)'', targetA = Some ''(Unknown)'', targetB = None,
         published_name = Some ''(Unknown)'', mr_value = fp_nan env, string_value = None,
         mr_timestamp = \<lparr> tv_sec = 0, tv_usec = 0 \<rparr>, channel = None \<rparr> = Inr (after_wire env r)"
  by (cases "targetA r"; cases "targetB r"; cases "string_value r"; cases "channel r";
      cases "scan_lf env (fmt_f env (mr_value r))")
    (simp_all add: record_fields_def after_wire_def set_field_simps)

text \<open>
  C22: What \<open>encode_measurementrecord\<close> writes, \<open>parse_measurementrecord\<close> reads back: originator, targets,
  name, channel and string value are those of the record, a numeric value is what the conversions of
  \<open>printf\<close> and \<open>sscanf\<close> make of it. Three things are lost: the time stamp is printed but not parsed, a
  missing target A becomes \<open>(Unknown)\<close>, and a missing number becomes the constant \<open>FP_NAN\<close>. The record's
  strings are non-empty and free of the separators, and no longer text was encoded before it.
\<close>

theorem record_roundtrip:
  assumes "plain_record env r" and "length buf \<le> length (record_text env r)"
  shows "parse_measurementrecord env (fst (encode_measurementrecord env r buf)) = Inr (after_wire env r)"
proof -
  have "\<forall>f \<in> set (record_fields env r). plain_field f"
    using assms(1) plain_names by (auto simp: plain_record_def plain_field_def list_all_iff)
  then have "parse_fields env (record_text env r) s = set_fields env (record_fields env r) s" for s
    unfolding record_text_fields by (rule parse_fields_text)
  moreover have "fst (encode_measurementrecord env r buf) = record_text env r"
    using assms(2) by (simp add: encode_measurementrecord_def rewrite_def Let_def)
  ultimately show ?thesis by (simp only: parse_measurementrecord_def set_record_fields)
qed

text \<open>Concrete conversions, for evaluation: the doubles are the whole numbers.\<close>

definition int_dbl :: "int dbl" where
  "int_dbl = \<lparr> fmt_f = (\<lambda>d. dec_int d @ ''.000000''), fmt_float = (\<lambda>d. dec_int d @ ''.000000''),
     scan_lf = (\<lambda>s. map_option int (digit_val (hd s))), is_nan = (\<lambda>_. False), fp_nan = 0 \<rparr>"

definition rtt_record :: "string \<Rightarrow> int \<Rightarrow> int measurement" where
  "rtt_record orig v =
     \<lparr> originator = Some orig, targetA = Some ''A'', targetB = None, published_name = Some ''rtt'', mr_value = v,
       string_value = None, mr_timestamp = \<lparr> tv_sec = 7, tv_usec = 0 \<rparr>, channel = Some ''c'' \<rparr>"

lemma digit_char_sep: "d < 10 \<Longrightarrow> digit_char d \<noteq> CHR ''&'' \<and> digit_char d \<noteq> CHR ''=''"
  using digit_val_char [of d] by (auto simp: digit_val_def split: if_splits)

lemma record_roundtrip_witness:
  "parse_measurementrecord int_dbl (fst (encode_measurementrecord int_dbl (rtt_record ''P'' 5) []))
   = Inr ((rtt_record ''P'' 5)\<lparr> mr_timestamp := \<lparr> tv_sec = 0, tv_usec = 0 \<rparr> \<rparr>)"
proof -
  have "plain_record int_dbl (rtt_record ''P'' 5)"
    by (simp add: plain_record_def record_fields_def rtt_record_def int_dbl_def fmt_s_def plain_def dec_int_def dec_small
        digit_char_sep digit_char_sep [THEN conjunct1, symmetric] digit_char_sep [THEN conjunct2, symmetric]
        timeval2str_def pad3_def)
  then show ?thesis
    using record_roundtrip [of int_dbl "rtt_record ''P'' 5" "[]"]
    by (simp add: after_wire_def rtt_record_def int_dbl_def fmt_s_def dec_int_def dec_small)
qed

section \<open>The shared buffer\<close>

text \<open>A run of encodings, one after the other into the same buffer.\<close>

fun encode_run :: "'d dbl \<Rightarrow> 'd measurement list \<Rightarrow> string \<Rightarrow> string" where
  "encode_run env [] buf = buf"
| "encode_run env (r # rs) buf = encode_run env rs (snd (encode_measurementrecord env r buf))"

lemma length_rewrite: "length (rewrite buf t) = max (length buf) (length t)"
  by (simp add: rewrite_def)

lemma rewrite_whole: "rewrite buf t = t \<longleftrightarrow> length buf \<le> length t"
  by (simp add: rewrite_def)

lemma length_encode_run:
  "length (encode_run env rs buf) \<le> n \<longleftrightarrow> length buf \<le> n \<and> (\<forall>q \<in> set rs. length (record_text env q) \<le> n)"
  by (induction rs arbitrary: buf) (auto simp: encode_measurementrecord_def Let_def length_rewrite)

text \<open>
  What is published for a record is the text of that record only when no record encoded before it
  had a longer text: the stream is rewound, not truncated, so the end of a longer text stays in the
  buffer behind the shorter one and is sent with it.
\<close>

theorem published_text_stale:
  "fst (encode_measurementrecord env r (encode_run env rs [])) = record_text env r
     @ drop (length (record_text env r)) (encode_run env rs [])
   \<and> (fst (encode_measurementrecord env r (encode_run env rs [])) = record_text env r
      \<longleftrightarrow> list_all (\<lambda>q. length (record_text env q) \<le> length (record_text env r)) rs)"
  by (simp add: encode_measurementrecord_def Let_def rewrite_whole length_encode_run list_all_iff)
    (simp add: rewrite_def)

lemma parse_fields_prefix:
  "\<forall>f \<in> set pre. plain_field f \<Longrightarrow>
   parse_fields env (fields_text (pre @ f # post)) r = res_bind (set_fields env pre r) (parse_fields env (fields_text (f # post)))"
proof (induction pre arbitrary: r)
  case (Cons g pre)
  obtain h fs where hs: "pre @ f # post = h # fs" by (cases "pre @ f # post") simp_all
  have g: "plain_field g" and ih: "\<And>r. parse_fields env (fields_text (pre @ f # post)) r
      = res_bind (set_fields env pre r) (parse_fields env (fields_text (f # post)))"
    using Cons.IH Cons.prems by simp_all
  have "parse_fields env (fields_text ((g # pre) @ f # post)) r
      = res_bind (set_field env (Some (fst g)) (Some (snd g)) r) (parse_fields env (fields_text (pre @ f # post)))"
    using parse_fields_more [OF g, of env "fields_text (h # fs)" r] unfolding hs append_Cons fields_text.simps .
  then show ?case by (cases "set_field env (Some (fst g)) (Some (snd g)) r") (simp_all add: ih)
qed simp

lemma strtok_only_delim: "t \<noteq> [] \<Longrightarrow> d \<notin> set t \<Longrightarrow> strtok d (t @ [d]) = Some (t, [])"
  by (rule strtok_token(1))

lemma parse_empty_value:
  assumes "fst f \<noteq> []" "CHR ''&'' \<notin> set (fst f)" "CHR ''='' \<notin> set (fst f)" "snd f = []"
  shows "parse_fields env (fields_text (f # fs)) r
    = res_bind (set_field env (Some (fst f)) None r) (parse_fields env (fields_text fs))"
proof -
  have ft: "field_text f = fst f @ [CHR ''='']" using assms(4) by (simp add: field_text_def)
  have "strtok (CHR ''='') (fst f @ [CHR ''='']) = Some (fst f, [])" by (rule strtok_only_delim [OF assms(1,3)])
  then have pf: "parse_field env (field_text f) r = set_field env (Some (fst f)) None r"
    unfolding ft by (simp add: parse_field_def strtok_def)
  have ne: "field_text f \<noteq> []" "CHR ''&'' \<notin> set (field_text f)" using assms(2) by (simp_all add: ft)
  obtain rest where "strtok (CHR ''&'') (fields_text (f # fs)) = Some (field_text f, rest)" "rest = fields_text fs"
    using strtok_token [OF ne] by (cases fs) simp_all
  then show ?thesis using pf by (subst parse_fields.simps) simp
qed

text \<open>
  The header says that an invalid string value is the empty string. A record in that form, with its number,
  is encoded without the number, and the parser dereferences NULL on it: there is no token behind the \<open>=\<close>,
  and \<open>strdup\<close> is called on the missing one.
\<close>

theorem documented_number_crashes:
  assumes "string_value r = Some []" "plain_record env (r\<lparr> string_value := None \<rparr>)"
  shows "parse_measurementrecord env (record_text env r) = Inl NullDeref"
proof -
  define pre where "pre = [(''originator'', fmt_s (originator r))]
     @ (case targetA r of None \<Rightarrow> [] | Some a \<Rightarrow> [(''targetA'', a)])
     @ (case targetB r of None \<Rightarrow> [] | Some b \<Rightarrow> [(''targetB'', b)]) @ [(''published_name'', fmt_s (published_name r))]"
  obtain post where fs: "record_fields env r = pre @ (''string_value'', []) # post"
    using assms(1) by (simp add: record_fields_def pre_def)
  have pre: "\<forall>f \<in> set pre. plain_field f"
    using assms(2) by (auto simp: plain_record_def record_fields_def pre_def plain_field_def plain_def
        split: option.splits if_splits)
  have "\<exists>s'. set_fields env pre s = Inr s'" for s
    unfolding pre_def by (cases "targetA r"; cases "targetB r") (simp_all add: set_field_simps)
  moreover have "parse_fields env (fields_text ((''string_value'', []) # post)) s = Inl NullDeref" for s :: "'a measurement"
    by (subst parse_empty_value) (simp_all add: set_field_def str_arg_def)
  ultimately have "parse_fields env (record_text env r) s = Inl NullDeref" for s
    unfolding record_text_fields fs parse_fields_prefix [OF pre] by (metis res_bind_simps(2))
  then show ?thesis by (simp only: parse_measurementrecord_def)
qed

lemma documented_number_crashes_witness:
  "parse_measurementrecord int_dbl (record_text int_dbl ((rtt_record ''P'' 5)\<lparr> string_value := Some [] \<rparr>)) = Inl NullDeref"
  by (rule documented_number_crashes)
    (simp_all add: plain_record_def record_fields_def rtt_record_def int_dbl_def fmt_s_def plain_def dec_int_def dec_small
        digit_char_sep digit_char_sep [THEN conjunct1, symmetric] digit_char_sep [THEN conjunct2, symmetric]
        timeval2str_def pad3_def)

end
