(* ===== verification/Rep_Client.thy ===== *)
theory Rep_Client
  imports Rep_Record
begin

text \<open>
  The repository client (\<open>rep/\<close>): opening and closing a server, publishing single records and batches,
  the queries, and the callbacks that answer them. The heap has the \<open>request_data\<close> and the
  \<open>struct reposerver\<close> objects; an object that is not there has been freed or was never allocated, and
  using it is \<open>UseAfterFree\<close>. Requests handed to libevent are in \<open>sent\<close>, its one-shot timers in \<open>batch_timers\<close>, and
  what the user's callbacks were called with in \<open>calls\<close>. \<open>fatal\<close> ends the process: \<open>AssertFail\<close>.
  \<open>malloc\<close> and \<open>calloc\<close> succeed. A pointer is a number, NULL is 0.
\<close>

section \<open>State\<close>

text \<open>\<open>cbarg\<close> and \<open>rq_data\<close> are \<open>None\<close> where the code leaves them uninitialised.\<close>

record request_data =
  rq_cb :: "nat option"
  cbarg :: "nat option"
  rq_id :: nat
  rq_server :: nat
  rq_data :: "int option"

type_synonym 'd deferred_publish = "'d measurement \<times> nat"

text \<open>
  The two buffers are their used entries; \<open>publish_buffer_entries\<close> and \<open>in_transit_entries\<close> are their lengths,
  and the capacity is \<open>PUBLISH_BUFFER_SIZE\<close>.
\<close>

record 'd reposerver =
  address :: string
  port :: nat
  publish_delay :: int
  publish_buffer :: "'d deferred_publish list"
  in_transit :: "'d deferred_publish list"
  magic :: nat

datatype http_cb = Publish_cb | Batch_cb | Stringlist_cb | GetMeasurements_cb

record http_request =
  uri :: string
  post_data :: "string option"
  http_cb :: http_cb
  http_arg :: nat
  http_server :: nat

record http_response =
  response_code :: int
  input_lines :: "string list"

datatype 'd user_call =
    Published nat nat "nat option" int
  | Strings nat nat "nat option" "string list option"
  | Records nat nat "nat option" "'d measurement list option"

record 'd rep =
  next_ptr :: nat
  requests :: "nat \<Rightarrow> request_data option"
  servers :: "nat \<Rightarrow> 'd reposerver option"
  stream_buf :: string
  sent :: "http_request list"
  batch_timers :: "(nat \<times> int) list"
  calls :: "(nat \<times> 'd user_call) list"

definition REPOSERVER_MAGIC :: nat where "REPOSERVER_MAGIC = 0xAABB"
definition PUBLISH_BUFFER_SIZE :: nat where "PUBLISH_BUFFER_SIZE = 1024"
definition REPO_RECORD_LEN :: nat where "REPO_RECORD_LEN = 300"

definition get_request :: "'d rep \<Rightarrow> nat \<Rightarrow> request_data res" where
  "get_request st p = (case requests st p of None \<Rightarrow> Inl UseAfterFree | Some r \<Rightarrow> Inr r)"

definition get_server :: "'d rep \<Rightarrow> nat \<Rightarrow> 'd reposerver res" where
  "get_server st h = (case servers st h of None \<Rightarrow> Inl UseAfterFree | Some r \<Rightarrow> Inr r)"

definition put_server :: "nat \<Rightarrow> 'd reposerver \<Rightarrow> 'd rep \<Rightarrow> 'd rep" where
  "put_server h r st = st\<lparr> servers := (servers st)(h \<mapsto> r) \<rparr>"

definition free_request :: "nat \<Rightarrow> 'd rep \<Rightarrow> 'd rep res" where
  "free_request p st =
     (case requests st p of None \<Rightarrow> Inl UseAfterFree | Some _ \<Rightarrow> Inr (st\<lparr> requests := (requests st)(p := None) \<rparr>))"

definition alloc_request :: "request_data \<Rightarrow> 'd rep \<Rightarrow> nat \<times> 'd rep" where
  "alloc_request r st =
     (let p = next_ptr st
      in (p, st\<lparr> next_ptr := p + 1, requests := (requests st)(p \<mapsto> r\<lparr> rq_id := p \<rparr>) \<rparr>))"

definition call_user :: "nat option \<Rightarrow> 'd user_call \<Rightarrow> 'd rep \<Rightarrow> 'd rep" where
  "call_user cb c st = (case cb of None \<Rightarrow> st | Some f \<Rightarrow> st\<lparr> calls := calls st @ [(f, c)] \<rparr>)"

section \<open>Handles\<close>

definition check_handle :: "nat \<Rightarrow> 'd rep \<Rightarrow> bool res" where
  "check_handle h st =
     (if h = 0 then Inr False else res_map (\<lambda>r. magic r = REPOSERVER_MAGIC) (get_server st h))"

text \<open>
  \<open>sscanf\<close> with \<open>%hu\<close>: white space, a sign, and digits read as an \<open>unsigned long\<close>, of which the low 16 bits are
  kept; \<open>None\<close> when there is no digit.
\<close>

definition is_space :: "char \<Rightarrow> bool" where
  "is_space c \<longleftrightarrow> c \<in> set [CHR 0x20, CHR 0x09, CHR 0x0A, CHR 0x0B, CHR 0x0C, CHR 0x0D]"

fun digits_value :: "nat \<Rightarrow> string \<Rightarrow> nat" where
  "digits_value acc [] = acc"
| "digits_value acc (c # s) = (case digit_val c of None \<Rightarrow> acc | Some d \<Rightarrow> digits_value (acc * 10 + d) s)"

definition scan_hu :: "string \<Rightarrow> nat option" where
  "scan_hu s =
     (let t = dropWhile is_space s;
          neg = (t \<noteq> [] \<and> hd t = CHR ''-'');
          u = (if t \<noteq> [] \<and> hd t \<in> set ''+-'' then tl t else t)
      in if u = [] \<or> digit_val (hd u) = None then None
         else let n = digits_value 0 u; v = (if 2 ^ 64 \<le> n then 2 ^ 64 - 1 else if neg then (2 ^ 64 - n) mod 2 ^ 64 else n)
              in Some (v mod 2 ^ 16))"

definition parse_serverspec :: "string \<Rightarrow> (string \<times> nat) res" where
  "parse_serverspec s =
     (let a = takeWhile (\<lambda>c. c \<noteq> CHR '':'') s; rest = dropWhile (\<lambda>c. c \<noteq> CHR '':'') s
      in if rest = [] then Inr (a, 80)
         else case scan_hu (tl rest) of None \<Rightarrow> Inl AssertFail | Some p \<Rightarrow> Inr (a, p))"

text \<open>\<open>conn_ok\<close> is whether libevent gives a connection object.\<close>

definition repOpen :: "string option \<Rightarrow> int \<Rightarrow> bool \<Rightarrow> 'd rep \<Rightarrow> (nat \<times> 'd rep) res" where
  "repOpen server delay conn_ok st =
     (if server = None \<or> server = Some [] \<or> server = Some ''-'' then Inr (0, st)
      else res_bind (parse_serverspec (the server)) (\<lambda>(a, p).
        if \<not> conn_ok then Inl AssertFail
        else let h = next_ptr st;
                 st1 = put_server h \<lparr> address = a, port = p, publish_delay = delay, publish_buffer = [], in_transit = [],
                         magic = REPOSERVER_MAGIC \<rparr> (st\<lparr> next_ptr := h + 1 \<rparr>)
             in Inr (h, if delay \<noteq> 0 then st1\<lparr> batch_timers := batch_timers st1 @ [(h, delay)] \<rparr> else st1)))"

text \<open>
  \<open>repClose\<close> frees the connection, and libevent with it the requests still queued on it, without calling their
  callbacks. The timer of the batch publisher stays.
\<close>

definition repClose :: "nat \<Rightarrow> 'd rep \<Rightarrow> 'd rep res" where
  "repClose h st =
     res_map (\<lambda>valid. if \<not> valid then st
        else st\<lparr> servers := (servers st)(h := None), sent := filter (\<lambda>q. http_server q \<noteq> h) (sent st) \<rparr>)
       (check_handle h st)"

section \<open>Requests\<close>

datatype http_outcome = No_object | No_header | No_data | Refused | Accepted

definition send_http :: "http_outcome \<Rightarrow> http_request \<Rightarrow> 'd rep \<Rightarrow> 'd rep" where
  "send_http out q st = (if out = Accepted then st\<lparr> sent := sent st @ [q] \<rparr> else st)"

text \<open>A failed \<open>evhttp_add_header\<close> is not noticed here.\<close>

definition make_request :: "http_outcome \<Rightarrow> string \<Rightarrow> http_cb \<Rightarrow> nat \<Rightarrow> 'd rep \<Rightarrow> 'd rep res" where
  "make_request out u f p st =
     (if out = No_object then Inr st
      else res_bind (get_request st p) (\<lambda>rd.
        res_map (\<lambda>_. send_http out \<lparr> uri = u, post_data = None, http_cb = f, http_arg = p, http_server = rq_server rd \<rparr> st)
          (get_server st (rq_server rd))))"

text \<open>The posted data has its NUL.\<close>

definition make_post_request :: "http_outcome \<Rightarrow> string \<Rightarrow> string \<Rightarrow> http_cb \<Rightarrow> nat \<Rightarrow> 'd rep \<Rightarrow> (int \<times> 'd rep) res" where
  "make_post_request out u d f h st =
     (case out of No_object \<Rightarrow> Inr (-1, st) | No_header \<Rightarrow> Inr (-2, st) | No_data \<Rightarrow> Inr (-3, st)
      | _ \<Rightarrow> res_map (\<lambda>_. (if out = Refused then -4 else 0,
               send_http out \<lparr> uri = u, post_data = Some (d @ [CHR 0x00]), http_cb = f, http_arg = h, http_server = h \<rparr> st))
             (get_server st h))"

text \<open>\<open>strcat\<close> and \<open>sprintf\<close> into a buffer of \<open>cap\<close> characters.\<close>

definition fits :: "nat \<Rightarrow> string \<Rightarrow> string res" where
  "fits cap s = (if length s < cap then Inr s else Inl OutOfBounds)"

definition str_add :: "nat \<Rightarrow> string \<Rightarrow> string \<Rightarrow> string res" where
  "str_add cap t s = fits cap (s @ t)"

section \<open>Publishing\<close>

text \<open>
  The handle of the request, 0 for NULL, and \<open>None\<close> where the code returns without a value. \<open>Inl OutOfBounds\<close>
  is an encoded record that does not fit the request line.
\<close>

definition repPublish ::
    "'d dbl \<Rightarrow> nat \<Rightarrow> nat option \<Rightarrow> nat \<Rightarrow> 'd measurement option \<Rightarrow> http_outcome \<Rightarrow> 'd rep \<Rightarrow> (nat option \<times> 'd rep) res" where
  "repPublish env h cb arg r out st =
     res_bind (check_handle h st) (\<lambda>valid.
       if \<not> valid then Inr (Some 0, st)
       else case r of None \<Rightarrow> Inr (Some 0, st)
       | Some m \<Rightarrow>
           if is_nan env (mr_value m) \<and> string_value m = None then Inr (Some 0, st)
           else case alloc_request \<lparr> rq_cb = cb, cbarg = Some arg, rq_id = 0, rq_server = h, rq_data = None \<rparr> st of (p, st1) \<Rightarrow>
             res_bind (get_server st1 h) (\<lambda>rep.
               if publish_delay rep \<noteq> 0 then
                 (if PUBLISH_BUFFER_SIZE \<le> length (publish_buffer rep) then Inr (None, st1)
                  else Inr (Some p, put_server h
                    (rep\<lparr> publish_buffer := publish_buffer rep @ [(copy_measurementrecord m, p)] \<rparr>) st1))
               else case encode_measurementrecord env m (stream_buf st1) of (enc, b) \<Rightarrow>
                 res_bind (fits 1024 (''/Publish?'' @ enc)) (\<lambda>u.
                   res_map (Pair (Some p)) (make_request out u Publish_cb p (st1\<lparr> stream_buf := b \<rparr>)))))"

text \<open>\<open>None\<close> is a NULL request, libevent's answer when the connection failed.\<close>

definition publish_callback :: "http_response option \<Rightarrow> nat \<Rightarrow> 'd rep \<Rightarrow> 'd rep res" where
  "publish_callback req p st =
     (case req of None \<Rightarrow> Inr st
      | Some resp \<Rightarrow> if p = 0 then Inr st else
          res_bind (get_request st p) (\<lambda>cbdata.
          res_bind (free_request p st) (\<lambda>st1.
          res_bind (if response_code resp \<noteq> 200 then res_map (\<lambda>_. ()) (get_server st1 (rq_server cbdata)) else Inr ()) (\<lambda>_.
            if rq_cb cbdata = None then Inr st1
            else res_map (\<lambda>freed. call_user (rq_cb cbdata) (Published (rq_server cbdata) (rq_id cbdata) (cbarg freed)
                   (if response_code resp = 200 then 0 else if response_code resp \<noteq> 0 then response_code resp else -1)) st1)
                 (get_request st1 p)))))"

fun batch_text :: "'d dbl \<Rightarrow> nat \<Rightarrow> 'd measurement list \<Rightarrow> string \<Rightarrow> string \<Rightarrow> (string \<times> string) res" where
  "batch_text env cap [] acc buf = Inr (acc, buf)"
| "batch_text env cap (r # rs) acc buf =
     (case encode_measurementrecord env r buf of (enc, b) \<Rightarrow>
        if REPO_RECORD_LEN \<le> length enc then batch_text env cap rs acc b
        else res_bind (str_add cap enc acc) (\<lambda>s. res_bind (str_add cap [CHR 0x0A] s) (\<lambda>s'. batch_text env cap rs s' b)))"

text \<open>What the batch publisher does with the buffer, and the timer it plans again.\<close>

definition publish_batch :: "'d dbl \<Rightarrow> http_outcome \<Rightarrow> nat \<Rightarrow> 'd rep \<Rightarrow> 'd rep res" where
  "publish_batch env out h st =
     res_bind (get_server st h) (\<lambda>rep.
       if publish_buffer rep = [] then Inr st
       else res_bind (batch_text env (length (publish_buffer rep) * REPO_RECORD_LEN + 10) (map fst (publish_buffer rep)) []
               (stream_buf st)) (\<lambda>(d, b).
            res_map (\<lambda>(_, st1). put_server h (rep\<lparr> in_transit := publish_buffer rep, publish_buffer := [] \<rparr>) st1)
              (make_post_request out ''/BatchPublish'' d Batch_cb h (st\<lparr> stream_buf := b \<rparr>))))"

definition deferred_publish_cb :: "'d dbl \<Rightarrow> http_outcome \<Rightarrow> nat \<Rightarrow> 'd rep \<Rightarrow> 'd rep res" where
  "deferred_publish_cb env out h st =
     res_bind (publish_batch env out h st) (\<lambda>st1.
       res_map (\<lambda>rep. if publish_delay rep \<noteq> 0 then st1\<lparr> batch_timers := batch_timers st1 @ [(h, publish_delay rep)] \<rparr> else st1)
         (get_server st1 h))"

fun tell_entries :: "nat \<Rightarrow> int \<Rightarrow> 'd deferred_publish list \<Rightarrow> 'd rep \<Rightarrow> 'd rep res" where
  "tell_entries h code [] st = Inr st"
| "tell_entries h code ((m, p) # es) st =
     res_bind (get_request st p) (\<lambda>cbdata.
     res_bind (free_request p st) (\<lambda>st1.
     res_bind (if rq_cb cbdata = None then Inr st1
               else res_map (\<lambda>freed. call_user (rq_cb cbdata) (Published h (rq_id cbdata) (cbarg freed)
                      (if code = 200 then 0 else code)) st1) (get_request st1 p)) (\<lambda>st2.
       tell_entries h code es st2)))"

definition batch_publish_callback :: "http_response option \<Rightarrow> nat \<Rightarrow> 'd rep \<Rightarrow> 'd rep res" where
  "batch_publish_callback req h st =
     (case req of None \<Rightarrow> Inr st
      | Some resp \<Rightarrow> if h = 0 then Inr st else
          res_bind (get_server st h) (\<lambda>rep.
            res_map (\<lambda>st1. put_server h (rep\<lparr> in_transit := [] \<rparr>) st1)
              (tell_entries h (response_code resp) (in_transit rep) st)))"

section \<open>Queries\<close>

record 'd constraint =
  c_name :: "string option"
  strValue :: "string option"
  minValue :: 'd
  maxValue :: 'd

record 'd ranking =
  r_name :: "string option"
  weight :: 'd

definition constraint_text :: "'d dbl \<Rightarrow> 'd constraint \<Rightarrow> string" where
  "constraint_text env c = fmt_s (c_name c) @ '','' @
     (case strValue c of Some s \<Rightarrow> s | None \<Rightarrow> fmt_float env (minValue c) @ '','' @ fmt_float env (maxValue c))"

fun constraints_loop :: "'d dbl \<Rightarrow> bool \<Rightarrow> 'd constraint list \<Rightarrow> string \<Rightarrow> string res" where
  "constraints_loop env sep [] buf = Inr buf"
| "constraints_loop env sep (c # cs) buf =
     res_bind (if sep then str_add 1024 '';'' buf else Inr buf) (\<lambda>b.
     res_bind (fits 1024 (constraint_text env c)) (\<lambda>tmp.
     res_bind (str_add 1024 tmp b) (\<lambda>b'. constraints_loop env True cs b')))"

definition constraints2str :: "'d dbl \<Rightarrow> 'd constraint list \<Rightarrow> string res" where
  "constraints2str env cs = constraints_loop env False cs (if cs \<noteq> [] then ''constraints='' else [])"

text \<open>
  The separator is appended to the scratch buffer of 128 characters, not to the result: \<open>junk i\<close> is what that
  uninitialised buffer holds at the \<open>i\<close>-th entry, and the entry is printed over it.
\<close>

definition ranking_text :: "'d dbl \<Rightarrow> 'd ranking \<Rightarrow> string" where
  "ranking_text env r = fmt_s (r_name r) @ '','' @ fmt_f env (weight r)"

fun rankings_loop :: "'d dbl \<Rightarrow> (nat \<Rightarrow> string) \<Rightarrow> nat \<Rightarrow> 'd ranking list \<Rightarrow> string \<Rightarrow> string res" where
  "rankings_loop env junk i [] buf = Inr buf"
| "rankings_loop env junk i (r # rs) buf =
     res_bind (if i \<noteq> 0 then str_add 128 '';'' (junk i) else Inr []) (\<lambda>_.
     res_bind (fits 128 (ranking_text env r)) (\<lambda>tmp.
     res_bind (str_add 1024 tmp buf) (\<lambda>b. rankings_loop env junk (i + 1) rs b)))"

definition rankings2str :: "'d dbl \<Rightarrow> (nat \<Rightarrow> string) \<Rightarrow> 'd ranking list \<Rightarrow> string res" where
  "rankings2str env junk rs = rankings_loop env junk 0 rs (if rs \<noteq> [] then ''rankings='' else [])"

definition query :: "http_outcome \<Rightarrow> string res \<Rightarrow> http_cb \<Rightarrow> request_data \<Rightarrow> 'd rep \<Rightarrow> (nat \<times> 'd rep) res" where
  "query out u f rd st =
     (case alloc_request rd st of (p, st1) \<Rightarrow> res_bind u (\<lambda>t. res_map (Pair p) (make_request out t f p st1)))"

definition getpeers_uri ::
    "'d dbl \<Rightarrow> (nat \<Rightarrow> string) \<Rightarrow> int \<Rightarrow> 'd constraint list \<Rightarrow> 'd ranking list \<Rightarrow> string option \<Rightarrow> string res" where
  "getpeers_uri env junk maxResults cons ranks ch =
     res_bind (constraints2str env cons) (\<lambda>c. res_bind (rankings2str env junk ranks) (\<lambda>r.
     res_bind (fits 10240 (''/GetPeers?maxresults='' @ dec_int maxResults @ ''&'' @ c @ (if ranks \<noteq> [] then ''&'' else []) @ r)) (\<lambda>u.
       case ch of None \<Rightarrow> Inr u
       | Some t \<Rightarrow>
           res_bind (if cons \<noteq> [] \<or> ranks \<noteq> [] then str_add 10240 ''&'' u else Inr u) (\<lambda>v.
           res_bind (str_add 10240 ''channel='' v) (str_add 10240 t)))))"

definition repGetPeers ::
    "'d dbl \<Rightarrow> (nat \<Rightarrow> string) \<Rightarrow> nat \<Rightarrow> nat option \<Rightarrow> nat \<Rightarrow> int \<Rightarrow> 'd constraint list \<Rightarrow> 'd ranking list \<Rightarrow> string option
      \<Rightarrow> http_outcome \<Rightarrow> 'd rep \<Rightarrow> (nat \<times> 'd rep) res" where
  "repGetPeers env junk h cb arg maxResults cons ranks ch out st =
     res_bind (check_handle h st) (\<lambda>valid. if \<not> valid then Inr (0, st)
       else query out (getpeers_uri env junk maxResults cons ranks ch) Stringlist_cb
         \<lparr> rq_cb = cb, cbarg = Some arg, rq_id = 0, rq_server = h, rq_data = Some maxResults \<rparr> st)"

fun add_filters :: "(string \<times> string option) list \<Rightarrow> string \<Rightarrow> string res" where
  "add_filters [] u = Inr u"
| "add_filters ((name, v) # fs) u =
     (case v of None \<Rightarrow> add_filters fs u
      | Some t \<Rightarrow> res_bind (fits 256 (''&'' @ name @ ''='' @ t)) (\<lambda>b. res_bind (str_add 1024 b u) (add_filters fs)))"

text \<open>The user's argument is never stored: the structure is zeroed.\<close>

definition repGetMeasurements ::
    "nat \<Rightarrow> nat option \<Rightarrow> nat \<Rightarrow> int \<Rightarrow> string option \<Rightarrow> string option \<Rightarrow> string option \<Rightarrow> string option \<Rightarrow> string option
      \<Rightarrow> http_outcome \<Rightarrow> 'd rep \<Rightarrow> (nat \<times> 'd rep) res" where
  "repGetMeasurements h cb arg maxResults orig tA tB name ch out st =
     res_bind (check_handle h st) (\<lambda>valid. if \<not> valid then Inr (0, st)
       else query out (add_filters [(''originator'', orig), (''targetA'', tA), (''targetB'', tB), (''name'', name), (''channel'', ch)]
           (''/GetMeasurements?maxresults='' @ dec_int maxResults)) GetMeasurements_cb
         \<lparr> rq_cb = cb, cbarg = Some 0, rq_id = 0, rq_server = h, rq_data = Some maxResults \<rparr> st)"

text \<open>Neither the user's argument nor the channel is used.\<close>

definition repListMeasurementNames ::
    "nat \<Rightarrow> nat option \<Rightarrow> nat \<Rightarrow> int \<Rightarrow> string option \<Rightarrow> http_outcome \<Rightarrow> 'd rep \<Rightarrow> (nat \<times> 'd rep) res" where
  "repListMeasurementNames h cb arg maxResults ch out st =
     res_bind (check_handle h st) (\<lambda>valid. if \<not> valid then Inr (0, st)
       else query out (Inr (''/ListMeasurementNames?maxResults='' @ dec_int maxResults)) Stringlist_cb
         \<lparr> rq_cb = cb, cbarg = None, rq_id = 0, rq_server = h, rq_data = Some maxResults \<rparr> st)"

section \<open>Answers to queries\<close>

text \<open>
  The loop over the lines of an answer: the array has \<open>cap\<close> places and grows by 10000 whenever a multiple of
  10000 entries is reached.
\<close>

fun collect :: "('a \<Rightarrow> 'b res) \<Rightarrow> nat \<Rightarrow> 'b list \<Rightarrow> 'a list \<Rightarrow> 'b list res" where
  "collect f cap acc [] = Inr acc"
| "collect f cap acc (l # ls) =
     (if length acc = cap then Inr acc
      else res_bind (check OutOfBounds (length acc < cap)) (\<lambda>_. res_bind (f l) (\<lambda>x.
        collect f (if Suc (length acc) mod 10000 = 0 then cap + 10000 else cap) (acc @ [x]) ls)))"

definition result_max :: "request_data \<Rightarrow> nat" where
  "result_max rd = (let m = the (rq_data rd) in if m \<le> 0 then 10000 else nat m)"

definition stringlist_callback :: "http_response option \<Rightarrow> nat \<Rightarrow> 'd rep \<Rightarrow> 'd rep res" where
  "stringlist_callback req p st =
     (case req of None \<Rightarrow> Inr st
      | Some resp \<Rightarrow> if p = 0 then Inr st else
          res_bind (get_request st p) (\<lambda>cbdata.
          res_bind (if response_code resp \<noteq> 200 then Inr None
                    else res_map Some (collect Inr (result_max cbdata) [] (input_lines resp))) (\<lambda>result.
            free_request p (call_user (rq_cb cbdata) (Strings (rq_server cbdata) (rq_id cbdata) (cbarg cbdata) result) st))))"

text \<open>This one frees the structure first and reads the user's argument from it afterwards.\<close>

definition getMeasurements_callback :: "'d dbl \<Rightarrow> http_response option \<Rightarrow> nat \<Rightarrow> 'd rep \<Rightarrow> 'd rep res" where
  "getMeasurements_callback env req p st =
     (case req of None \<Rightarrow> Inr st
      | Some resp \<Rightarrow> if p = 0 then Inr st else
          res_bind (get_request st p) (\<lambda>cbdata.
          res_bind (free_request p st) (\<lambda>st1.
          res_bind (if response_code resp \<noteq> 200 then Inr None
                    else res_map Some (collect (parse_measurementrecord env) (result_max cbdata) [] (input_lines resp))) (\<lambda>result.
            if rq_cb cbdata = None then Inr st1
            else res_map (\<lambda>freed. call_user (rq_cb cbdata) (Records (rq_server cbdata) (rq_id cbdata) (cbarg freed) result) st1)
                 (get_request st1 p)))))"

section \<open>Batches are published whole\<close>

lemma copy_measurementrecord_id [simp]: "copy_measurementrecord m = m"
  by (simp add: copy_measurementrecord_def)

text \<open>The texts of a run of encodings into one buffer.\<close>

fun texts_from :: "'d dbl \<Rightarrow> string \<Rightarrow> 'd measurement list \<Rightarrow> string list" where
  "texts_from env buf [] = []"
| "texts_from env buf (r # rs) = rewrite buf (record_text env r) # texts_from env (rewrite buf (record_text env r)) rs"

definition batch_lines :: "string list \<Rightarrow> string" where
  "batch_lines ts = concat (map (\<lambda>t. t @ [CHR 0x0A]) (filter (\<lambda>t. length t < REPO_RECORD_LEN) ts))"

lemma batch_lines_simps [simp]:
  "batch_lines [] = []"
  "batch_lines (t # ts) = (if length t < REPO_RECORD_LEN then t @ CHR 0x0A # batch_lines ts else batch_lines ts)"
  by (simp_all add: batch_lines_def)

lemma batch_text_fits:
  "length acc + REPO_RECORD_LEN * length rs < cap \<Longrightarrow>
   batch_text env cap rs acc buf = Inr (acc @ batch_lines (texts_from env buf rs), encode_run env rs buf)"
proof (induction rs arbitrary: acc buf)
  case Nil
  then show ?case by simp
next
  case (Cons r rs)
  let ?t = "rewrite buf (record_text env r)"
  show ?case
  proof (cases "length ?t < REPO_RECORD_LEN")
    case True
    with Cons.prems have "length (acc @ ?t @ [CHR 0x0A]) + REPO_RECORD_LEN * length rs < cap" by simp
    then have ih: "batch_text env cap rs (acc @ ?t @ [CHR 0x0A]) ?t
        = Inr ((acc @ ?t @ [CHR 0x0A]) @ batch_lines (texts_from env ?t rs), encode_run env rs ?t)"
      by (rule Cons.IH)
    have "length (acc @ ?t) < cap" "length (acc @ ?t @ [CHR 0x0A]) < cap"
      using \<open>length (acc @ ?t @ [CHR 0x0A]) + REPO_RECORD_LEN * length rs < cap\<close> by simp_all
    then show ?thesis
      using True ih by (simp add: encode_measurementrecord_def Let_def str_add_def fits_def)
  next
    case False
    have "length acc + REPO_RECORD_LEN * length rs < cap" using Cons.prems by simp
    from Cons.IH [OF this, of ?t] show ?thesis using False
      by (simp add: encode_measurementrecord_def Let_def)
  qed
qed

text \<open>A run of calls of \<open>repPublish\<close>: each has a callback, an argument and a record.\<close>

fun publish_all :: "'d dbl \<Rightarrow> nat \<Rightarrow> (nat option \<times> nat \<times> 'd measurement) list \<Rightarrow> 'd rep \<Rightarrow> (nat option list \<times> 'd rep) res" where
  "publish_all env h [] st = Inr ([], st)"
| "publish_all env h ((cb, arg, r) # xs) st =
     res_bind (repPublish env h cb arg (Some r) Accepted st) (\<lambda>(p, st1).
       res_map (\<lambda>(ps, st2). (p # ps, st2)) (publish_all env h xs st1))"

definition publishable :: "'d dbl \<Rightarrow> 'd measurement \<Rightarrow> bool" where
  "publishable env r \<longleftrightarrow> \<not> (is_nan env (mr_value r) \<and> string_value r = None)"

definition rec_of :: "nat option \<times> nat \<times> 'd measurement \<Rightarrow> 'd measurement" where
  "rec_of x = snd (snd x)"

text \<open>A server that publishes in batches.\<close>

definition batching :: "nat \<Rightarrow> 'd reposerver \<Rightarrow> 'd rep \<Rightarrow> bool" where
  "batching h rep st \<longleftrightarrow> h \<noteq> 0 \<and> servers st h = Some rep \<and> magic rep = REPOSERVER_MAGIC \<and> publish_delay rep \<noteq> 0"

lemma repPublish_batching:
  assumes "batching h rep st" "publishable env r" "length (publish_buffer rep) < PUBLISH_BUFFER_SIZE"
  shows "repPublish env h cb arg (Some r) out st
    = Inr (Some (next_ptr st),
        st\<lparr> next_ptr := next_ptr st + 1,
            requests := (requests st)(next_ptr st \<mapsto>
              \<lparr> rq_cb = cb, cbarg = Some arg, rq_id = next_ptr st, rq_server = h, rq_data = None \<rparr>),
            servers := (servers st)(h \<mapsto> rep\<lparr> publish_buffer := publish_buffer rep @ [(r, next_ptr st)] \<rparr>) \<rparr>)"
  using assms
  by (auto simp: repPublish_def batching_def publishable_def check_handle_def get_server_def alloc_request_def Let_def
      put_server_def)

lemma publish_all_batching:
  assumes "batching h rep st" "list_all (publishable env) (map rec_of xs)"
    "length (publish_buffer rep) + length xs \<le> PUBLISH_BUFFER_SIZE"
  shows "\<exists>st'. publish_all env h xs st = Inr (map Some [next_ptr st ..< next_ptr st + length xs], st')
    \<and> batching h (rep\<lparr> publish_buffer := publish_buffer rep @ zip (map rec_of xs) [next_ptr st ..< next_ptr st + length xs] \<rparr>) st'
    \<and> stream_buf st' = stream_buf st \<and> sent st' = sent st \<and> batch_timers st' = batch_timers st \<and> calls st' = calls st"
  using assms
proof (induction xs arbitrary: st rep)
  case Nil
  then show ?case by (simp add: batching_def)
next
  case (Cons x xs)
  obtain cb arg r where x: "x = (cb, arg, r)" by (cases x)
  let ?p = "next_ptr st"
  let ?rep = "rep\<lparr> publish_buffer := publish_buffer rep @ [(r, ?p)] \<rparr>"
  let ?st = "st\<lparr> next_ptr := ?p + 1,
      requests := (requests st)(?p \<mapsto> \<lparr> rq_cb = cb, cbarg = Some arg, rq_id = ?p, rq_server = h, rq_data = None \<rparr>),
      servers := (servers st)(h \<mapsto> ?rep) \<rparr>"
  have pub: "publishable env r" "length (publish_buffer rep) < PUBLISH_BUFFER_SIZE"
    using Cons.prems(2,3) by (simp_all add: x rec_of_def)
  have b: "batching h ?rep ?st" using Cons.prems(1) by (simp add: batching_def)
  define us where "us = [?p + 1 ..< ?p + 1 + length xs]"
  have np: "next_ptr ?st = ?p + 1" by simp
  have "length (publish_buffer ?rep) + length xs \<le> PUBLISH_BUFFER_SIZE" "list_all (publishable env) (map rec_of xs)"
    using Cons.prems(2,3) by simp_all
  from Cons.IH [OF b this(2,1), unfolded np, folded us_def]
  obtain st' where st': "publish_all env h xs ?st = Inr (map Some us, st')"
    "batching h (?rep\<lparr> publish_buffer := publish_buffer ?rep @ zip (map rec_of xs) us \<rparr>) st'"
    "stream_buf st' = stream_buf ?st" "sent st' = sent ?st" "batch_timers st' = batch_timers ?st" "calls st' = calls ?st"
    by blast
  have up: "[?p ..< ?p + length (x # xs)] = ?p # us"
    unfolding us_def by (subst upt_conv_Cons) simp_all
  show ?case
    unfolding up unfolding x
    using st' repPublish_batching [OF Cons.prems(1) pub, of cb arg Accepted]
    by (intro exI [of _ st']) (simp add: rec_of_def [of "(cb, arg, r)"])
qed

text \<open>
  C17: A batch is published whole: records handed to \<open>repPublish\<close> of a server with a delay each get a new
  handle and are kept, up to 1024 of them; when the timer fires they leave in one post, in their order, one
  line for each record whose text has less than 300 characters, in a buffer that never overflows; the
  buffer is empty again, the records are in transit, and the timer is planned again. No callback is made.
\<close>

theorem batch_published:
  assumes "batching h rep st" "publish_buffer rep = []" "xs \<noteq> []" "length xs \<le> PUBLISH_BUFFER_SIZE"
    "list_all (publishable env) (map rec_of xs)"
  shows "\<exists>st1 st2 rep'. publish_all env h xs st = Inr (map Some [next_ptr st ..< next_ptr st + length xs], st1)
    \<and> deferred_publish_cb env Accepted h st1 = Inr st2
    \<and> sent st2 = sent st @ [\<lparr> uri = ''/BatchPublish'',
        post_data = Some (batch_lines (texts_from env (stream_buf st) (map rec_of xs)) @ [CHR 0x00]),
        http_cb = Batch_cb, http_arg = h, http_server = h \<rparr>]
    \<and> batching h rep' st2 \<and> publish_buffer rep' = []
    \<and> in_transit rep' = zip (map rec_of xs) [next_ptr st ..< next_ptr st + length xs]
    \<and> batch_timers st2 = batch_timers st @ [(h, publish_delay rep)] \<and> calls st2 = calls st"
proof -
  let ?es = "zip (map rec_of xs) [next_ptr st ..< next_ptr st + length xs]"
  let ?rep = "rep\<lparr> publish_buffer := ?es \<rparr>"
  obtain st1 where st1: "publish_all env h xs st = Inr (map Some [next_ptr st ..< next_ptr st + length xs], st1)"
    "batching h ?rep st1" "stream_buf st1 = stream_buf st" "sent st1 = sent st" "batch_timers st1 = batch_timers st"
    "calls st1 = calls st"
    using publish_all_batching [OF assms(1,5)] assms(2,4) by auto
  have es: "map fst ?es = map rec_of xs" "length ?es = length xs" "?es \<noteq> []" using assms(3) by auto
  have s: "get_server st1 h = Inr ?rep" "publish_delay rep \<noteq> 0" "h \<noteq> 0" "magic rep = REPOSERVER_MAGIC"
    using st1(2) by (simp_all add: batching_def get_server_def)
  let ?d = "batch_lines (texts_from env (stream_buf st) (map rec_of xs))"
  have btext: "batch_text env (length ?es * REPO_RECORD_LEN + 10) (map fst ?es) [] (stream_buf st1)
      = Inr ([] @ ?d, encode_run env (map rec_of xs) (stream_buf st))"
    unfolding es st1(3) by (rule batch_text_fits) simp
  let ?st2 = "(put_server h (rep\<lparr> in_transit := ?es, publish_buffer := [] \<rparr>)
          (send_http Accepted \<lparr> uri = ''/BatchPublish'', post_data = Some (?d @ [CHR 0x00]), http_cb = Batch_cb, http_arg = h,
             http_server = h \<rparr> (st1\<lparr> stream_buf := encode_run env (map rec_of xs) (stream_buf st) \<rparr>)))
        \<lparr> batch_timers := batch_timers st1 @ [(h, publish_delay rep)] \<rparr>"
  have "deferred_publish_cb env Accepted h st1 = Inr ?st2"
    using s es(3) st1(2) btext
    by (simp add: deferred_publish_cb_def publish_batch_def make_post_request_def get_server_def put_server_def send_http_def
        batching_def)
  moreover have "batching h (rep\<lparr> in_transit := ?es, publish_buffer := [] \<rparr>) ?st2"
    using s by (simp add: batching_def put_server_def send_http_def)
  moreover have "sent ?st2 = sent st @ [\<lparr> uri = ''/BatchPublish'', post_data = Some (?d @ [CHR 0x00]), http_cb = Batch_cb,
        http_arg = h, http_server = h \<rparr>]" "batch_timers ?st2 = batch_timers st @ [(h, publish_delay rep)]"
      "calls ?st2 = calls st"
    using st1 by (simp_all add: put_server_def send_http_def)
  ultimately show ?thesis
    using st1(1) by (intro exI [of _ st1] exI [of _ ?st2] exI [of _ "rep\<lparr> in_transit := ?es, publish_buffer := [] \<rparr>"]) simp
qed

definition server0 :: "int reposerver" where
  "server0 = \<lparr> address = ''host'', port = 80, publish_delay = 5, publish_buffer = [], in_transit = [],
     magic = REPOSERVER_MAGIC \<rparr>"

definition rep0 :: "int rep" where
  "rep0 = \<lparr> next_ptr = 2, requests = Map.empty, servers = [1 \<mapsto> server0], stream_buf = [], sent = [],
     batch_timers = [], calls = [] \<rparr>"

lemma batch_published_witness:
  "\<exists>st1 st2 rep'. publish_all int_dbl 1 [(None, 9, rtt_record ''P'' 5), (Some 4, 8, rtt_record ''Q'' 6)] rep0 = Inr ([Some 2, Some 3], st1)
    \<and> deferred_publish_cb int_dbl Accepted 1 st1 = Inr st2 \<and> batching 1 rep' st2
    \<and> in_transit rep' = [(rtt_record ''P'' 5, 2), (rtt_record ''Q'' 6, 3)]"
proof -
  have "batching 1 server0 rep0" by (simp add: batching_def server0_def rep0_def)
  moreover have "publish_buffer server0 = []" by (simp add: server0_def)
  moreover have "next_ptr rep0 = 2" by (simp add: rep0_def)
  moreover have "[2 ..< 4] = [2, 3 :: nat]" by (simp add: upt_rec)
  ultimately show ?thesis
    using batch_published [of 1 server0 rep0 "[(None, 9, rtt_record ''P'' 5), (Some 4, 8, rtt_record ''Q'' 6)]" int_dbl]
    by (simp add: PUBLISH_BUFFER_SIZE_def publishable_def int_dbl_def rec_of_def) blast
qed

section \<open>Answers\<close>

lemma call_user_None [simp]: "call_user None c st = st"
  by (simp add: call_user_def)

lemma free_request_Some: "requests st p = Some rd \<Longrightarrow> free_request p st = Inr (st\<lparr> requests := (requests st)(p := None) \<rparr>)"
  by (simp add: free_request_def)

lemma free_then_get: "free_request p st = Inr st1 \<Longrightarrow> get_request st1 p = Inl UseAfterFree"
  by (auto simp: free_request_def get_request_def split: option.splits)

text \<open>
  C36: Three of the four callbacks of the HTTP library read the user's argument from the request structure after
  freeing it: whenever the user gave a callback, the answer to a publication, to a batch whose first entry it
  is, and to a failed query for measurements is a use of freed memory.
\<close>

theorem answer_uses_freed_request:
  assumes "requests st p = Some rd" "p \<noteq> 0" "rq_cb rd = Some f"
    and "servers st h = Some rep" "h \<noteq> 0" "in_transit rep = (m, p) # es" "rq_server rd = h"
  shows "publish_callback (Some resp) p st = Inl UseAfterFree
    \<and> batch_publish_callback (Some resp) h st = Inl UseAfterFree
    \<and> getMeasurements_callback env (Some \<lparr> response_code = 404, input_lines = ls \<rparr>) p st = Inl UseAfterFree"
proof -
  have g: "get_request st p = Inr rd" using assms(1) by (simp add: get_request_def)
  obtain st1 where f: "free_request p st = Inr st1" and s1: "servers st1 = servers st"
    using free_request_Some [OF assms(1)] by simp
  have u: "get_request st1 p = Inl UseAfterFree" by (rule free_then_get [OF f])
  have s: "get_server st1 h = Inr rep" "get_server st h = Inr rep" using assms(4) s1 by (simp_all add: get_server_def)
  have "publish_callback (Some resp) p st = Inl UseAfterFree"
    using assms(2,3,7) g f u s by (simp add: publish_callback_def)
  moreover have "batch_publish_callback (Some resp) h st = Inl UseAfterFree"
    using assms(3,5,6) g f u s by (simp add: batch_publish_callback_def)
  moreover have "getMeasurements_callback env (Some \<lparr> response_code = 404, input_lines = ls \<rparr>) p st = Inl UseAfterFree"
    using assms(2,3) g f u by (simp add: getMeasurements_callback_def)
  ultimately show ?thesis by simp
qed

text \<open>Entries of a batch nobody asked to be told about.\<close>

definition silent :: "'d rep \<Rightarrow> 'd deferred_publish list \<Rightarrow> bool" where
  "silent st es \<longleftrightarrow> distinct (map snd es) \<and> list_all (\<lambda>e. case requests st (snd e) of None \<Rightarrow> False | Some rd \<Rightarrow> rq_cb rd = None) es"

lemma tell_entries_silent:
  "silent st es \<Longrightarrow>
   tell_entries h code es st = Inr (st\<lparr> requests := (\<lambda>p. if p \<in> set (map snd es) then None else requests st p) \<rparr>)"
proof (induction es arbitrary: st)
  case Nil
  then show ?case by simp
next
  case (Cons e es)
  obtain m p where e: "e = (m, p)" by (cases e)
  obtain rd where rd: "requests st p = Some rd" "rq_cb rd = None"
    using Cons.prems by (auto simp: silent_def e split: option.splits)
  let ?st = "st\<lparr> requests := (requests st)(p := None) \<rparr>"
  have "silent ?st es"
    using Cons.prems by (auto simp: silent_def e list_all_iff split: option.splits if_splits)
  from Cons.IH [OF this] have "tell_entries h code es ?st
      = Inr (?st\<lparr> requests := (\<lambda>q. if q \<in> set (map snd es) then None else requests ?st q) \<rparr>)" .
  moreover have "(\<lambda>q. if q \<in> set (map snd es) then None else requests ?st q)
      = (\<lambda>q. if q \<in> set (map snd (e # es)) then None else requests st q)"
    by (auto simp: e)
  ultimately show ?case
    using rd by (simp add: e get_request_def free_request_def)
qed

text \<open>
  A batch posted before the one before it was answered takes its place: the records in transit are
  overwritten, and the answer to the first batch is taken for the answer to the second. The second batch's
  requests are freed, the first one's stay allocated, and no server knows them any more.
\<close>

theorem overlapping_batches:
  assumes "batching h rep st" "publish_buffer rep = e2 # es2" "in_transit rep = es1" "silent st (e2 # es2)"
    and "list_all (\<lambda>e. snd e \<notin> set (map snd (e2 # es2))) es1"
  shows "\<exists>st1 st2. deferred_publish_cb env out h st = Inr st1 \<and> batch_publish_callback (Some resp) h st1 = Inr st2
    \<and> list_all (\<lambda>e. requests st2 (snd e) = None) (e2 # es2)
    \<and> list_all (\<lambda>e. requests st2 (snd e) = requests st (snd e)) es1
    \<and> servers st2 h = Some (rep\<lparr> publish_buffer := [], in_transit := [] \<rparr>) \<and> calls st2 = calls st"
proof -
  let ?es = "e2 # es2"
  let ?rep = "rep\<lparr> in_transit := ?es, publish_buffer := [] \<rparr>"
  have h: "h \<noteq> 0" "get_server st h = Inr rep" "publish_delay rep \<noteq> 0"
    using assms(1) by (simp_all add: batching_def get_server_def)
  obtain d b where t: "batch_text env (length ?es * REPO_RECORD_LEN + 10) (map fst ?es) [] (stream_buf st) = Inr (d, b)"
    using batch_text_fits [of "[]" "map fst ?es" "length ?es * REPO_RECORD_LEN + 10" env "stream_buf st"] by simp
  obtain i st0 where p: "make_post_request out ''/BatchPublish'' d Batch_cb h (st\<lparr> stream_buf := b \<rparr>) = Inr (i, st0)"
    and s0: "requests st0 = requests st" "servers st0 = servers st" "calls st0 = calls st"
    using h(2) by (cases out) (simp_all add: make_post_request_def get_server_def send_http_def split: option.splits)
  let ?st1 = "(put_server h ?rep st0)\<lparr> batch_timers := batch_timers (put_server h ?rep st0) @ [(h, publish_delay rep)] \<rparr>"
  have "publish_batch env out h st = Inr (put_server h ?rep st0)"
    using h(2) t p assms(2) by (simp add: publish_batch_def)
  then have d1: "deferred_publish_cb env out h st = Inr ?st1"
    using h(3) by (simp add: deferred_publish_cb_def get_server_def put_server_def)
  have "silent ?st1 ?es" using assms(4) s0(1) by (simp add: silent_def put_server_def)
  note told = tell_entries_silent [OF this, of h "response_code resp"]
  let ?st2 = "put_server h (rep\<lparr> publish_buffer := [], in_transit := [] \<rparr>)
      (?st1\<lparr> requests := (\<lambda>p. if p \<in> set (map snd ?es) then None else requests ?st1 p) \<rparr>)"
  have "batch_publish_callback (Some resp) h ?st1 = Inr ?st2"
    using h(1) told by (simp add: batch_publish_callback_def get_server_def put_server_def)
  moreover have "list_all (\<lambda>e. requests ?st2 (snd e) = None) ?es"
    unfolding list_all_iff by (simp add: put_server_def)
  moreover have "list_all (\<lambda>e. requests ?st2 (snd e) = requests st (snd e)) es1"
    using assms(5) s0(1) unfolding list_all_iff by (simp add: put_server_def)
  moreover have "servers ?st2 h = Some (rep\<lparr> publish_buffer := [], in_transit := [] \<rparr>)" "calls ?st2 = calls st"
    using s0(3) by (simp_all add: put_server_def)
  ultimately show ?thesis
    using d1 by (intro exI [of _ ?st1] exI [of _ ?st2] conjI)
qed

lemma answer_uses_freed_request_witness:
  "publish_callback (Some \<lparr> response_code = 200, input_lines = [] \<rparr>) 2
     (rep0\<lparr> requests := [2 \<mapsto> \<lparr> rq_cb = Some 7, cbarg = Some 9, rq_id = 2, rq_server = 1, rq_data = None \<rparr>],
            servers := [1 \<mapsto> server0\<lparr> in_transit := [(rtt_record ''P'' 5, 2)] \<rparr>] \<rparr>) = Inl UseAfterFree"
  by (insert answer_uses_freed_request [where p = 2 and rd = "\<lparr> rq_cb = Some 7, cbarg = Some 9, rq_id = 2, rq_server = 1, rq_data = None \<rparr>"
        and f = 7 and h = 1 and rep = "server0\<lparr> in_transit := [(rtt_record ''P'' 5, 2)] \<rparr>" and m = "rtt_record ''P'' 5" and es = "[]"
        and resp = "\<lparr> response_code = 200, input_lines = [] \<rparr>"
        and st = "rep0\<lparr> requests := [2 \<mapsto> \<lparr> rq_cb = Some 7, cbarg = Some 9, rq_id = 2, rq_server = 1, rq_data = None \<rparr>],
            servers := [1 \<mapsto> server0\<lparr> in_transit := [(rtt_record ''P'' 5, 2)] \<rparr>] \<rparr>"]) simp

lemma overlapping_batches_witness:
  "\<exists>st1 st2. deferred_publish_cb int_dbl Accepted 1
       (rep0\<lparr> requests := [2 \<mapsto> \<lparr> rq_cb = None, cbarg = Some 9, rq_id = 2, rq_server = 1, rq_data = None \<rparr>,
                           3 \<mapsto> \<lparr> rq_cb = Some 4, cbarg = Some 9, rq_id = 3, rq_server = 1, rq_data = None \<rparr>],
              servers := [1 \<mapsto> server0\<lparr> publish_buffer := [(rtt_record ''P'' 5, 2)], in_transit := [(rtt_record ''Q'' 6, 3)] \<rparr>] \<rparr>)
       = Inr st1
     \<and> batch_publish_callback (Some \<lparr> response_code = 200, input_lines = [] \<rparr>) 1 st1 = Inr st2
     \<and> requests st2 2 = None \<and> requests st2 3 \<noteq> None \<and> calls st2 = []"
proof -
  let ?st = "rep0\<lparr> requests := [2 \<mapsto> \<lparr> rq_cb = None, cbarg = Some 9, rq_id = 2, rq_server = 1, rq_data = None \<rparr>,
                           3 \<mapsto> \<lparr> rq_cb = Some 4, cbarg = Some 9, rq_id = 3, rq_server = 1, rq_data = None \<rparr>],
              servers := [1 \<mapsto> server0\<lparr> publish_buffer := [(rtt_record ''P'' 5, 2)], in_transit := [(rtt_record ''Q'' 6, 3)] \<rparr>] \<rparr>"
  have "batching 1 (server0\<lparr> publish_buffer := [(rtt_record ''P'' 5, 2)], in_transit := [(rtt_record ''Q'' 6, 3)] \<rparr>) ?st"
    by (simp add: batching_def server0_def)
  from overlapping_batches [OF this, of "(rtt_record ''P'' 5, 2)" "[]" "[(rtt_record ''Q'' 6, 3)]" int_dbl Accepted
      "\<lparr> response_code = 200, input_lines = [] \<rparr>"]
  show ?thesis by (auto simp: silent_def rep0_def)
qed

text \<open>
  Closing a server that publishes in batches leaves the timer of its batch publisher: when that fires, the
  publisher uses the freed server.
\<close>

theorem close_leaves_timer:
  assumes "parse_serverspec s = Inr (a, p)" "s \<noteq> []" "s \<noteq> ''-''" "d \<noteq> 0" "0 < next_ptr st"
  shows "\<exists>h st1 st2. repOpen (Some s) d True st = Inr (h, st1) \<and> (h, d) \<in> set (batch_timers st1)
    \<and> repClose h st1 = Inr st2 \<and> (h, d) \<in> set (batch_timers st2)
    \<and> deferred_publish_cb env out h st2 = Inl UseAfterFree"
proof -
  let ?h = "next_ptr st"
  let ?st1 = "(put_server ?h \<lparr> address = a, port = p, publish_delay = d, publish_buffer = [], in_transit = [],
      magic = REPOSERVER_MAGIC \<rparr> (st\<lparr> next_ptr := ?h + 1 \<rparr>))\<lparr> batch_timers := batch_timers st @ [(?h, d)] \<rparr>"
  let ?st2 = "?st1\<lparr> servers := (servers ?st1)(?h := None), sent := filter (\<lambda>q. http_server q \<noteq> ?h) (sent ?st1) \<rparr>"
  have "repOpen (Some s) d True st = Inr (?h, ?st1)"
    using assms by (simp add: repOpen_def Let_def put_server_def)
  moreover have "repClose ?h ?st1 = Inr ?st2"
    using assms(5) by (simp add: repClose_def check_handle_def get_server_def put_server_def)
  moreover have "deferred_publish_cb env out ?h ?st2 = Inl UseAfterFree"
    by (simp add: deferred_publish_cb_def publish_batch_def get_server_def)
  moreover have "(?h, d) \<in> set (batch_timers ?st1)" "(?h, d) \<in> set (batch_timers ?st2)" by simp_all
  ultimately show ?thesis by (intro exI [of _ ?h] exI [of _ ?st1] exI [of _ ?st2] conjI)
qed

lemma close_leaves_timer_witness:
  "\<exists>h st1 st2. repOpen (Some ''a:9'') 5 True rep0 = Inr (h, st1) \<and> repClose h st1 = Inr st2
    \<and> deferred_publish_cb int_dbl Accepted h st2 = Inl UseAfterFree"
proof -
  have "parse_serverspec ''a:9'' = Inr (''a'', 9)"
    by (simp add: parse_serverspec_def scan_hu_def Let_def is_space_def digit_val_def)
  from close_leaves_timer [OF this, of 5 rep0 int_dbl Accepted] show ?thesis
    by (auto simp: rep0_def)
qed

section \<open>Results of queries\<close>

lemma collect_all:
  assumes "10000 * (length acc div 10000 + 1) \<le> cap"
  shows "collect Inr cap acc ls = Inr (acc @ ls)"
  using assms
proof (induction ls arbitrary: acc cap)
  case Nil
  then show ?case by simp
next
  case (Cons l ls)
  have less: "length acc < cap"
    using Cons.prems dividend_less_times_div [of 10000 "length acc"] by simp
  let ?cap = "if Suc (length acc) mod 10000 = 0 then cap + 10000 else cap"
  have "10000 * (length (acc @ [l]) div 10000 + 1) \<le> ?cap"
    using Cons.prems by (auto simp: div_Suc)
  from Cons.IH [OF this] show ?case using less by simp
qed

lemma collect_few:
  assumes "length acc \<le> cap" "cap < 10000"
  shows "collect Inr cap acc ls = Inr (acc @ take (cap - length acc) ls)"
  using assms
proof (induction ls arbitrary: acc)
  case Nil
  then show ?case by simp
next
  case (Cons l ls)
  show ?case
  proof (cases "length acc = cap")
    case False
    with Cons.prems have less: "length acc < cap" and "Suc (length acc) mod 10000 \<noteq> 0" by simp_all
    moreover have "collect Inr cap (acc @ [l]) ls = Inr ((acc @ [l]) @ take (cap - length (acc @ [l])) ls)"
      by (rule Cons.IH) (use less Cons.prems in simp_all)
    ultimately show ?thesis by (simp add: Suc_diff_Suc take_Cons')
  qed simp
qed

text \<open>
  C24: The answer to a query for names or peers is handed to the user once, with the user's argument as far as
  it was stored, and the request is freed. It has the first lines of the answer, at most as many as asked
  for, when that is less than 10000; from there on the array grows past the bound and every line is returned,
  as it is with no bound at all. The array is never overrun.
\<close>

theorem query_answer:
  assumes "requests st p = Some rd" "p \<noteq> 0" "rq_cb rd = Some f" "rq_data rd = Some n" "response_code resp = 200"
  shows "stringlist_callback (Some resp) p st = Inr (st\<lparr> requests := (requests st)(p := None),
      calls := calls st @ [(f, Strings (rq_server rd) (rq_id rd) (cbarg rd)
        (Some (if 0 < n \<and> n < 10000 then take (nat n) (input_lines resp) else input_lines resp)))] \<rparr>)"
proof -
  have "collect Inr (result_max rd) [] (input_lines resp)
      = Inr (if 0 < n \<and> n < 10000 then take (nat n) (input_lines resp) else input_lines resp)"
  proof (cases "0 < n \<and> n < 10000")
    case True
    then have "result_max rd = nat n" "nat n < 10000" using assms(4) by (simp_all add: result_max_def nat_less_iff)
    then show ?thesis using True collect_few [of "[]" "nat n" "input_lines resp"] by simp
  next
    case False
    then have "10000 \<le> result_max rd" using assms(4) by (auto simp: result_max_def Let_def)
    then show ?thesis using False collect_all [of "[]" "result_max rd" "input_lines resp"] by auto
  qed
  then show ?thesis
    using assms by (simp add: stringlist_callback_def get_request_def free_request_def call_user_def)
qed

lemma query_answer_witness:
  "stringlist_callback (Some \<lparr> response_code = 200, input_lines = [''a'', ''b'', ''c''] \<rparr>) 2
     (rep0\<lparr> requests := [2 \<mapsto> \<lparr> rq_cb = Some 7, cbarg = Some 9, rq_id = 2, rq_server = 1, rq_data = Some 2 \<rparr>] \<rparr>)
   = Inr (rep0\<lparr> requests := [2 \<mapsto> \<lparr> rq_cb = Some 7, cbarg = Some 9, rq_id = 2, rq_server = 1, rq_data = Some 2 \<rparr>] (2 := None),
       calls := [(7, Strings 1 2 (Some 9) (Some [''a'', ''b'']))] \<rparr>)"
  by (subst query_answer [of _ _ "\<lparr> rq_cb = Some 7, cbarg = Some 9, rq_id = 2, rq_server = 1, rq_data = Some 2 \<rparr>" 7 2])
    (simp_all add: rep0_def)

text \<open>The entries of a ranking run together, where the protocol has them separated by semicolons.\<close>

lemma rankings_run_together:
  "rankings_loop env junk i rs buf = Inr t \<Longrightarrow> t = buf @ concat (map (ranking_text env) rs)"
proof (induction rs arbitrary: i buf)
  case Nil
  then show ?case by simp
next
  case (Cons r rs)
  then have "rankings_loop env junk (i + 1) rs (buf @ ranking_text env r) = Inr t"
    by (auto simp: res_bind_Inr str_add_def fits_def split: if_splits)
  from Cons.IH [OF this] show ?case by simp
qed

end
