(* ===== verification/Dclog.thy ===== *)
theory Dclog
  imports Rep_Record
begin

text \<open>
  The log library (\<open>dclog/dclog.c\<close>) and the logging interface of the other modules (\<open>dclog/log.c\<close>). A file is
  an inode with its contents, names lead to inodes, and a stream is an inode opened for writing at its end,
  standard output or standard error. What the operating system and the clock answer is in \<open>log_env\<close>;
  \<open>strftime\<close> is a parameter of it. Objects are non-NULL pointers to a \<open>dclog\<close>; \<open>None\<close> is NULL. Memory allocation
  and \<open>setvbuf\<close> succeed.
\<close>

section \<open>Files\<close>

datatype stream = Stderr | Stdout | Inode nat

record world =
  names :: "string \<Rightarrow> nat option"
  contents :: "nat \<Rightarrow> string"
  next_ino :: nat
  err_out :: string
  std_out :: string

record tm =
  tm_mday :: nat
  tm_hour :: nat
  tm_min :: nat
  tm_sec :: nat

record log_env =
  now :: tm
  now_usec :: int
  clock_ok :: bool
  strftime :: "string \<Rightarrow> tm \<Rightarrow> string"
  can_open :: "string \<Rightarrow> bool"
  can_rename :: bool
  close_ok :: bool
  hostname :: "string option"
  rand_no :: nat

definition put :: "stream \<Rightarrow> string \<Rightarrow> world \<Rightarrow> world" where
  "put f t w =
     (case f of Stderr \<Rightarrow> w\<lparr> err_out := err_out w @ t \<rparr> | Stdout \<Rightarrow> w\<lparr> std_out := std_out w @ t \<rparr>
      | Inode i \<Rightarrow> w\<lparr> contents := (contents w)(i := contents w i @ t) \<rparr>)"

text \<open>\<open>fopen\<close> in the two modes the library documents.\<close>

definition fopen :: "log_env \<Rightarrow> string \<Rightarrow> string \<Rightarrow> world \<Rightarrow> (stream \<times> world) option" where
  "fopen env f mode w =
     (if \<not> can_open env f \<or> (mode \<noteq> ''w'' \<and> mode \<noteq> ''a'') then None
      else case names w f of
        Some i \<Rightarrow> Some (Inode i, if mode = ''w'' then w\<lparr> contents := (contents w)(i := []) \<rparr> else w)
      | None \<Rightarrow> Some (Inode (next_ino w), w\<lparr> names := (names w)(f \<mapsto> next_ino w), next_ino := next_ino w + 1,
            contents := (contents w)(next_ino w := []) \<rparr>))"

definition rename_file :: "log_env \<Rightarrow> string \<Rightarrow> string \<Rightarrow> world \<Rightarrow> world" where
  "rename_file env f g w =
     (if \<not> can_rename env \<or> names w f = None \<or> f = g then w
      else w\<lparr> names := (names w)(g := names w f, f := None) \<rparr>)"

section \<open>The log object\<close>

text \<open>
  The character arrays hold what \<open>strncpy\<close> put there; it writes no NUL when the text fills the array. Reading such an
  array as a string is then out of bounds.
\<close>

record dclog =
  fp :: "stream option"
  fn :: "string option"
  mailhost :: "string option"
  dto :: "string option"
  from_hdr :: "string option"
  spool :: string
  lev :: byte
  features :: byte
  ts_fmt :: string
  prev_date :: "tm option"
  counts :: "nat list"
  limit_size :: bool
  max_file_size :: int

definition DCLOG_FN_LEN :: nat where "DCLOG_FN_LEN = 1024"
definition DCLOG_TS_FMT_LEN :: nat where "DCLOG_TS_FMT_LEN = 32"

definition FEAT_HEADER :: byte where "FEAT_HEADER = push_bit 0 1"
definition FEAT_UNIQUE :: byte where "FEAT_UNIQUE = push_bit 1 1"
definition FEAT_PLEVEL :: byte where "FEAT_PLEVEL = push_bit 2 1"
definition FEAT_NEWLINE :: byte where "FEAT_NEWLINE = push_bit 3 1"

definition strncpy :: "nat \<Rightarrow> string \<Rightarrow> string" where
  "strncpy cap s = take cap s"

definition c_string :: "nat \<Rightarrow> string \<Rightarrow> string res" where
  "c_string cap a = (if length a < cap then Inr a else Inl OutOfBounds)"

definition NewDCLog :: dclog where
  "NewDCLog = \<lparr> fp = None, fn = None, mailhost = Some ''localhost'', dto = Some ''root@localhost'', from_hdr = None,
     spool = ''/var/spool/alarmd'', lev = 0, features = 0, ts_fmt = [], prev_date = None,
     counts = replicate 128 1 @ replicate 872 0, limit_size = False, max_file_size = 0 \<rparr>"

section \<open>Levels\<close>

definition levels :: "string option list" where
  "levels = [Some ''ALARM'', Some ''ERROR'', Some ''WARNING'', Some ''INFO'', Some ''DEBUG'', Some ''PROFILE'', None]"

definition lower :: "char \<Rightarrow> char" where
  "lower c = (let n = of_char c :: nat in if 65 \<le> n \<and> n \<le> 90 then char_of (n + 32) else c)"

definition same_text :: "string \<Rightarrow> string \<Rightarrow> bool" where
  "same_text s t \<longleftrightarrow> map lower s = map lower t"

fun find_level :: "(string \<Rightarrow> nat \<Rightarrow> bool) \<Rightarrow> nat \<Rightarrow> string option list \<Rightarrow> nat option" where
  "find_level P i [] = None"
| "find_level P i (None # ls) = None"
| "find_level P i (Some l # ls) = (if P l i then Some i else find_level P (i + 1) ls)"

text \<open>\<open>strncasecmp\<close> compares the first ten characters.\<close>

definition DCLogLevelToNum :: "string \<Rightarrow> int" where
  "DCLogLevelToNum s =
     (case find_level (\<lambda>l i. same_text (take 10 s) (take 10 l)) 0 levels of None \<Rightarrow> -1 | Some i \<Rightarrow> int i)"

definition DCLogLevelToString :: "int \<Rightarrow> string option" where
  "DCLogLevelToString n =
     (case find_level (\<lambda>l i. int i = n) 0 levels of None \<Rightarrow> None | Some i \<Rightarrow> levels ! i)"

definition level_printed :: "byte \<Rightarrow> string res" where
  "level_printed l = (if unat l < length levels then Inr (fmt_s (levels ! unat l)) else Inl OutOfBounds)"

section \<open>Set-up\<close>

text \<open>Switching a feature: 1 sets the bit, 0 flips it, anything else is refused.\<close>

definition set_feature :: "byte \<Rightarrow> byte \<Rightarrow> dclog \<Rightarrow> bool \<times> dclog" where
  "set_feature m v d =
     (if v = 0 then (True, d\<lparr> features := features d XOR m \<rparr>)
      else if v = 1 then (True, d\<lparr> features := features d OR m \<rparr>) else (False, d))"

definition on_object :: "(dclog \<Rightarrow> bool \<times> dclog) \<Rightarrow> dclog option \<Rightarrow> bool \<times> dclog option" where
  "on_object f d = (case d of None \<Rightarrow> (False, None) | Some x \<Rightarrow> (case f x of (r, y) \<Rightarrow> (r, Some y)))"

definition DCLogSetHeader :: "byte \<Rightarrow> dclog option \<Rightarrow> bool \<times> dclog option" where
  "DCLogSetHeader v = on_object (set_feature FEAT_HEADER v)"

definition DCLogSetPrintLevel :: "byte \<Rightarrow> dclog option \<Rightarrow> bool \<times> dclog option" where
  "DCLogSetPrintLevel v = on_object (set_feature FEAT_PLEVEL v)"

definition DCLogSetNewLine :: "byte \<Rightarrow> dclog option \<Rightarrow> bool \<times> dclog option" where
  "DCLogSetNewLine v = on_object (set_feature FEAT_NEWLINE v)"

definition DCLogSetUniqueByDay :: "byte \<Rightarrow> dclog option \<Rightarrow> bool \<times> dclog option" where
  "DCLogSetUniqueByDay v = on_object (\<lambda>d. case set_feature FEAT_UNIQUE v d of (r, e) \<Rightarrow>
     (r, if r \<and> ts_fmt e = [] then e\<lparr> ts_fmt := strncpy DCLOG_TS_FMT_LEN ''.%d'' \<rparr> else e))"

definition DCLogSetTimestampFormat :: "string option \<Rightarrow> dclog option \<Rightarrow> bool \<times> dclog option" where
  "DCLogSetTimestampFormat f d =
     (case (d, f) of (Some x, Some t) \<Rightarrow> DCLogSetUniqueByDay 1 (Some (x\<lparr> ts_fmt := strncpy DCLOG_TS_FMT_LEN t \<rparr>))
      | _ \<Rightarrow> (False, d))"

definition DCLogSetLevel :: "byte \<Rightarrow> dclog option \<Rightarrow> bool \<times> dclog option" where
  "DCLogSetLevel l = on_object (\<lambda>d. (True, d\<lparr> lev := l \<rparr>))"

definition DCLogSetMaxFileSize :: "int \<Rightarrow> dclog option \<Rightarrow> bool \<times> dclog option" where
  "DCLogSetMaxFileSize n = on_object (\<lambda>d. (True, d\<lparr> limit_size := True, max_file_size := n \<rparr>))"

text \<open>Setting a string: an equal one stays, another is freed and replaced.\<close>

definition DCLogSetMailServer :: "string option \<Rightarrow> dclog option \<Rightarrow> bool \<times> dclog option" where
  "DCLogSetMailServer m d =
     (case (d, m) of (Some x, Some t) \<Rightarrow> (True, Some (if mailhost x = Some t then x else x\<lparr> mailhost := Some t \<rparr>))
      | _ \<Rightarrow> (False, d))"

definition DCLogSetPageServer :: "string option \<Rightarrow> dclog option \<Rightarrow> bool \<times> dclog option" where
  "DCLogSetPageServer m d =
     (case (d, m) of (Some x, Some t) \<Rightarrow> (True, Some (if dto x = Some t then x else x\<lparr> dto := Some t \<rparr>))
      | _ \<Rightarrow> (False, d))"

definition DCLogSetProgram :: "log_env \<Rightarrow> string option \<Rightarrow> dclog option \<Rightarrow> bool \<times> dclog option" where
  "DCLogSetProgram env m d =
     (case (d, m) of (Some x, Some t) \<Rightarrow>
        let f = t @ ''@'' @ (case hostname env of None \<Rightarrow> ''localhost'' | Some h \<Rightarrow> h)
        in (True, Some (if from_hdr x = Some f then x else x\<lparr> from_hdr := Some f \<rparr>))
      | _ \<Rightarrow> (False, d))"

definition DCLogSetSpool :: "string option \<Rightarrow> dclog option \<Rightarrow> bool \<times> dclog option" where
  "DCLogSetSpool m d =
     (case (d, m) of (Some x, Some t) \<Rightarrow> (True, Some (x\<lparr> spool := strncpy 256 t \<rparr>)) | _ \<Rightarrow> (False, d))"

section \<open>Opening and closing\<close>

text \<open>A time stamp that does not fit leaves the name indeterminate, which counts as out of bounds.\<close>

definition stamped :: "log_env \<Rightarrow> dclog \<Rightarrow> string \<Rightarrow> string res" where
  "stamped env d a =
     res_bind (c_string DCLOG_FN_LEN a) (\<lambda>f. res_bind (c_string DCLOG_TS_FMT_LEN (ts_fmt d)) (\<lambda>t.
       let s = strftime env t (now env)
       in if length s < DCLOG_FN_LEN - 1 - length f then Inr (f @ s) else Inl OutOfBounds))"

definition DCLogOpen :: "log_env \<Rightarrow> string \<Rightarrow> string \<Rightarrow> dclog \<Rightarrow> world \<Rightarrow> (bool \<times> dclog \<times> world) res" where
  "DCLogOpen env f mode d w =
     (let a = strncpy DCLOG_FN_LEN f
      in if same_text f ''stderr'' then Inr (True, d\<lparr> fn := Some a, fp := Some Stderr \<rparr>, w)
         else if same_text f ''stdout'' then Inr (True, d\<lparr> fn := Some a, fp := Some Stdout \<rparr>, w)
         else res_bind (if features d AND FEAT_UNIQUE \<noteq> 0 then stamped env d a else Inr a) (\<lambda>b.
              res_bind (c_string DCLOG_FN_LEN b) (\<lambda>g.
                case fopen env g mode w of
                  None \<Rightarrow> Inr (False, d\<lparr> fn := Some b, fp := None \<rparr>, w)
                | Some (s, w1) \<Rightarrow> Inr (True, d\<lparr> fn := Some b, fp := Some s \<rparr>, w1))))"

definition fn_string :: "dclog \<Rightarrow> string res" where
  "fn_string d = (case fn d of None \<Rightarrow> Inl NullDeref | Some a \<Rightarrow> c_string DCLOG_FN_LEN a)"

definition DCLogClose :: "log_env \<Rightarrow> dclog \<Rightarrow> (bool \<times> dclog) res" where
  "DCLogClose env d =
     (if fp d = None then Inr (False, d)
      else res_map (\<lambda>f. (same_text f ''stderr'' \<or> same_text f ''stdout'' \<or> close_ok env, d\<lparr> fp := None \<rparr>)) (fn_string d))"

definition truncate_log :: "log_env \<Rightarrow> dclog \<Rightarrow> world \<Rightarrow> (bool \<times> dclog \<times> world) res" where
  "truncate_log env d w =
     (if fn d = None \<or> fp d = None then Inr (False, d, w)
      else res_map (\<lambda>f. case fopen env f ''w'' w of
          None \<Rightarrow> (False, d\<lparr> fp := None \<rparr>, w) | Some (s, w1) \<Rightarrow> (True, d\<lparr> fp := Some s \<rparr>, w1)) (fn_string d))"

definition DCLogCanLog :: "dclog option \<Rightarrow> bool" where
  "DCLogCanLog d = (case d of None \<Rightarrow> False | Some x \<Rightarrow> fp x \<noteq> None \<and> fn x \<noteq> None)"

section \<open>Writing\<close>

text \<open>\<open>%02d\<close> of a number that is not negative.\<close>

definition pad2 :: "nat \<Rightarrow> string" where
  "pad2 n = replicate (2 - length (dec n)) (CHR ''0'') @ dec n"

definition stars :: string where
  "stars = [CHR 0x0A, CHR 0x0A] @ replicate 43 (CHR ''*'') @ [CHR 0x0A, CHR 0x0A]"

text \<open>The rightmost dot and what follows it are cut off; the loop does not look at the first character.\<close>

fun snip_from :: "nat \<Rightarrow> string \<Rightarrow> string" where
  "snip_from 0 s = s"
| "snip_from (Suc i) s = (if i + 1 < length s \<and> s ! (i + 1) = CHR ''.'' then take (i + 1) s else snip_from i s)"

definition snip :: "string \<Rightarrow> string" where
  "snip s = snip_from (length s) s"

definition day_warning :: "nat \<Rightarrow> nat \<Rightarrow> string" where
  "day_warning a b =
     stars @ ''Warning: rotating log files due the day of the month changing from '' @ pad2 a @ '' to '' @ pad2 b @ stars"

definition day_notice :: "string \<Rightarrow> string \<Rightarrow> nat \<Rightarrow> nat \<Rightarrow> string" where
  "day_notice old new a b =
     stars @ ''Warning: rotated logfiles from '' @ [CHR 39] @ old @ [CHR 39] @ '' to '' @ [CHR 39] @ new @ [CHR 39]
     @ '' due the day of the month changing from '' @ pad2 a @ '' to '' @ pad2 b @ stars"

definition size_warning :: "int \<Rightarrow> int \<Rightarrow> string" where
  "size_warning n m =
     ''Warning: rotating log files due to the size of the current logfile, '' @ dec_int n
     @ '' bytes, being larger than the maxiumum allowable size, '' @ dec_int m @ '' bytes'' @ [CHR 0x0A]"

definition size_notice :: "string \<Rightarrow> string \<Rightarrow> int \<Rightarrow> int \<Rightarrow> string" where
  "size_notice old new n m =
     ''Warning: rotated log files from '' @ [CHR 39] @ old @ [CHR 39] @ '' to '' @ [CHR 39] @ new @ [CHR 39]
     @ '' due to the size of the current logfile, '' @ dec_int n @ '' bytes, being larger than the maxiumum allowable size, ''
     @ dec_int m @ '' bytes'' @ [CHR 0x0A]"

definition put_log :: "string \<Rightarrow> dclog \<Rightarrow> world \<Rightarrow> world res" where
  "put_log t d w = (case fp d of None \<Rightarrow> Inl NullDeref | Some s \<Rightarrow> Inr (put s t w))"

text \<open>
  One log file per day: when the day of the month has changed since the last rotation, the log is closed and
  one with the new day in its name is opened and truncated. The result is false where the code gives up.
\<close>

definition rotate_day :: "log_env \<Rightarrow> dclog \<Rightarrow> world \<Rightarrow> (bool \<times> dclog \<times> world) res" where
  "rotate_day env d w =
     (let prev = (case prev_date d of None \<Rightarrow> now env | Some t \<Rightarrow> t); d1 = d\<lparr> prev_date := Some prev \<rparr>
      in if tm_mday prev = tm_mday (now env) then Inr (True, d1, w)
         else res_bind (put_log (day_warning (tm_mday prev) (tm_mday (now env))) d1 w) (\<lambda>w1.
              res_bind (fn_string d1) (\<lambda>f. res_bind (c_string 256 (strncpy 256 f)) (\<lambda>old.
              res_bind (DCLogClose env d1) (\<lambda>(closed, d2).
                if \<not> closed then Inr (False, d2, put Stderr (''Failed to close file: '' @ f @ [CHR 0x0A]) w1)
                else res_bind (DCLogOpen env (snip old) ''w'' d2 w1) (\<lambda>(opened, d3, w2).
                  if \<not> opened then Inr (False, d3, put Stderr (''Failed to open file: '' @ snip old @ [CHR 0x0A]) w2)
                  else res_bind (fn_string d3) (\<lambda>new.
                    res_map (\<lambda>w3. (True, d3\<lparr> prev_date := Some (now env) \<rparr>, w3))
                      (put_log (day_notice old new (tm_mday prev) (tm_mday (now env))) d3 w2))))))))"

text \<open>
  A log that has reached its size is renamed to its name with the time of day, and begun anew. The size is cast to \<open>int\<close>
  before it is compared and printed.
\<close>

definition rotate_size :: "log_env \<Rightarrow> dclog \<Rightarrow> world \<Rightarrow> (bool \<times> dclog \<times> world) res" where
  "rotate_size env d w =
     res_bind (fn_string d) (\<lambda>f.
       case names w f of None \<Rightarrow> Inr (True, d, w)
       | Some i \<Rightarrow>
           let n = c_int (int (length (contents w i))) in
           if n < max_file_size d then Inr (True, d, w)
           else let old = take 255 (f @ ''_'' @ pad2 (tm_hour (now env)) @ pad2 (tm_min (now env)) @ pad2 (tm_sec (now env)))
             in res_bind (put_log (size_warning n (max_file_size d)) d w) (\<lambda>w1.
                res_bind (truncate_log env d (rename_file env f old w1)) (\<lambda>(r, d2, w2).
                  if \<not> r then Inr (False, d2, put Stderr (''Failed to truncate logfile: '' @ f @ [CHR 0x0A]) w2)
                  else res_map (\<lambda>w3. (True, d2, w3)) (put_log (size_notice old f n (max_file_size d)) d2 w2))))"

definition header_text :: "log_env \<Rightarrow> string" where
  "header_text env =
     (if \<not> clock_ok env then ''gettimeofday() call failed!'' @ [CHR 0x0A]
      else pad2 (tm_hour (now env)) @ '':'' @ pad2 (tm_min (now env)) @ '':'' @ pad2 (tm_sec (now env)) @ ''.''
        @ pad2 (nat (now_usec env)) @ '': '')"

definition write_text :: "log_env \<Rightarrow> byte \<Rightarrow> string res \<Rightarrow> dclog \<Rightarrow> world \<Rightarrow> (bool \<times> dclog \<times> world) res" where
  "write_text env l msg d w =
     res_bind (if features d AND FEAT_HEADER \<noteq> 0 then put_log (header_text env) d w else Inr w) (\<lambda>w1.
     res_bind (if features d AND FEAT_PLEVEL \<noteq> 0
               then res_bind (level_printed l) (\<lambda>t. put_log (t @ '' '') d w1) else Inr w1) (\<lambda>w2.
     res_bind msg (\<lambda>t. res_map (\<lambda>w3. (True, d, w3)) (put_log t d w2))))"

text \<open>\<open>msg\<close> is the text that the format and its arguments give.\<close>

definition DCLogWrite :: "log_env \<Rightarrow> byte \<Rightarrow> string res \<Rightarrow> dclog option \<Rightarrow> world \<Rightarrow> (bool \<times> dclog option \<times> world) res" where
  "DCLogWrite env l msg log w =
     (case log of None \<Rightarrow> Inr (False, None, w)
      | Some d \<Rightarrow>
          if fp d = None then Inr (False, log, w)
          else if lev d < l then Inr (True, log, w)
          else res_map (\<lambda>(r, e, w'). (r, Some e, w'))
           (res_bind (if features d AND FEAT_UNIQUE \<noteq> 0 then rotate_day env d w else Inr (True, d, w)) (\<lambda>(r1, d1, w1).
              if \<not> r1 then Inr (False, d1, w1)
              else res_bind (if limit_size d1 then rotate_size env d1 w1 else Inr (True, d1, w1)) (\<lambda>(r2, d2, w2).
                if \<not> r2 then Inr (False, d2, w2) else write_text env l msg d2 w2))))"

text \<open>An alarm is a mail in a file of the spool directory; the text is cut at 479 characters.\<close>

definition crlf :: string where "crlf = [CHR 0x0D, CHR 0x0A]"

definition DCLogAlarm ::
    "log_env \<Rightarrow> string option \<Rightarrow> string option \<Rightarrow> string option \<Rightarrow> dclog option \<Rightarrow> world \<Rightarrow> (bool \<times> dclog option \<times> world) res" where
  "DCLogAlarm env code syn msg log w =
     (case (log, code, syn, msg) of
        (Some d, Some c, Some s, Some m) \<Rightarrow>
          (let (r, log1) = (if from_hdr d = None then DCLogSetProgram env (Some ''dclog'') log else (True, log));
               d1 = the log1; frm = fmt_s (from_hdr d1)
           in res_bind (c_string 256 (spool d1)) (\<lambda>sp.
              let f = take 255 (sp @ ''/'' @ frm @ ''.'' @ c @ ''.'' @ dec (rand_no env)) in
              case fopen env f ''w'' w of None \<Rightarrow> Inr (False, log1, w)
              | Some (st, w1) \<Rightarrow> Inr (True, log1, put st (''To: '' @ fmt_s (dto d1) @ crlf @ ''From: '' @ frm @ crlf
                  @ ''Subject: '' @ c @ '': '' @ s @ crlf @ crlf @ take 479 m @ crlf) w1)))
      | _ \<Rightarrow> Inr (False, log, w))"

definition DestroyDCLog :: "log_env \<Rightarrow> dclog option \<Rightarrow> bool res" where
  "DestroyDCLog env log =
     (case log of None \<Rightarrow> Inr False | Some d \<Rightarrow> res_map (\<lambda>_. True) (DCLogClose env d))"

section \<open>The logging interface\<close>

record napa_log =
  dclog :: "dclog option"
  initialized :: bool

text \<open>\<open>exit\<close> is \<open>AssertFail\<close>. The mode is compared with both names at once, so it is always replaced.\<close>

definition napaInitLog :: "log_env \<Rightarrow> int \<Rightarrow> string option \<Rightarrow> string option \<Rightarrow> napa_log \<Rightarrow> world \<Rightarrow> (napa_log \<times> world) res" where
  "napaInitLog env log_level filename mode s w =
     (if initialized s then Inr (s, w)
      else let f = (case filename of None \<Rightarrow> ''stderr'' | Some f \<Rightarrow> f);
               m = (if mode = None \<or> mode \<noteq> Some ''a'' \<or> mode \<noteq> Some ''w'' then ''a'' else the mode)
           in res_bind (DCLogOpen env f m NewDCLog w) (\<lambda>(r, d, w1).
                if \<not> r then Inl AssertFail
                else let d1 = snd (DCLogSetLevel (if log_level < 0 then 255 else word_of_int log_level) (Some d));
                         d2 = snd (DCLogSetPrintLevel 1 (snd (DCLogSetHeader 1 d1)))
                     in Inr (\<lparr> dclog = d2, initialized = True \<rparr>, w1)))"

definition napaCloseLog :: "log_env \<Rightarrow> napa_log \<Rightarrow> napa_log res" where
  "napaCloseLog env s =
     (if \<not> initialized s then Inr s
      else case dclog s of None \<Rightarrow> Inr (s\<lparr> initialized := False \<rparr>)
        | Some d \<Rightarrow> res_map (\<lambda>(r, e). \<lparr> dclog = Some e, initialized = False \<rparr>) (DCLogClose env d))"

text \<open>
  The text of a message is handed to \<open>DCLogWrite\<close> as the format, without arguments: a conversion in it
  reads an argument that is not there.
\<close>

fun format0 :: "string \<Rightarrow> string res" where
  "format0 [] = Inr []"
| "format0 [c] = (if c = CHR ''%'' then Inl OutOfBounds else Inr [c])"
| "format0 (c # e # s) =
     (if c \<noteq> CHR ''%'' then res_map ((#) c) (format0 (e # s))
      else if e = CHR ''%'' then res_map ((#) (CHR ''%'')) (format0 s) else Inl OutOfBounds)"

definition napaWriteLog :: "log_env \<Rightarrow> byte \<Rightarrow> string \<Rightarrow> napa_log \<Rightarrow> world \<Rightarrow> (napa_log \<times> world) res" where
  "napaWriteLog env l msg s w =
     (if \<not> initialized s then Inr (s, w)
      else res_map (\<lambda>(r, d, w1). (s\<lparr> dclog := d \<rparr>, w1)) (DCLogWrite env l (format0 msg) (dclog s) w))"

section \<open>What is logged\<close>

text \<open>
  \<open>features\<close> has four bits; switching a feature off flips its bit, so switching it off twice leaves it as it was.
\<close>

definition feature_on :: "byte \<Rightarrow> dclog option \<Rightarrow> bool" where
  "feature_on m d = (case d of None \<Rightarrow> False | Some x \<Rightarrow> features x AND m \<noteq> 0)"

lemma set_feature_off:
  assumes "m = push_bit k (1 :: byte)" "k < 8"
  shows "(features (snd (set_feature m 0 d)) AND m \<noteq> 0) = (features d AND m = 0)"
    and "set_feature m 0 (snd (set_feature m 0 d)) = (True, d)"
proof -
  have b: "bit m n \<longleftrightarrow> n = k" for n using assms by (auto simp: bit_simps)
  have iff: "x AND m = 0 \<longleftrightarrow> \<not> bit x k" for x :: byte
  proof
    assume "x AND m = 0"
    then have "\<not> bit (x AND m) k" by simp
    then show "\<not> bit x k" by (simp add: bit_and_iff b)
  next
    assume "\<not> bit x k"
    then show "x AND m = 0" by (intro bit_word_eqI) (auto simp: bit_and_iff b)
  qed
  show "(features (snd (set_feature m 0 d)) AND m \<noteq> 0) = (features d AND m = 0)"
    by (simp add: set_feature_def iff bit_xor_iff b)
  have "(x XOR m) XOR m = x" for x :: byte by (simp add: xor.assoc)
  then show "set_feature m 0 (snd (set_feature m 0 d)) = (True, d)"
    by (simp add: set_feature_def)
qed

lemma on_object_off: "on_object (set_feature m 0) (Some d) = (True, Some (snd (set_feature m 0 d)))"
  by (simp add: on_object_def set_feature_def)

text \<open>
  Switching a feature of the log off is switching it over: it is off afterwards only if it was on, and
  doing it twice changes nothing. (The header, the level names, the names by day, the newlines.)
\<close>

theorem off_is_toggle:
  "feature_on FEAT_HEADER (snd (DCLogSetHeader 0 (Some d))) = (\<not> feature_on FEAT_HEADER (Some d))
   \<and> feature_on FEAT_PLEVEL (snd (DCLogSetPrintLevel 0 (Some d))) = (\<not> feature_on FEAT_PLEVEL (Some d))
   \<and> DCLogSetHeader 0 (snd (DCLogSetHeader 0 (Some d))) = (True, Some d)
   \<and> DCLogSetPrintLevel 0 (snd (DCLogSetPrintLevel 0 (Some d))) = (True, Some d)
   \<and> DCLogSetNewLine 0 (snd (DCLogSetNewLine 0 (Some d))) = (True, Some d)"
  using set_feature_off [OF FEAT_HEADER_def, of d] set_feature_off [OF FEAT_PLEVEL_def, of d]
    set_feature_off [OF FEAT_NEWLINE_def, of d]
  by (simp add: DCLogSetHeader_def DCLogSetPrintLevel_def DCLogSetNewLine_def on_object_off feature_on_def)

text \<open>An open log with header and level names, one file for all days and sizes.\<close>

definition plain_log :: "nat \<Rightarrow> byte \<Rightarrow> napa_log \<Rightarrow> bool" where
  "plain_log i l s \<longleftrightarrow> initialized s \<and> (\<exists>d. dclog s = Some d \<and> fp d = Some (Inode i) \<and> lev d = l
     \<and> features d = FEAT_HEADER OR FEAT_PLEVEL \<and> \<not> limit_size d)"

definition log_line :: "log_env \<Rightarrow> byte \<Rightarrow> string \<Rightarrow> string" where
  "log_line env l m = header_text env @ the (levels ! unat l) @ '' '' @ m"

lemma format0_verbatim: "CHR ''%'' \<notin> set m \<Longrightarrow> format0 m = Inr m"
  by (induction m rule: format0.induct) auto

lemma format0_conversion: "CHR ''%'' \<notin> set a \<Longrightarrow> c \<noteq> CHR ''%'' \<Longrightarrow> format0 (a @ CHR ''%'' # c # b) = Inl OutOfBounds"
proof (induction a)
  case (Cons x a)
  then have "format0 (a @ CHR ''%'' # c # b) = Inl OutOfBounds" "x \<noteq> CHR ''%''" by auto
  then show ?case by (cases a) auto
qed simp

lemma feature_masks:
  "(FEAT_HEADER OR FEAT_PLEVEL) AND FEAT_HEADER \<noteq> 0" "(FEAT_HEADER OR FEAT_PLEVEL) AND FEAT_PLEVEL \<noteq> 0"
  "(FEAT_HEADER OR FEAT_PLEVEL) AND FEAT_UNIQUE = 0"
  by (simp_all add: FEAT_HEADER_def FEAT_PLEVEL_def FEAT_UNIQUE_def)

lemma level_printed_name: "unat l < 6 \<Longrightarrow> level_printed l = Inr (the (levels ! unat l))"
  by (simp add: level_printed_def levels_def fmt_s_def nth_Cons' )

lemma write_plain:
  assumes "plain_log i n s" "unat l < 6" "CHR ''%'' \<notin> set m"
  shows "napaWriteLog env l m s w
    = Inr (s, if l \<le> n then w\<lparr> contents := (contents w)(i := contents w i @ log_line env l m) \<rparr> else w)"
proof -
  obtain d where d: "dclog s = Some d" "fp d = Some (Inode i)" "lev d = n" "features d = FEAT_HEADER OR FEAT_PLEVEL"
    "\<not> limit_size d" and s: "initialized s" using assms(1) by (auto simp: plain_log_def)
  have same: "s\<lparr> dclog := Some d \<rparr> = s" using d(1) by (cases s) simp
  show ?thesis
    using d s same feature_masks assms(2,3)
    by (simp add: napaWriteLog_def DCLogWrite_def write_text_def format0_verbatim level_printed_name put_log_def put_def
        log_line_def not_less)
qed

text \<open>The calls of a run, each with what the clock says when it is made.\<close>

fun log_run :: "(log_env \<times> byte \<times> string) list \<Rightarrow> napa_log \<Rightarrow> world \<Rightarrow> (napa_log \<times> world) res" where
  "log_run [] s w = Inr (s, w)"
| "log_run ((env, l, m) # ms) s w = res_bind (napaWriteLog env l m s w) (\<lambda>(s1, w1). log_run ms s1 w1)"

definition file_text :: "world \<Rightarrow> string \<Rightarrow> string" where
  "file_text w f = (case names w f of None \<Rightarrow> [] | Some i \<Rightarrow> contents w i)"

definition harmless :: "log_env \<times> byte \<times> string \<Rightarrow> bool" where
  "harmless x \<longleftrightarrow> unat (fst (snd x)) < 6 \<and> CHR ''%'' \<notin> set (snd (snd x))"

definition admitted_lines :: "byte \<Rightarrow> (log_env \<times> byte \<times> string) list \<Rightarrow> string" where
  "admitted_lines n ms = concat (map (\<lambda>(env, l, m). log_line env l m) (filter (\<lambda>(env, l, m). l \<le> n) ms))"

lemma if_same_twice: "(\<lambda>a. if a = i then x else if a = i then y else g a) = (\<lambda>a. if a = i then x else g a)"
  by auto

lemma log_run_plain:
  assumes "plain_log i n s" "list_all harmless ms"
  shows "log_run ms s w = Inr (s, w\<lparr> contents := (contents w)(i := contents w i @ admitted_lines n ms) \<rparr>)"
  using assms(2)
proof (induction ms arbitrary: w)
  case Nil
  then show ?case by (simp add: admitted_lines_def)
next
  case (Cons x ms)
  obtain env l m where x: "x = (env, l, m)" by (cases x)
  let ?w = "if l \<le> n then w\<lparr> contents := (contents w)(i := contents w i @ log_line env l m) \<rparr> else w"
  have "napaWriteLog env l m s w = Inr (s, ?w)"
    using Cons.prems by (intro write_plain [OF assms(1)]) (simp_all add: x harmless_def)
  moreover have "log_run ms s ?w = Inr (s, ?w\<lparr> contents := (contents ?w)(i := contents ?w i @ admitted_lines n ms) \<rparr>)"
    using Cons.prems by (intro Cons.IH) simp
  moreover have "admitted_lines n (x # ms) = (if l \<le> n then log_line env l m else []) @ admitted_lines n ms"
    by (simp add: admitted_lines_def x)
  ultimately show ?case by (cases "l \<le> n") (simp_all add: x fun_upd_def if_same_twice)
qed

lemma init_plain:
  assumes "\<not> initialized s" "\<not> same_text f ''stderr''" "\<not> same_text f ''stdout''" "length f < DCLOG_FN_LEN"
    "can_open env f" "n < 256"
  obtains s1 w1 i where "napaInitLog env (int n) (Some f) mode s w = Inr (s1, w1)" "plain_log i (of_nat n) s1"
    "names w1 f = Some i" "contents w1 i = file_text w f"
proof -
  let ?d = "NewDCLog\<lparr> fn := Some f \<rparr>"
  have feat: "features NewDCLog AND FEAT_UNIQUE = 0" by (simp add: NewDCLog_def)
  have lev: "(if int n < 0 then 255 else word_of_int (int n)) = (of_nat n :: byte)" by simp
  obtain i w1 where o: "fopen env f ''a'' w = Some (Inode i, w1)" and n: "names w1 f = Some i" "contents w1 i = file_text w f"
    using assms(5) by (cases "names w f") (auto simp: fopen_def file_text_def)
  have "DCLogOpen env f ''a'' NewDCLog w = Inr (True, NewDCLog\<lparr> fn := Some f, fp := Some (Inode i) \<rparr>, w1)"
    using assms(2-4) o feat by (simp add: DCLogOpen_def strncpy_def c_string_def)
  moreover have "(if mode = None \<or> mode \<noteq> Some ''a'' \<or> mode \<noteq> Some ''w'' then ''a'' else the mode) = ''a''" by auto
  moreover define s1 where "s1 = \<lparr> dclog = Some (NewDCLog\<lparr> fn := Some f, fp := Some (Inode i), lev := of_nat n,
      features := FEAT_HEADER OR FEAT_PLEVEL \<rparr>), initialized = True \<rparr>"
  ultimately have "napaInitLog env (int n) (Some f) mode s w = Inr (s1, w1)"
    using assms(1)
    by (simp add: napaInitLog_def DCLogSetLevel_def DCLogSetHeader_def DCLogSetPrintLevel_def on_object_def set_feature_def
        NewDCLog_def)
  moreover have "plain_log i (of_nat n) s1" by (simp add: plain_log_def s1_def NewDCLog_def)
  ultimately show ?thesis using n that by blast
qed

text \<open>
  C18: Logging to a file from its start: whatever mode was asked for, \<open>''w''\<close> too, the file keeps what it had, and
  behind it stand, in order, the messages of the levels up to the one given, each with time, level name and
  its text, as long as the texts have no percent sign.
\<close>

theorem napa_log_contents:
  assumes "\<not> initialized s" "\<not> same_text f ''stderr''" "\<not> same_text f ''stdout''" "length f < DCLOG_FN_LEN"
    "can_open env f" "n < 256" "list_all harmless ms"
  shows "\<exists>s1 w1 s2 w2. napaInitLog env (int n) (Some f) mode s w = Inr (s1, w1) \<and> log_run ms s1 w1 = Inr (s2, w2)
    \<and> file_text w2 f = file_text w f @ admitted_lines (of_nat n) ms"
proof -
  obtain s1 w1 i where 1: "napaInitLog env (int n) (Some f) mode s w = Inr (s1, w1)" "plain_log i (of_nat n) s1"
    "names w1 f = Some i" "contents w1 i = file_text w f"
    by (rule init_plain [OF assms(1-6), of mode w])
  let ?w2 = "w1\<lparr> contents := (contents w1)(i := contents w1 i @ admitted_lines (of_nat n) ms) \<rparr>"
  have "log_run ms s1 w1 = Inr (s1, ?w2)" by (rule log_run_plain [OF 1(2) assms(7)])
  moreover have "file_text ?w2 f = file_text w f @ admitted_lines (of_nat n) ms"
    using 1(3,4) by (simp add: file_text_def)
  ultimately show ?thesis using 1(1) by blast
qed

definition env0 :: log_env where
  "env0 = \<lparr> now = \<lparr> tm_mday = 1, tm_hour = 9, tm_min = 5, tm_sec = 7 \<rparr>, now_usec = 12, clock_ok = True,
     strftime = (\<lambda>f t. f), can_open = (\<lambda>_. True), can_rename = True, close_ok = True, hostname = None, rand_no = 4 \<rparr>"

definition world0 :: world where
  "world0 = \<lparr> names = [''log'' \<mapsto> 3], contents = (\<lambda>i. if i = 3 then ''old;'' else []), next_ino = 4, err_out = [], std_out = [] \<rparr>"

lemma napa_log_contents_witness:
  "\<exists>s1 w1 s2 w2. napaInitLog env0 1 (Some ''log'') (Some ''w'') \<lparr> dclog = None, initialized = False \<rparr> world0 = Inr (s1, w1)
    \<and> log_run [(env0, 1, ''up;''), (env0, 4, ''noise''), (env0, 0, ''down'')] s1 w1 = Inr (s2, w2)
    \<and> file_text w2 ''log'' = ''old;09:05:07.12: ERROR up;09:05:07.12: ALARM down''"
proof -
  have "list_all harmless [(env0, 1, ''up;''), (env0, 4, ''noise''), (env0, 0, ''down'')]" by (simp add: harmless_def)
  moreover have "can_open env0 ''log''" "\<not> same_text ''log'' ''stderr''" "\<not> same_text ''log'' ''stdout''"
    by (simp_all add: env0_def same_text_def lower_def Let_def)
  moreover have "file_text world0 ''log'' @ admitted_lines 1 [(env0, 1, ''up;''), (env0, 4, ''noise''), (env0, 0, ''down'')]
      = ''old;09:05:07.12: ERROR up;09:05:07.12: ALARM down''"
    by code_simp
  ultimately show ?thesis
    using napa_log_contents [of "\<lparr> dclog = None, initialized = False \<rparr>" "''log''" env0 1
        "[(env0, 1, ''up;''), (env0, 4, ''noise''), (env0, 0, ''down'')]" "Some ''w''" world0]
    by (simp add: DCLOG_FN_LEN_def)
qed

text \<open>
  The text of a message is used as a format once more: a percent sign in it, before anything but another
  one, makes the log read an argument that was never passed, when the level of the message is admitted.
\<close>

theorem log_text_is_format:
  assumes "plain_log i n s" "unat l < 6" "l \<le> n" "CHR ''%'' \<notin> set a" "c \<noteq> CHR ''%''"
  shows "napaWriteLog env l (a @ CHR ''%'' # c # b) s w = Inl OutOfBounds"
proof -
  obtain d where d: "dclog s = Some d" "fp d = Some (Inode i)" "lev d = n" "features d = FEAT_HEADER OR FEAT_PLEVEL"
    "\<not> limit_size d" and s: "initialized s" using assms(1) by (auto simp: plain_log_def)
  then show ?thesis
    using feature_masks assms(2,3) format0_conversion [OF assms(4,5)]
    by (simp add: napaWriteLog_def DCLogWrite_def write_text_def level_printed_name put_log_def put_def not_less [symmetric])
qed

lemma log_text_is_format_witness:
  "napaWriteLog env0 1 ''got %s''
     \<lparr> dclog = Some (NewDCLog\<lparr> fp := Some (Inode 3), lev := 4, features := FEAT_HEADER OR FEAT_PLEVEL \<rparr>), initialized = True \<rparr> world0
   = Inl OutOfBounds"
  using log_text_is_format [of 3 4 "\<lparr> dclog = Some (NewDCLog\<lparr> fp := Some (Inode 3), lev := 4, features := FEAT_HEADER OR FEAT_PLEVEL \<rparr>),
      initialized = True \<rparr>" 1 "''got ''" "CHR ''s''" env0 "[]" world0]
  by (simp add: plain_log_def NewDCLog_def)

section \<open>Rotation by size\<close>

definition old_name :: "log_env \<Rightarrow> string \<Rightarrow> string" where
  "old_name env f = f @ ''_'' @ pad2 (tm_hour (now env)) @ pad2 (tm_min (now env)) @ pad2 (tm_sec (now env))"

lemma old_name_differs: "old_name env f \<noteq> f"
  by (simp add: old_name_def)

text \<open>
  C23: Rotation by size loses no line: the write that finds the log at its limit renames it to its name with
  the time of day, with all it had and a last line on the rotation, and begins the new log with a first line
  on it and the message, as long as the log has less than \<open>2 ^ 31\<close> bytes (\<open>huge_log_not_rotated\<close>). A file of an earlier
  rotation in the same second loses its name, though.
\<close>

theorem size_rotation:
  assumes "fp d = Some (Inode i)" "fn d = Some f" "names w f = Some i" "i < next_ino w"
    and "limit_size d" "max_file_size d \<le> int (length (contents w i))" "features d = FEAT_HEADER OR FEAT_PLEVEL" "l \<le> lev d"
    and "can_rename env" "can_open env f" "length f < DCLOG_FN_LEN" "length (old_name env f) < 256" "unat l < 6"
    and "int (length (contents w i)) < 2 ^ 31"
  shows "\<exists>w'. DCLogWrite env l (Inr m) (Some d) w = Inr (True, Some (d\<lparr> fp := Some (Inode (next_ino w)) \<rparr>), w')
    \<and> names w' = (names w)(old_name env f \<mapsto> i, f \<mapsto> next_ino w)
    \<and> file_text w' (old_name env f) = contents w i @ size_warning (int (length (contents w i))) (max_file_size d)
    \<and> file_text w' f = size_notice (old_name env f) f (int (length (contents w i))) (max_file_size d) @ log_line env l m"
proof -
  let ?old = "old_name env f" and ?n = "int (length (contents w i))" and ?j = "next_ino w"
  let ?warn = "size_warning ?n (max_file_size d)" and ?note = "size_notice ?old f ?n (max_file_size d)"
  let ?d = "d\<lparr> fp := Some (Inode ?j) \<rparr>"
  have old: "take 255 (f @ ''_'' @ pad2 (tm_hour (now env)) @ pad2 (tm_min (now env)) @ pad2 (tm_sec (now env))) = ?old"
    using assms(12) by (simp add: old_name_def)
  have fs: "fn_string d = Inr f" using assms(2,11) by (simp add: fn_string_def c_string_def)
  define w1 where "w1 = w\<lparr> contents := (contents w)(i := contents w i @ ?warn) \<rparr>"
  have p1: "put_log ?warn d w = Inr w1" using assms(1) by (simp add: put_log_def put_def w1_def)
  define w2 where "w2 = w1\<lparr> names := (names w)(?old \<mapsto> i, f := None) \<rparr>"
  have r: "rename_file env f ?old w1 = w2"
    using assms(3,9) old_name_differs [of env f] by (simp add: rename_file_def w2_def w1_def)
  define w3 where "w3 = w2\<lparr> names := (names w)(?old \<mapsto> i, f \<mapsto> ?j), next_ino := ?j + 1, contents := (contents w1)(?j := []) \<rparr>"
  have t: "truncate_log env d w2 = Inr (True, ?d, w3)"
    using assms(1,2,10) fs old_name_differs [of env f]
    by (simp add: truncate_log_def fopen_def w2_def w1_def w3_def)
  define w4 where "w4 = w3\<lparr> contents := (contents w3)(?j := ?note) \<rparr>"
  have p2: "put_log ?note ?d w3 = Inr w4" by (simp add: put_log_def put_def w4_def w3_def)
  have rs: "rotate_size env d w = Inr (True, ?d, w4)"
    unfolding rotate_size_def using fs assms(3,6) p1 r t p2 old c_int_id [of ?n] assms(14) by (simp add: Let_def)
  define w5 where "w5 = w4\<lparr> contents := (contents w4)(?j := ?note @ log_line env l m) \<rparr>"
  have wt: "write_text env l (Inr m) ?d w4 = Inr (True, ?d, w5)"
    using assms(7,13) feature_masks
    by (simp add: write_text_def put_log_def put_def level_printed_name log_line_def w5_def w4_def)
  have "DCLogWrite env l (Inr m) (Some d) w = Inr (True, Some ?d, w5)"
    using assms(1,5,7,8) feature_masks rs wt by (simp add: DCLogWrite_def not_less [symmetric])
  moreover have "names w5 = (names w)(?old \<mapsto> i, f \<mapsto> ?j)" by (simp add: w5_def w4_def w3_def)
  moreover have "file_text w5 ?old = contents w i @ ?warn" "file_text w5 f = ?note @ log_line env l m"
    using assms(4) old_name_differs [of env f]
    by (simp_all add: file_text_def w5_def w4_def w3_def w2_def w1_def)
  ultimately show ?thesis by blast
qed

lemma size_rotation_witness:
  "\<exists>d w'. DCLogWrite env0 1 (Inr ''x'') (Some (NewDCLog\<lparr> fp := Some (Inode 3), fn := Some ''log'', lev := 4,
      features := FEAT_HEADER OR FEAT_PLEVEL, limit_size := True, max_file_size := 4 \<rparr>)) world0 = Inr (True, Some d, w')
    \<and> file_text w' ''log_090507'' = ''old;'' @ size_warning (int (length ''old;'')) 4"
proof -
  have "old_name env0 ''log'' = ''log_090507''" by code_simp
  moreover have "contents world0 3 = ''old;''" "length ''old;'' = 4" "names world0 ''log'' = Some 3" "next_ino world0 = 4"
    "can_rename env0" "can_open env0 ''log''" "length ''log'' < DCLOG_FN_LEN"
    by (simp_all add: world0_def env0_def DCLOG_FN_LEN_def)
  ultimately show ?thesis
    using size_rotation [of "NewDCLog\<lparr> fp := Some (Inode 3), fn := Some ''log'', lev := 4,
        features := FEAT_HEADER OR FEAT_PLEVEL, limit_size := True, max_file_size := 4 \<rparr>" 3 "''log''" world0 1 env0 "''x''"]
    by auto
qed

text \<open>A log of \<open>2 ^ 31\<close> bytes or more, up to 4 GB, is not rotated any more: cast to \<open>int\<close>, its size is negative. The
  message is appended to it.\<close>

theorem huge_log_not_rotated:
  assumes "fp d = Some (Inode i)" "fn d = Some f" "names w f = Some i" "length f < DCLOG_FN_LEN"
    and "2 ^ 31 \<le> int (length (contents w i))" "int (length (contents w i)) < 2 ^ 32" "limit_size d" "0 \<le> max_file_size d"
    and "features d = FEAT_HEADER OR FEAT_PLEVEL" "l \<le> lev d" "unat l < 6"
  shows "DCLogWrite env l (Inr m) (Some d) w
    = Inr (True, Some d, w\<lparr> contents := (contents w)(i := contents w i @ log_line env l m) \<rparr>)"
proof -
  have fs: "fn_string d = Inr f" using assms(2,4) by (simp add: fn_string_def c_string_def)
  have "c_int (int (length (contents w i))) < max_file_size d"
    using c_int_wraps [OF assms(5,6)] assms(6,8) by linarith
  then have rs: "rotate_size env d w = Inr (True, d, w)"
    using fs assms(3) by (simp add: rotate_size_def Let_def)
  have wt: "write_text env l (Inr m) d w
      = Inr (True, d, w\<lparr> contents := (contents w)(i := contents w i @ log_line env l m) \<rparr>)"
    using assms(1,9,11) feature_masks
    by (simp add: write_text_def put_log_def put_def level_printed_name log_line_def)
  show ?thesis
    using assms(1,7,9,10) feature_masks rs wt by (simp add: DCLogWrite_def not_less [symmetric])
qed

lemma huge_log_not_rotated_witness:
  "\<exists>w'. DCLogWrite env0 1 (Inr ''x'') (Some (NewDCLog\<lparr> fp := Some (Inode 3), fn := Some ''log'', lev := 4,
      features := FEAT_HEADER OR FEAT_PLEVEL, limit_size := True, max_file_size := 1000000 \<rparr>))
      (world0\<lparr> contents := (\<lambda>_. replicate (2 ^ 31) CHR 0x41) \<rparr>) =
    Inr (True, Some (NewDCLog\<lparr> fp := Some (Inode 3), fn := Some ''log'', lev := 4,
      features := FEAT_HEADER OR FEAT_PLEVEL, limit_size := True, max_file_size := 1000000 \<rparr>), w') \<and> names w' ''log'' = Some 3"
proof -
  have n: "names world0 ''log'' = Some 3" "length ''log'' < DCLOG_FN_LEN" by (simp_all add: world0_def DCLOG_FN_LEN_def)
  show ?thesis
    using huge_log_not_rotated [where d = "NewDCLog\<lparr> fp := Some (Inode 3), fn := Some ''log'', lev := 4,
        features := FEAT_HEADER OR FEAT_PLEVEL, limit_size := True, max_file_size := 1000000 \<rparr>"
        and w = "world0\<lparr> contents := (\<lambda>_. replicate (2 ^ 31) CHR 0x41) \<rparr>" and i = 3 and f = "''log''" and l = 1 and env = env0 and m = "''x''"]
      n by simp
qed

end
