(* ===== verification/Fec_Field.thy ===== *)
theory Fec_Field
  imports Ml_Prelude
begin

text \<open>
  The field arithmetic of the erasure code (\<open>ml/fec/RSfec.c\<close>, \<open>GF_BITS = 8\<close>): the tables of powers, logarithms and
  inverses that \<open>generate_gf\<close> fills, the multiplication table of \<open>init_mul_table\<close>, and the proof that exclusive or
  and table look-up make a field of the 256 bytes. The type \<open>gf\<close> is \<open>unsigned char\<close> with these operations.
\<close>

section \<open>The tables\<close>

definition GF_BITS :: nat where "GF_BITS = 8"
definition GF_SIZE :: nat where "GF_SIZE = 255"

text \<open>The polynomial \<open>1+x^2+x^3+x^4+x^8\<close> of \<open>allPp\<close>.\<close>

definition Pp :: string where "Pp = ''101110001''"

function first_powers :: "nat \<Rightarrow> byte \<Rightarrow> byte list \<Rightarrow> nat list \<Rightarrow> byte list \<times> nat list" where
  "first_powers i msk e l =
     (if GF_BITS \<le> i then (e, l)
      else let e1 = e[i := msk]; l1 = l[unat (e1 ! i) := i];
               e2 = (if Pp ! i = CHR ''1'' then e1[GF_BITS := e1 ! GF_BITS XOR msk] else e1)
           in first_powers (i + 1) (push_bit 1 msk) e2 l1)"
  by auto
termination by (relation "measure (\<lambda>(i, msk, e, l). GF_BITS - i)") auto

function more_powers :: "nat \<Rightarrow> byte list \<Rightarrow> nat list \<Rightarrow> byte list \<times> nat list" where
  "more_powers i e l =
     (if GF_SIZE \<le> i then (e, l)
      else let msk = push_bit (GF_BITS - 1) 1; p = e ! (i - 1);
               v = (if msk \<le> p then e ! GF_BITS XOR push_bit 1 (p XOR msk) else push_bit 1 p)
           in more_powers (i + 1) (e[i := v]) (l[unat v := i]))"
  by auto
termination by (relation "measure (\<lambda>(i, e, l). GF_SIZE - i)") auto

declare first_powers.simps [simp del] more_powers.simps [simp del]

text \<open>The tables are static: zero before they are filled.\<close>

definition generate_gf :: "byte list \<times> nat list \<times> byte list" where
  "generate_gf =
     (let e0 = (replicate (2 * GF_SIZE) 0)[GF_BITS := 0];
          (e1, l1) = first_powers 0 1 e0 (replicate (GF_SIZE + 1) 0);
          l2 = l1[unat (e1 ! GF_BITS) := GF_BITS];
          (e3, l3) = more_powers (GF_BITS + 1) e1 l2;
          l4 = l3[0 := GF_SIZE];
          e5 = take GF_SIZE e3 @ take GF_SIZE e3;
          inv = 0 # 1 # map (\<lambda>i. e5 ! (GF_SIZE - l4 ! i)) [2 ..< GF_SIZE + 1]
      in (e5, l4, inv))"

definition gf_exp :: "byte list" where "gf_exp = fst generate_gf"
definition gf_log :: "nat list" where "gf_log = fst (snd generate_gf)"
definition inverse_tab :: "byte list" where "inverse_tab = snd (snd generate_gf)"

text \<open>\<open>modnn\<close> is the remainder by 255, without division.\<close>

function modnn :: "nat \<Rightarrow> nat" where
  "modnn x = (if GF_SIZE \<le> x then let y = x - GF_SIZE in modnn (y div 2 ^ GF_BITS + y mod 2 ^ GF_BITS) else x)"
  by auto
termination
proof (relation "measure id")
  fix x y :: nat assume "GF_SIZE \<le> x" and y: "y = x - GF_SIZE"
  then have "y < x" by (simp add: GF_SIZE_def)
  moreover have "y div 2 ^ GF_BITS + y mod 2 ^ GF_BITS \<le> y"
    using div_mult_mod_eq [of y "2 ^ GF_BITS"] by (simp add: GF_BITS_def)
  ultimately show "(y div 2 ^ GF_BITS + y mod 2 ^ GF_BITS, x) \<in> measure id" by simp
qed simp

declare modnn.simps [simp del]

definition init_mul_table :: "byte list list" where
  "init_mul_table =
     map (\<lambda>i. map (\<lambda>j. if i = 0 \<or> j = 0 then 0 else gf_exp ! modnn (gf_log ! i + gf_log ! j)) [0 ..< GF_SIZE + 1])
       [0 ..< GF_SIZE + 1]"

definition gf_mul :: "byte \<Rightarrow> byte \<Rightarrow> byte" where
  "gf_mul x y = init_mul_table ! unat x ! unat y"

section \<open>What the tables hold\<close>

lemma modnn_mod: "modnn x = x mod 255"
proof (induction x rule: modnn.induct)
  case (1 x)
  show ?case
  proof (cases "GF_SIZE \<le> x")
    case True
    define y where "y = x - 255"
    have "modnn x = modnn (y div 256 + y mod 256)"
      using True by (subst modnn.simps) (simp add: GF_SIZE_def GF_BITS_def y_def Let_def)
    also have "\<dots> = (y div 256 + y mod 256) mod 255"
      using 1 [OF True refl] True by (simp add: GF_SIZE_def GF_BITS_def y_def)
    also have "\<dots> = y mod 255"
    proof -
      have "255 * (y div 256) + (y div 256 + y mod 256) = y" by simp
      then have "y mod 255 = (255 * (y div 256) + (y div 256 + y mod 256)) mod 255" by (simp only:)
      then show ?thesis by (simp only: mod_mult_self4)
    qed
    also have "y mod 255 = x mod 255" using True by (simp add: y_def GF_SIZE_def le_mod_geq)
    finally show ?thesis .
  next
    case False
    then show ?thesis by (subst modnn.simps) (simp add: GF_SIZE_def)
  qed
qed

text \<open>Multiplication by the generator, on the bits.\<close>

definition xtime :: "byte \<Rightarrow> byte" where
  "xtime p = (if 0x80 \<le> p then 0x1D XOR push_bit 1 (p XOR 0x80) else push_bit 1 p)"

lemma ge_top_bit: "0x80 \<le> p \<longleftrightarrow> bit p 7" for p :: byte
proof -
  have "bit p 7 = bit (unat p) 7" by (simp add: bit_unsigned_iff)
  then have "bit p 7 \<longleftrightarrow> odd (unat p div 2 ^ 7)" by (simp only: bit_iff_odd [of "unat p"])
  moreover have "odd (n div 2 ^ 7) \<longleftrightarrow> 128 \<le> n" if "n < 256" for n :: nat
    using that by (cases "n < 128") (simp_all add: le_div_geq not_less)
  moreover have "0x80 \<le> p \<longleftrightarrow> 128 \<le> unat p" by (simp add: word_le_nat_alt)
  ultimately show ?thesis using unat_byte_less [of p] by blast
qed

lemma bit_shift: "bit (push_bit 1 p) n \<longleftrightarrow> 0 < n \<and> n < 8 \<and> bit p (n - 1)" for p :: byte
  by (simp only: bit_push_bit_iff possible_bit_word) auto

lemma bit_0x80: "bit (0x80 :: byte) n \<longleftrightarrow> n = 7"
proof -
  have "(0x80 :: byte) = push_bit 7 1" by simp
  then show ?thesis by (simp only: bit_push_bit_iff possible_bit_word) (auto simp: bit_1_iff)
qed

lemma xtime_bits: "xtime p = push_bit 1 p XOR (if bit p 7 then 0x1D else 0)"
proof -
  have "push_bit 1 (p XOR 0x80) = push_bit 1 p"
    by (rule bit_word_eqI) (auto simp only: bit_shift bit_xor_iff bit_0x80)
  then show ?thesis by (simp only: xtime_def ge_top_bit xor.commute if_distrib xor.right_neutral) simp
qed

lemma xtime_xor: "xtime (p XOR q) = xtime p XOR xtime q"
proof -
  have "push_bit 1 (p XOR q) = push_bit 1 p XOR push_bit 1 q"
    by (rule bit_word_eqI) (auto simp only: bit_shift bit_xor_iff)
  then show ?thesis unfolding xtime_bits by (simp add: bit_xor_iff xor.assoc xor.left_commute del: push_bit_of_1)
qed

lemma xtime_eq_0: "xtime p = 0 \<longleftrightarrow> p = 0"
proof
  assume z: "xtime p = 0"
  have "bit (0x1D :: byte) 0" by simp
  moreover have "\<not> bit (push_bit 1 p) 0" by (simp only: bit_shift) simp
  moreover have "\<not> bit (xtime p) 0" using z by simp
  ultimately have top: "\<not> bit p 7" unfolding xtime_bits by (auto simp only: bit_xor_iff if_True)
  then have "push_bit 1 p = 0" using z unfolding xtime_bits by (simp only: if_False xor.right_neutral)
  then have sh: "\<not> bit (push_bit 1 p) (n + 1)" for n by (simp only: bit_0_eq bot_apply bot_bool_def not_False_eq_True)
  show "p = 0"
  proof (rule bit_word_eqI)
    fix n assume "n < LENGTH(8)"
    then show "bit p n = bit 0 n" using sh [of n] top by (cases "n = 7") (auto simp only: bit_shift, auto)
  qed
next
  assume "p = 0"
  then show "xtime p = 0" unfolding xtime_bits by simp
qed

lemma xtime_inj: "xtime p = xtime q \<Longrightarrow> p = q"
proof -
  assume "xtime p = xtime q"
  then have "p XOR q = 0" using xtime_eq_0 [of "p XOR q"] unfolding xtime_xor by simp
  then have "(p XOR q) XOR q = q" by simp
  then show "p = q" by (simp add: xor.assoc)
qed

text \<open>The powers of the generator; their period is 255.\<close>

definition alpha :: "nat \<Rightarrow> byte" where
  "alpha i = (xtime ^^ i) 1"

fun not_one :: "nat \<Rightarrow> byte \<Rightarrow> bool" where
  "not_one 0 p \<longleftrightarrow> p = 1"
| "not_one (Suc n) p \<longleftrightarrow> p \<noteq> 1 \<and> not_one n (xtime p)"

lemma period_255: "not_one 254 (xtime 1)"
  by code_simp

lemma alpha_0 [simp]: "alpha 0 = 1"
  by (simp add: alpha_def)

lemma alpha_Suc: "alpha (Suc i) = xtime (alpha i)"
  by (simp add: alpha_def)

lemma not_one_iterate:
  "not_one n p \<Longrightarrow> (xtime ^^ n) p = 1 \<and> (\<forall>i<n. (xtime ^^ i) p \<noteq> 1)"
proof (induction n arbitrary: p)
  case (Suc n)
  then have ih: "(xtime ^^ n) (xtime p) = 1" "\<forall>i<n. (xtime ^^ i) (xtime p) \<noteq> 1" and "p \<noteq> 1" by simp_all
  have "(xtime ^^ i) p \<noteq> 1" if "i < Suc n" for i
    using that ih(2) \<open>p \<noteq> 1\<close> by (cases i) (simp_all add: funpow_swap1)
  then show ?case using ih(1) by (simp add: funpow_swap1)
qed simp

lemma alpha_255: "alpha 255 = 1"
proof -
  have "alpha (Suc 254) = (xtime ^^ 254) (xtime 1)" by (simp only: alpha_def funpow_Suc_right o_apply)
  also have "\<dots> = 1" by (rule not_one_iterate [OF period_255, THEN conjunct1])
  finally show ?thesis by simp
qed

lemma alpha_not_one: "0 < i \<Longrightarrow> i < 255 \<Longrightarrow> alpha i \<noteq> 1"
proof -
  assume "0 < i" "i < 255"
  then obtain j where "i = Suc j" "j < 254" by (cases i) auto
  then show ?thesis using not_one_iterate [OF period_255, THEN conjunct2] by (simp add: alpha_def funpow_swap1)
qed

lemma alpha_nonzero: "alpha i \<noteq> 0"
  by (induction i) (simp_all add: alpha_Suc xtime_eq_0)

lemma alpha_mod: "alpha (i mod 255) = alpha i"
proof (induction i rule: less_induct)
  case (less i)
  show ?case
  proof (cases "i < 255")
    case False
    then obtain j where j: "i = j + 255" by (metis add.commute le_Suc_ex not_less)
    have "alpha (j + 255) = (xtime ^^ j) ((xtime ^^ 255) 1)" by (simp only: alpha_def funpow_add o_apply)
    also have "\<dots> = alpha j" using alpha_255 by (simp only: alpha_def)
    finally show ?thesis using less.IH [of j] j by simp
  qed simp
qed

lemma alpha_inj:
  assumes "alpha i = alpha j" "i < 255" "j < 255" shows "i = j"
proof -
  have *: "alpha i = alpha (i + d) \<Longrightarrow> alpha d = 1" for i d
    by (induction i) (auto simp: alpha_Suc dest: xtime_inj)
  have "i < j \<Longrightarrow> False" if "alpha i = alpha j" "i < 255" "j < 255" for i j
    using * [of i "j - i"] that alpha_not_one [of "j - i"] by simp
  from this [of i j] this [of j i] show ?thesis using assms by (cases i j rule: linorder_cases) auto
qed

lemma alpha_onto:
  assumes "x \<noteq> 0" obtains i where "i < 255" "alpha i = x"
proof -
  have "inj_on alpha {..<255}" by (auto intro!: inj_onI alpha_inj)
  then have "card (alpha ` {..<255}) = 255" by (simp add: card_image)
  moreover have "card (- {0 :: byte}) = 255" by (simp add: Compl_eq_Diff_UNIV card_Diff_singleton card_word)
  moreover have "alpha ` {..<255} \<subseteq> - {0}" using alpha_nonzero by auto
  ultimately have "alpha ` {..<255} = - {0}" by (intro card_subset_eq) simp_all
  then have "x \<in> alpha ` {..<255}" using assms by auto
  then show ?thesis using that by auto
qed

text \<open>The tables hold the powers and their logarithms.\<close>

definition powers_upto :: "nat \<Rightarrow> byte list \<Rightarrow> nat list \<Rightarrow> bool" where
  "powers_upto n e l \<longleftrightarrow> length e = 510 \<and> length l = 256 \<and> (\<forall>j<n. e ! j = alpha j) \<and> (\<forall>j<n. l ! unat (alpha j) = j)"

lemma first_powers_ok:
  "case first_powers 0 1 ((replicate (2 * GF_SIZE) 0)[GF_BITS := 0]) (replicate (GF_SIZE + 1) 0) of (e, l) \<Rightarrow>
     length e = 510 \<and> length l = 256 \<and> list_all (\<lambda>j. e ! j = alpha j) [0 ..< 9]
     \<and> list_all (\<lambda>j. l ! unat (alpha j) = j) [0 ..< 8]"
  by code_simp

lemma unat_alpha: "unat (alpha j) < 256" "unat (alpha j) \<noteq> 0"
  using unat_byte_less [of "alpha j"] alpha_nonzero [of j] by (simp_all add: unat_eq_0)

lemma unat_alpha_inj: "unat (alpha i) = unat (alpha j) \<Longrightarrow> i < 255 \<Longrightarrow> j < 255 \<Longrightarrow> i = j"
  by (rule alpha_inj) (simp_all add: word_unat_eq_iff)

lemma set_power:
  assumes "powers_upto i e l" "i < 255"
  shows "powers_upto (Suc i) (e[i := alpha i]) (l[unat (alpha i) := i])"
  unfolding powers_upto_def
proof (intro conjI allI impI)
  fix j assume j: "j < Suc i"
  show "e[i := alpha i] ! j = alpha j"
    using assms j by (cases "j = i") (simp_all add: powers_upto_def)
  show "l[unat (alpha i) := i] ! unat (alpha j) = j"
  proof (cases "j = i")
    case False
    then have "unat (alpha j) \<noteq> unat (alpha i)" using unat_alpha_inj [of j i] assms(2) j by auto
    then show ?thesis using assms j False by (simp add: powers_upto_def)
  qed (use assms unat_alpha(1) [of i] in \<open>simp add: powers_upto_def\<close>)
qed (use assms in \<open>simp_all add: powers_upto_def\<close>)

lemma more_powers_ok:
  "powers_upto i e l \<Longrightarrow> 9 \<le> i \<Longrightarrow> i \<le> 255 \<Longrightarrow> case more_powers i e l of (e', l') \<Rightarrow> powers_upto 255 e' l'"
proof (induction i e l rule: more_powers.induct)
  case (1 i e l)
  show ?case
  proof (cases "GF_SIZE \<le> i")
    case True
    then have "i = 255" using 1 by (simp add: GF_SIZE_def)
    then show ?thesis using 1 True by (subst more_powers.simps) simp
  next
    case False
    then have i: "i < 255" by (simp add: GF_SIZE_def)
    let ?p = "e ! (i - 1)" and ?msk = "push_bit (GF_BITS - 1) 1 :: byte"
    let ?v = "if ?msk \<le> ?p then e ! GF_BITS XOR push_bit 1 (?p XOR ?msk) else push_bit 1 ?p"
    have "?p = alpha (i - 1)" "e ! GF_BITS = alpha 8" using 1(2,3) by (simp_all add: powers_upto_def GF_BITS_def)
    moreover have "alpha 8 = 0x1D" by code_simp
    moreover have "?msk = 0x80" by (simp add: GF_BITS_def)
    moreover have "alpha i = xtime (alpha (i - 1))" using 1(3) alpha_Suc [of "i - 1"] by simp
    ultimately have v: "?v = alpha i" by (simp only: xtime_def)
    have step: "more_powers i e l = more_powers (i + 1) (e[i := alpha i]) (l[unat (alpha i) := i])"
      using False by (subst more_powers.simps) (simp only: Let_def v if_False)
    have "powers_upto (i + 1) (e[i := alpha i]) (l[unat (alpha i) := i])" using set_power [OF 1(2) i] by simp
    then show ?thesis unfolding step
      using 1(1) [OF False refl refl refl] i 1(3) unfolding v by simp
  qed
qed

lemma generate_gf_ok:
  obtains e l where "powers_upto 255 e l" "gf_exp = take 255 e @ take 255 e" "gf_log = l[0 := 255]"
    "inverse_tab ! 0 = 0" "inverse_tab ! 1 = 1" "\<And>x. 2 \<le> x \<Longrightarrow> x < 256 \<Longrightarrow> inverse_tab ! x = gf_exp ! (255 - gf_log ! x)"
proof -
  obtain e1 l1 where 1: "first_powers 0 1 ((replicate (2 * GF_SIZE) 0)[GF_BITS := 0]) (replicate (GF_SIZE + 1) 0) = (e1, l1)"
    by (cases "first_powers 0 1 ((replicate (2 * GF_SIZE) 0)[GF_BITS := 0]) (replicate (GF_SIZE + 1) 0)")
  have p8: "powers_upto 8 e1 l1" and e8: "e1 ! 8 = alpha 8"
    using first_powers_ok unfolding 1 by (simp_all add: powers_upto_def list_all_iff)
  have "powers_upto (Suc 8) (e1[8 := alpha 8]) (l1[unat (alpha 8) := 8])" by (rule set_power [OF p8]) simp
  moreover have "e1[8 := alpha 8] = e1" using e8 by (metis list_update_id)
  ultimately have p9: "powers_upto (GF_BITS + 1) e1 (l1[unat (e1 ! GF_BITS) := GF_BITS])" using e8 by (simp add: GF_BITS_def)
  obtain e3 l3 where 3: "more_powers (GF_BITS + 1) e1 (l1[unat (e1 ! GF_BITS) := GF_BITS]) = (e3, l3)"
    by (cases "more_powers (GF_BITS + 1) e1 (l1[unat (e1 ! GF_BITS) := GF_BITS])")
  have p: "powers_upto 255 e3 l3" using more_powers_ok [OF p9] 3 by (simp add: GF_BITS_def)
  have g: "generate_gf = (take GF_SIZE e3 @ take GF_SIZE e3, l3[0 := GF_SIZE],
      0 # 1 # map (\<lambda>i. (take GF_SIZE e3 @ take GF_SIZE e3) ! (GF_SIZE - l3[0 := GF_SIZE] ! i)) [2 ..< GF_SIZE + 1])"
    unfolding generate_gf_def Let_def 1 prod.case 3 by (rule refl)
  have tab: "gf_exp = take GF_SIZE e3 @ take GF_SIZE e3" "gf_log = l3[0 := GF_SIZE]"
    "inverse_tab = 0 # 1 # map (\<lambda>i. gf_exp ! (GF_SIZE - gf_log ! i)) [2 ..< GF_SIZE + 1]"
    unfolding gf_exp_def gf_log_def inverse_tab_def g by simp_all
  have inv: "inverse_tab ! x = gf_exp ! (255 - gf_log ! x)" if "2 \<le> x" "x < 256" for x
  proof -
    obtain n where n: "x = Suc (Suc n)" using \<open>2 \<le> x\<close> by (metis One_nat_def Suc_1 Suc_le_D le_Suc_ex add_Suc)
    have "length [2 ..< GF_SIZE + 1] = GF_SIZE - 1" by (rule trans [OF length_upt]) (simp add: GF_SIZE_def)
    moreover have "n < GF_SIZE - 1" using that(2) n by (simp add: GF_SIZE_def)
    moreover from this have "[2 ..< GF_SIZE + 1] ! n = 2 + n" by (intro nth_upt) simp
    ultimately show ?thesis unfolding tab(3) n nth_Cons_Suc by (subst nth_map) (simp_all only: n, simp add: GF_SIZE_def)
  qed
  show ?thesis
    by (rule that [OF p]) (use tab(1,2) inv in \<open>simp_all add: tab(3) GF_SIZE_def\<close>)
qed

lemma gf_exp_nth:
  assumes "i < 255" shows "gf_exp ! i = alpha i"
proof -
  obtain e l where p: "powers_upto 255 e l" and g: "gf_exp = take 255 e @ take 255 e" by (rule generate_gf_ok)
  have "gf_exp ! i = e ! i" unfolding g using p assms by (simp add: nth_append powers_upto_def)
  then show ?thesis using p assms by (simp add: powers_upto_def)
qed

lemma gf_log_alpha:
  assumes "i < 255" shows "gf_log ! unat (alpha i) = i"
proof -
  obtain e l where p: "powers_upto 255 e l" and g: "gf_log = l[0 := 255]" by (rule generate_gf_ok)
  have "gf_log ! unat (alpha i) = l ! unat (alpha i)" unfolding g using unat_alpha(2) [of i] by (simp only: nth_list_update_neq)
  then show ?thesis using p assms by (simp add: powers_upto_def)
qed

lemma inverse_tab_alpha:
  assumes i: "i < 255" shows "inverse_tab ! unat (alpha i) = alpha ((255 - i) mod 255)"
proof (cases "i = 0")
  case True
  moreover have "inverse_tab ! 1 = 1" by (rule generate_gf_ok)
  ultimately show ?thesis by simp
next
  case False
  have "alpha i \<noteq> 1" using alpha_not_one i False by simp
  then have "unat (alpha i) \<noteq> 1" using word_unat_eq_iff [of "alpha i" 1] by simp
  then have u: "2 \<le> unat (alpha i)" using unat_alpha(2) [of i] by linarith
  have "inverse_tab ! unat (alpha i) = gf_exp ! (255 - gf_log ! unat (alpha i))"
  proof (rule generate_gf_ok)
    fix e l assume "\<And>x. 2 \<le> x \<Longrightarrow> x < 256 \<Longrightarrow> inverse_tab ! x = gf_exp ! (255 - gf_log ! x)"
    from this [OF u unat_alpha(1)] show ?thesis .
  qed
  then show ?thesis using i False by (simp add: gf_log_alpha gf_exp_nth)
qed

section \<open>The field\<close>

lemma gf_mul_table:
  "gf_mul x y = (if x = 0 \<or> y = 0 then 0 else gf_exp ! modnn (gf_log ! unat x + gf_log ! unat y))"
proof -
  have "unat x < 256" "unat y < 256" by (rule unat_byte_less)+
  then show ?thesis
    by (simp add: gf_mul_def init_mul_table_def GF_SIZE_def unat_eq_0 del: upt_Suc upt_conv_Cons)
qed

lemma gf_mul_alpha: "gf_mul (alpha i) (alpha j) = alpha (i + j)"
proof -
  have "gf_mul (alpha (i mod 255)) (alpha (j mod 255)) = alpha ((i mod 255 + j mod 255) mod 255)"
    by (simp add: gf_mul_table alpha_nonzero gf_log_alpha modnn_mod gf_exp_nth)
  then show ?thesis by (simp add: alpha_mod mod_add_eq)
qed

lemma gf_mul_0 [simp]: "gf_mul 0 x = 0" "gf_mul x 0 = 0"
  by (simp_all add: gf_mul_table)

lemma alpha_cases: obtains "x = 0" | i where "i < 255" "x = alpha i"
  by (metis alpha_onto)

lemma gf_mul_commute: "gf_mul x y = gf_mul y x"
  by (simp add: gf_mul_table add.commute)

lemma gf_mul_assoc: "gf_mul (gf_mul x y) z = gf_mul x (gf_mul y z)"
  by (rule alpha_cases [of x]; rule alpha_cases [of y]; rule alpha_cases [of z]) (simp_all add: gf_mul_alpha add.assoc)

lemma gf_mul_1: "gf_mul 1 x = x"
  by (rule alpha_cases [of x]) (use gf_mul_alpha [of 0] in simp_all)

lemma gf_mul_alpha_Suc: "gf_mul (alpha (Suc i)) x = xtime (gf_mul (alpha i) x)"
  by (rule alpha_cases [of x]) (simp_all add: gf_mul_alpha alpha_Suc [symmetric] xtime_eq_0)

lemma gf_mul_xor: "gf_mul x (y XOR z) = gf_mul x y XOR gf_mul x z"
proof -
  have "gf_mul (alpha i) (y XOR z) = gf_mul (alpha i) y XOR gf_mul (alpha i) z" for i
    by (induction i) (simp_all add: gf_mul_1 gf_mul_alpha_Suc xtime_xor)
  then show ?thesis by (rule_tac alpha_cases [of x]) simp_all
qed

lemma gf_mul_inverse: "x \<noteq> 0 \<Longrightarrow> gf_mul (inverse_tab ! unat x) x = 1"
proof (rule alpha_cases [of x])
  fix i assume "i < 255" "x = alpha i"
  then show "gf_mul (inverse_tab ! unat x) x = 1"
    by (simp add: inverse_tab_alpha alpha_mod gf_mul_alpha alpha_255)
qed simp

lemma inverse_tab_0: "inverse_tab ! 0 = 0"
  by (rule generate_gf_ok)

datatype gf = Gf (byte_of: byte)

instantiation gf :: field
begin

definition zero_gf :: gf where "0 = Gf 0"
definition one_gf :: gf where "1 = Gf 1"
definition plus_gf :: "gf \<Rightarrow> gf \<Rightarrow> gf" where "x + y = Gf (byte_of x XOR byte_of y)"
definition uminus_gf :: "gf \<Rightarrow> gf" where "- x = (x :: gf)"
definition minus_gf :: "gf \<Rightarrow> gf \<Rightarrow> gf" where "x - y = Gf (byte_of x XOR byte_of y)"
definition times_gf :: "gf \<Rightarrow> gf \<Rightarrow> gf" where "x * y = Gf (gf_mul (byte_of x) (byte_of y))"
definition inverse_gf :: "gf \<Rightarrow> gf" where "inverse x = Gf (inverse_tab ! unat (byte_of x))"
definition divide_gf :: "gf \<Rightarrow> gf \<Rightarrow> gf" where "x div y = x * inverse (y :: gf)"

instance
proof
  fix x y z :: gf
  show "x + y + z = x + (y + z)" "x + y = y + x" "0 + x = x" "- x + x = 0" "x - y = x + - y"
    by (simp_all add: plus_gf_def zero_gf_def uminus_gf_def minus_gf_def xor.assoc xor.commute xor.left_commute)
  show "x * y * z = x * (y * z)" by (simp add: times_gf_def gf_mul_assoc)
  show "x * y = y * x" by (simp add: times_gf_def gf_mul_commute)
  show "1 * x = x" by (simp add: times_gf_def one_gf_def gf_mul_1)
  show "(x + y) * z = x * z + y * z"
    by (simp add: plus_gf_def times_gf_def gf_mul_commute [of _ "byte_of z"] gf_mul_xor)
  show "(0 :: gf) \<noteq> 1" by (simp add: zero_gf_def one_gf_def)
  show "x \<noteq> 0 \<Longrightarrow> inverse x * x = 1"
    by (cases x) (simp add: times_gf_def inverse_gf_def zero_gf_def one_gf_def gf_mul_inverse)
  show "x div y = x * inverse y" by (rule divide_gf_def)
  show "inverse (0 :: gf) = 0" by (simp add: inverse_gf_def zero_gf_def inverse_tab_0)
qed

end

text \<open>The field has characteristic two: subtraction is addition.\<close>

lemma gf_double [simp]: "x + x = (0 :: gf)"
  by (simp add: plus_gf_def zero_gf_def)

lemma gf_minus: "x - y = (x + y :: gf)"
  by (simp add: minus_gf_def plus_gf_def)

lemma gf_uminus [simp]: "- x = (x :: gf)"
  by (simp add: uminus_gf_def)

lemma gf_cancel_left: "x + (x + y) = (y :: gf)"
  by (simp add: add.assoc [symmetric])

lemma gf_eq_iff: "x = y \<longleftrightarrow> x + y = (0 :: gf)"
  using eq_iff_diff_eq_0 [of x y] by (simp add: gf_minus)

text \<open>
  C27: The tables make a field of the 256 bytes: with exclusive or as addition, \<open>gf_mul\<close> is commutative,
  associative and distributive with the unit 1, zero annihilates, \<open>inverse\<close> holds the inverses of all bytes
  but 0, and the powers of the generator in \<open>gf_exp\<close> are all bytes but 0, each once, with \<open>gf_log\<close> as the
  inverse function.
\<close>

theorem gf_tables_field:
  "gf_mul x y = gf_mul y x \<and> gf_mul (gf_mul x y) z = gf_mul x (gf_mul y z)
   \<and> gf_mul x (y XOR z) = gf_mul x y XOR gf_mul x z \<and> gf_mul 1 x = x \<and> gf_mul 0 x = 0
   \<and> (x = 0 \<or> gf_mul (inverse_tab ! unat x) x = 1)
   \<and> bij_betw (\<lambda>i. gf_exp ! i) {..<255} (- {0})
   \<and> (x = 0 \<or> (gf_log ! unat x < 255 \<and> gf_exp ! (gf_log ! unat x) = x))"
proof (intro conjI)
  have e: "bij_betw alpha {..<255} (- {0})"
  proof (rule bij_betwI')
    show "alpha i = alpha j \<longleftrightarrow> i = j" if "i \<in> {..<255}" "j \<in> {..<255}" for i j
      using that alpha_inj by auto
    show "alpha i \<in> - {0}" for i using alpha_nonzero by simp
    show "\<exists>i \<in> {..<255}. y = alpha i" if "y \<in> - {0}" for y
      using alpha_onto [of y] that by auto
  qed
  show "bij_betw (\<lambda>i. gf_exp ! i) {..<255} (- {0})"
    by (rule bij_betw_cong [THEN iffD1, OF _ e]) (simp add: gf_exp_nth)
  show "x = 0 \<or> (gf_log ! unat x < 255 \<and> gf_exp ! (gf_log ! unat x) = x)"
    by (rule alpha_cases [of x]) (simp_all add: gf_log_alpha gf_exp_nth)
  show "x = 0 \<or> gf_mul (inverse_tab ! unat x) x = 1" using gf_mul_inverse by blast
qed (rule gf_mul_commute gf_mul_assoc gf_mul_xor gf_mul_1 gf_mul_0)+

end
