(* ===== verification/Fec_Matrix.thy ===== *)
theory Fec_Matrix
  imports Fec_Field
begin

text \<open>
  The linear algebra of the erasure code (\<open>ml/fec/RSfec.c\<close>): \<open>addmul1\<close>, \<open>matmul\<close>, Gauss-Jordan inversion in place
  (\<open>invert_mat\<close>) and the inversion of a Vandermonde matrix (\<open>invert_vdm\<close>). An array is a function of its index;
  a matrix is a function of row and column, its element \<open>src[row*k+col]\<close> being \<open>src row col\<close>.
\<close>

type_synonym matrix = "nat \<Rightarrow> nat \<Rightarrow> gf"

section \<open>addmul and matmul\<close>

definition UNROLL :: nat where "UNROLL = 16"

definition addmulc :: "gf \<Rightarrow> (nat \<Rightarrow> gf) \<Rightarrow> nat \<Rightarrow> (nat \<Rightarrow> gf) \<Rightarrow> nat \<Rightarrow> gf" where
  "addmulc c src i dst = dst(i := dst i + c * src i)"

text \<open>The loop is unrolled: sixteen elements at a time, then the rest one by one.\<close>

function addmul1_from :: "nat \<Rightarrow> (nat \<Rightarrow> gf) \<Rightarrow> gf \<Rightarrow> nat \<Rightarrow> (nat \<Rightarrow> gf) \<Rightarrow> nat \<Rightarrow> gf" where
  "addmul1_from i src c sz dst =
     (if i + UNROLL \<le> sz then addmul1_from (i + UNROLL) src c sz (fold (addmulc c src) [i ..< i + UNROLL] dst)
      else fold (addmulc c src) [i ..< sz] dst)"
  by auto
termination by (relation "measure (\<lambda>(i, src, c, sz, dst). sz - i)") (auto simp: UNROLL_def)

declare addmul1_from.simps [simp del]

definition addmul1 :: "(nat \<Rightarrow> gf) \<Rightarrow> (nat \<Rightarrow> gf) \<Rightarrow> gf \<Rightarrow> nat \<Rightarrow> nat \<Rightarrow> gf" where
  "addmul1 dst src c sz = addmul1_from 0 src c sz dst"

definition addmul :: "(nat \<Rightarrow> gf) \<Rightarrow> (nat \<Rightarrow> gf) \<Rightarrow> gf \<Rightarrow> nat \<Rightarrow> nat \<Rightarrow> gf" where
  "addmul dst src c sz = (if c \<noteq> 0 then addmul1 dst src c sz else dst)"

definition matmul :: "matrix \<Rightarrow> matrix \<Rightarrow> nat \<Rightarrow> matrix" where
  "matmul a b k = (\<lambda>row col. fold (\<lambda>i acc. acc + a row i * b i col) [0 ..< k] 0)"

lemma fold_addmulc:
  "fold (addmulc c src) [i ..< j] dst = (\<lambda>m. if i \<le> m \<and> m < j then dst m + c * src m else dst m)"
proof (induction "j - i" arbitrary: i dst)
  case 0
  then have "j \<le> i" by simp
  then show ?case by (intro ext) auto
next
  case (Suc n)
  then have "[i ..< j] = i # [Suc i ..< j]" "n = j - Suc i" by (simp_all add: upt_conv_Cons)
  then show ?case using Suc.hyps(1) [of "Suc i"] Suc.hyps(2) by (auto simp: addmulc_def fun_eq_iff)
qed

lemma addmul1_from_eq:
  "addmul1_from i src c sz dst = (\<lambda>m. if i \<le> m \<and> m < sz then dst m + c * src m else dst m)"
proof (induction i src c sz dst rule: addmul1_from.induct)
  case (1 i src c sz dst)
  then show ?case by (subst addmul1_from.simps) (auto simp: fold_addmulc fun_eq_iff)
qed

lemma addmul_nth: "addmul dst src c sz m = (if m < sz then dst m + c * src m else dst m)"
  by (simp add: addmul_def addmul1_def addmul1_from_eq)

lemma fold_sum: "fold (\<lambda>i acc. acc + f i) [0 ..< k] (a :: gf) = a + (\<Sum>i<k. f i)"
  by (induction k) (simp_all add: add.assoc)

lemma matmul_sum: "matmul a b k row col = (\<Sum>i<k. a row i * b i col)"
  by (simp add: matmul_def fold_sum)

section \<open>Polynomials with many roots\<close>

definition poly_at :: "nat \<Rightarrow> (nat \<Rightarrow> gf) \<Rightarrow> gf \<Rightarrow> gf" where
  "poly_at k f x = (\<Sum>i<k. f i * x ^ i)"

lemma poly_at_Suc_shift: "poly_at (Suc k) f x = f 0 + x * poly_at k (\<lambda>i. f (Suc i)) x"
  unfolding poly_at_def by (simp add: sum.lessThan_Suc_shift sum_distrib_left mult.left_commute del: sum.lessThan_Suc)

text \<open>Division of a polynomial by \<open>x - a\<close>.\<close>

lemma poly_factor:
  "\<exists>g. (\<forall>x. poly_at (Suc k) f x = (x + a) * poly_at k g x + poly_at (Suc k) f a)
     \<and> ((\<forall>i<k. g i = 0) \<longrightarrow> (\<forall>i<k. f (Suc i) = 0))"
proof (induction k arbitrary: f)
  case 0
  then show ?case by (simp add: poly_at_def)
next
  case (Suc k)
  obtain g where g: "\<And>x. poly_at (Suc k) (\<lambda>i. f (Suc i)) x = (x + a) * poly_at k g x + poly_at (Suc k) (\<lambda>i. f (Suc i)) a"
    and z: "\<And>i. (\<forall>i<k. g i = 0) \<Longrightarrow> i < k \<Longrightarrow> f (Suc (Suc i)) = 0"
    using Suc.IH [of "\<lambda>i. f (Suc i)"] by blast
  let ?r = "poly_at (Suc k) (\<lambda>i. f (Suc i)) a"
  let ?h = "\<lambda>i. case i of 0 \<Rightarrow> ?r | Suc j \<Rightarrow> g j"
  have "poly_at (Suc (Suc k)) f x = (x + a) * poly_at (Suc k) ?h x + poly_at (Suc (Suc k)) f a" for x
  proof -
    have "poly_at (Suc (Suc k)) f x = f 0 + x * ((x + a) * poly_at k g x + ?r)"
      by (subst poly_at_Suc_shift) (simp only: g [of x])
    also have "\<dots> = (x + a) * (?r + x * poly_at k g x) + (f 0 + a * ?r)"
    proof -
      have "(x + a) * (q + x * p) + (y + a * q) = (y + x * ((x + a) * p + q)) + (a * q + a * q)" for p q y :: gf
        by (simp only: algebra_simps)
      then show ?thesis by simp
    qed
    finally show ?thesis by (simp add: poly_at_Suc_shift [of "Suc k" f a] poly_at_Suc_shift [of k ?h])
  qed
  moreover have "f (Suc i) = 0" if h: "\<forall>i<Suc k. ?h i = 0" and i: "i < Suc k" for i
  proof -
    have "\<forall>i<k. g i = 0" using h by (auto dest: spec [of _ "Suc _"])
    then have f2: "\<And>i. i < k \<Longrightarrow> f (Suc (Suc i)) = 0" using z by blast
    have "?r = 0" using h by auto
    moreover have "poly_at k (\<lambda>i. f (Suc (Suc i))) a = 0" using f2 by (simp add: poly_at_def)
    ultimately have "f (Suc 0) = 0" by (simp add: poly_at_Suc_shift [of k])
    then show ?thesis using f2 i by (cases i) simp_all
  qed
  ultimately show ?case by (intro exI [of _ ?h]) blast
qed

lemma roots_zero:
  assumes "finite X" "k \<le> card X" "\<And>x. x \<in> X \<Longrightarrow> poly_at k f x = 0" "i < k"
  shows "f i = 0"
  using assms
proof (induction k arbitrary: f X i)
  case (Suc k)
  then obtain a where a: "a \<in> X" by fastforce
  obtain g where g: "\<And>x. poly_at (Suc k) f x = (x + a) * poly_at k g x + poly_at (Suc k) f a"
    and z: "(\<forall>i<k. g i = 0) \<Longrightarrow> (\<forall>i<k. f (Suc i) = 0)"
    using poly_factor [of k f a] by blast
  have r: "poly_at (Suc k) f a = 0" using Suc.prems(3) a by simp
  have "poly_at k g x = 0" if "x \<in> X - {a}" for x
  proof -
    have "x + a \<noteq> 0" using that gf_eq_iff [of x a] by auto
    moreover have "(x + a) * poly_at k g x = 0" using g [of x] Suc.prems(3) [of x] that r by simp
    ultimately show ?thesis by simp
  qed
  moreover have "k \<le> card (X - {a})" using Suc.prems(1,2) a by simp
  ultimately have "\<forall>i<k. g i = 0" using Suc.IH [of "X - {a}" g] Suc.prems(1) by simp
  then have f: "\<forall>i<k. f (Suc i) = 0" by (rule z)
  then have "poly_at k (\<lambda>i. f (Suc i)) a = 0" by (simp add: poly_at_def)
  then have "f 0 = 0" using r by (simp add: poly_at_Suc_shift)
  then show ?case using f Suc.prems(4) by (cases i) simp_all
qed simp

section \<open>Gauss-Jordan inversion\<close>

datatype pivot = Found nat nat | Singular | Missing

text \<open>The search of one row, from column \<open>ix\<close>; then of the rows from \<open>row\<close>.\<close>

function search_row :: "nat \<Rightarrow> matrix \<Rightarrow> (nat \<Rightarrow> nat) \<Rightarrow> nat \<Rightarrow> nat \<Rightarrow> pivot" where
  "search_row k src ipiv row ix =
     (if k \<le> ix then Missing
      else if ipiv ix = 0 then (if src row ix \<noteq> 0 then Found row ix else search_row k src ipiv row (ix + 1))
      else if 1 < ipiv ix then Singular
      else search_row k src ipiv row (ix + 1))"
  by auto
termination by (relation "measure (\<lambda>(k, src, ipiv, row, ix). k - ix)") auto

function search_rows :: "nat \<Rightarrow> matrix \<Rightarrow> (nat \<Rightarrow> nat) \<Rightarrow> nat \<Rightarrow> pivot" where
  "search_rows k src ipiv row =
     (if k \<le> row then Missing
      else case (if ipiv row \<noteq> 1 then search_row k src ipiv row 0 else Missing) of
        Missing \<Rightarrow> search_rows k src ipiv (row + 1) | p \<Rightarrow> p)"
  by auto
termination by (relation "measure (\<lambda>(k, src, ipiv, row). k - row)") auto

declare search_row.simps [simp del] search_rows.simps [simp del]

definition find_pivot :: "nat \<Rightarrow> matrix \<Rightarrow> (nat \<Rightarrow> nat) \<Rightarrow> nat \<Rightarrow> pivot" where
  "find_pivot k src ipiv col =
     (if ipiv col \<noteq> 1 \<and> src col col \<noteq> 0 then Found col col else search_rows k src ipiv 0)"

record gauss =
  mat :: matrix
  ipiv :: "nat \<Rightarrow> nat"
  indxr :: "nat \<Rightarrow> nat"
  indxc :: "nat \<Rightarrow> nat"

definition swap_rows :: "nat \<Rightarrow> nat \<Rightarrow> nat \<Rightarrow> matrix \<Rightarrow> matrix" where
  "swap_rows k r c m =
     m(r := (\<lambda>ix. if ix < k then m c ix else m r ix), c := (\<lambda>ix. if ix < k then m r ix else m c ix))"

definition swap_cols :: "nat \<Rightarrow> nat \<Rightarrow> nat \<Rightarrow> matrix \<Rightarrow> matrix" where
  "swap_cols k r c m =
     (\<lambda>row. if row < k then (m row)(r := m row c, c := m row r) else m row)"

text \<open>Scaling the pivot row; \<open>1\<close> is put in the place of the pivot first.\<close>

definition scale_row :: "nat \<Rightarrow> nat \<Rightarrow> (nat \<Rightarrow> gf) \<Rightarrow> nat \<Rightarrow> gf" where
  "scale_row k icol p =
     (let c = p icol in
      if c \<noteq> 1 then let q = p(icol := 1) in (\<lambda>ix. if ix < k then inverse c * q ix else q ix) else p)"

text \<open>Removing multiples of the pivot row from the others, unless it is a row of the identity.\<close>

definition sweep_rows :: "nat \<Rightarrow> nat \<Rightarrow> matrix \<Rightarrow> matrix" where
  "sweep_rows k icol m =
     (let pivot_row = m icol in
      if list_all (\<lambda>ix. pivot_row ix = (if ix = icol then 1 else 0)) [0 ..< k] then m
      else (\<lambda>ix. if ix < k \<and> ix \<noteq> icol then addmul ((m ix)(icol := 0)) pivot_row (m ix icol) k else m ix))"

definition pivot_step :: "nat \<Rightarrow> nat \<Rightarrow> gauss \<Rightarrow> gauss option" where
  "pivot_step k col s =
     (case find_pivot k (mat s) (ipiv s) col of
        Found irow icol \<Rightarrow>
          let m = (if irow \<noteq> icol then swap_rows k irow icol (mat s) else mat s) in
          if m icol icol = 0 then None
          else Some (s\<lparr> mat := sweep_rows k icol (m(icol := scale_row k icol (m icol))),
                        ipiv := (ipiv s)(icol := ipiv s icol + 1),
                        indxr := (indxr s)(col := irow), indxc := (indxc s)(col := icol) \<rparr>)
      | _ \<Rightarrow> None)"

fun pivot_steps :: "nat \<Rightarrow> nat list \<Rightarrow> gauss \<Rightarrow> gauss option" where
  "pivot_steps k [] s = Some s"
| "pivot_steps k (col # cols) s = (case pivot_step k col s of None \<Rightarrow> None | Some s' \<Rightarrow> pivot_steps k cols s')"

text \<open>The columns are put back in order, from the last pivot to the first.\<close>

fun unscramble :: "nat \<Rightarrow> (nat \<Rightarrow> nat) \<Rightarrow> (nat \<Rightarrow> nat) \<Rightarrow> nat \<Rightarrow> matrix \<Rightarrow> matrix" where
  "unscramble k ir ic 0 m = m"
| "unscramble k ir ic (Suc n) m =
     unscramble k ir ic n
       (if k \<le> ir n \<or> k \<le> ic n then m else if ir n \<noteq> ic n then swap_cols k (ir n) (ic n) m else m)"

text \<open>\<open>None\<close> is the non-zero result of \<open>invert_mat\<close>, a singular matrix.\<close>

definition invert_mat :: "matrix \<Rightarrow> nat \<Rightarrow> matrix option" where
  "invert_mat src k =
     (case pivot_steps k [0 ..< k] \<lparr> mat = src, ipiv = (\<lambda>_. 0), indxr = (\<lambda>_. 0), indxc = (\<lambda>_. 0) \<rparr> of
        None \<Rightarrow> None | Some s \<Rightarrow> Some (unscramble k (indxr s) (indxc s) k (mat s)))"

subsection \<open>The search\<close>

definition pivots :: "nat set \<Rightarrow> nat \<Rightarrow> nat" where
  "pivots P i = (if i \<in> P then 1 else 0)"

lemma search_row_spec:
  "case search_row k m (pivots P) row ix of
     Found r c \<Rightarrow> r = row \<and> ix \<le> c \<and> c < k \<and> c \<notin> P \<and> m r c \<noteq> 0
   | Missing \<Rightarrow> (\<forall>c. ix \<le> c \<and> c < k \<and> c \<notin> P \<longrightarrow> m row c = 0) | Singular \<Rightarrow> False"
proof (induction "k - ix" arbitrary: ix)
  case 0
  then show ?case by (subst search_row.simps) auto
next
  case (Suc n)
  have ix: "ix < k" using Suc.hyps(2) by simp
  have ih: "case search_row k m (pivots P) row (ix + 1) of
     Found r c \<Rightarrow> r = row \<and> ix + 1 \<le> c \<and> c < k \<and> c \<notin> P \<and> m r c \<noteq> 0
   | Missing \<Rightarrow> (\<forall>c. ix + 1 \<le> c \<and> c < k \<and> c \<notin> P \<longrightarrow> m row c = 0) | Singular \<Rightarrow> False"
    by (rule Suc.hyps(1)) (use Suc.hyps(2) in simp)
  show ?case
  proof (cases "ix \<notin> P \<and> m row ix \<noteq> 0")
    case True
    then show ?thesis using ix by (subst search_row.simps) (simp add: pivots_def)
  next
    case False
    then have "search_row k m (pivots P) row ix = search_row k m (pivots P) row (ix + 1)"
      using ix by (subst search_row.simps) (auto simp: pivots_def)
    moreover have "c = ix \<or> ix + 1 \<le> c" if "ix \<le> c" for c using that by auto
    ultimately show ?thesis using ih False by (auto split: pivot.splits)
  qed
qed

lemma search_rows_spec:
  "case search_rows k m (pivots P) row of
     Found r c \<Rightarrow> row \<le> r \<and> r < k \<and> c < k \<and> r \<notin> P \<and> c \<notin> P \<and> m r c \<noteq> 0
   | Missing \<Rightarrow> (\<forall>r c. row \<le> r \<and> r < k \<and> r \<notin> P \<and> c < k \<and> c \<notin> P \<longrightarrow> m r c = 0) | Singular \<Rightarrow> False"
proof (induction "k - row" arbitrary: row)
  case 0
  then show ?case by (subst search_rows.simps) auto
next
  case (Suc n)
  have row: "row < k" using Suc.hyps(2) by simp
  have ih: "case search_rows k m (pivots P) (row + 1) of
     Found r c \<Rightarrow> row + 1 \<le> r \<and> r < k \<and> c < k \<and> r \<notin> P \<and> c \<notin> P \<and> m r c \<noteq> 0
   | Missing \<Rightarrow> (\<forall>r c. row + 1 \<le> r \<and> r < k \<and> r \<notin> P \<and> c < k \<and> c \<notin> P \<longrightarrow> m r c = 0) | Singular \<Rightarrow> False"
    by (rule Suc.hyps(1)) (use Suc.hyps(2) in simp)
  have r: "r = row \<or> row + 1 \<le> r" if "row \<le> r" for r using that by auto
  have eq: "search_rows k m (pivots P) row = (case (if row \<in> P then Missing else search_row k m (pivots P) row 0) of
        Missing \<Rightarrow> search_rows k m (pivots P) (row + 1) | p \<Rightarrow> p)"
    using row by (subst search_rows.simps) (simp add: pivots_def)
  show ?case
  proof (cases "row \<in> P")
    case True
    then show ?thesis using ih r unfolding eq by (auto split: pivot.splits)
  next
    case False
    then show ?thesis using ih r row search_row_spec [where k = k and m = m and P = P and row = row and ix = 0] unfolding eq
      by (auto split: pivot.splits)
  qed
qed

lemma find_pivot_spec:
  "col < k \<Longrightarrow> case find_pivot k m (pivots P) col of
     Found r c \<Rightarrow> r < k \<and> c < k \<and> r \<notin> P \<and> c \<notin> P \<and> m r c \<noteq> 0
   | Missing \<Rightarrow> (\<forall>r c. r < k \<and> r \<notin> P \<and> c < k \<and> c \<notin> P \<longrightarrow> m r c = 0) | Singular \<Rightarrow> False"
  using search_rows_spec [where k = k and m = m and P = P and row = 0] by (auto simp: find_pivot_def pivots_def split: pivot.splits)

subsection \<open>The matrix as a tableau\<close>

text \<open>
  After some pivots the matrix expresses, for the system \<open>y = M x\<close>, the unknowns of the pivoted rows and the
  right-hand sides of the others by the right-hand sides of the pivoted columns and the unknowns of the others;
  \<open>L\<close> says which right-hand side a row has after the swaps.
\<close>

definition lin :: "nat \<Rightarrow> matrix \<Rightarrow> (nat \<Rightarrow> gf) \<Rightarrow> nat \<Rightarrow> gf" where
  "lin k A x i = (\<Sum>j<k. A i j * x j)"

definition tableau :: "nat \<Rightarrow> matrix \<Rightarrow> nat set \<Rightarrow> (nat \<Rightarrow> nat) \<Rightarrow> (nat \<Rightarrow> gf) \<Rightarrow> (nat \<Rightarrow> gf) \<Rightarrow> bool" where
  "tableau k A P L x y \<longleftrightarrow>
     (\<forall>i<k. (if i \<in> P then x i else y (L i)) = lin k A (\<lambda>j. if j \<in> P then y (L j) else x j) i)"

lemma tableau_cong: "(\<And>i j. i < k \<Longrightarrow> j < k \<Longrightarrow> A i j = B i j) \<Longrightarrow> tableau k A P L x y = tableau k B P L x y"
  by (simp add: tableau_def lin_def)

definition exch :: "matrix \<Rightarrow> nat \<Rightarrow> matrix" where
  "exch A c = (\<lambda>i j. let B = (\<lambda>j. inverse (A c c) * (if j = c then 1 else A c j)) in
     if i = c then B j else (if j = c then 0 else A i j) + A i c * B j)"

lemma lin_remove: "c < k \<Longrightarrow> lin k A x i = A i c * x c + (\<Sum>j \<in> {..<k} - {c}. A i j * x j)"
  unfolding lin_def by (rule sum.remove) simp_all

lemma pivot_equation:
  assumes "a \<noteq> (0 :: gf)" shows "w = a * z + r \<longleftrightarrow> z = inverse a * (w + r)"
proof
  assume "w = a * z + r"
  then have "w + r = a * z" by (simp add: add.assoc)
  then show "z = inverse a * (w + r)" using assms by (simp add: mult.assoc [symmetric])
next
  assume "z = inverse a * (w + r)"
  then have "a * z = w + r" using assms by (simp add: mult.assoc [symmetric])
  then show "w = a * z + r" by (simp add: add.assoc)
qed

lemma exchange:
  assumes "c < k" "A c c \<noteq> 0"
  shows "(\<forall>i<k. w i = lin k A z i) \<longleftrightarrow> (\<forall>i<k. (w(c := z c)) i = lin k (exch A c) (z(c := w c)) i)"
proof -
  define R where "R i = (\<Sum>j \<in> {..<k} - {c}. A i j * z j)" for i
  let ?z = "z(c := w c)" and ?B = "exch A c"
  have old: "lin k A z i = A i c * z c + R i" for i using lin_remove [OF assms(1)] by (simp add: R_def)
  have Rz: "(\<Sum>j \<in> {..<k} - {c}. A i j * ?z j) = R i" for i unfolding R_def by (rule sum.cong) simp_all
  have "lin k ?B ?z c = ?B c c * ?z c + (\<Sum>j \<in> {..<k} - {c}. inverse (A c c) * (A c j * ?z j))"
    unfolding lin_remove [OF assms(1)] by (intro arg_cong2 [of _ _ _ _ "(+)"] sum.cong) (simp_all add: exch_def mult.assoc)
  also have "\<dots> = inverse (A c c) * (w c + R c)"
    unfolding sum_distrib_left [symmetric] Rz by (simp add: exch_def distrib_left)
  finally have new_c: "lin k ?B ?z c = inverse (A c c) * (w c + R c)" .
  have new_i: "lin k ?B ?z i = R i + A i c * lin k ?B ?z c" if "i \<noteq> c" for i
  proof -
    have b: "?B i j = (if j = c then 0 else A i j) + A i c * ?B c j" for j using that by (simp add: exch_def)
    have "lin k ?B ?z i = (\<Sum>j<k. (if j = c then 0 else A i j) * ?z j) + (\<Sum>j<k. A i c * (?B c j * ?z j))"
      unfolding lin_def b by (simp add: distrib_right sum.distrib mult.assoc)
    also have "(\<Sum>j<k. (if j = c then 0 else A i j) * ?z j) = R i"
      by (subst sum.remove [of _ c]) (simp_all add: assms(1), unfold R_def, rule sum.cong, simp_all)
    finally show ?thesis by (simp add: lin_def sum_distrib_left)
  qed
  have pivot: "w c = lin k A z c \<longleftrightarrow> z c = lin k ?B ?z c"
    unfolding old new_c by (rule pivot_equation [OF assms(2)])
  show ?thesis
  proof
    assume h: "\<forall>i<k. w i = lin k A z i"
    then have z: "z c = lin k ?B ?z c" using pivot assms(1) by blast
    show "\<forall>i<k. (w(c := z c)) i = lin k ?B ?z i"
    proof (intro allI impI)
      fix i assume "i < k"
      then show "(w(c := z c)) i = lin k ?B ?z i"
      proof (cases "i = c")
        case True
        then show ?thesis using z by (simp only: fun_upd_same)
      next
        case False
        have "w i = A i c * z c + R i" using h \<open>i < k\<close> old by simp
        moreover have "lin k ?B ?z i = R i + A i c * z c" unfolding new_i [OF False] z [symmetric] by (rule refl)
        ultimately show ?thesis using False by (simp add: add.commute)
      qed
    qed
  next
    assume h: "\<forall>i<k. (w(c := z c)) i = lin k ?B ?z i"
    then have z: "z c = lin k ?B ?z c" using assms(1) by (auto dest: spec [of _ c])
    show "\<forall>i<k. w i = lin k A z i"
    proof (intro allI impI)
      fix i assume "i < k"
      show "w i = lin k A z i"
      proof (cases "i = c")
        case False
        then have "w i = R i + A i c * z c" using h \<open>i < k\<close> new_i [OF False] z by (auto dest: spec [of _ i])
        then show ?thesis by (simp add: old add.commute)
      qed (use pivot z in simp)
    qed
  qed
qed

subsection \<open>One pivot\<close>

definition tau :: "nat \<Rightarrow> nat \<Rightarrow> nat \<Rightarrow> nat" where
  "tau r c i = (if i = r then c else if i = c then r else i)"

lemma tau_tau [simp]: "tau r c (tau r c i) = i"
  by (simp add: tau_def)

lemma tau_right [simp]: "tau r c c = r"
  by (auto simp: tau_def)

lemma tau_less: "r < k \<Longrightarrow> c < k \<Longrightarrow> i < k \<Longrightarrow> tau r c i < k"
  by (simp add: tau_def)

lemma all_tau: "r < k \<Longrightarrow> c < k \<Longrightarrow> (\<forall>i<k. Q (tau r c i)) \<longleftrightarrow> (\<forall>i<k. Q i)"
proof
  assume rc: "r < k" "c < k" and h: "\<forall>i<k. Q (tau r c i)"
  show "\<forall>i<k. Q i"
  proof (intro allI impI)
    fix i assume "i < k"
    then show "Q i" using h [rule_format, OF tau_less [OF rc]] by simp
  qed
qed (simp add: tau_less)

lemma tau_bij: "r < k \<Longrightarrow> c < k \<Longrightarrow> bij_betw (tau r c) {..<k} {..<k}"
  by (rule bij_betw_byWitness [where f' = "tau r c"]) (auto simp: tau_less)

lemma swap_rows_tau: "j < k \<Longrightarrow> (if r \<noteq> c then swap_rows k r c m else m) i j = m (tau r c i) j"
  by (simp add: swap_rows_def tau_def)

lemma tableau_swap:
  assumes "r < k" "c < k" "r \<notin> P" "c \<notin> P" "\<And>i j. i < k \<Longrightarrow> j < k \<Longrightarrow> B i j = A (tau r c i) j"
  shows "tableau k B P (L \<circ> tau r c) x y \<longleftrightarrow> tableau k A P L x y"
proof -
  have z: "(\<lambda>j. if j \<in> P then y ((L \<circ> tau r c) j) else x j) = (\<lambda>j. if j \<in> P then y (L j) else x j)"
    using assms(3,4) by (auto simp: tau_def)
  have P: "tau r c i \<in> P \<longleftrightarrow> i \<in> P" for i using assms(3,4) by (auto simp: tau_def)
  have l: "lin k B w i = lin k A w (tau r c i)" if "i < k" for w i using assms(5) that by (simp add: lin_def)
  let ?E = "\<lambda>i. (if i \<in> P then x i else y (L i)) = lin k A (\<lambda>j. if j \<in> P then y (L j) else x j) i"
  have x: "(if i \<in> P then x i else y ((L \<circ> tau r c) i)) = (if tau r c i \<in> P then x (tau r c i) else y (L (tau r c i)))" for i
    using assms(3,4) by (auto simp: tau_def)
  have "tableau k B P (L \<circ> tau r c) x y \<longleftrightarrow> (\<forall>i<k. ?E (tau r c i))"
    unfolding tableau_def z x using l by simp
  also have "\<dots> \<longleftrightarrow> (\<forall>i<k. ?E i)"
    by (rule all_tau [OF assms(1,2)])
  finally show ?thesis by (simp only: tableau_def)
qed

lemma tableau_pivot:
  assumes "c < k" "c \<notin> P" "A c c \<noteq> 0"
  shows "tableau k (exch A c) (insert c P) L x y \<longleftrightarrow> tableau k A P L x y"
proof -
  let ?w = "\<lambda>i. if i \<in> P then x i else y (L i)" and ?z = "\<lambda>j. if j \<in> P then y (L j) else x j"
  have "(if i \<in> insert c P then x i else y (L i)) = (?w(c := ?z c)) i" for i
    using assms(2) by auto
  moreover have "(\<lambda>j. if j \<in> insert c P then y (L j) else x j) = ?z(c := ?w c)"
    using assms(2) by auto
  ultimately have "tableau k (exch A c) (insert c P) L x y \<longleftrightarrow> (\<forall>i<k. (?w(c := ?z c)) i = lin k (exch A c) (?z(c := ?w c)) i)"
    unfolding tableau_def by (simp only:)
  also have "\<dots> \<longleftrightarrow> tableau k A P L x y"
    unfolding tableau_def by (rule exchange [where A = A and w = ?w and z = ?z, OF assms(1,3), symmetric])
  finally show ?thesis .
qed

lemma scale_row_nth:
  assumes "c < k" "p c \<noteq> 0" "j < k"
  shows "scale_row k c p j = inverse (p c) * (if j = c then 1 else p j)"
  using assms by (simp add: scale_row_def Let_def)

lemma sweep_exch:
  assumes "c < k" "A c c \<noteq> 0" "i < k" "j < k"
  shows "sweep_rows k c (A(c := scale_row k c (A c))) i j = exch A c i j"
proof -
  let ?p = "scale_row k c (A c)"
  have p: "?p j = exch A c c j" if "j < k" for j
    using scale_row_nth [of c k "A c" j] assms that by (simp add: exch_def)
  have row: "exch A c i j = (if j = c then 0 else A i j) + A i c * ?p j" if "i \<noteq> c"
    using p [OF assms(4)] that by (simp add: exch_def)
  show ?thesis
  proof (cases "list_all (\<lambda>ix. ?p ix = (if ix = c then 1 else 0)) [0 ..< k]")
    case True
    then have "?p j = (if j = c then 1 else 0)" using assms(4) by (simp add: list_all_iff)
    then show ?thesis using True p [OF assms(4)] row by (cases "i = c") (simp_all add: sweep_rows_def Let_def)
  next
    case False
    then show ?thesis using p [OF assms(4)] row assms(3,4)
      by (cases "i = c") (simp_all add: sweep_rows_def Let_def addmul_nth)
  qed
qed

definition gauss_inv :: "nat \<Rightarrow> matrix \<Rightarrow> nat set \<Rightarrow> (nat \<Rightarrow> nat) \<Rightarrow> gauss \<Rightarrow> bool" where
  "gauss_inv k M P L s \<longleftrightarrow> P \<subseteq> {..<k} \<and> ipiv s = pivots P \<and> bij_betw L {..<k} {..<k}
     \<and> (\<forall>x y. tableau k (mat s) P L x y \<longleftrightarrow> (\<forall>i<k. y i = lin k M x i))"

lemma pivot_step_inv:
  assumes "gauss_inv k M P L s" "col < k" "pivot_step k col s = Some s'"
  obtains r c where "r < k" "c < k" "c \<notin> P" "indxr s' = (indxr s)(col := r)" "indxc s' = (indxc s)(col := c)"
    "gauss_inv k M (insert c P) (L \<circ> tau r c) s'"
proof -
  have inv: "P \<subseteq> {..<k}" "ipiv s = pivots P" "bij_betw L {..<k} {..<k}"
    "\<And>x y. tableau k (mat s) P L x y \<longleftrightarrow> (\<forall>i<k. y i = lin k M x i)"
    using assms(1) by (simp_all add: gauss_inv_def)
  obtain r c where f: "find_pivot k (mat s) (pivots P) col = Found r c"
    using assms(3) inv(2) by (auto simp: pivot_step_def split: pivot.splits)
  then have rc: "r < k" "c < k" "r \<notin> P" "c \<notin> P" "mat s r c \<noteq> 0"
    using find_pivot_spec [OF assms(2), where m = "mat s" and P = P] by simp_all
  define A where "A = (if r \<noteq> c then swap_rows k r c (mat s) else mat s)"
  have A: "A i j = mat s (tau r c i) j" if "j < k" for i j using that by (simp only: A_def swap_rows_tau)
  have Ac: "A c c \<noteq> 0" using A [OF rc(2), of c] rc(5) by simp
  have s': "s' = s\<lparr> mat := sweep_rows k c (A(c := scale_row k c (A c))), ipiv := (ipiv s)(c := ipiv s c + 1),
      indxr := (indxr s)(col := r), indxc := (indxc s)(col := c) \<rparr>"
    using assms(3) f inv(2) Ac by (simp add: pivot_step_def Let_def A_def [symmetric])
  have "tableau k (mat s') (insert c P) (L \<circ> tau r c) x y \<longleftrightarrow> (\<forall>i<k. y i = lin k M x i)" for x y
  proof -
    have "tableau k (mat s') (insert c P) (L \<circ> tau r c) x y \<longleftrightarrow> tableau k (exch A c) (insert c P) (L \<circ> tau r c) x y"
      by (rule tableau_cong) (simp add: s' sweep_exch rc(2) Ac)
    also have "\<dots> \<longleftrightarrow> tableau k A P (L \<circ> tau r c) x y" by (rule tableau_pivot [where A = A and c = c, OF rc(2,4) Ac])
    also have "\<dots> \<longleftrightarrow> tableau k (mat s) P L x y" by (rule tableau_swap [OF rc(1-4)]) (rule A)
    finally show ?thesis using inv(4) by simp
  qed
  moreover have "ipiv s' = pivots (insert c P)" using rc(4) inv(2) by (auto simp: s' pivots_def)
  moreover have "bij_betw (L \<circ> tau r c) {..<k} {..<k}" by (rule bij_betw_trans [OF tau_bij [OF rc(1,2)] inv(3)])
  ultimately have "gauss_inv k M (insert c P) (L \<circ> tau r c) s'"
    using inv(1) rc(2) by (simp add: gauss_inv_def)
  then show ?thesis using that rc(1,2,4) by (simp add: s')
qed

text \<open>When no pivot is left the system has a solution other than zero.\<close>

definition singular :: "nat \<Rightarrow> matrix \<Rightarrow> bool" where
  "singular k M \<longleftrightarrow> (\<exists>x. (\<exists>j<k. x j \<noteq> 0) \<and> (\<forall>i<k. lin k M x i = 0))"

lemma pivot_step_None:
  assumes "gauss_inv k M P L s" "col < k" "pivot_step k col s = None" "card P < k"
  shows "singular k M"
proof -
  have inv: "P \<subseteq> {..<k}" "ipiv s = pivots P"
    "\<And>x y. tableau k (mat s) P L x y \<longleftrightarrow> (\<forall>i<k. y i = lin k M x i)"
    using assms(1) by (simp_all add: gauss_inv_def)
  have "find_pivot k (mat s) (pivots P) col = Missing"
  proof (cases "find_pivot k (mat s) (pivots P) col")
    case (Found r c)
    then have rc: "r < k" "c < k" "mat s r c \<noteq> 0"
      using find_pivot_spec [OF assms(2), where m = "mat s" and P = P] by simp_all
    then have "(if r \<noteq> c then swap_rows k r c (mat s) else mat s) c c \<noteq> 0" by (simp only: swap_rows_tau tau_right) simp
    then show ?thesis using assms(3) Found inv(2) by (simp add: pivot_step_def Let_def split: if_splits)
  qed (use find_pivot_spec [OF assms(2), where m = "mat s" and P = P] in simp_all)
  then have zero: "mat s r c = 0" if "r < k" "r \<notin> P" "c < k" "c \<notin> P" for r c
    using find_pivot_spec [OF assms(2), where m = "mat s" and P = P] that by simp
  have "P \<noteq> {..<k}" using assms(4) by auto
  then obtain j0 where j0: "j0 < k" "j0 \<notin> P" using inv(1) by auto
  define x where "x = (\<lambda>j. if j \<in> P then mat s j j0 else if j = j0 then 1 else 0)"
  have "tableau k (mat s) P L x (\<lambda>_. 0)"
    unfolding tableau_def
  proof (intro allI impI)
    fix i assume i: "i < k"
    have "lin k (mat s) (\<lambda>j. if j \<in> P then 0 else x j) i = (\<Sum>j<k. if j = j0 then mat s i j0 else 0)"
      unfolding lin_def by (rule sum.cong) (use j0 in \<open>auto simp: x_def\<close>)
    also have "\<dots> = mat s i j0" using j0(1) by simp
    finally show "(if i \<in> P then x i else 0) = lin k (mat s) (\<lambda>j. if j \<in> P then 0 else x j) i"
      using zero [OF i _ j0] by (simp add: x_def)
  qed
  then have "\<forall>i<k. lin k M x i = 0" using inv(3) by (metis (no_types))
  moreover have "x j0 \<noteq> 0" using j0(2) by (simp add: x_def)
  ultimately show ?thesis using j0(1) unfolding singular_def by blast
qed

subsection \<open>All pivots\<close>

fun labels :: "(nat \<Rightarrow> nat) \<Rightarrow> (nat \<Rightarrow> nat) \<Rightarrow> nat \<Rightarrow> nat \<Rightarrow> nat" where
  "labels ir ic 0 = id"
| "labels ir ic (Suc n) = labels ir ic n \<circ> tau (ir n) (ic n)"

lemma labels_cong: "(\<And>i. i < n \<Longrightarrow> ir i = ir' i \<and> ic i = ic' i) \<Longrightarrow> labels ir ic n = labels ir' ic' n"
  by (induction n) simp_all

lemma pivot_steps_Some:
  assumes "gauss_inv k M P (labels (indxr s) (indxc s) col) s" "card P = col" "col + n = k"
    "\<forall>i<col. indxr s i < k \<and> indxc s i < k" "pivot_steps k [col ..< k] s = Some s'"
  shows "\<exists>P'. gauss_inv k M P' (labels (indxr s') (indxc s') k) s' \<and> card P' = k \<and> (\<forall>i<k. indxr s' i < k \<and> indxc s' i < k)"
  using assms
proof (induction n arbitrary: col P s)
  case 0
  then show ?case by auto
next
  case (Suc n)
  then have col: "col < k" and up: "[col ..< k] = col # [Suc col ..< k]" by (simp_all add: upt_conv_Cons)
  obtain s1 where s1: "pivot_step k col s = Some s1" "pivot_steps k [Suc col ..< k] s1 = Some s'"
    using Suc.prems(5) unfolding up by (auto split: option.splits)
  obtain r c where rc: "r < k" "c < k" "c \<notin> P" "indxr s1 = (indxr s)(col := r)" "indxc s1 = (indxc s)(col := c)"
    "gauss_inv k M (insert c P) (labels (indxr s) (indxc s) col \<circ> tau r c) s1"
    using pivot_step_inv [OF Suc.prems(1) col s1(1)] by blast
  have "labels (indxr s1) (indxc s1) col = labels (indxr s) (indxc s) col"
    by (rule labels_cong) (simp add: rc(4,5))
  then have L: "labels (indxr s1) (indxc s1) (Suc col) = labels (indxr s) (indxc s) col \<circ> tau r c"
    by (simp add: rc(4,5))
  have "finite P" using Suc.prems(1) unfolding gauss_inv_def by (meson finite_lessThan finite_subset)
  then have "card (insert c P) = Suc col" using rc(3) Suc.prems(2) by simp
  moreover have "\<forall>i<Suc col. indxr s1 i < k \<and> indxc s1 i < k"
    using Suc.prems(4) rc(1,2) by (auto simp: rc(4,5) less_Suc_eq)
  ultimately show ?case
    using Suc.prems(3) s1(2) by (intro Suc.IH [OF rc(6) [folded L]]) simp_all
qed

lemma pivot_steps_None:
  assumes "gauss_inv k M P L s" "card P = col" "col + n = k" "pivot_steps k [col ..< k] s = None"
  shows "singular k M"
  using assms
proof (induction n arbitrary: col P L s)
  case (Suc n)
  then have col: "col < k" and up: "[col ..< k] = col # [Suc col ..< k]" by (simp_all add: upt_conv_Cons)
  show ?case
  proof (cases "pivot_step k col s")
    case None
    then show ?thesis using pivot_step_None [OF Suc.prems(1) col] Suc.prems(2) col by simp
  next
    case (Some s1)
    then obtain r c where rc: "c \<notin> P" "gauss_inv k M (insert c P) (L \<circ> tau r c) s1"
      using pivot_step_inv [OF Suc.prems(1) col] by blast
    have "finite P" using Suc.prems(1) unfolding gauss_inv_def by (meson finite_lessThan finite_subset)
    then have "card (insert c P) = Suc col" using rc(1) Suc.prems(2) by simp
    then show ?thesis using Suc.prems(3,4) Some unfolding up by (intro Suc.IH [OF rc(2)]) simp_all
  qed
qed simp

lemma unscramble_labels:
  assumes "\<forall>i<n. ir i < k \<and> ic i < k" "i < k" "j < k"
  shows "unscramble k ir ic n A i (labels ir ic n j) = A i j"
  using assms
proof (induction n arbitrary: A j)
  case (Suc n)
  have "(if ir n \<noteq> ic n then swap_cols k (ir n) (ic n) A else A) i (tau (ir n) (ic n) j) = A i j"
    using Suc.prems(2) by (auto simp: swap_cols_def tau_def)
  moreover have "tau (ir n) (ic n) j < k" using Suc.prems by (simp add: tau_less)
  moreover have "\<not> (k \<le> ir n \<or> k \<le> ic n)" using Suc.prems(1) by (auto dest: spec [of _ n])
  ultimately show ?case using Suc.IH [of "tau (ir n) (ic n) j"] Suc.prems(1,2) by simp
qed simp

definition unit :: "nat \<Rightarrow> nat \<Rightarrow> gf" where
  "unit i = (\<lambda>j. if i = j then 1 else 0)"

lemma lin_unit: "j < k \<Longrightarrow> lin k M (unit j) i = M i j"
  by (simp add: lin_def unit_def if_distrib cong: if_cong)

definition inverts :: "nat \<Rightarrow> matrix \<Rightarrow> matrix \<Rightarrow> bool" where
  "inverts k A M \<longleftrightarrow> (\<forall>x. \<forall>i<k. lin k A (lin k M x) i = x i)"

lemma inverts_matmul:
  assumes "inverts k A M" "i < k" "j < k" shows "matmul A M k i j = (if i = j then 1 else 0)"
proof -
  have "matmul A M k i j = lin k A (lin k M (unit j)) i"
    by (simp add: matmul_sum lin_def [of k A] lin_unit assms(3))
  then show ?thesis using assms(1,2) by (auto simp: inverts_def unit_def)
qed

lemma invert_mat_spec:
  "case invert_mat M k of Some A \<Rightarrow> inverts k A M | None \<Rightarrow> singular k M"
proof -
  define s where "s = \<lparr> mat = M, ipiv = (\<lambda>_. 0), indxr = (\<lambda>_. 0), indxc = (\<lambda>_. 0) \<rparr>"
  have inv: "gauss_inv k M {} id s"
    by (simp add: gauss_inv_def s_def pivots_def fun_eq_iff tableau_def)
  show ?thesis
  proof (cases "pivot_steps k [0 ..< k] s")
    case None
    then have "singular k M" using pivot_steps_None [OF inv, of 0 k] by simp
    then show ?thesis using None by (simp add: invert_mat_def s_def)
  next
    case (Some s')
    let ?L = "labels (indxr s') (indxc s') k" and ?A = "unscramble k (indxr s') (indxc s') k (mat s')"
    have "gauss_inv k M {} (labels (indxr s) (indxc s) 0) s" using inv by simp
    from pivot_steps_Some [OF this _ _ _ Some, of k] obtain P where P: "gauss_inv k M P ?L s'" "card P = k"
      and idx: "\<forall>i<k. indxr s' i < k \<and> indxc s' i < k" by auto
    have full: "P = {..<k}" and L: "bij_betw ?L {..<k} {..<k}"
      and t: "\<And>x y. tableau k (mat s') P ?L x y \<longleftrightarrow> (\<forall>i<k. y i = lin k M x i)"
      using P by (simp_all add: gauss_inv_def card_subset_eq)
    have "lin k ?A (lin k M x) i = x i" if "i < k" for x i
    proof -
      have "tableau k (mat s') P ?L x (lin k M x)" by (simp add: t)
      then have "x i = lin k (mat s') (\<lambda>j. if j \<in> {..<k} then lin k M x (?L j) else x j) i"
        using that by (simp add: tableau_def full)
      also have "\<dots> = (\<Sum>j<k. ?A i (?L j) * lin k M x (?L j))"
        unfolding lin_def [of k "mat s'"] by (rule sum.cong) (simp_all add: unscramble_labels [OF idx that])
      also have "\<dots> = (\<Sum>j<k. ?A i j * lin k M x j)"
        by (rule sum.reindex_bij_betw [OF L])
      finally show ?thesis by (simp add: lin_def)
    qed
    then have "inverts k ?A M" by (simp add: inverts_def)
    then show ?thesis using Some by (simp add: invert_mat_def s_def)
  qed
qed

text \<open>
  C25: Gauss-Jordan inversion in place, with its search for pivots, its row swaps and its final exchange of
  columns, is correct: for a matrix whose rows determine the unknowns it gives the inverse, and it fails
  exactly on the matrices for which the system has a solution other than zero.
\<close>

theorem invert_mat_correct:
  "(case invert_mat M k of Some A \<Rightarrow> list_all (\<lambda>i. list_all (\<lambda>j. matmul A M k i j = (if i = j then 1 else 0)) [0 ..< k]) [0 ..< k]
    | None \<Rightarrow> True)
   \<and> (invert_mat M k = None \<longleftrightarrow> singular k M)"
proof -
  have excl: False if inv: "inverts k A M" and sing: "singular k M" for A
  proof -
    obtain x j where x: "j < k" "x j \<noteq> 0" "\<forall>i<k. lin k M x i = 0" using sing by (auto simp: singular_def)
    then have "lin k A (lin k M x) j = 0" by (simp add: lin_def [of k A])
    then show False using inv x(1,2) by (simp add: inverts_def)
  qed
  show ?thesis
    using invert_mat_spec [where M = M and k = k] excl by (cases "invert_mat M k") (auto simp: list_all_iff inverts_matmul)
qed

section \<open>Vandermonde matrices\<close>

text \<open>The coefficients of the product of the \<open>x - p_i\<close>, built up in \<open>c\<close>.\<close>

definition mult_loop :: "gf \<Rightarrow> nat \<Rightarrow> nat \<Rightarrow> (nat \<Rightarrow> gf) \<Rightarrow> nat \<Rightarrow> gf" where
  "mult_loop pi m n c = fold (\<lambda>j c. c(j := c j + pi * c (j + 1))) [m ..< n] c"

definition coeff_step :: "nat \<Rightarrow> (nat \<Rightarrow> gf) \<Rightarrow> nat \<Rightarrow> (nat \<Rightarrow> gf) \<Rightarrow> nat \<Rightarrow> gf" where
  "coeff_step k p i c =
     (let c' = mult_loop (p i) (k - 1 - (i - 1)) (k - 1) c in c'(k - 1 := c' (k - 1) + p i))"

definition vdm_coeffs :: "nat \<Rightarrow> (nat \<Rightarrow> gf) \<Rightarrow> nat \<Rightarrow> gf" where
  "vdm_coeffs k p = fold (coeff_step k p) [1 ..< k] ((\<lambda>_. 0)(k - 1 := p 0))"

text \<open>Synthetic division by \<open>x - xx\<close>, with the value of the quotient at \<open>xx\<close>.\<close>

fun synth :: "(nat \<Rightarrow> gf) \<Rightarrow> gf \<Rightarrow> nat \<Rightarrow> (nat \<Rightarrow> gf) \<times> gf \<Rightarrow> (nat \<Rightarrow> gf) \<times> gf" where
  "synth c xx 0 s = s"
| "synth c xx (Suc i) (b, t) =
     (let b' = b(i := c (i + 1) + xx * b (i + 1)) in synth c xx i (b', xx * t + b' i))"

definition vdm_column :: "nat \<Rightarrow> (nat \<Rightarrow> gf) \<Rightarrow> gf \<Rightarrow> nat \<Rightarrow> gf" where
  "vdm_column k c xx =
     (case synth c xx (k - 1) ((\<lambda>_. 0)(k - 1 := 1), 1) of (b, t) \<Rightarrow> (\<lambda>col. inverse t * b col))"

definition invert_vdm :: "matrix \<Rightarrow> nat \<Rightarrow> matrix" where
  "invert_vdm src k =
     (if k = 1 then src
      else let p = (\<lambda>i. src i 1); c = vdm_coeffs k p in
        (\<lambda>col row. if col < k \<and> row < k then vdm_column k c (p row) col else src col row))"

lemma mult_loop_eq: "mult_loop a m n c = (\<lambda>q. if m \<le> q \<and> q < n then c q + a * c (q + 1) else c q)"
proof (induction n)
  case (Suc n)
  show ?case
  proof (cases "m \<le> n")
    case True
    then have "mult_loop a m (Suc n) c = (\<lambda>d. d(n := d n + a * d (n + 1))) (mult_loop a m n c)"
      by (simp add: mult_loop_def)
    then show ?thesis using True by (auto simp: Suc.IH fun_eq_iff less_Suc_eq)
  next
    case False
    then show ?thesis by (auto simp: mult_loop_def fun_eq_iff)
  qed
qed (simp add: mult_loop_def)

text \<open>\<open>part i c x\<close> is the product of the first \<open>i\<close> factors at \<open>x\<close>, read off from the array.\<close>

definition part :: "nat \<Rightarrow> nat \<Rightarrow> (nat \<Rightarrow> gf) \<Rightarrow> gf \<Rightarrow> gf" where
  "part k i c x = poly_at i (\<lambda>j. c (k - i + j)) x + x ^ i"

lemma part_step:
  assumes "1 \<le> i" "i < k" "\<forall>q \<le> k - i. c q = 0"
  shows "part k (Suc i) (coeff_step k p i c) x = (x + p i) * part k i c x" "\<forall>q \<le> k - Suc i. coeff_step k p i c q = 0"
proof -
  let ?d = "\<lambda>j. c (k - i + j)" and ?e = "coeff_step k p i c"
  have e: "?e q = (if q = k - 1 then c q + p i else if k - i \<le> q \<and> q < k - 1 then c q + p i * c (q + 1) else c q)" for q
    using assms(1,2) by (auto simp: coeff_step_def Let_def mult_loop_eq)
  show "\<forall>q \<le> k - Suc i. ?e q = 0" using e assms by auto
  have e0: "?e (k - Suc i) = 0" using e [of "k - Suc i"] assms by auto
  have eS: "?e (k - Suc i + Suc j) = ?d j + (if Suc j < i then p i * ?d (Suc j) else p i)" if "j < i" for j
    using e [of "k - i + j"] that assms(1,2) by (auto simp: Suc_diff_Suc)
  have d0: "?d 0 = 0" using assms(3) by simp
  have "poly_at (Suc i) (\<lambda>j. ?e (k - Suc i + j)) x = x * poly_at i (\<lambda>j. ?e (k - Suc i + Suc j)) x"
    by (simp add: poly_at_Suc_shift e0)
  also have "poly_at i (\<lambda>j. ?e (k - Suc i + Suc j)) x
      = poly_at i (\<lambda>j. ?d j + (if Suc j < i then p i * ?d (Suc j) else p i)) x"
    unfolding poly_at_def by (rule sum.cong [OF refl]) (simp only: lessThan_iff eS)
  also have "\<dots> = poly_at i ?d x + poly_at i (\<lambda>j. if Suc j < i then p i * ?d (Suc j) else p i) x"
    unfolding poly_at_def by (simp only: sum.distrib distrib_right)
  finally have 1: "poly_at (Suc i) (\<lambda>j. ?e (k - Suc i + j)) x
      = x * poly_at i ?d x + x * poly_at i (\<lambda>j. if Suc j < i then p i * ?d (Suc j) else p i) x"
    by (simp add: distrib_left)
  obtain n where n: "i = Suc n" using assms(1) by (cases i) auto
  have "poly_at i (\<lambda>j. if Suc j < i then p i * ?d (Suc j) else p i) x = p i * poly_at n (\<lambda>j. ?d (Suc j)) x + p i * x ^ n"
    by (simp add: n poly_at_def sum_distrib_left mult.assoc)
  moreover have "poly_at i ?d x = x * poly_at n (\<lambda>j. ?d (Suc j)) x"
    unfolding n poly_at_Suc_shift using d0 n by simp
  ultimately have "x * poly_at i (\<lambda>j. if Suc j < i then p i * ?d (Suc j) else p i) x = p i * poly_at i ?d x + p i * x ^ i"
    by (simp add: n algebra_simps)
  then show "part k (Suc i) ?e x = (x + p i) * part k i c x"
    unfolding part_def 1 by (simp add: algebra_simps)
qed

lemma vdm_coeffs_product:
  assumes "1 \<le> k" "p 0 = 0"
  shows "poly_at k (vdm_coeffs k p) x + x ^ k = (\<Prod>m<k. x + p m)" "vdm_coeffs k p 0 = 0"
proof -
  define c0 where "c0 = (\<lambda>_. 0)(k - 1 := p 0)"
  have c0: "\<forall>q. c0 q = 0" using assms(2) by (simp add: c0_def)
  define c where "c i = fold (coeff_step k p) [1 ..< i] c0" for i
  have "part k i (c i) x = (\<Prod>m<i. x + p m) \<and> (\<forall>q \<le> k - i. c i q = 0)" if "1 \<le> i" "i \<le> k" for i x
    using that
  proof (induction i rule: dec_induct)
    case base
    then show ?case using assms c0 by (simp add: part_def poly_at_def c_def)
  next
    case (step n)
    then have z: "\<forall>q \<le> k - n. c n q = 0" and n: "n < k" and ih: "part k n (c n) x = (\<Prod>m<n. x + p m)" by simp_all
    have "c (Suc n) = coeff_step k p n (c n)" using step.hyps by (simp add: c_def)
    then show ?case
      using part_step(1) [where x = x and p = p, OF step.hyps(1) n z] part_step(2) [where p = p, OF step.hyps(1) n z] ih
      by (simp add: mult.commute)
  qed
  from this [OF assms(1) order_refl] show "poly_at k (vdm_coeffs k p) x + x ^ k = (\<Prod>m<k. x + p m)" "vdm_coeffs k p 0 = 0"
    by (simp_all add: part_def vdm_coeffs_def c_def c0_def)
qed

lemma synth_spec:
  "synth c xx i (b, t) = (b', t') \<Longrightarrow>
     (\<forall>q\<ge>i. b' q = b q) \<and> (\<forall>q<i. b' q = c (q + 1) + xx * b' (q + 1)) \<and> t' = t * xx ^ i + poly_at i b' xx"
proof (induction i arbitrary: b t)
  case (Suc i)
  let ?b = "b(i := c (i + 1) + xx * b (i + 1))"
  have "synth c xx i (?b, xx * t + ?b i) = (b', t')" using Suc.prems by (simp add: Let_def)
  from Suc.IH [OF this] have hi: "\<And>q. i \<le> q \<Longrightarrow> b' q = ?b q" and lo: "\<And>q. q < i \<Longrightarrow> b' q = c (q + 1) + xx * b' (q + 1)"
    and t: "t' = (xx * t + ?b i) * xx ^ i + poly_at i b' xx" by blast+
  have i: "b' i = ?b i" "b' (i + 1) = b (i + 1)" using hi [of i] hi [of "i + 1"] by simp_all
  have "b' q = c (q + 1) + xx * b' (q + 1)" if "q < Suc i" for q
    using that lo [of q] i by (cases "q = i") simp_all
  moreover have "b' q = b q" if "Suc i \<le> q" for q using hi [of q] that by simp
  moreover have "t' = t * xx ^ Suc i + poly_at (Suc i) b' xx"
    unfolding t i(1) [symmetric] by (simp add: poly_at_def algebra_simps)
  ultimately show ?case by blast
qed (simp add: poly_at_def)

lemma synth_divides:
  assumes "\<forall>q<n. b q = c (q + 1) + a * b (q + 1)" "b n = (1 :: gf)"
  shows "(x + a) * poly_at (Suc n) b x = poly_at (Suc n) c x + x ^ Suc n + (c 0 + a * b 0)"
proof -
  have "x * poly_at (Suc n) b x = (\<Sum>q<n. (c (q + 1) + a * b (q + 1)) * x ^ (q + 1)) + x ^ Suc n"
    using assms by (simp add: poly_at_def distrib_left sum_distrib_left mult.left_commute)
  also have "\<dots> = (\<Sum>q<n. c (Suc q) * x ^ Suc q) + a * (\<Sum>q<n. b (Suc q) * x ^ Suc q) + x ^ Suc n"
    by (simp add: sum.distrib distrib_right sum_distrib_left mult.assoc)
  finally have 1: "x * poly_at (Suc n) b x
      = (\<Sum>q<n. c (Suc q) * x ^ Suc q) + a * (\<Sum>q<n. b (Suc q) * x ^ Suc q) + x ^ Suc n" .
  have shift: "poly_at (Suc n) f x = f 0 + (\<Sum>q<n. f (Suc q) * x ^ Suc q)" for f
    unfolding poly_at_def by (subst sum.lessThan_Suc_shift) simp
  show ?thesis
    unfolding distrib_right 1 unfolding shift by (simp add: algebra_simps add.left_commute gf_cancel_left)
qed

lemma invert_vdm_inverse:
  assumes k: "1 \<le> k" and inj: "inj_on p {..<k}" and p0: "p 0 = 0"
    and src: "\<And>i j. i < k \<Longrightarrow> j < k \<Longrightarrow> src i j = p i ^ j" and ij: "i < k" "j < k"
  shows "(\<Sum>l<k. src i l * invert_vdm src k l j) = (if i = j then 1 else 0)"
proof (cases "k = 1")
  case True
  then show ?thesis using ij src [of 0 0] by (simp add: invert_vdm_def)
next
  case False
  obtain n where n: "k = Suc n" "0 < n" using k False by (cases k) auto
  define c where "c = vdm_coeffs k (\<lambda>i. src i 1)"
  have q: "src m 1 = p m" if "m < k" for m using src [OF that, of 1] n by simp
  have c: "poly_at k c x + x ^ k = (\<Prod>m<k. x + p m)" "c 0 = 0" for x
  proof -
    have "(\<Prod>m<k. x + src m 1) = (\<Prod>m<k. x + p m)" by (rule prod.cong [OF refl]) (simp only: lessThan_iff q)
    moreover have "src 0 1 = 0" using q [of 0] k p0 by simp
    ultimately show "poly_at k c x + x ^ k = (\<Prod>m<k. x + p m)" "c 0 = 0"
      using vdm_coeffs_product(1) [where k = k and p = "\<lambda>i. src i 1" and x = x, OF k]
        vdm_coeffs_product(2) [where k = k and p = "\<lambda>i. src i 1", OF k] by (simp_all add: c_def)
  qed
  define a where "a = p j"
  obtain b t where s: "synth c a n ((\<lambda>_. 0)(n := 1), 1) = (b, t)" by force
  have b: "\<forall>q<n. b q = c (q + 1) + a * b (q + 1)" "b n = 1" and t: "t = poly_at k b a"
    using synth_spec [OF s] by (simp_all add: n poly_at_def)
  have root: "(\<Prod>m<k. p i + p m) = 0" if "i < k" for i
    using that by (auto intro!: bexI [of _ i])
  have div: "(x + a) * poly_at k b x = (\<Prod>m<k. x + p m)" for x
  proof -
    have d: "(x + a) * poly_at k b x = poly_at k c x + x ^ k + a * b 0" for x
      using synth_divides [OF b] c(2) by (simp add: n)
    have "a * b 0 = 0" using d [of a] root [OF ij(2)] unfolding c(1) a_def by simp
    then show ?thesis using d by (simp add: c(1))
  qed
  have zero: "poly_at k b (p i) = 0" if "i < k" "i \<noteq> j" for i
  proof -
    have "p i + a \<noteq> 0" using that ij(2) inj gf_eq_iff [of "p i" a] by (auto simp: a_def inj_on_def)
    then show ?thesis using div [of "p i"] root [OF that(1)] by simp
  qed
  have "t \<noteq> 0"
  proof
    assume "t = 0"
    have "poly_at k b x = 0" if x: "x \<in> p ` {..<k}" for x
    proof -
      obtain i where "i < k" "x = p i" using x by auto
      then show ?thesis using zero [of i] t \<open>t = 0\<close> by (cases "i = j") (simp_all add: a_def)
    qed
    moreover have "k \<le> card (p ` {..<k})" using card_image [OF inj] by simp
    moreover have "n < k" using n by simp
    ultimately have "b n = 0" using roots_zero [where X = "p ` {..<k}" and k = k and f = b and i = n] by blast
    then show False using b(2) by simp
  qed
  have row: "vdm_column k c a l = inverse t * b l" for l
    using s by (simp add: vdm_column_def n)
  have "(\<Sum>l<k. src i l * invert_vdm src k l j) = (\<Sum>l<k. inverse t * (b l * p i ^ l))"
  proof (rule sum.cong [OF refl])
    fix l assume "l \<in> {..<k}"
    moreover have "src j 1 = a" using q [OF ij(2)] by (simp add: a_def)
    ultimately show "src i l * invert_vdm src k l j = inverse t * (b l * p i ^ l)"
      using ij src [of i l] row [of l] False by (simp add: invert_vdm_def Let_def c_def)
  qed
  also have "\<dots> = inverse t * poly_at k b (p i)" by (simp add: poly_at_def sum_distrib_left)
  also have "\<dots> = (if i = j then 1 else 0)" using zero [OF ij(1)] t \<open>t \<noteq> 0\<close> by (auto simp: a_def)
  finally show ?thesis .
qed


text \<open>
  With another first point than 0 the coefficients are not those of the product: that of \<open>x\<close> lacks a term,
  because the loop of \<open>mult_loop\<close> starts one place too high. The code has no such call.
\<close>

lemma vdm_coeffs_first_point: "vdm_coeffs 3 p 1 + p 0 * p 1 = p 0 * p 1 + p 0 * p 2 + p 1 * p 2"
  by (simp add: vdm_coeffs_def coeff_step_def mult_loop_def numeral_3_eq_3 numeral_2_eq_2 upt_conv_Cons algebra_simps)

end
