(* ===== verification/Fec.thy ===== *)
theory Fec
  imports Fec_Matrix "HOL-Library.FuncSet"
begin

text \<open>
  The erasure code of \<open>ml/fec/RSfec.c\<close>: \<open>fec_new\<close> (the encoding matrix), \<open>fec_encode\<close>, and \<open>fec_decode\<close> with
  \<open>shuffle\<close> and \<open>build_decode_matrix\<close>. A packet is a buffer, the packets of a call are buffers by their position;
  \<open>k\<close>, \<open>n\<close>, indices and sizes are not negative, and the pointers of \<open>pkt\<close> are to different buffers, so that
  swapping them is swapping the buffers. Allocation succeeds; the magic number, which \<open>fec_free\<close> alone reads, is left out.
\<close>

type_synonym buffer = "nat \<Rightarrow> gf"

record fec_parms =
  code_k :: nat
  code_n :: nat
  enc_matrix :: matrix

section \<open>The encoding matrix\<close>

text \<open>Powers of the field elements, the first row being those of 0.\<close>

definition vdm_matrix :: matrix where
  "vdm_matrix row col =
     (case row of 0 \<Rightarrow> (if col = 0 then 1 else 0) | Suc row \<Rightarrow> Gf (gf_exp ! modnn (row * col)))"

definition fec_new :: "nat \<Rightarrow> nat \<Rightarrow> fec_parms option" where
  "fec_new k n =
     (if GF_SIZE + 1 < k \<or> GF_SIZE + 1 < n \<or> n < k then None
      else let tmp_m = invert_vdm vdm_matrix k; bottom = matmul (\<lambda>row. tmp_m (k + row)) tmp_m k in
        Some \<lparr> code_k = k, code_n = n,
               enc_matrix = (\<lambda>row col. if row < k then (if col = row then 1 else 0) else bottom (row - k) col) \<rparr>)"

section \<open>Encoding\<close>

definition bcopy :: "buffer \<Rightarrow> buffer \<Rightarrow> nat \<Rightarrow> buffer" where
  "bcopy src dst sz = (\<lambda>m. if m < sz then src m else dst m)"

definition fec_encode :: "fec_parms \<Rightarrow> (nat \<Rightarrow> buffer) \<Rightarrow> buffer \<Rightarrow> nat \<Rightarrow> nat \<Rightarrow> buffer" where
  "fec_encode code src fec index sz =
     (if index < code_k code then bcopy (src index) fec sz
      else if index < code_n code then
        fold (\<lambda>i fec. addmul fec (src i) (enc_matrix code index i) sz) [0 ..< code_k code] (bcopy (\<lambda>_. 0) fec sz)
      else fec)"

section \<open>Decoding\<close>

text \<open>Packets with the index of a source packet are moved to their place; two of them with one index are an error.\<close>

function shuffle :: "nat \<Rightarrow> nat \<Rightarrow> (nat \<Rightarrow> buffer) \<Rightarrow> (nat \<Rightarrow> nat) \<Rightarrow> bool \<times> (nat \<Rightarrow> buffer) \<times> (nat \<Rightarrow> nat)" where
  "shuffle i k pkt index =
     (if k \<le> i then (False, pkt, index)
      else if k \<le> index i \<or> index i = i then shuffle (i + 1) k pkt index
      else let c = index i in
        if index c = c then (True, pkt, index)
        else shuffle i k (pkt(i := pkt c, c := pkt i)) (index(i := index c, c := index i)))"
  by auto
termination
proof (relation "measure (\<lambda>(i, k, pkt, index). (k - i) + card {j. j < k \<and> index j \<noteq> j})")
  fix i k c :: nat and pkt :: "nat \<Rightarrow> buffer" and index :: "nat \<Rightarrow> nat"
  assume i: "\<not> k \<le> i" "\<not> (k \<le> index i \<or> index i = i)" and c: "c = index i" "index c \<noteq> c"
  let ?index = "index(i := index c, c := index i)"
  have "{j. j < k \<and> ?index j \<noteq> j} \<subset> {j. j < k \<and> index j \<noteq> j}"
  proof (rule psubsetI)
    show "{j. j < k \<and> ?index j \<noteq> j} \<subseteq> {j. j < k \<and> index j \<noteq> j}"
      using i c by (auto split: if_splits)
    have "c \<in> {j. j < k \<and> index j \<noteq> j}" "c \<notin> {j. j < k \<and> ?index j \<noteq> j}" using i c by simp_all
    then show "{j. j < k \<and> ?index j \<noteq> j} \<noteq> {j. j < k \<and> index j \<noteq> j}" by blast
  qed
  then have "card {j. j < k \<and> ?index j \<noteq> j} < card {j. j < k \<and> index j \<noteq> j}" by (intro psubset_card_mono) simp_all
  then show "((i, k, pkt(i := pkt c, c := pkt i), ?index), i, k, pkt, index)
      \<in> measure (\<lambda>(i, k, pkt, index). (k - i) + card {j. j < k \<and> index j \<noteq> j})" by simp
qed auto

declare shuffle.simps [simp del]

definition build_decode_matrix :: "fec_parms \<Rightarrow> (nat \<Rightarrow> nat) \<Rightarrow> matrix option" where
  "build_decode_matrix code index =
     (let k = code_k code in
      if list_all (\<lambda>i. index i < k \<or> index i < code_n code) [0 ..< k]
      then invert_mat (\<lambda>i. if index i < k then (\<lambda>j. if j = i then 1 else 0) else enc_matrix code (index i)) k
      else None)"

text \<open>The result is the value returned, the packets and the indices.\<close>

definition fec_decode ::
    "fec_parms \<Rightarrow> (nat \<Rightarrow> buffer) \<Rightarrow> (nat \<Rightarrow> nat) \<Rightarrow> nat \<Rightarrow> nat \<times> (nat \<Rightarrow> buffer) \<times> (nat \<Rightarrow> nat)" where
  "fec_decode code pkt0 index0 sz =
     (let k = code_k code in
      case shuffle 0 k pkt0 index0 of (err, pkt, index) \<Rightarrow>
        if err then (1, pkt, index)
        else case build_decode_matrix code index of
          None \<Rightarrow> (1, pkt, index)
        | Some m_dec \<Rightarrow>
            let new_pkt = (\<lambda>row. fold (\<lambda>col new. addmul new (pkt col) (m_dec row col) sz) [0 ..< k] (\<lambda>_. 0)) in
            (0, (\<lambda>row. if row < k \<and> k \<le> index row then bcopy (new_pkt row) (pkt row) sz else pkt row), index))"

section \<open>The shuffle\<close>

definition swapped :: "nat \<Rightarrow> nat \<Rightarrow> nat \<Rightarrow> nat" where
  "swapped i c j = (if j = i then c else if j = c then i else j)"

lemma swapped_bij: "i < k \<Longrightarrow> c < k \<Longrightarrow> bij_betw (swapped i c) {..<k} {..<k}"
  by (rule bij_betw_byWitness [where f' = "swapped i c"]) (auto simp: swapped_def)

lemma fun_upd_swapped: "f(i := f c, c := f i) = f \<circ> swapped i c"
  by (auto simp: swapped_def fun_eq_iff)

lemma shuffle_spec:
  assumes "shuffle i k pkt index = (err, pkt', index')" "\<forall>j<i. j < k \<longrightarrow> k \<le> index j \<or> index j = j"
  shows "(\<exists>f. bij_betw f {..<k} {..<k} \<and> (\<forall>j<k. index' j = index (f j) \<and> pkt' j = pkt (f j)))
    \<and> (if err then \<not> inj_on index {..<k} else \<forall>j<k. k \<le> index' j \<or> index' j = j)"
  using assms
proof (induction i k pkt index rule: shuffle.induct)
  case (1 i k pkt index)
  consider (finished) "k \<le> i" | (skip) "i < k" "k \<le> index i \<or> index i = i"
    | (conflict) "i < k" "index i < k" "index i \<noteq> i" "index (index i) = index i"
    | (swap) "i < k" "index i < k" "index i \<noteq> i" "index (index i) \<noteq> index i" by linarith
  then show ?case
  proof cases
    case finished
    then show ?thesis using "1.prems" by (subst (asm) shuffle.simps) (auto intro!: exI [of _ id])
  next
    case skip
    then have "\<forall>j<i + 1. j < k \<longrightarrow> k \<le> index j \<or> index j = j" using "1.prems"(2) by (auto simp: less_Suc_eq)
    moreover have "shuffle (i + 1) k pkt index = (err, pkt', index')"
      using "1.prems"(1) skip by (subst (asm) shuffle.simps) simp
    ultimately show ?thesis using "1.IH"(1) skip by simp
  next
    case conflict
    then have "\<not> inj_on index {..<k}" by (auto simp: inj_on_def)
    then show ?thesis using "1.prems"(1) conflict by (subst (asm) shuffle.simps) (auto intro!: exI [of _ id])
  next
    case swap
    let ?c = "index i" and ?sw = "swapped i (index i)"
    have eq: "shuffle i k (pkt \<circ> ?sw) (index \<circ> ?sw) = (err, pkt', index')"
      using "1.prems"(1) swap by (subst (asm) shuffle.simps) (simp add: Let_def fun_upd_swapped)
    have pre: "\<forall>j<i. j < k \<longrightarrow> k \<le> (index \<circ> ?sw) j \<or> (index \<circ> ?sw) j = j"
      using "1.prems"(2) swap by (auto simp: swapped_def)
    have sw: "bij_betw ?sw {..<k} {..<k}" using swap by (intro swapped_bij)
    note ih = "1.IH"(2) [of ?c, unfolded fun_upd_swapped, OF _ _ refl _ eq pre]
    from ih swap obtain f where f: "bij_betw f {..<k} {..<k}" "\<forall>j<k. index' j = (index \<circ> ?sw) (f j) \<and> pkt' j = (pkt \<circ> ?sw) (f j)"
      and e: "if err then \<not> inj_on (index \<circ> ?sw) {..<k} else \<forall>j<k. k \<le> index' j \<or> index' j = j"
      by auto
    have "bij_betw (?sw \<circ> f) {..<k} {..<k}" using f(1) sw by (rule bij_betw_trans)
    moreover have "\<not> inj_on index {..<k}" if "\<not> inj_on (index \<circ> ?sw) {..<k}"
      using that sw comp_inj_on [of ?sw "{..<k}" index] by (auto simp: bij_betw_def)
    ultimately show ?thesis
      using e f(2) by (intro conjI exI [of _ "?sw \<circ> f"]) (simp_all add: o_def split: if_splits)
  qed
qed


section \<open>The code\<close>

text \<open>The points of the Vandermonde matrix are 0 and the powers of the generator.\<close>

definition point :: "nat \<Rightarrow> gf" where
  "point r = (case r of 0 \<Rightarrow> 0 | Suc i \<Rightarrow> Gf (alpha i))"

lemma Gf_alpha_power: "Gf (alpha i) ^ j = Gf (alpha (i * j))"
  by (induction j) (simp_all add: one_gf_def times_gf_def gf_mul_alpha)

lemma vdm_matrix_point: "vdm_matrix r j = point r ^ j"
proof (cases r)
  case (Suc i)
  have "gf_exp ! modnn (i * j) = alpha (i * j)"
    by (simp add: modnn_mod gf_exp_nth alpha_mod)
  then show ?thesis using Suc by (simp add: vdm_matrix_def point_def Gf_alpha_power)
qed (simp add: vdm_matrix_def point_def power_0_left)

lemma point_inj: "inj_on point {..<256}"
proof (rule inj_onI)
  fix r s assume "r \<in> {..<256}" "s \<in> {..<256}" "point r = point s"
  then show "r = s"
    using alpha_nonzero alpha_inj
    by (cases r; cases s) (auto simp: point_def zero_gf_def dest!: sym [of 0])
qed

lemma enc_matrix_eq:
  assumes "fec_new k n = Some code" "1 \<le> k"
  shows "\<exists>W. (\<forall>r j. j < k \<longrightarrow> enc_matrix code r j = (\<Sum>l<k. point r ^ l * W l j))
    \<and> (\<forall>i<k. \<forall>j<k. (\<Sum>l<k. point i ^ l * W l j) = (if i = j then 1 else 0))"
    "code_k code = k" "code_n code = n" "k \<le> n" "n \<le> 256"
proof -
  show "code_k code = k" "code_n code = n" "k \<le> n" "n \<le> 256"
    using assms(1) by (auto simp: fec_new_def Let_def GF_SIZE_def split: if_splits)
  let ?W = "invert_vdm vdm_matrix k"
  have k: "k \<le> 256" using \<open>k \<le> n\<close> \<open>n \<le> 256\<close> by simp
  have inv: "(\<Sum>l<k. point i ^ l * ?W l j) = (if i = j then 1 else 0)" if "i < k" "j < k" for i j
  proof -
    have "inj_on point {..<k}" using k by (intro inj_on_subset [OF point_inj]) auto
    from invert_vdm_inverse [where src = vdm_matrix, OF assms(2) this _ _ that] show ?thesis
      by (simp add: vdm_matrix_point point_def)
  qed
  have low: "?W (k + r) l = point (k + r) ^ l" for r l
    by (simp add: invert_vdm_def Let_def vdm_matrix_point)
  have e: "enc_matrix code r j = (if r < k then (if j = r then 1 else 0) else matmul (\<lambda>row. ?W (k + row)) ?W k (r - k) j)" for r j
    using assms(1) by (auto simp: fec_new_def Let_def split: if_splits)
  have "enc_matrix code r j = (\<Sum>l<k. point r ^ l * ?W l j)" if "j < k" for r j
    using inv [of r j] that low [of "r - k"] unfolding e by (auto simp: matmul_sum)
  then show "\<exists>W. (\<forall>r j. j < k \<longrightarrow> enc_matrix code r j = (\<Sum>l<k. point r ^ l * W l j))
    \<and> (\<forall>i<k. \<forall>j<k. (\<Sum>l<k. point i ^ l * W l j) = (if i = j then 1 else 0))"
    using inv by (intro exI [of _ ?W]) blast
qed

text \<open>Any \<open>k\<close> different rows of the encoding matrix determine the data.\<close>

lemma rows_regular:
  assumes "fec_new k n = Some code" "1 \<le> k" "inj_on index {..<k}" "\<forall>i<k. index i < n"
  shows "\<not> singular k (\<lambda>i. enc_matrix code (index i))"
proof
  assume "singular k (\<lambda>i. enc_matrix code (index i))"
  then obtain x j where x: "j < k" "x j \<noteq> 0" "\<And>i. i < k \<Longrightarrow> (\<Sum>c<k. enc_matrix code (index i) c * x c) = 0"
    by (auto simp: singular_def lin_def)
  obtain W where W: "\<And>r j. j < k \<Longrightarrow> enc_matrix code r j = (\<Sum>l<k. point r ^ l * W l j)"
    and inv: "\<And>i j. i < k \<Longrightarrow> j < k \<Longrightarrow> (\<Sum>l<k. point i ^ l * W l j) = (if i = j then 1 else 0)"
    using enc_matrix_eq(1) [OF assms(1,2)] by blast
  define y where "y l = (\<Sum>c<k. W l c * x c)" for l
  have poly: "(\<Sum>c<k. (\<Sum>l<k. point r ^ l * W l c) * x c) = poly_at k y (point r)" for r
  proof -
    have "(\<Sum>c<k. (\<Sum>l<k. point r ^ l * W l c) * x c) = (\<Sum>c<k. \<Sum>l<k. point r ^ l * (W l c * x c))"
      by (simp add: sum_distrib_right mult.assoc)
    also have "\<dots> = (\<Sum>l<k. \<Sum>c<k. point r ^ l * (W l c * x c))" by (rule sum.swap)
    finally show ?thesis by (simp add: poly_at_def y_def sum_distrib_left mult.commute)
  qed
  have root: "poly_at k y p = 0" if p: "p \<in> point ` index ` {..<k}" for p
  proof -
    obtain i where i: "i < k" "p = point (index i)" using p by auto
    have "(\<Sum>c<k. enc_matrix code (index i) c * x c) = poly_at k y p"
      unfolding i(2) poly [symmetric] by (rule sum.cong [OF refl]) (simp only: lessThan_iff W)
    then show ?thesis using x(3) [OF i(1)] by simp
  qed
  have "index ` {..<k} \<subseteq> {..<256}" using assms(4) enc_matrix_eq(5) [OF assms(1,2)] by auto
  then have "inj_on (point \<circ> index) {..<k}" by (intro comp_inj_on assms(3) inj_on_subset [OF point_inj])
  then have "k \<le> card (point ` index ` {..<k})" using card_image [of "point \<circ> index"] by (simp add: image_comp)
  then have y: "y l = 0" if "l < k" for l
    using roots_zero [where X = "point ` index ` {..<k}" and k = k and f = y and i = l] root that by blast
  have "(\<Sum>c<k. (\<Sum>l<k. point j ^ l * W l c) * x c) = (\<Sum>c<k. (if j = c then 1 else 0) * x c)"
    by (rule sum.cong [OF refl]) (simp only: lessThan_iff inv x(1))
  also have "\<dots> = x j" using x(1) by (simp add: if_distrib [of "\<lambda>a. a * _"] sum.delta cong: if_cong)
  finally have "x j = poly_at k y (point j)" by (simp only: poly)
  then show False using x(2) y by (simp add: poly_at_def)
qed



section \<open>Recovery\<close>

lemma fold_addmul:
  "fold (\<lambda>i f. addmul f (s i) (c i) sz) [0 ..< k] f x = (if x < sz then f x + (\<Sum>i<k. c i * s i x) else f x)"
  by (induction k) (simp_all add: addmul_nth add.assoc)

lemma enc_matrix_top:
  assumes "fec_new k n = Some code" "i < k" shows "enc_matrix code i j = (if j = i then 1 else 0)"
  using assms by (auto simp: fec_new_def Let_def split: if_splits)

lemma fec_encode_sum:
  assumes "fec_new k n = Some code" "1 \<le> k" "index < n" "x < sz"
  shows "fec_encode code src fec index sz x = lin k (enc_matrix code) (\<lambda>j. src j x) index"
proof (cases "index < k")
  case True
  then have "lin k (enc_matrix code) (\<lambda>j. src j x) index = (\<Sum>j<k. if j = index then src j x else 0)"
    unfolding lin_def by (intro sum.cong) (simp_all add: enc_matrix_top [OF assms(1)])
  then show ?thesis using True assms(4) enc_matrix_eq(2) [OF assms(1,2)] by (simp add: fec_encode_def bcopy_def)
next
  case False
  then show ?thesis
    using assms enc_matrix_eq(2,3) [OF assms(1,2)] by (simp add: fec_encode_def fold_addmul bcopy_def lin_def)
qed

text \<open>The matrix to invert is made of the rows of the packets that came.\<close>

lemma lin_cong: "(\<And>j. j < k \<Longrightarrow> M i j = M' i j) \<Longrightarrow> (\<And>j. j < k \<Longrightarrow> x j = x' j) \<Longrightarrow> lin k M x i = lin k M' x' i"
  unfolding lin_def by (intro sum.cong) simp_all

lemma build_decode_matrix_spec:
  assumes "fec_new k n = Some code" "1 \<le> k" "\<forall>j<k. k \<le> index j \<or> index j = j"
  shows "case build_decode_matrix code index of
      Some A \<Rightarrow> (\<forall>i<k. index i < n) \<and> inverts k A (\<lambda>i. enc_matrix code (index i))
    | None \<Rightarrow> \<not> (\<forall>i<k. index i < n) \<or> singular k (\<lambda>i. enc_matrix code (index i))"
proof -
  note code = enc_matrix_eq(2-4) [OF assms(1,2)]
  let ?M = "\<lambda>i. if index i < k then (\<lambda>j. if j = i then 1 else 0) else enc_matrix code (index i)"
  let ?E = "\<lambda>i. enc_matrix code (index i)"
  have rows: "lin k ?M x i = lin k ?E x i" if "i < k" for x i
    using that assms(3) enc_matrix_top [OF assms(1)] by (intro lin_cong) auto
  have "singular k ?M \<longleftrightarrow> singular k ?E" by (simp add: singular_def rows cong: conj_cong)
  moreover have "inverts k A ?M \<longleftrightarrow> inverts k A ?E" for A
  proof -
    have "lin k A (lin k ?M x) i = lin k A (lin k ?E x) i" for x i by (intro lin_cong rows) simp
    then show ?thesis by (simp add: inverts_def)
  qed
  moreover have "list_all (\<lambda>i. index i < k \<or> index i < n) [0 ..< k] \<longleftrightarrow> (\<forall>i<k. index i < n)"
  proof -
    have "index i < k \<or> index i < n \<longleftrightarrow> index i < n" for i using code(3) by linarith
    then show ?thesis by (auto simp: list_all_iff)
  qed
  moreover have "build_decode_matrix code index = (if list_all (\<lambda>i. index i < k \<or> index i < n) [0 ..< k] then invert_mat ?M k else None)"
    by (simp add: build_decode_matrix_def code)
  ultimately show ?thesis using invert_mat_spec [where M = ?M and k = k] by (cases "invert_mat ?M k") simp_all
qed

text \<open>
  C5: Any \<open>k\<close> of the \<open>n\<close> packets restore the data. The packets are the results of \<open>fec_encode\<close> for different
  indices, in any order, source packets and redundant ones mixed; \<open>fec_decode\<close> returns 0 and leaves the data
  packets in their order.
\<close>

theorem fec_recover:
  assumes "fec_new k n = Some code" "1 \<le> k" "inj_on index {..<k}" "\<forall>i<k. index i < n"
    and pkt: "\<forall>i<k. \<forall>x < sz. pkt i x = fec_encode code src (buf i) (index i) sz x"
  shows "case fec_decode code pkt index sz of (res, pkt', index') \<Rightarrow>
    res = 0 \<and> (\<forall>r<k. \<forall>x < sz. pkt' r x = src r x)"
proof -
  note k = enc_matrix_eq(2) [OF assms(1,2)]
  obtain err p ix where sh: "shuffle 0 k pkt index = (err, p, ix)" by (cases "shuffle 0 k pkt index")
  then obtain f where f: "bij_betw f {..<k} {..<k}" and pf: "\<forall>j<k. ix j = index (f j) \<and> p j = pkt (f j)"
    and placed: "if err then \<not> inj_on index {..<k} else \<forall>j<k. k \<le> ix j \<or> ix j = j"
    using shuffle_spec [OF sh] by auto
  have fk: "f j < k" if "j < k" for j using that bij_betwE [OF f] by auto
  have place: "\<forall>j<k. k \<le> ix j \<or> ix j = j" and ok: "\<not> err"
    using placed assms(3) by (simp_all split: if_splits)
  let ?D = "\<lambda>i. enc_matrix code (ix i)"
  have "inj_on (index \<circ> f) {..<k}" using f assms(3) by (intro comp_inj_on) (auto simp: bij_betw_def)
  then have "inj_on ix {..<k}" using pf by (simp add: inj_on_def)
  moreover have lt: "\<forall>i<k. ix i < n" using pf fk assms(4) by simp
  ultimately have "\<not> singular k ?D" by (rule rows_regular [OF assms(1,2)])
  then obtain A where A: "build_decode_matrix code ix = Some A" "inverts k A ?D"
    using build_decode_matrix_spec [OF assms(1,2) place] lt by (cases "build_decode_matrix code ix") auto
  have p: "p j x = lin k ?D (\<lambda>j. src j x) j" if "j < k" "x < sz" for j x
  proof -
    have "p j x = fec_encode code src (buf (f j)) (ix j) sz x" using pf pkt fk that by simp
    then show ?thesis using fec_encode_sum [OF assms(1,2)] lt that by (simp add: lin_def)
  qed
  have solved: "(\<Sum>c<k. A r c * p c x) = src r x" if "r < k" "x < sz" for r x
  proof -
    have "(\<Sum>c<k. A r c * p c x) = lin k A (lin k ?D (\<lambda>j. src j x)) r"
      unfolding lin_def [of k A] using that(2) by (intro sum.cong) (simp_all add: p)
    then show ?thesis using A(2) that(1) by (simp add: inverts_def)
  qed
  have direct: "p r x = src r x" if "r < k" "x < sz" "ix r = r" for r x
    using p [OF that(1,2)] that fec_encode_sum [OF assms(1,2), of r x sz src "\<lambda>_. 0"] lt k
    by (auto simp: fec_encode_def bcopy_def lin_def)
  have "fec_decode code pkt index sz = (0, (\<lambda>row. if row < k \<and> k \<le> ix row
      then bcopy (fold (\<lambda>col new. addmul new (p col) (A row col) sz) [0 ..< k] (\<lambda>_. 0)) (p row) sz else p row), ix)"
    by (simp add: fec_decode_def k sh ok A(1) Let_def)
  moreover have "(\<not> k \<le> ix r \<longrightarrow> p r x = src r x) \<and> (\<Sum>c<k. A r c * p c x) = src r x" if "r < k" "x < sz" for r x
    using solved [OF that] direct [OF that] place that(1) by auto
  ultimately show ?thesis by (simp add: bcopy_def fold_addmul)
qed

text \<open>With two source packets and two redundant ones, the last two are enough.\<close>

theorem fec_recover_witness:
  "\<exists>code. fec_new 2 4 = Some code
   \<and> (case fec_decode code (\<lambda>i. fec_encode code (\<lambda>j x. Gf (of_nat (7 * j + x))) (\<lambda>_. 0) (3 - i) 5) (\<lambda>i. 3 - i) 5 of
        (res, pkt', index') \<Rightarrow> res = 0 \<and> pkt' 0 4 = Gf 4 \<and> pkt' 1 4 = Gf 11)"
proof -
  obtain code where code: "fec_new 2 4 = Some code" by (simp add: fec_new_def GF_SIZE_def Let_def)
  have "inj_on (\<lambda>i. 3 - i :: nat) {..<2}" "\<forall>i<2. 3 - i < (4 :: nat)" by (auto simp: inj_on_def)
  from fec_recover [OF code _ this, of 5 _ "\<lambda>j x. Gf (of_nat (7 * j + x))" "\<lambda>_ _. 0"] show ?thesis
    by (intro exI [of _ code] conjI code) (fastforce split: prod.splits)
qed


text \<open>A left inverse is a right inverse: an injective map of the finite set of vectors is onto.\<close>

lemma finite_gf: "finite (UNIV :: gf set)"
proof -
  have "UNIV = Gf ` UNIV" by (metis gf.exhaust surj_def)
  then show ?thesis by (metis finite_code finite_imageI)
qed

lemma inverts_right:
  assumes "inverts k A M" "i < k" shows "lin k M (lin k A y) i = y i"
proof -
  let ?V = "{..<k} \<rightarrow>\<^sub>E (UNIV :: gf set)"
  define T where "T x = restrict (lin k M x) {..<k}" for x
  have A: "lin k A (T x) j = x j" if "j < k" for x j
  proof -
    have "lin k A (T x) j = lin k A (lin k M x) j" by (intro lin_cong) (simp_all add: T_def)
    then show ?thesis using assms(1) that by (simp add: inverts_def)
  qed
  have "inj_on T ?V"
  proof (rule inj_onI)
    fix x x' assume x: "x \<in> ?V" "x' \<in> ?V" "T x = T x'"
    show "x = x'" by (rule PiE_ext [OF x(1,2)]) (use A [of _ x] A [of _ x'] x(3) in simp)
  qed
  moreover have "finite ?V" using finite_gf by (intro finite_PiE) simp_all
  moreover have "T ` ?V \<subseteq> ?V" by (intro image_subsetI) (simp only: T_def restrict_PiE_iff UNIV_I, simp)
  ultimately have "T ` ?V = ?V" by (rule endo_inj_surj [rotated 2])
  moreover have "restrict y {..<k} \<in> ?V" by simp
  ultimately obtain x where x: "T x = restrict y {..<k}" by (metis image_iff)
  have "lin k A y j = x j" if "j < k" for j
  proof -
    have "lin k A y j = lin k A (T x) j" by (intro lin_cong) (simp_all add: x)
    then show ?thesis by (simp add: A that)
  qed
  then have "lin k M (lin k A y) i = lin k M x i" by (intro lin_cong) simp_all
  also have "\<dots> = T x i" using assms(2) by (simp add: T_def)
  finally show ?thesis using assms(2) by (simp add: x)
qed

text \<open>
  C26: Decoding accepts exactly the sets of packets that determine the data: it returns 0 if and only if the
  \<open>k\<close> indices are different and below \<open>n\<close>. Two packets with the index of one source packet are found by the
  shuffle, two copies of a redundant packet by the inversion.
\<close>

theorem fec_decode_accepts:
  assumes "fec_new k n = Some code" "1 \<le> k"
  shows "fst (fec_decode code pkt index sz) = 0 \<longleftrightarrow> inj_on index {..<k} \<and> (\<forall>i<k. index i < n)"
proof -
  note k = enc_matrix_eq(2) [OF assms]
  obtain err p ix where sh: "shuffle 0 k pkt index = (err, p, ix)" by (cases "shuffle 0 k pkt index")
  then obtain f where f: "bij_betw f {..<k} {..<k}" and pf: "\<forall>j<k. ix j = index (f j)"
    and placed: "if err then \<not> inj_on index {..<k} else \<forall>j<k. k \<le> ix j \<or> ix j = j"
    using shuffle_spec [OF sh] by auto
  let ?D = "\<lambda>i. enc_matrix code (ix i)"
  have img: "f ` {..<k} = {..<k}" "inj_on f {..<k}" using f by (simp_all add: bij_betw_def)
  have "inj_on ix {..<k} \<longleftrightarrow> inj_on (index \<circ> f) {..<k}" by (rule inj_on_cong) (simp add: pf)
  then have inj: "inj_on ix {..<k} \<longleftrightarrow> inj_on index {..<k}"
    using inj_on_imageI [of index f "{..<k}"] comp_inj_on [OF img(2), of index] img(1) by auto
  have "(\<forall>i \<in> f ` {..<k}. index i < n) \<longleftrightarrow> (\<forall>i<k. ix i < n)" using pf by auto
  then have lt: "(\<forall>i<k. ix i < n) \<longleftrightarrow> (\<forall>i<k. index i < n)" by (simp only: img(1) Ball_def lessThan_iff)
  have res: "fst (fec_decode code pkt index sz) = 0 \<longleftrightarrow> \<not> err \<and> build_decode_matrix code ix \<noteq> None"
    by (simp add: fec_decode_def k sh Let_def split: option.split)
  show ?thesis
  proof (cases err)
    case True
    then show ?thesis using placed res by simp
  next
    case False
    then have spec: "case build_decode_matrix code ix of Some A \<Rightarrow> (\<forall>i<k. ix i < n) \<and> inverts k A ?D
        | None \<Rightarrow> \<not> (\<forall>i<k. ix i < n) \<or> singular k ?D"
      using placed by (intro build_decode_matrix_spec [OF assms]) simp
    show ?thesis
    proof (cases "build_decode_matrix code ix")
      case None
      then have "\<not> ((\<forall>i<k. ix i < n) \<and> inj_on ix {..<k})"
        using spec rows_regular [OF assms, of ix] by auto
      then show ?thesis unfolding res inj lt using None by blast
    next
      case (Some A)
      then have A: "\<forall>i<k. ix i < n" "inverts k A ?D" using spec by simp_all
      have "inj_on ix {..<k}"
      proof (rule inj_onI)
        fix i j assume ij: "i \<in> {..<k}" "j \<in> {..<k}" "ix i = ix j"
        define y where "y = lin k A (unit i)"
        have "lin k ?D y i = lin k ?D y j" unfolding lin_def using ij(3) by simp
        then have "unit i i = unit i j" using inverts_right [OF A(2)] ij by (simp add: y_def)
        then show "i = j" by (simp add: unit_def split: if_splits)
      qed
      then show ?thesis using Some res False A(1) inj lt by simp
    qed
  qed
qed

text \<open>Two copies of a redundant packet.\<close>

theorem fec_decode_accepts_witness:
  "\<exists>code. fec_new 2 4 = Some code \<and> fst (fec_decode code (\<lambda>_ _. 0) (\<lambda>_. 3) 5) \<noteq> 0
    \<and> fst (fec_decode code (\<lambda>_ _. 0) (\<lambda>i. 2 * i + 1) 5) = 0"
proof -
  obtain code where code: "fec_new 2 4 = Some code" by (simp add: fec_new_def GF_SIZE_def Let_def)
  have "\<not> inj_on (\<lambda>_. 3 :: nat) {..<(2 :: nat)}"
    using inj_onD [of "\<lambda>_. 3 :: nat" "{..<2 :: nat}" 0 1] by auto
  moreover have "inj_on (\<lambda>i. 2 * i + 1 :: nat) {..<2}" by (simp add: inj_on_def)
  ultimately show ?thesis
    using fec_decode_accepts [OF code, of "\<lambda>_ _. 0" "\<lambda>_. 3" 5] fec_decode_accepts [OF code, of "\<lambda>_ _. 0" "\<lambda>i. 2 * i + 1" 5]
    by (intro exI [of _ code] conjI code) auto
qed

end
