(* ===== verification/Fec_Message.thy ===== *)
theory Fec_Message
  imports Recv_Pkg Fec
begin

text \<open>
  The messaging layer built with \<open>FEC\<close> (the code of \<open>ml/ml.c\<close> under \<open>#ifdef FEC\<close>): \<open>send_msg\<close> encodes the
  messages of type 17 that exceed the path MTU into twice as many packets as the message has, and
  \<open>recv_data_msg\<close> stores the packets of such a message in the order of their arrival and decodes them when
  enough bytes have come; \<open>recv_pkg\<close> of this build lets the larger offsets of the encoded packets pass. The fields \<open>pix\<close>, \<open>pix_chk\<close>, \<open>nix\<close> that this build adds to \<open>recvdata\<close> are kept
  beside the slot; what \<open>malloc\<close> leaves in a fresh array is a field of the environment.
\<close>

record fec_slot =
  pix :: "nat \<Rightarrow> nat"
  pix_chk :: "nat list"
  nix :: nat

record fec_ml = ml +
  fec_slots :: "int \<Rightarrow> fec_slot option"

record fec_env = ml_env +
  junk_ix :: "nat \<Rightarrow> nat"
  junk_buf :: "nat \<Rightarrow> buffer"

section \<open>Receiving\<close>

definition fec_applies :: "int \<Rightarrow> recvdata \<Rightarrow> bool" where
  "fec_applies p r \<longleftrightarrow> rd_msgtype r = 17 \<and> p < bufsize r"

definition fec_new_slot :: "'e fec_env_scheme \<Rightarrow> int \<Rightarrow> int \<Rightarrow> recvdata \<Rightarrow> 'a fec_ml_scheme \<Rightarrow> 'a fec_ml_scheme" where
  "fec_new_slot env p i r s =
     s\<lparr> fec_slots := (fec_slots s)(i :=
          (if fec_applies p r
           then Some \<lparr> pix = junk_ix env, pix_chk = replicate (nat (bufsize r div p)) 0, nix = 0 \<rparr> else None)) \<rparr>"

definition fec_get_rd :: "'e fec_env_scheme \<Rightarrow> msg_header \<Rightarrow> int \<Rightarrow> 'a fec_ml_scheme
    \<Rightarrow> (int \<times> recvdata \<times> 'a fec_ml_scheme) res" where
  "fec_get_rd env h p s =
     res_bind (get_rd env h s) (\<lambda>(i, r).
       if find_rd h s \<noteq> None then Inr (i, r, s)
       else if fec_applies p r \<and> p = 0 then Inl DivByZero
       else Inr (i, r, fec_new_slot env p i r s))"

definition store_at :: "msg_header \<Rightarrow> byte list \<Rightarrow> int \<Rightarrow> int \<Rightarrow> int \<Rightarrow> recvdata \<Rightarrow> recvdata res" where
  "store_at h buf pos n off r =
     res_bind (mem_read buf pos n) (\<lambda>bs.
       res_map (\<lambda>rb. r\<lparr> recvFragments := recvFragments r + 1, arrivedBytes := arrivedBytes r + n, recvbuf := rb \<rparr>)
         (mem_write (recvbuf r) (hdr_mon h + off) bs))"

definition fec_store :: "msg_header \<Rightarrow> byte list \<Rightarrow> int \<Rightarrow> int \<Rightarrow> int \<Rightarrow> fec_slot option \<Rightarrow> recvdata \<Rightarrow> recvdata res" where
  "fec_store h buf pos n p x r =
     (if fec_applies p r then
        (case x of None \<Rightarrow> Inl NullDeref
         | Some y \<Rightarrow>
             if length (pix_chk y) \<le> nix y then Inl OutOfBounds
             else store_at h buf pos n (if pix_chk y ! nix y = 0 then int (nix y) * p else hdr_off h) r)
      else store_data h buf pos n r)"

text \<open>
  Decoding: the pieces of the buffer from byte 20 on are the packets, \<open>pix\<close> has their indices. The result
  of \<open>fec_decode\<close> is ignored; without a code, for more than 256 packets, it dereferences \<open>NULL\<close>.
\<close>

definition fec_packets :: "int \<Rightarrow> recvdata \<Rightarrow> nat \<Rightarrow> buffer" where
  "fec_packets p r i j =
     (let t = 20 + i * nat p + j in if int t < bufsize r then Gf (recvbuf r ! t) else 0)"

definition fec_copy_back :: "nat \<Rightarrow> nat \<Rightarrow> (nat \<Rightarrow> buffer) \<Rightarrow> byte list \<Rightarrow> byte list" where
  "fec_copy_back npaks p src rb =
     map (\<lambda>t. if 20 \<le> t \<and> t < 20 + npaks * p then byte_of (src ((t - 20) div p) ((t - 20) mod p)) else rb ! t)
       [0 ..< length rb]"

definition fec_decode_rd :: "int \<Rightarrow> msg_header \<Rightarrow> fec_slot \<Rightarrow> recvdata \<Rightarrow> (recvdata \<times> fec_slot) res" where
  "fec_decode_rd p h y r =
     (let npaks = nat (bufsize r div p) in
      case fec_new npaks 256 of None \<Rightarrow> Inl NullDeref
      | Some code \<Rightarrow>
          if length (pix_chk y) \<le> nix y \<or> length (pix_chk y) < npaks then Inl OutOfBounds
          else (case fec_decode code (fec_packets p r) ((pix y)(nix y := nat (hdr_off h div p))) (nat p) of
                  (_, src, ix) \<Rightarrow>
                    Inr (r\<lparr> recvbuf := fec_copy_back npaks (nat p) src (recvbuf r), firstPacketArrived := True \<rparr>,
                         y\<lparr> pix := ix, nix := 0 \<rparr>)))"

definition fec_finish :: "int \<Rightarrow> msg_header \<Rightarrow> fec_slot option \<Rightarrow> recvdata \<Rightarrow> (recvdata \<times> fec_slot option) res" where
  "fec_finish p h x r =
     (if \<not> fec_applies p r then Inr (r, x)
      else case x of None \<Rightarrow> Inl NullDeref
      | Some y \<Rightarrow>
          if rd_status r = COMPLETE then res_map (\<lambda>(r1, y1). (r1, Some y1)) (fec_decode_rd p h y r)
          else if length (pix_chk y) \<le> nix y then Inl OutOfBounds
          else if pix_chk y ! nix y = 0
          then Inr (r, Some (y\<lparr> pix := (pix y)(nix y := nat (hdr_off h div p)),
                                pix_chk := (pix_chk y)[nix y := 1], nix := nix y + 1 \<rparr>))
          else Inr (r, x))"

definition fec_recv_data_msg :: "'e fec_env_scheme \<Rightarrow> msg_header \<Rightarrow> byte list \<Rightarrow> int \<Rightarrow> int \<Rightarrow> 'a fec_ml_scheme
    \<Rightarrow> 'a fec_ml_scheme res" where
  "fec_recv_data_msg env h buf pos n s0 =
     res_bind (slot CONNECTBUFSIZE (connectbuf s0) (hdr_con h)) (\<lambda>c.
       case c of None \<Rightarrow> Inr s0
       | Some cd \<Rightarrow>
         (let p = pmtusize cd; s = s0\<lparr> receivedDataPktCounter := receivedDataPktCounter s0 + 1 \<rparr> in
          res_bind (fec_get_rd env h p s) (\<lambda>(i, r, s1).
            if rd_status r = COMPLETE then Inr s1
            else
              res_bind (store_first h buf pos n r) (\<lambda>(pos1, n1, r1).
              res_bind (fec_store h buf pos1 n1 p (fec_slots s1 i) r1) (\<lambda>r2.
                (let (r3, ev) = open_gap i h r2;
                     r4 = fill_gap h n1 r3;
                     r5 = update_status (update_expected h n1 r4)
                 in res_bind (fec_finish p h (fec_slots s1 i) r5) (\<lambda>(r6, x).
                   finish_recv env h i r6
                     (s1\<lparr> once := once s1 @ ev,
                          receivedRTXDataPktCounter := receivedRTXDataPktCounter s1
                            + (if hdr_off h < expectedOffset r3 then 1 else 0),
                          fec_slots := (fec_slots s1)(i := x) \<rparr>)))))))) "

section \<open>Recovery of a message\<close>

text \<open>The packet with the index \<open>i\<close>, and what a slot holds after the packets \<open>is\<close>, in this order.\<close>

definition fec_carries :: "rx_msg \<Rightarrow> nat \<Rightarrow> (nat \<Rightarrow> byte list) \<Rightarrow> pkt \<Rightarrow> nat \<Rightarrow> bool" where
  "fec_carries m p pl pk i \<longleftrightarrow>
     (case pk of (h, buf, pos, n) \<Rightarrow>
        hdr_con h = rx_con m \<and> hdr_seq h = rx_seq m \<and> hdr_off h = int (i * p)
        \<and> uint (msg_length h) = int (length (rx_data m)) \<and> hdr_mon h = int (length (rx_mon m)) \<and> msg_type h = rx_type m
        \<and> mem_read buf pos n = Inr ((if i = 0 then rx_mon m else []) @ pl i))"

definition fec_bytes :: "rx_msg \<Rightarrow> nat \<Rightarrow> nat \<Rightarrow> (nat \<Rightarrow> byte list) \<Rightarrow> nat list \<Rightarrow> recvdata \<Rightarrow> bool" where
  "fec_bytes m p N pl is r \<longleftrightarrow>
     rd_connectionID r = rx_con m \<and> rd_seqnr r = rx_seq m \<and> rd_msgtype r = rx_type m
     \<and> length (recvbuf r) = 20 + N * p \<and> bufsize r = int (20 + N * p) \<and> monitoringDataHeaderLen r = 20
     \<and> arrivedBytes r = int (length is * p) \<and> recvFragments r = int (length is)
     \<and> (\<forall>t<length is. \<forall>j<p. recvbuf r ! (20 + t * p + j) = pl (is ! t) ! j)"

definition fec_index :: "nat \<Rightarrow> nat list \<Rightarrow> fec_slot \<Rightarrow> bool" where
  "fec_index N is y \<longleftrightarrow>
     nix y = length is \<and> length (pix_chk y) = N \<and> (\<forall>t<N. length is \<le> t \<longrightarrow> pix_chk y ! t = 0)
     \<and> (\<forall>t<length is. pix y t = is ! t)"

lemma fec_bytes_bookkeeping [simp]:
  "fec_bytes m p N pl is (fst (open_gap i h r)) = fec_bytes m p N pl is r"
  "fec_bytes m p N pl is (fill_gap h n r) = fec_bytes m p N pl is r"
  "fec_bytes m p N pl is (update_expected h n r) = fec_bytes m p N pl is r"
  "fec_bytes m p N pl is (update_status r) = fec_bytes m p N pl is r"
  "fec_bytes m p N pl is (start_timers r s) = fec_bytes m p N pl is r"
  by (simp_all add: open_gap_def fill_gap_def update_expected_def update_status_def start_timers_def fec_bytes_def)

text \<open>A message of \<open>N\<close> whole packets, with the 20 bytes of monitoring header the code counts on.\<close>

definition fec_msg :: "rx_msg \<Rightarrow> nat \<Rightarrow> nat \<Rightarrow> bool" where
  "fec_msg m p N \<longleftrightarrow> rx_type m = 17 \<and> length (rx_mon m) = 20 \<and> 20 < p \<and> 0 < N \<and> N \<le> 256 \<and> length (rx_data m) = N * p"

lemma fec_msg_applies: "fec_msg m p N \<Longrightarrow> fec_bytes m p N pl is r \<Longrightarrow> fec_applies (int p) r"
proof -
  assume m: "fec_msg m p N" "fec_bytes m p N pl is r"
  then have "p < 20 + N * p" by (cases N) (simp_all add: fec_msg_def)
  then have "int p < int (20 + N * p)" by (simp only: of_nat_less_iff)
  then show ?thesis using m by (simp add: fec_msg_def fec_bytes_def fec_applies_def)
qed

lemma piece_in: "t < n \<Longrightarrow> j < p \<Longrightarrow> t * p + j < n * (p :: nat)"
proof -
  assume "t < n" "j < p"
  then have "t * p + j < Suc t * p" "Suc t * p \<le> n * p" by (simp_all del: mult_Suc, simp)
  then show ?thesis by linarith
qed

lemma fec_store_ok:
  assumes "fec_msg m p N" "fec_bytes m p N pl is r" "fec_index N is y" "length is < N"
    and "fec_carries m p pl (h, buf, pos, n) i" "length (pl i) = p"
  obtains pos1 r1 r2 where "store_first h buf pos n r = Inr (pos1, int p, r1)"
    "fec_store h buf pos1 (int p) (int p) (Some y) r1 = Inr r2" "fec_bytes m p N pl (is @ [i]) r2"
proof -
  have c: "hdr_off h = int (i * p)" "hdr_mon h = 20" "mem_read buf pos n = Inr ((if i = 0 then rx_mon m else []) @ pl i)"
    and l: "length (rx_mon m) = 20" "0 < p"
    using assms(1,5) by (auto simp: fec_carries_def fec_msg_def)
  have o: "offset h = 0 \<longleftrightarrow> i = 0"
    using c(1) l(2) unfolding hdr_off_def by (metis mult_eq_0_iff not_gr0 of_nat_0_eq_iff uint_0_iff)
  obtain pos1 r1 where f: "store_first h buf pos n r = Inr (pos1, int (length (pl i)), r1)"
    and rd: "mem_read buf pos1 (int (length (pl i))) = Inr (pl i)"
    and r1: "r1 = r\<lparr> recvbuf := recvbuf r1, firstPacketArrived := firstPacketArrived r1 \<rparr>"
      "length (recvbuf r1) = length (recvbuf r)"
      "\<And>k. length (rx_mon m) \<le> k \<Longrightarrow> k < length (recvbuf r) \<Longrightarrow> recvbuf r1 ! k = recvbuf r ! k"
    by (rule store_first_ok [of buf pos n h "rx_mon m" "pl i" r])
      (use c l o assms(2) in \<open>simp_all add: fec_bytes_def\<close>)
  have "length is * p + p \<le> N * p" using assms(4) by (metis Suc_leI add.commute mult_Suc mult_le_mono1)
  then have room: "20 + length is * p + p \<le> length (recvbuf r1)" using r1(2) assms(2) by (simp add: fec_bytes_def)
  have at: "20 + int (length is) * int p = int (20 + length is * p)" by simp
  have "int (20 + length is * p) + int (length (pl i)) \<le> int (length (recvbuf r1))"
    using room assms(6) by (simp only: of_nat_add [symmetric] of_nat_le_iff)
  then obtain rb where w: "mem_write (recvbuf r1) (20 + int (length is) * int p) (pl i) = Inr rb"
    unfolding at by (simp only: mem_write_def) simp
  have b1: "fec_bytes m p N pl is r1"
  proof -
    have "recvbuf r1 ! (20 + t * p + j) = recvbuf r ! (20 + t * p + j)" if "t < length is" "j < p" for t j
      using piece_in [of t N j p] that assms(2,4) l(1) by (intro r1(3)) (simp_all add: fec_bytes_def)
    then have "fec_bytes m p N pl is (r\<lparr> recvbuf := recvbuf r1, firstPacketArrived := firstPacketArrived r1 \<rparr>)"
      using assms(2) r1(2) by (simp add: fec_bytes_def)
    then show ?thesis using r1(1) by simp
  qed
  let ?r2 = "r1\<lparr> recvFragments := recvFragments r1 + 1, arrivedBytes := arrivedBytes r1 + int p, recvbuf := rb \<rparr>"
  have "fec_store h buf pos1 (int p) (int p) (Some y) r1 = Inr ?r2"
    using fec_msg_applies [OF assms(1) b1] assms(3,4,6) rd w c(2)
    by (simp add: fec_store_def fec_index_def store_at_def)
  moreover have "fec_bytes m p N pl (is @ [i]) ?r2"
  proof -
    have "rb ! (20 + t * p + j) = pl ((is @ [i]) ! t) ! j" if t: "t < Suc (length is)" and j: "j < p" for t j
    proof -
      have le: "t * p \<le> length is * p" using t by simp
      then have lt: "20 + t * p + j < length (recvbuf r1)" using room j by linarith
      show ?thesis
      proof (cases "t = length is")
        case True
        then show ?thesis using mem_write_nth [OF w lt] j assms(6) by (simp add: nat_add_distrib nat_mult_distrib)
      next
        case False
        then have t': "t < length is" using t by simp
        then have "t * p + j < length is * p" using j by (rule piece_in)
        then have "\<not> 20 + int (length is) * int p \<le> int (20 + t * p + j)"
          by (simp add: of_nat_mult [symmetric] del: of_nat_mult)
        then have "rb ! (20 + t * p + j) = recvbuf r1 ! (20 + t * p + j)" using mem_write_nth [OF w lt] by simp
        then show ?thesis using b1 t' j by (simp add: fec_bytes_def nth_append)
      qed
    qed
    then show ?thesis
      using b1 mem_write_length [OF w] by (simp add: fec_bytes_def distrib_right)
  qed
  ultimately show ?thesis using f assms(6) that by simp
qed



text \<open>The packets are those \<open>fec_encode\<close> makes of the message; \<open>buf\<close> is what the fresh buffers hold.\<close>

definition data_packets :: "nat \<Rightarrow> byte list \<Rightarrow> nat \<Rightarrow> buffer" where
  "data_packets p ms i j = Gf (ms ! (i * p + j))"

definition encoded :: "fec_parms \<Rightarrow> (nat \<Rightarrow> buffer) \<Rightarrow> (nat \<Rightarrow> buffer) \<Rightarrow> nat \<Rightarrow> nat \<Rightarrow> byte list" where
  "encoded code src buf p i = map (\<lambda>j. byte_of (fec_encode code src (buf i) i p j)) [0 ..< p]"

lemma fec_decode_rd_ok:
  assumes "fec_msg m p N" "fec_bytes m p N pl (is @ [i]) r" "fec_index N is y" "length is + 1 = N"
    and "hdr_off h = int (i * p)" "distinct (is @ [i])" "\<forall>i \<in> set (is @ [i]). i < 256"
    and "fec_new N 256 = Some code" "pl = encoded code (data_packets p (rx_data m)) buf p"
  obtains rb y1 where "fec_decode_rd (int p) h y r = Inr (r\<lparr> recvbuf := rb, firstPacketArrived := True \<rparr>, y1)"
    "length rb = 20 + N * p" "drop 20 rb = rx_data m"
proof -
  let ?is = "is @ [i]" and ?src = "fec_packets (int p) r" and ?data = "data_packets p (rx_data m)"
  let ?ix = "(pix y)(nix y := nat (hdr_off h div int p))"
  have p: "20 < p" "length (rx_data m) = N * p" using assms(1) by (simp_all add: fec_msg_def)
  have len: "length ?is = N" "nix y = length is" "length (pix_chk y) = N" using assms(3,4) by (simp_all add: fec_index_def)
  have "nat (int (20 + N * p) div int p) = (20 + N * p) div p" by (simp only: zdiv_int [symmetric] nat_int)
  also have "\<dots> = N" using p(1) by simp
  finally have npaks: "nat (bufsize r div int p) = N" using assms(2) by (simp add: fec_bytes_def)
  have ix: "?ix t = ?is ! t" if "t < N" for t
  proof (cases "t = length is")
    case True
    have "nat (hdr_off h div int p) = i * p div p" unfolding assms(5) by (simp only: zdiv_int [symmetric] nat_int)
    then show ?thesis using True len(2) p(1) by simp
  next
    case False
    then have "t < length is" using that len(1) by simp
    then show ?thesis using assms(3) by (simp add: fec_index_def nth_append)
  qed
  have inj: "inj_on ?ix {..<N}"
  proof (rule inj_onI)
    fix t u assume "t \<in> {..<N}" "u \<in> {..<N}" "?ix t = ?ix u"
    then show "t = u" using ix assms(6) len(1) nth_eq_iff_index_eq [of ?is t u] by simp
  qed
  have lt: "\<forall>t<N. ?ix t < 256"
  proof (intro allI impI)
    fix t assume t: "t < N"
    then have "?is ! t \<in> set ?is" using len(1) by (intro nth_mem) simp
    then have "?is ! t < 256" using assms(7) by blast
    then show "?ix t < 256" by (simp only: ix [OF t])
  qed
  have pkt: "\<forall>t<N. \<forall>j < p. ?src t j = fec_encode code ?data (buf (?ix t)) (?ix t) p j"
  proof (intro allI impI)
    fix t j assume t: "t < N" "j < p"
    have "20 + t * p + j < 20 + N * p" using piece_in [OF t] by simp
    then have "int (20 + t * p + j) < bufsize r" using assms(2) by (simp only: fec_bytes_def of_nat_less_iff)
    then have "?src t j = Gf (recvbuf r ! (20 + t * p + j))" by (simp add: fec_packets_def Let_def)
    also have "recvbuf r ! (20 + t * p + j) = pl (?is ! t) ! j" using assms(2) t len(1) by (simp add: fec_bytes_def)
    also have "Gf \<dots> = fec_encode code ?data (buf (?ix t)) (?ix t) p j"
      using t(2) unfolding ix [OF t(1)] assms(9) encoded_def by simp
    finally show "?src t j = fec_encode code ?data (buf (?ix t)) (?ix t) p j" .
  qed
  obtain res src ix' where d: "fec_decode code ?src ?ix p = (res, src, ix')" by (cases "fec_decode code ?src ?ix p")
  have "1 \<le> N" using assms(4) by simp
  from fec_recover [OF assms(8) this inj lt pkt] have src: "src t j = ?data t j" if "t < N" "j < p" for t j
    unfolding d using that by simp
  let ?rb = "fec_copy_back N p src (recvbuf r)"
  have "fec_decode_rd (int p) h y r = Inr (r\<lparr> recvbuf := ?rb, firstPacketArrived := True \<rparr>, y\<lparr> pix := ix', nix := 0 \<rparr>)"
    using assms(4,8) npaks d len by (simp add: fec_decode_rd_def)
  moreover have "length ?rb = 20 + N * p" using assms(2) by (simp add: fec_copy_back_def fec_bytes_def)
  moreover from this have "drop 20 ?rb = rx_data m"
  proof (intro nth_equalityI)
    fix t assume "t < length (drop 20 ?rb)"
    then have t: "t < N * p" using \<open>length ?rb = 20 + N * p\<close> by simp
    then have "t div p < N" "t mod p < p" using p(1) by (simp_all add: less_mult_imp_div_less)
    then have "src (t div p) (t mod p) = Gf (rx_data m ! t)" using src by (simp add: data_packets_def)
    then show "drop 20 ?rb ! t = rx_data m ! t"
      using t assms(2) by (simp add: fec_copy_back_def fec_bytes_def)
  qed (use p(2) in simp)
  ultimately show ?thesis by (rule that)
qed


lemma deliver_decoded:
  assumes "rx_ready env m f s" "fec_bytes m p N pl is r0" "length is = N" "msg_type h = rx_type m"
    and "drop 20 rb = d" "length rb = 20 + N * p"
  defines "r \<equiv> r0\<lparr> recvbuf := rb, firstPacketArrived := True \<rparr>"
  obtains q s' where "deliver env h r s = Inr s'" "trace s' = trace s @ [Recv_data f d (rx_type m) q]"
    "rp_connectionID q = rx_con m" "nrMissingBytes q = 0" "rp_recvFragments q = int N"
proof -
  have rd: "mem_read (recvbuf r) (monitoringDataHeaderLen r) (bufsize r - monitoringDataHeaderLen r) = Inr d"
  proof -
    have "length d = N * p" using assms(5,6) by auto
    then show ?thesis using assms(2,5,6) by (simp add: r_def fec_bytes_def mem_read_def nat_mult_distrib)
  qed
  have cb: "slot MSGMULTIPLEXSIZE (recvcbbuf s) (uint (msg_type h)) = Inr (Some f)" "get_Recv_data_inf_cb env = False"
    using assms(1,4) by (simp_all add: rx_ready_def slot_def)
  define q where "q = \<lparr> rp_msgtype = rd_msgtype r, rp_connectionID = rd_connectionID r,
      nrMissingBytes = bufsize r - monitoringDataHeaderLen r - arrivedBytes r, rp_recvFragments = recvFragments r,
      rp_firstPacketArrived = firstPacketArrived r, rp_remote_socketID = conn_socketID (rd_connectionID r) s \<rparr>"
  have "deliver env h r s = Inr (s\<lparr> receivedCompleteMsgCounter := receivedCompleteMsgCounter s + 1,
      trace := trace s @ [Recv_data f d (rd_msgtype r) q] \<rparr>)"
    unfolding deliver_def by (simp add: cb rd q_def Let_def)
  moreover have "rd_msgtype r = rx_type m" "rp_connectionID q = rx_con m" "nrMissingBytes q = 0" "rp_recvFragments q = int N"
    using assms(2,3) by (simp_all add: q_def r_def fec_bytes_def)
  moreover have "trace (s\<lparr> receivedCompleteMsgCounter := receivedCompleteMsgCounter s + 1,
      trace := trace s @ [Recv_data f d (rd_msgtype r) q] \<rparr>) = trace s @ [Recv_data f d (rd_msgtype r) q]" by simp
  ultimately show ?thesis by (intro that [of _ q]) (simp_all only:)
qed

definition fec_rx_slot :: "rx_msg \<Rightarrow> nat \<Rightarrow> nat \<Rightarrow> (nat \<Rightarrow> byte list) \<Rightarrow> nat list \<Rightarrow> 'a fec_ml_scheme \<Rightarrow> bool" where
  "fec_rx_slot m p N pl is s \<longleftrightarrow>
     (if is = [] then first_match RECVDATABUFSIZE (recvdatabuf s) (rx_same m) = None
        \<and> in_table RECVDATABUFSIZE (first_free RECVDATABUFSIZE (recvdatabuf s))
      else (\<exists>i r y. in_table RECVDATABUFSIZE i \<and> recvdatabuf s i = Some r \<and> fec_slots s i = Some y
        \<and> fec_bytes m p N pl is r \<and> fec_index N is y \<and> rd_status r = ACTIVE
        \<and> (\<forall>j r'. in_table RECVDATABUFSIZE j \<longrightarrow> recvdatabuf s j = Some r' \<longrightarrow> rx_same m r' \<longrightarrow> j = i)))"

lemma fec_rx_slotI:
  assumes "in_table RECVDATABUFSIZE i" "recvdatabuf s i = Some r" "fec_slots s i = Some y"
    and "fec_bytes m p N pl is r" "fec_index N is y" "rd_status r = ACTIVE" "is \<noteq> []"
    and "\<forall>j r'. in_table RECVDATABUFSIZE j \<longrightarrow> recvdatabuf s j = Some r' \<longrightarrow> rx_same m r' \<longrightarrow> j = i"
  shows "fec_rx_slot m p N pl is s"
  using assms unfolding fec_rx_slot_def by (simp only: if_False) blast

lemma fec_get_rd_ok:
  assumes "fec_msg m p N" "fec_carries m p pl (h, buf, pos, n) k" "fec_rx_slot m p N pl is s"
  obtains i r y F where "fec_get_rd env h (int p) s = Inr (i, r, s\<lparr> fec_slots := F \<rparr>)" "F i = Some y"
    "in_table RECVDATABUFSIZE i" "fec_bytes m p N pl is r" "fec_index N is y" "rd_status r = ACTIVE"
    "\<forall>j r'. in_table RECVDATABUFSIZE j \<longrightarrow> j \<noteq> i \<longrightarrow> recvdatabuf s j = Some r' \<longrightarrow> \<not> rx_same m r'"
proof -
  have k: "hdr_con h = rx_con m" "hdr_seq h = rx_seq m" "uint (msg_length h) = int (N * p)" "hdr_mon h = 20" "msg_type h = rx_type m"
    using assms(1,2) by (simp_all add: fec_carries_def fec_msg_def)
  have fr: "find_rd h s = first_match RECVDATABUFSIZE (recvdatabuf s) (rx_same m)"
    using k(1,2) by (simp add: find_rd_def rx_same_def [abs_def])
  show ?thesis
  proof (cases "is = []")
    case True
    let ?i = "first_free RECVDATABUFSIZE (recvdatabuf s)" and ?r = "new_rd env h (first_free RECVDATABUFSIZE (recvdatabuf s)) s"
    have none: "first_match RECVDATABUFSIZE (recvdatabuf s) (rx_same m) = None" "in_table RECVDATABUFSIZE ?i"
      using assms(3) True by (simp_all add: fec_rx_slot_def)
    then have g: "get_rd env h s = Inr (?i, ?r)" by (simp add: get_rd_def fr Let_def)
    have "nat (int (N * p) + 20) = N * p + 20" by (simp only: nat_int_add)
    then have b: "fec_bytes m p N pl [] ?r"
      using k by (simp add: fec_bytes_def new_rd_def Let_def)
    have ap: "fec_applies (int p) ?r" by (rule fec_msg_applies [OF assms(1) b])
    let ?y = "\<lparr> pix = junk_ix env, pix_chk = replicate (nat (bufsize ?r div int p)) 0, nix = 0 \<rparr>"
    have "nat (int (20 + N * p) div int p) = (20 + N * p) div p" by (simp only: zdiv_int [symmetric] nat_int)
    also have "\<dots> = N" using assms(1) by (simp add: fec_msg_def)
    finally have y: "fec_index N [] ?y" using b by (simp add: fec_index_def fec_bytes_def)
    have "int p \<noteq> 0" using assms(1) by (simp add: fec_msg_def)
    then have "fec_get_rd env h (int p) s = Inr (?i, ?r, s\<lparr> fec_slots := (fec_slots s)(?i \<mapsto> ?y) \<rparr>)"
      using g fr none(1) ap by (simp add: fec_get_rd_def fec_new_slot_def)
    moreover have "rd_status ?r = ACTIVE" by (simp add: new_rd_def Let_def)
    ultimately show ?thesis
      using True none b y by (intro that [of ?i ?r "(fec_slots s)(?i \<mapsto> ?y)" ?y]) (auto simp: first_match_None)
  next
    case False
    then obtain i r y where r: "in_table RECVDATABUFSIZE i" "recvdatabuf s i = Some r" "fec_slots s i = Some y"
      "fec_bytes m p N pl is r" "fec_index N is y" "rd_status r = ACTIVE"
      "\<forall>j r'. in_table RECVDATABUFSIZE j \<longrightarrow> recvdatabuf s j = Some r' \<longrightarrow> rx_same m r' \<longrightarrow> j = i"
      using assms(3) by (auto simp: fec_rx_slot_def)
    have sm: "rx_same m r" using r(4) by (simp add: rx_same_def fec_bytes_def)
    have fm: "first_match RECVDATABUFSIZE (recvdatabuf s) (rx_same m) = Some i"
      by (rule first_match_unique [where x = r and t = "recvdatabuf s" and P = "rx_same m"])
        (use r(1,2,7) sm in blast)+
    then have "get_rd env h s = Inr (i, r)" using r(1,2) by (simp add: get_rd_def fr rd_def entry_def slot_def)
    then have "fec_get_rd env h (int p) s = Inr (i, r, s\<lparr> fec_slots := fec_slots s \<rparr>)"
      using fm fr by (simp add: fec_get_rd_def)
    then show ?thesis using r by (intro that [of i r "fec_slots s" y]) blast+
  qed
qed


lemma fec_recv_step:
  assumes "fec_msg m p N" "connectbuf s (rx_con m) = Some cd" "pmtusize cd = int p" "rx_ready env m f s"
    and "fec_rx_slot m p N pl is s" "fec_carries m p pl (h, buf, pos, n) k" "length (pl k) = p" "length is < N"
  obtains i r y F ev c where "in_table RECVDATABUFSIZE i" "fec_bytes m p N pl (is @ [k]) r" "fec_index N is y" "F i = Some y"
    "rd_status r = (if Suc (length is) = N then COMPLETE else ACTIVE)"
    "fec_recv_data_msg env h buf pos n s = res_bind (fec_finish (int p) h (Some y) r) (\<lambda>(r6, x).
       finish_recv env h i r6 (s\<lparr> receivedDataPktCounter := receivedDataPktCounter s + 1, once := once s @ ev,
         receivedRTXDataPktCounter := c, fec_slots := F(i := x) \<rparr>))"
    "\<forall>j r'. in_table RECVDATABUFSIZE j \<longrightarrow> j \<noteq> i \<longrightarrow> recvdatabuf s j = Some r' \<longrightarrow> \<not> rx_same m r'"
proof -
  let ?s = "s\<lparr> receivedDataPktCounter := receivedDataPktCounter s + 1 \<rparr>"
  have "recvdatabuf ?s = recvdatabuf s" "fec_slots ?s = fec_slots s" by simp_all
  then have "fec_rx_slot m p N pl is ?s" using assms(5) by (simp only: fec_rx_slot_def)
  then obtain i r y F where g: "fec_get_rd env h (int p) ?s = Inr (i, r, ?s\<lparr> fec_slots := F \<rparr>)" "F i = Some y"
    "in_table RECVDATABUFSIZE i" "fec_bytes m p N pl is r" "fec_index N is y" "rd_status r = ACTIVE"
    "\<forall>j r'. in_table RECVDATABUFSIZE j \<longrightarrow> j \<noteq> i \<longrightarrow> recvdatabuf ?s j = Some r' \<longrightarrow> \<not> rx_same m r'"
    by (rule fec_get_rd_ok [OF assms(1,6)])
  obtain pos1 r1 r2 where st: "store_first h buf pos n r = Inr (pos1, int p, r1)"
    "fec_store h buf pos1 (int p) (int p) (Some y) r1 = Inr r2" "fec_bytes m p N pl (is @ [k]) r2"
    by (rule fec_store_ok [OF assms(1) g(4,5) assms(8,6,7)])
  obtain r3 ev where o: "open_gap i h r2 = (r3, ev)" by fastforce
  define r5 where "r5 = update_status (update_expected h (int p) (fill_gap h (int p) r3))"
  have b: "fec_bytes m p N pl (is @ [k]) r5"
    using st(3) fec_bytes_bookkeeping(1) [of m p N pl "is @ [k]" i h r2] o by (simp add: r5_def)
  have "rd_status r5 = (if arrivedBytes r5 = bufsize r5 - monitoringDataHeaderLen r5 then COMPLETE else ACTIVE)"
    by (simp add: r5_def update_status_def)
  moreover have "arrivedBytes r5 = bufsize r5 - monitoringDataHeaderLen r5 \<longleftrightarrow> int (Suc (length is) * p) = int (N * p)"
    using b by (simp add: fec_bytes_def)
  moreover have "int (Suc (length is) * p) = int (N * p) \<longleftrightarrow> Suc (length is) = N"
    using assms(1) by (simp only: of_nat_eq_iff mult_cancel2) (simp add: fec_msg_def)
  ultimately have stat: "rd_status r5 = (if Suc (length is) = N then COMPLETE else ACTIVE)" by simp
  have c: "slot CONNECTBUFSIZE (connectbuf s) (hdr_con h) = Inr (Some cd)"
    using assms(2,4,6) by (simp add: rx_ready_def slot_def fec_carries_def)
  have "fec_recv_data_msg env h buf pos n s = res_bind (fec_finish (int p) h (Some y) r5) (\<lambda>(r6, x).
       finish_recv env h i r6 (s\<lparr> receivedDataPktCounter := receivedDataPktCounter s + 1, once := once s @ ev,
         receivedRTXDataPktCounter := receivedRTXDataPktCounter s + (if hdr_off h < expectedOffset r3 then 1 else 0),
         fec_slots := F(i := x) \<rparr>))"
    unfolding fec_recv_data_msg_def by (simp add: c assms(3) g(1,2,6) st(1,2) o r5_def Let_def)
  then show ?thesis using g(2,3,5,7) b stat by (intro that [where i = i and r = r5 and y = y and F = F and ev = ev]) auto
qed


lemma fec_recv_more:
  assumes "fec_msg m p N" "connectbuf s (rx_con m) = Some cd" "pmtusize cd = int p" "rx_ready env m f s"
    and "fec_rx_slot m p N pl is s" "fec_carries m p pl (h, buf, pos, n) k" "length (pl k) = p" "Suc (length is) < N"
  obtains s' where "fec_recv_data_msg env h buf pos n s = Inr s'" "trace s' = trace s" "connectbuf s' = connectbuf s"
    "rx_ready env m f s'" "fec_rx_slot m p N pl (is @ [k]) s'"
proof -
  obtain i r y F ev c where st: "in_table RECVDATABUFSIZE i" "fec_bytes m p N pl (is @ [k]) r" "fec_index N is y" "F i = Some y"
    "rd_status r = ACTIVE"
    and e: "fec_recv_data_msg env h buf pos n s = res_bind (fec_finish (int p) h (Some y) r) (\<lambda>(r6, x).
       finish_recv env h i r6 (s\<lparr> receivedDataPktCounter := receivedDataPktCounter s + 1, once := once s @ ev,
         receivedRTXDataPktCounter := c, fec_slots := F(i := x) \<rparr>))"
    and other: "\<forall>j r'. in_table RECVDATABUFSIZE j \<longrightarrow> j \<noteq> i \<longrightarrow> recvdatabuf s j = Some r' \<longrightarrow> \<not> rx_same m r'"
    by (rule fec_recv_step [OF assms(1-7)]) (use assms(8) in auto)
  let ?y = "y\<lparr> pix := (pix y)(nix y := nat (hdr_off h div int p)), pix_chk := (pix_chk y)[nix y := 1], nix := nix y + 1 \<rparr>"
  let ?s = "s\<lparr> receivedDataPktCounter := receivedDataPktCounter s + 1, once := once s @ ev,
         receivedRTXDataPktCounter := c, fec_slots := F(i := Some ?y) \<rparr>"
  let ?s' = "set_rd i (start_timers r ?s) ?s"
  have fin: "fec_finish (int p) h (Some y) r = Inr (r, Some ?y)"
    using fec_msg_applies [OF assms(1) st(2)] st(3,5) assms(8) by (simp add: fec_finish_def fec_index_def)
  have "hdr_off h = int (k * p)" "0 < p" using assms(1,6) by (simp_all add: fec_carries_def fec_msg_def)
  then have "nat (hdr_off h div int p) = k * p div p" by (simp only: zdiv_int [symmetric] nat_int)
  then have kx: "nat (hdr_off h div int p) = k" using \<open>0 < p\<close> by simp
  have ix: "fec_index N (is @ [k]) ?y" using st(3) unfolding kx by (auto simp: fec_index_def nth_append less_Suc_eq)
  have rdy: "rx_ready env m f ?s" "recv_data_callback ?s" using assms(4) by (simp_all add: rx_ready_def)
  have "fec_recv_data_msg env h buf pos n s = Inr ?s'"
    unfolding e fin using rdy(2) st(5) by (simp add: finish_recv_def)
  moreover have "trace ?s' = trace s" "connectbuf ?s' = connectbuf s" by (simp_all add: set_rd_def)
  moreover have "rx_ready env m f ?s'" using assms(4) by (simp add: rx_ready_def set_rd_def)
  moreover have "fec_rx_slot m p N pl (is @ [k]) ?s'"
  proof -
    have tab: "recvdatabuf ?s' = (recvdatabuf s)(i \<mapsto> start_timers r ?s)" "fec_slots ?s' i = Some ?y" by (simp_all add: set_rd_def)
    have "fec_bytes m p N pl (is @ [k]) (start_timers r ?s)" "rd_status (start_timers r ?s) = ACTIVE"
      using st(2,5) by (simp, simp add: start_timers_def)
    moreover have "\<forall>j r'. in_table RECVDATABUFSIZE j \<longrightarrow> recvdatabuf ?s' j = Some r' \<longrightarrow> rx_same m r' \<longrightarrow> j = i"
      unfolding tab using other by auto
    moreover have "recvdatabuf ?s' i = Some (start_timers r ?s)" unfolding tab by simp
    ultimately show ?thesis using st(1) ix tab(2) by (intro fec_rx_slotI [where i = i and y = ?y and r = "start_timers r ?s"]) blast+
  qed
  ultimately show ?thesis by (rule that)
qed

lemma fec_recv_last:
  assumes "fec_msg m p N" "connectbuf s (rx_con m) = Some cd" "pmtusize cd = int p" "rx_ready env m f s"
    and "fec_rx_slot m p N pl is s" "fec_carries m p pl (h, buf, pos, n) k" "length (pl k) = p" "Suc (length is) = N"
    and "distinct (is @ [k])" "\<forall>i \<in> set (is @ [k]). i < 256"
    and "fec_new N 256 = Some code" "pl = encoded code (data_packets p (rx_data m)) buf0 p"
  obtains s' q where "fec_recv_data_msg env h buf pos n s = Inr s'" "trace s' = trace s @ [Recv_data f (rx_data m) (rx_type m) q]"
    "rp_connectionID q = rx_con m" "nrMissingBytes q = 0" "rp_recvFragments q = int N"
proof -
  have lt: "length is < N" using assms(8) by simp
  obtain i r y F ev c where st: "in_table RECVDATABUFSIZE i" "fec_bytes m p N pl (is @ [k]) r" "fec_index N is y" "F i = Some y"
    "rd_status r = COMPLETE"
    and e: "fec_recv_data_msg env h buf pos n s = res_bind (fec_finish (int p) h (Some y) r) (\<lambda>(r6, x).
       finish_recv env h i r6 (s\<lparr> receivedDataPktCounter := receivedDataPktCounter s + 1, once := once s @ ev,
         receivedRTXDataPktCounter := c, fec_slots := F(i := x) \<rparr>))"
    by (rule fec_recv_step [OF assms(1-7) lt]) (use assms(8) in simp)
  have hc: "hdr_off h = int (k * p)" "msg_type h = rx_type m" using assms(6) by (simp_all add: fec_carries_def)
  have len: "length is + 1 = N" using assms(8) by simp
  obtain rb y1 where d: "fec_decode_rd (int p) h y r = Inr (r\<lparr> recvbuf := rb, firstPacketArrived := True \<rparr>, y1)"
    "length rb = 20 + N * p" "drop 20 rb = rx_data m"
    by (rule fec_decode_rd_ok [OF assms(1) st(2,3) len hc(1) assms(9-12)])
  let ?r = "r\<lparr> recvbuf := rb, firstPacketArrived := True \<rparr>"
  let ?s = "s\<lparr> receivedDataPktCounter := receivedDataPktCounter s + 1, once := once s @ ev,
         receivedRTXDataPktCounter := c, fec_slots := F(i := Some y1) \<rparr>"
  have fin: "fec_finish (int p) h (Some y) r = Inr (?r, Some y1)"
    using fec_msg_applies [OF assms(1) st(2)] st(5) d(1) by (simp add: fec_finish_def)
  have rdy: "rx_ready env m f ?s" "recv_data_callback ?s" using assms(4) by (simp_all add: rx_ready_def)
  have "length (is @ [k]) = N" using assms(8) by simp
  from deliver_decoded [OF rdy(1) st(2) this hc(2) d(3,2)]
  obtain q s1 where q: "deliver env h ?r ?s = Inr s1" "trace s1 = trace ?s @ [Recv_data f (rx_data m) (rx_type m) q]"
    "rp_connectionID q = rx_con m" "nrMissingBytes q = 0" "rp_recvFragments q = int N" by blast
  have "fec_recv_data_msg env h buf pos n s = Inr (set_rd i (start_timers ?r s1) s1)"
    unfolding e fin using rdy(2) st(5) q(1) by (simp add: finish_recv_def)
  moreover have "trace (set_rd i (start_timers ?r s1) s1) = trace s @ [Recv_data f (rx_data m) (rx_type m) q]"
    using q(2) by (simp add: set_rd_def)
  ultimately show ?thesis using q(3-5) by (rule that)
qed



fun fec_recv_all :: "'e fec_env_scheme \<Rightarrow> pkt list \<Rightarrow> 'a fec_ml_scheme \<Rightarrow> 'a fec_ml_scheme res" where
  "fec_recv_all env [] s = Inr s"
| "fec_recv_all env ((h, buf, pos, n) # ps) s = res_bind (fec_recv_data_msg env h buf pos n s) (fec_recv_all env ps)"

lemma encoded_length [simp]: "length (encoded code src buf p i) = p"
  by (simp add: encoded_def)

lemma fec_recv_all_ok:
  assumes "list_all2 (fec_carries m p pl) ps ks" "ks \<noteq> []" "fec_msg m p N"
    and "connectbuf s (rx_con m) = Some cd" "pmtusize cd = int p" "rx_ready env m f s" "fec_rx_slot m p N pl got s"
    and "length (got @ ks) = N" "distinct (got @ ks)" "\<forall>i \<in> set (got @ ks). i < 256"
    and "fec_new N 256 = Some code" "pl = encoded code (data_packets p (rx_data m)) buf0 p"
  shows "\<exists>s' q. fec_recv_all env ps s = Inr s' \<and> trace s' = trace s @ [Recv_data f (rx_data m) (rx_type m) q]
    \<and> rp_connectionID q = rx_con m \<and> nrMissingBytes q = 0 \<and> rp_recvFragments q = int N"
  using assms(1,2,4,6-10)
proof (induction ks arbitrary: ps s got rule: list.induct)
  case Nil
  then show ?case by simp
next
  case (Cons k ks)
  from Cons.prems(1) obtain pk ps' where ps: "ps = pk # ps'" "fec_carries m p pl pk k" "list_all2 (fec_carries m p pl) ps' ks"
    by (auto simp: list_all2_Cons2)
  obtain h buf pos n where pk: "pk = (h, buf, pos, n)" by (cases pk)
  have len: "length (pl k) = p" using assms(12) by simp
  note carries = ps(2) [unfolded pk]
  show ?case
  proof (cases "ks = []")
    case True
    then have l: "Suc (length got) = N" "distinct (got @ [k])" "\<forall>i \<in> set (got @ [k]). i < 256" using Cons.prems(6-8) by simp_all
    obtain s' q where "fec_recv_data_msg env h buf pos n s = Inr s'" "trace s' = trace s @ [Recv_data f (rx_data m) (rx_type m) q]"
      "rp_connectionID q = rx_con m" "nrMissingBytes q = 0" "rp_recvFragments q = int N"
      by (rule fec_recv_last [OF assms(3) Cons.prems(3) assms(5) Cons.prems(4,5) carries len l assms(11,12)])
    moreover have "ps' = []" using ps(3) True by simp
    ultimately show ?thesis using ps(1) pk by simp
  next
    case False
    then have l: "Suc (length got) < N" using Cons.prems(6) by (cases ks) simp_all
    obtain s1 where s1: "fec_recv_data_msg env h buf pos n s = Inr s1" "trace s1 = trace s" "connectbuf s1 = connectbuf s"
      "rx_ready env m f s1" "fec_rx_slot m p N pl (got @ [k]) s1"
      by (rule fec_recv_more [OF assms(3) Cons.prems(3) assms(5) Cons.prems(4,5) carries len l])
    have c1: "connectbuf s1 (rx_con m) = Some cd" using s1(3) Cons.prems(3) by simp
    have "length ((got @ [k]) @ ks) = N" "distinct ((got @ [k]) @ ks)" "\<forall>i \<in> set ((got @ [k]) @ ks). i < 256"
      using Cons.prems(6-8) by simp_all
    from Cons.IH [OF ps(3) False c1 s1(4,5) this] show ?thesis using s1(1,2) ps(1) pk by simp
  qed
qed

lemma fec_message_recovered:
  assumes "fec_msg m p N" "fec_new N 256 = Some code" "pl = encoded code (data_packets p (rx_data m)) buf p"
    and "list_all2 (fec_carries m p pl) ps ks" "length ks = N" "distinct ks" "\<forall>i \<in> set ks. i < 256"
    and "connectbuf s (rx_con m) = Some cd" "pmtusize cd = int p" "rx_ready env m f s" "fec_rx_slot m p N pl [] s"
  shows "\<exists>s' q. fec_recv_all env ps s = Inr s' \<and> trace s' = trace s @ [Recv_data f (rx_data m) (rx_type m) q]
    \<and> rp_connectionID q = rx_con m \<and> nrMissingBytes q = 0 \<and> rp_recvFragments q = int N"
proof -
  have "ks \<noteq> []" using assms(1,5) by (auto simp: fec_msg_def)
  moreover have "length ([] @ ks) = N" "distinct ([] @ ks)" "\<forall>i \<in> set ([] @ ks). i < 256" using assms(5-7) by simp_all
  ultimately show ?thesis by (intro fec_recv_all_ok [OF assms(4) _ assms(1,8-11) _ _ _ assms(2,3)])
qed



section \<open>Sending\<close>

text \<open>
  The message is padded with zeros, by a whole packet when it fits exactly, cut into \<open>npaks\<close> pieces of the
  path MTU and encoded into twice as many packets. \<open>src[i]\<close> from \<open>npaks\<close> on and the packets are fresh
  buffers. A path MTU that is not positive makes the sizes of the allocations negative.
\<close>

definition fec_encode_msg :: "'e fec_env_scheme \<Rightarrow> int \<Rightarrow> byte list \<Rightarrow> int \<Rightarrow> (byte list \<times> int \<times> byte list list) res" where
  "fec_encode_msg env p msg n =
     (if p \<le> 0 then Inl OutOfBounds
      else let ipad = p - n mod p in
        res_bind (mem_read msg 0 n) (\<lambda>bs.
          let ms = bs @ replicate (nat ipad) 0; npaks = nat ((n + ipad) div p);
              src = (\<lambda>i. if i < npaks then data_packets (nat p) ms i else junk_buf env i)
          in case fec_new npaks 256 of None \<Rightarrow> Inl NullDeref
             | Some code \<Rightarrow>
                 Inr (ms, n + ipad, map (encoded code src (\<lambda>i. junk_buf env (2 * npaks + i)) (nat p)) [0 ..< 2 * npaks])))"

text \<open>\<open>chk_msg_len\<close> is where the loop ends; it is set to the size of all packets with the first of them.\<close>

definition fec_in_use :: "send_job \<Rightarrow> byte list list \<Rightarrow> nat \<Rightarrow> connect_data \<Rightarrow> bool" where
  "fec_in_use job pkts lcnt c \<longleftrightarrow> sj_msg_type job = 17 \<and> pmtusize c < sj_msg_len job \<and> lcnt < length pkts"

definition fec_frag_iov :: "'e fec_env_scheme \<Rightarrow> send_job \<Rightarrow> byte list list \<Rightarrow> byte \<Rightarrow> byte list \<Rightarrow> int \<Rightarrow> nat \<Rightarrow> int \<Rightarrow> connect_data
    \<Rightarrow> byte list list res" where
  "fec_frag_iov env job pkts ld h_data chk lcnt off c =
     (let l1 = pkt_hdr_len env job c; pkt_len = min (pmtusize c) (chk - off)
      in if length (stack_h_pkt env) < l1 then Inl OutOfBounds
         else res_map (\<lambda>payload.
                [encode_header (frag_header job ld l1 off pkt_len), take l1 (stack_h_pkt env), h_data, payload])
              (if fec_in_use job pkts lcnt c then mem_read (pkts ! lcnt) 0 pkt_len else mem_read (sj_msg job) off pkt_len))"

definition fec_send_frag :: "'e fec_env_scheme \<Rightarrow> send_job \<Rightarrow> byte list list \<Rightarrow> byte \<Rightarrow> byte list \<Rightarrow> int \<Rightarrow> nat \<Rightarrow> int
    \<Rightarrow> 'a ml_scheme \<Rightarrow> (frag_out \<times> int \<times> nat \<times> 'a ml_scheme) res option" where
  "fec_send_frag env job pkts ld h_data chk lcnt off s =
     (case conn (sj_con_id job) s of Inl e \<Rightarrow> Some (Inl e)
      | Inr c \<Rightarrow>
        (let use = fec_in_use job pkts lcnt c; chk1 = (if use then pmtusize c * int (length pkts) else sj_msg_len job) in
         case fec_frag_iov env job pkts ld h_data chk lcnt off c of Inl e \<Rightarrow> Some (Inl e)
         | Inr v \<Rightarrow>
            (case queueOrSendPacket env (socketfd s) v 4 (sj_addr job) (job_priority job) s of
               None \<Rightarrow> None
             | Some (Inl e) \<Rightarrow> Some (Inl e)
             | Some (Inr (r, s1)) \<Rightarrow>
                 Some (res_map (\<lambda>(out, s2). (out, chk1, if r = OK \<and> use then lcnt + 1 else lcnt, s2))
                   (after_submit job off v r s1)))))"

partial_function (option) fec_send_frags :: "'e fec_env_scheme \<Rightarrow> send_job \<Rightarrow> byte list list \<Rightarrow> byte \<Rightarrow> byte list \<Rightarrow> int \<Rightarrow> nat \<Rightarrow> int
    \<Rightarrow> 'a ml_scheme \<Rightarrow> (bool \<times> int \<times> nat \<times> 'a ml_scheme) res option" where
  "fec_send_frags env job pkts ld h_data chk lcnt off s =
     (case fec_send_frag env job pkts ld h_data chk lcnt off s of
        None \<Rightarrow> None
      | Some (Inl e) \<Rightarrow> Some (Inl e)
      | Some (Inr (Give_up retry, r)) \<Rightarrow> Some (Inr (retry, r))
      | Some (Inr (Sent off1, chk1, lcnt1, s1)) \<Rightarrow>
          (if off1 \<noteq> chk1 \<and> \<not> sj_truncable job then fec_send_frags env job pkts ld [] chk1 lcnt1 off1 s1
           else Some (Inr (False, chk1, lcnt1, s1))))"

text \<open>
  The clean-up after the loop frees the code and the padded message. Without a data header from the
  monitoring layer nothing was encoded, and the pointer given to \<open>fec_free\<close> was never set. After it \<open>msg\<close>
  still points to the freed message, which a further attempt reads first.
\<close>

definition fec_clean_up :: "send_job \<Rightarrow> byte list list \<Rightarrow> 'a ml_scheme \<Rightarrow> bool res" where
  "fec_clean_up job pkts s =
     res_bind (conn (sj_con_id job) s) (\<lambda>c.
       if sj_msg_type job = 17 \<and> pmtusize c < sj_msg_len job then (if pkts = [] then Inl UseAfterFree else Inr True)
       else Inr False)"

definition fec_prepare :: "'e fec_env_scheme \<Rightarrow> send_job \<Rightarrow> connect_data \<Rightarrow> (send_job \<times> byte list list) res" where
  "fec_prepare env job c =
     (let n = (case set_Monitoring_header_data_cb env of None \<Rightarrow> 0
               | Some f \<Rightarrow> f (external_socketID c) (sj_msg_type job))
      in if get_Send_data_inf_cb env \<noteq> None \<and> n \<noteq> 0 \<and> sj_msg_type job = 17 \<and> pmtusize c < sj_msg_len job
         then res_map (\<lambda>(ms, len, pkts). (job\<lparr> sj_msg := ms, sj_msg_len := len \<rparr>, pkts))
                (fec_encode_msg env (pmtusize c) (sj_msg job) (sj_msg_len job))
         else Inr (job, []))"

partial_function (option) fec_send_loop :: "'e fec_env_scheme \<Rightarrow> send_job \<Rightarrow> send_params \<Rightarrow> int \<Rightarrow> nat \<Rightarrow> 'a ml_scheme
    \<Rightarrow> 'a ml_scheme res option" where
  "fec_send_loop env job sp chk lcnt s =
     (case res_bind (conn (sj_con_id job) s) (\<lambda>c. res_bind (fec_prepare env job c) (\<lambda>(job1, pkts).
             res_map (\<lambda>h. (job1, pkts, h)) (data_header env job1 sp c))) of
        Inl e \<Rightarrow> Some (Inl e)
      | Inr (job1, pkts, h_data) \<Rightarrow>
          (case fec_send_frags env job1 pkts (word_of_nat (length h_data)) h_data chk lcnt 0 s of
             None \<Rightarrow> None
           | Some (Inl e) \<Rightarrow> Some (Inl e)
           | Some (Inr (retry, chk1, lcnt1, s1)) \<Rightarrow>
               (case fec_clean_up job1 pkts s1 of Inl e \<Rightarrow> Some (Inl e)
                | Inr freed \<Rightarrow>
                    if \<not> retry then Some (Inr s1)
                    else if freed then Some (Inl UseAfterFree)
                    else fec_send_loop env job1 sp chk1 lcnt1 s1)))"

definition fec_send_msg :: "'e fec_env_scheme \<Rightarrow> int \<Rightarrow> int \<Rightarrow> byte list \<Rightarrow> int \<Rightarrow> bool \<Rightarrow> send_params \<Rightarrow> 'a ml_scheme
    \<Rightarrow> 'a ml_scheme res option" where
  "fec_send_msg env cid mtype msg msg_len trunc sp s =
     (case conn cid s of Inl e \<Rightarrow> Some (Inl e)
      | Inr c \<Rightarrow> fec_send_loop env (make_job c cid mtype msg msg_len trunc) sp msg_len 0
                  (set_conn cid (c\<lparr> seqnr := seqnr c + 1 \<rparr>) s))"

text \<open>What is encoded.\<close>

lemma fec_encode_cong:
  assumes "\<And>i. i < code_k code \<Longrightarrow> src i = src' i"
  shows "fec_encode code src fec i sz = fec_encode code src' fec i sz"
proof -
  have "fold (\<lambda>j fec. addmul fec (src j) (enc_matrix code i j) sz) [0 ..< code_k code] f
      = fold (\<lambda>j fec. addmul fec (src' j) (enc_matrix code i j) sz) [0 ..< code_k code] f" for f
    by (rule fold_cong) (simp_all add: assms)
  then show ?thesis using assms by (simp add: fec_encode_def)
qed

lemma fec_encode_msg_ok:
  assumes "0 < p" "n = length msg" "npaks = n div p + 1" "npaks \<le> 256"
  obtains ms code where "fec_encode_msg env (int p) msg (int n)
      = Inr (ms, int (npaks * p), map (encoded code (data_packets p ms) (\<lambda>i. junk_buf env (2 * npaks + i)) p) [0 ..< 2 * npaks])"
    "fec_new npaks 256 = Some code" "ms = msg @ replicate (p - n mod p) 0" "length ms = npaks * p"
proof -
  let ?ms = "msg @ replicate (p - n mod p) 0"
  obtain code where code: "fec_new npaks 256 = Some code" using assms(4) by (simp add: fec_new_def GF_SIZE_def Let_def)
  have "1 \<le> npaks" using assms(3) by simp
  note k = enc_matrix_eq(2) [OF code this]
  have ipad: "int p - int n mod int p = int (p - n mod p)"
    using assms(1) by (simp add: of_nat_diff zmod_int)
  have "n + (p - n mod p) = npaks * p"
  proof -
    have "n = n div p * p + n mod p" by simp
    moreover have "n mod p < p" using assms(1) by simp
    ultimately have "n + (p - n mod p) = n div p * p + p" by linarith
    then show ?thesis unfolding assms(3) by simp
  qed
  then have tot: "int n + int (p - n mod p) = int (npaks * p)" by (simp only: of_nat_add [symmetric])
  have np: "nat (int (npaks * p) div int p) = npaks" using assms(1) by (simp only: zdiv_int [symmetric] nat_int) simp
  have rd: "mem_read msg 0 (int n) = Inr msg" using assms(2) by (simp add: mem_read_def)
  have "encoded code (\<lambda>i. if i < npaks then data_packets p ?ms i else junk_buf env i) = encoded code (data_packets p ?ms)"
    by (intro ext) (simp add: encoded_def k cong: fec_encode_cong [where code = code, unfolded k])
  then have "fec_encode_msg env (int p) msg (int n)
      = Inr (?ms, int (npaks * p), map (encoded code (data_packets p ?ms) (\<lambda>i. junk_buf env (2 * npaks + i)) p) [0 ..< 2 * npaks])"
    using assms(1) unfolding fec_encode_msg_def Let_def ipad tot np rd nat_int by (simp add: code)
  moreover have "length ?ms = npaks * p" using tot assms(2) by (metis length_append length_replicate of_nat_add of_nat_eq_iff)
  ultimately show ?thesis using code by (intro that [of ?ms code]) simp_all
qed



lemma fec_frag_iov_ok:
  fixes ld :: byte
  assumes "hooks_ok env" "pmtusize c = int p" "sj_msg_type job = 17" "int p < sj_msg_len job" "length hdr \<le> MON_HEADER_SPACE"
    and "i < length pkts" "length (pkts ! i) = p" "int p \<le> chk - off" "p + 87 \<le> nat R"
  defines "v0 \<equiv> [encode_header (frag_header job ld (pkt_hdr_len env job c) off (int p)),
      take (pkt_hdr_len env job c) (stack_h_pkt env), hdr, pkts ! i]"
  obtains v where "fec_frag_iov env job pkts ld hdr chk i off c = Inr v" "length v = 4" "iov_len v \<le> R" "v = v0"
proof -
  let ?lp = "pkt_hdr_len env job c"
  have l1: "?lp \<le> 32" and hdr: "length hdr \<le> 32" and st: "length (stack_h_pkt env) = 32"
    using pkt_hdr_len_le [OF assms(1)] assms(1,5) by (auto simp: hooks_ok_def MON_HEADER_SPACE_def)
  have use: "fec_in_use job pkts i c" using assms(2-4,6) by (simp add: fec_in_use_def)
  have mn: "min (pmtusize c) (chk - off) = int p" using assms(2,8) by simp
  have "mem_read (pkts ! i) 0 (int p) = Inr (pkts ! i)" using assms(7) by (simp add: mem_read_def)
  then have "fec_frag_iov env job pkts ld hdr chk i off c = Inr v0"
    unfolding fec_frag_iov_def Let_def mn v0_def using use l1 st by simp
  moreover have "length v0 = 4" "iov_len v0 \<le> R"
    using assms(7,9) l1 st hdr header.length_enc
    by (simp_all add: v0_def iov_len_def MSG_HEADER_SIZE_def eval_nat_numeral)
  ultimately show ?thesis by (intro that [of v0]) simp_all
qed

lemma fec_send_frag_unlimited:
  fixes ld :: byte
  assumes "hooks_ok env" "unlimited env s" "p + 87 \<le> nat (RTXmaxSize s)" "conn (sj_con_id job) s = Inr c"
    and "pmtusize c = int p" "sj_msg_type job = 17" "int p < sj_msg_len job" "length hdr \<le> MON_HEADER_SPACE"
    and "i < length pkts" "length (pkts ! i) = p" "int p \<le> chk - off"
  defines "v \<equiv> [encode_header (frag_header job ld (pkt_hdr_len env job c) off (int p)),
      take (pkt_hdr_len env job c) (stack_h_pkt env), hdr, pkts ! i]"
  obtains s1 where "fec_send_frag env job pkts ld hdr chk i off s
      = Some (Inr (Sent (off + int p), int p * int (length pkts), Suc i, s1))"
    "wire s1 = wire s @ [(socketfd s, v, sj_addr job)]" "unlimited env s1" "connectbuf s1 = connectbuf s"
    "socketfd s1 = socketfd s" "RTXmaxSize s1 = RTXmaxSize s"
proof -
  have use: "fec_in_use job pkts i c" using assms(5-7,9) by (simp add: fec_in_use_def)
  have v: "fec_frag_iov env job pkts ld hdr chk i off c = Inr v" and len: "length v = 4" "iov_len v \<le> RTXmaxSize s"
    unfolding v_def by (rule fec_frag_iov_ok [OF assms(1,5-11,3), of ld]; simp)+
  have prio: "job_priority job AND HP = 0" by (rule job_priority_low)
  obtain s1 where q: "queueOrSendPacket env (socketfd s) v 4 (sj_addr job) (job_priority job) s = Some (Inr (OK, s1))"
    "wire s1 = wire s @ [(socketfd s, v, sj_addr job)]" "unlimited env s1" "RTXmaxSize s1 = RTXmaxSize s"
    using queueOrSendPacket_unlimited [OF assms(2) len prio] by blast
  obtain out s2 where a: "after_submit job off v OK s1 = Inr (out, s2)" by (simp add: after_submit_def)
  have "out = Sent (off + int p)" using after_submit_OK_fields(1) [OF a] assms(10) by (simp add: v_def eval_nat_numeral)
  then have "fec_send_frag env job pkts ld hdr chk i off s
      = Some (Inr (Sent (off + int p), int p * int (length pkts), Suc i, s2))"
    using v q(1) a use by (simp add: fec_send_frag_def assms(4,5) Let_def)
  then show ?thesis
    using after_submit_OK_fields(3-) [OF a] after_submit_OK_fields(2) [OF a, of env] q(2-) queueOrSendPacket_ml [OF q(1)]
    by (intro that [of s2]) simp_all
qed

lemma fec_send_frags_unlimited:
  assumes "hooks_ok env" "pmtusize c = int p" "0 < p" "sj_msg_type job = 17" "int p < sj_msg_len job" "\<not> sj_truncable job"
    and "\<forall>i < length pkts. length (pkts ! i) = p" "length h_data \<le> MON_HEADER_SPACE"
    and "i < length pkts" "unlimited env s" "p + 87 \<le> nat (RTXmaxSize s)" "conn (sj_con_id job) s = Inr c"
    and "hdr = (if i = 0 then h_data else [])" "if i = 0 then int p \<le> chk else chk = int (length pkts * p)"
  shows "\<exists>s1. fec_send_frags env job pkts (word_of_nat (length h_data)) hdr chk i (int (i * p)) s
      = Some (Inr (False, int p * int (length pkts), length pkts, s1))
    \<and> wire s1 = wire s @ map (\<lambda>j. frag_dgram env (socketfd s) job c h_data (j * p, pkts ! j)) [i ..< length pkts]
    \<and> connectbuf s1 = connectbuf s"
  using assms(9-)
proof (induction "length pkts - i" arbitrary: i s hdr chk rule: less_induct)
  case less
  let ?d = "\<lambda>j. frag_dgram env (socketfd s) job c h_data (j * p, pkts ! j)"
  have hl: "length hdr \<le> MON_HEADER_SPACE" using less.prems(5) assms(8) by simp
  have "Suc i * p \<le> length pkts * p" using less.prems(1) by (intro mult_le_mono1) simp
  then have "int (i * p + p) \<le> int (length pkts * p)" by (simp only: of_nat_le_iff mult_Suc add.commute)
  then have room: "int p \<le> chk - int (i * p)" using less.prems(6) by (cases "i = 0") simp_all
  have pl: "length (pkts ! i) = p" using assms(7) less.prems(1) by simp
  have dg: "?d i = (socketfd s, [encode_header (frag_header job (word_of_nat (length h_data)) (pkt_hdr_len env job c)
      (int (i * p)) (int p)), take (pkt_hdr_len env job c) (stack_h_pkt env), hdr, pkts ! i], sj_addr job)"
    using less.prems(5) assms(3) pl by (simp add: frag_dgram_def Let_def)
  obtain s1 where f: "fec_send_frag env job pkts (word_of_nat (length h_data)) hdr chk i (int (i * p)) s
      = Some (Inr (Sent (int (i * p) + int p), int p * int (length pkts), Suc i, s1))"
    "wire s1 = wire s @ [?d i]" "unlimited env s1" "connectbuf s1 = connectbuf s"
    "socketfd s1 = socketfd s" "RTXmaxSize s1 = RTXmaxSize s"
    unfolding dg
    by (rule fec_send_frag_unlimited [OF assms(1) less.prems(2-4) assms(2,4,5) hl less.prems(1) pl room])
  have off: "int (i * p) + int p = int (Suc i * p)" by simp
  have eq: "int (Suc i * p) = int p * int (length pkts) \<longleftrightarrow> Suc i = length pkts"
  proof -
    have "int (Suc i * p) = int p * int (length pkts) \<longleftrightarrow> int (Suc i * p) = int (length pkts * p)" by (simp add: mult.commute)
    also have "\<dots> \<longleftrightarrow> Suc i = length pkts" using assms(3) by (simp only: of_nat_eq_iff mult_cancel2) simp
    finally show ?thesis .
  qed
  show ?case
  proof (cases "Suc i = length pkts")
    case True
    then have "[i ..< length pkts] = [i]" by (simp add: upt_conv_Cons)
    then show ?thesis using f eq True unfolding off by (subst fec_send_frags.simps) simp
  next
    case False
    then have lt: "Suc i < length pkts" "length pkts - Suc i < length pkts - i" using less.prems(1) by simp_all
    have step: "fec_send_frags env job pkts (word_of_nat (length h_data)) hdr chk i (int (i * p)) s
        = fec_send_frags env job pkts (word_of_nat (length h_data)) [] (int p * int (length pkts)) (Suc i) (int (Suc i * p)) s1"
      using f(1) eq False assms(6) unfolding off by (subst fec_send_frags.simps) simp
    have c1: "conn (sj_con_id job) s1 = Inr c" using less.prems(4) f(4) by (simp add: conn_Inr)
    have R: "p + 87 \<le> nat (RTXmaxSize s1)" using less.prems(3) f(6) by simp
    obtain s2 where s2: "fec_send_frags env job pkts (word_of_nat (length h_data)) [] (int p * int (length pkts)) (Suc i) (int (Suc i * p)) s1
        = Some (Inr (False, int p * int (length pkts), length pkts, s2))"
      "wire s2 = wire s1 @ map (\<lambda>j. frag_dgram env (socketfd s1) job c h_data (j * p, pkts ! j)) [Suc i ..< length pkts]"
      "connectbuf s2 = connectbuf s1"
      using less.hyps [OF lt(2,1) f(3) R c1, of "[]" "int p * int (length pkts)"] by (auto simp: mult.commute)
    have "[i ..< length pkts] = i # [Suc i ..< length pkts]" using less.prems(1) by (simp add: upt_conv_Cons)
    then show ?thesis using s2 step f(2,4,5) by simp
  qed
qed



lemma fec_prepare_ok:
  assumes "pmtusize c = int p" "0 < p" "set_Monitoring_header_data_cb env = Some g" "0 < g (external_socketID c) 17"
    and "get_Send_data_inf_cb env \<noteq> None" "p < length msg" "npaks = length msg div p + 1" "npaks \<le> 256"
    and "fec_new npaks 256 = Some code" "ms = msg @ replicate (p - length msg mod p) 0"
    and "c0 = c\<lparr> seqnr := q \<rparr>"
  shows "fec_prepare env (make_job c cid 17 msg (int (length msg)) False) c0 = Inr (make_job c cid 17 ms (int (npaks * p)) False,
      map (encoded code (data_packets p ms) (\<lambda>i. junk_buf env (2 * npaks + i)) p) [0 ..< 2 * npaks])"
proof -
  obtain ms' code' where e: "fec_encode_msg env (int p) msg (int (length msg))
      = Inr (ms', int (npaks * p), map (encoded code' (data_packets p ms') (\<lambda>i. junk_buf env (2 * npaks + i)) p) [0 ..< 2 * npaks])"
    "fec_new npaks 256 = Some code'" "ms' = msg @ replicate (p - length msg mod p) 0"
    by (rule fec_encode_msg_ok [OF assms(2) refl assms(7,8)])
  have "code' = code" "ms' = ms" using e(2,3) assms(9,10) by simp_all
  then show ?thesis
    using assms(1-6,11) e(1) by (simp add: fec_prepare_def make_job_def)
qed

lemma padded_length: "0 < p \<Longrightarrow> p < n \<Longrightarrow> int p < int ((n div p + 1) * p)" for p n :: nat
proof -
  assume "0 < p" "p < n"
  then have "0 < n div p" by (simp add: div_greater_zero_iff)
  then have "p < (n div p + 1) * p" using \<open>0 < p\<close> by (cases "n div p") simp_all
  then show ?thesis by (simp only: of_nat_less_iff)
qed

lemma fec_send_packets:
  assumes "hooks_ok env" "conn cid s = Inr c" "pmtusize c = int p" "0 < p" "unlimited env s" "p + 87 \<le> nat (RTXmaxSize s)"
    and "set_Monitoring_header_data_cb env = Some g" "0 < g (external_socketID c) 17" "get_Send_data_inf_cb env \<noteq> None"
    and "p < length msg" "npaks = length msg div p + 1" "npaks \<le> 256" "fec_new npaks 256 = Some code"
    and "ms = msg @ replicate (p - length msg mod p) 0" "job = make_job c cid 17 ms (int (npaks * p)) False"
    and "data_header env job sp c = Inr h_data"
  shows "\<exists>s1. fec_send_msg env cid 17 msg (int (length msg)) False sp s = Some (Inr s1)
    \<and> wire s1 = wire s @ map (\<lambda>i. frag_dgram env (socketfd s) job c h_data
        (i * p, encoded code (data_packets p ms) (\<lambda>i. junk_buf env (2 * npaks + i)) p i)) [0 ..< 2 * npaks]"
proof -
  let ?c = "c\<lparr> seqnr := seqnr c + 1 \<rparr>" and ?s = "set_conn cid (c\<lparr> seqnr := seqnr c + 1 \<rparr>) s"
  let ?job0 = "make_job c cid 17 msg (int (length msg)) False"
  let ?pkts = "map (encoded code (data_packets p ms) (\<lambda>i. junk_buf env (2 * npaks + i)) p) [0 ..< 2 * npaks]"
  have j: "sj_con_id job = cid" "sj_msg_type job = 17" "\<not> sj_truncable job" "sj_msg_len job = int (npaks * p)"
    by (simp_all add: assms(15) make_job_def)
  have big: "int p < sj_msg_len job" using padded_length [OF assms(4,10)] j(4) assms(11) by simp
  have c1: "conn (sj_con_id job) ?s = Inr ?c" using conn_set_conn [OF assms(2)] j by simp
  have pm: "pmtusize ?c = int p" using assms(3) by simp
  have prep: "fec_prepare env ?job0 ?c = Inr (job, ?pkts)"
    unfolding assms(15) by (rule fec_prepare_ok [OF assms(3,4,7-14) refl])
  have hl: "length h_data \<le> MON_HEADER_SPACE" using data_header_ok [OF assms(1), of job sp c] assms(16) by auto
  have u: "unlimited env ?s" "p + 87 \<le> nat (RTXmaxSize ?s)" "socketfd ?s = socketfd s" "wire ?s = wire s"
    using assms(5,6) by (simp_all add: set_conn_ready, simp_all add: set_conn_def)
  have chk: "if (0 :: nat) = 0 then int p \<le> int (length msg) else int (length msg) = int (length ?pkts * p)"
    using assms(10) by simp
  have ne: "0 < length ?pkts" "\<forall>i < length ?pkts. length (?pkts ! i) = p"
    by (simp add: assms(11), simp)
  have h0: "h_data = (if (0 :: nat) = 0 then h_data else [])" by simp
  obtain s1 where s1: "fec_send_frags env job ?pkts (word_of_nat (length h_data)) h_data (int (length msg)) 0 (int (0 * p)) ?s
      = Some (Inr (False, int p * int (length ?pkts), length ?pkts, s1))"
    "wire s1 = wire ?s @ map (\<lambda>j. frag_dgram env (socketfd ?s) job ?c h_data (j * p, ?pkts ! j)) [0 ..< length ?pkts]"
    "connectbuf s1 = connectbuf ?s"
    using fec_send_frags_unlimited [OF assms(1) pm assms(4) j(2) big j(3) ne(2) hl ne(1) u(1,2) c1 h0 chk] by blast
  have "conn (sj_con_id job) s1 = Inr ?c" using c1 s1(3) by (simp add: conn_Inr)
  then have cl: "fec_clean_up job ?pkts s1 = Inr True" using j(2) big pm ne(1) by (auto simp: fec_clean_up_def)
  have "conn (sj_con_id ?job0) ?s = Inr ?c" using c1 j(1) by (simp add: make_job_def)
  then have "fec_send_loop env ?job0 sp (int (length msg)) 0 ?s = Some (Inr s1)"
    using prep assms(16) s1(1) cl by (subst fec_send_loop.simps) simp
  then have "fec_send_msg env cid 17 msg (int (length msg)) False sp s = Some (Inr s1)"
    using assms(2) by (simp add: fec_send_msg_def)
  moreover have "map (\<lambda>j. frag_dgram env (socketfd ?s) job ?c h_data (j * p, ?pkts ! j)) [0 ..< length ?pkts]
      = map (\<lambda>i. frag_dgram env (socketfd s) job c h_data
        (i * p, encoded code (data_packets p ms) (\<lambda>i. junk_buf env (2 * npaks + i)) p i)) [0 ..< 2 * npaks]"
    using u(3) by (intro map_cong) simp_all
  ultimately show ?thesis using s1(2) u(4) by simp
qed


section \<open>From sender to receiver\<close>

text \<open>What \<open>recv_pkg\<close> hands to \<open>recv_data_msg\<close> for the datagram \<open>d\<close>.\<close>

definition fec_pkt :: "byte list \<Rightarrow> byte list \<Rightarrow> pkt" where
  "fec_pkt stack d =
     (let buf = packet_buf stack d; h = decode_header buf; pos = int MSG_HEADER_SIZE + uint (len_mon_packet_hdr h)
      in (h, buf, pos, int (length d) - pos))"

lemma fec_dgram_carries:
  assumes "hooks_ok env" "\<not> sj_truncable job" "sj_msg_len job = int (length (sj_msg job))" "length (sj_msg job) < 2 ^ 32"
    and "length h_data = 20" "i * p < 2 ^ 32" "0 < p"
  shows "fec_carries (job_rx job h_data) p pl (fec_pkt stack (wire_bytes (frag_dgram env sock job c h_data (i * p, pl i)))) i"
proof -
  let ?l1 = "pkt_hdr_len env job c"
  let ?ph = "take ?l1 (stack_h_pkt env)"
  let ?h = "frag_header job (word_of_nat (length h_data)) ?l1 (int (i * p)) (int (length (pl i)))"
  let ?rest = "(if i = 0 then h_data else []) @ pl i"
  let ?bytes = "encode_header ?h @ ?ph @ ?rest" and ?buf = "packet_buf stack (encode_header ?h @ ?ph @ ?rest)"
  have l1: "?l1 \<le> 32" "length ?ph = ?l1"
    using pkt_hdr_len_le [OF assms(1), of job c] assms(1) by (auto simp: hooks_ok_def MON_HEADER_SPACE_def)
  have w: "wire_bytes (frag_dgram env sock job c h_data (i * p, pl i)) = ?bytes"
    using assms(7) by (simp add: wire_bytes_def frag_dgram_def Let_def)
  have d: "decode_header ?buf = ?h" using header.dec_enc [of ?h] by (simp add: packet_buf_def)
  have hl: "length (encode_header ?h) = MSG_HEADER_SIZE" by (rule header.length_enc) simp
  have lph: "uint (len_mon_packet_hdr ?h) = int ?l1" using l1 by (simp add: frag_header_def uint_nat unat_of_nat)
  have pos: "int MSG_HEADER_SIZE + int ?l1 = int (MSG_HEADER_SIZE + ?l1)" by simp
  have n: "int (length ?bytes) - int (MSG_HEADER_SIZE + ?l1) = int (length ?rest)" using hl l1(2) by simp
  have pk: "fec_pkt stack ?bytes = (?h, ?buf, int (MSG_HEADER_SIZE + ?l1), int (length ?rest))"
    unfolding fec_pkt_def Let_def d lph pos n by (rule refl)
  have "drop (MSG_HEADER_SIZE + ?l1) ?buf = ?rest @ drop (length ?bytes) stack"
    using hl l1(2) by (simp add: packet_buf_def)
  then have rd: "mem_read ?buf (int (MSG_HEADER_SIZE + ?l1)) (int (length ?rest)) = Inr ?rest"
    using hl l1(2) by (simp add: mem_read_def packet_buf_def)
  have "uint (offset ?h) = int (i * p)"
    using assms(6) by (simp only: frag_header_def msg_header.simps of_int_of_nat_eq uint_nat unat_of_nat) simp
  moreover have "uint (msg_length ?h) = int (length (sj_msg job))"
    using assms(2-4) by (simp add: frag_header_def uint_nat unat_of_nat)
  moreover have "hdr_mon ?h = int (length h_data)"
    using assms(5) by (simp add: hdr_mon_def frag_header_def uint_nat unat_of_nat)
  moreover have "hdr_con ?h = rx_con (job_rx job h_data)" "hdr_seq ?h = rx_seq (job_rx job h_data)"
    "msg_type ?h = rx_type (job_rx job h_data)"
    by (simp_all add: hdr_con_def hdr_seq_def frag_header_def job_rx_def)
  ultimately show ?thesis
    unfolding w pk fec_carries_def prod.case using rd by (simp add: job_rx_def hdr_off_def)
qed

text \<open>
  \<open>recv_pkg\<close> of this build compares the length of the message with its bound only, since the offsets of encoded packets
  go beyond it. The handlers of the other packets, for answers of the STUN server, connection messages and NACKs, are
  those of this build and arguments here.
\<close>

record 's other_handlers =
  on_stun :: "byte list \<Rightarrow> nat \<Rightarrow> 's \<Rightarrow> 's res option"
  on_conn :: "msg_header \<Rightarrow> byte list \<Rightarrow> int \<Rightarrow> int \<Rightarrow> sockaddr \<Rightarrow> 's \<Rightarrow> 's res option"
  on_nack :: "msg_header \<Rightarrow> byte list \<Rightarrow> int \<Rightarrow> 's \<Rightarrow> 's res option"

definition fec_bad_lengths :: "msg_header \<Rightarrow> bool" where
  "fec_bad_lengths h \<longleftrightarrow> msg_length h > 0x20000 \<or> msg_length h = 0"

definition fec_handle_msg :: "'e fec_env_scheme \<Rightarrow> 'a fec_ml_scheme other_handlers \<Rightarrow> msg_header \<Rightarrow> byte list \<Rightarrow> int \<Rightarrow> int
    \<Rightarrow> sockaddr \<Rightarrow> 'a fec_ml_scheme \<Rightarrow> 'a fec_ml_scheme res option" where
  "fec_handle_msg env H h buf pos n recv_addr s =
     (if uint (msg_type h) = ML_CON_MSG then on_conn H h buf pos n recv_addr s
      else if uint (msg_type h) = ML_NACK_MSG then on_nack H h buf pos s
      else if msg_type h < 127 then Some (fec_recv_data_msg env h buf pos n s)
      else Some (Inr s))"

definition fec_recv_pkg :: "'e fec_env_scheme \<Rightarrow> 'a fec_ml_scheme other_handlers \<Rightarrow> byte list \<Rightarrow> (byte list \<times> sockaddr) option
    \<Rightarrow> 'a fec_ml_scheme \<Rightarrow> 'a fec_ml_scheme res option" where
  "fec_recv_pkg env H stack d s =
     (case d of None \<Rightarrow> Some (Inr s)
      | Some (bytes, recv_addr) \<Rightarrow>
          (let buf = packet_buf stack bytes; recvSize = length bytes; h = decode_header buf in
           if take 2 buf = [1, 1] then on_stun H buf recvSize s
           else if fec_bad_lengths h then Some (Inr s)
           else if recvSize < MSG_HEADER_SIZE then Some (Inr s)
           else
             (let pos = int MSG_HEADER_SIZE + uint (len_mon_packet_hdr h); n = int recvSize - pos in
              if n < 0 then Some (Inr s)
              else if get_Recv_pkt_inf_cb env then
                (if uint (msg_type h) \<noteq> ML_CON_MSG \<and> no_connection (hdr_con h) s then Some (Inr s)
                 else fec_handle_msg env H h buf pos n recv_addr
                        (s\<lparr> ticks := ticks s + 1,
                            trace := trace s @ [Mon_recv_pkt (drop (nat pos) buf) (int recvSize)] \<rparr>))
              else fec_handle_msg env H h buf pos n recv_addr s)))"

fun fec_recv_pkgs :: "'e fec_env_scheme \<Rightarrow> 'a fec_ml_scheme other_handlers \<Rightarrow> (byte list \<times> byte list \<times> sockaddr) list
    \<Rightarrow> 'a fec_ml_scheme \<Rightarrow> 'a fec_ml_scheme res option" where
  "fec_recv_pkgs env H [] s = Some (Inr s)"
| "fec_recv_pkgs env H ((d, stack, a) # ps) s = opt_bind (fec_recv_pkg env H stack (Some (d, a)) s) (fec_recv_pkgs env H ps)"

text \<open>
  A datagram of an encoded message passes the checks of \<open>recv_pkg\<close>, if the message is no longer than 128 KB and the path
  MTU leaves room for the headers in the receive buffer: the sender does not subtract them from the path MTU.
\<close>

lemma fec_dgram_received:
  assumes "hooks_ok env" "\<not> sj_truncable job" "sj_msg_len job = int (length (sj_msg job))" "length (sj_msg job) \<le> 0x20000"
    and "sj_msg job \<noteq> []" "sj_msg_type job = 17" "i * p < 2 ^ 24" "\<not> get_Recv_pkt_inf_cb env2"
  shows "fec_recv_pkg env2 H stack (Some (wire_bytes (frag_dgram env sock job c h_data (i * p, b)), a)) s
    = Some (case fec_pkt stack (wire_bytes (frag_dgram env sock job c h_data (i * p, b))) of
        (h, buf, pos, n) \<Rightarrow> fec_recv_data_msg env2 h buf pos n s)"
proof -
  let ?l1 = "pkt_hdr_len env job c"
  let ?ph = "take ?l1 (stack_h_pkt env)"
  let ?h = "frag_header job (word_of_nat (length h_data)) ?l1 (int (i * p)) (int (length b))"
  let ?rest = "(if i * p = 0 then h_data else []) @ b"
  let ?bytes = "encode_header ?h @ ?ph @ ?rest" and ?buf = "packet_buf stack (encode_header ?h @ ?ph @ ?rest)"
  have l1: "?l1 \<le> 32" "length ?ph = ?l1"
    using pkt_hdr_len_le [OF assms(1), of job c] assms(1) by (auto simp: hooks_ok_def MON_HEADER_SPACE_def)
  have w: "wire_bytes (frag_dgram env sock job c h_data (i * p, b)) = ?bytes"
    by (simp add: wire_bytes_def frag_dgram_def Let_def)
  have d: "decode_header ?buf = ?h" using header.dec_enc [of ?h] by (simp add: packet_buf_def)
  have hl: "length (encode_header ?h) = MSG_HEADER_SIZE" by (rule header.length_enc) simp
  have lph: "uint (len_mon_packet_hdr ?h) = int ?l1" using l1 by (simp add: frag_header_def uint_nat unat_of_nat)
  have n: "int (length ?bytes) - (int MSG_HEADER_SIZE + int ?l1) = int (length ?rest)" using hl l1(2) by simp
  have ty: "msg_type ?h = 17" using assms(6) by (simp add: frag_header_def)
  have ml: "unat (msg_length ?h) = length (sj_msg job)"
    using assms(2-4) by (simp add: frag_header_def unat_of_nat)
  have bad: "\<not> fec_bad_lengths ?h"
    using assms(4,5) ml by (auto simp: fec_bad_lengths_def word_less_nat_alt unat_eq_0)
  have "take 2 ?buf = [ucast (drop_bit 24 (offset ?h)), ucast (drop_bit 16 (offset ?h))]"
    by (simp add: packet_buf_def encode_header_def be32_def)
  moreover have "(ucast (drop_bit 24 (offset ?h)) :: byte) \<noteq> 1"
  proof -
    have "unat (offset ?h) = i * p"
      using assms(7) by (simp only: frag_header_def msg_header.simps of_int_of_nat_eq unat_of_nat) simp
    then have "unat (drop_bit 24 (offset ?h)) = 0"
      using assms(7) by (simp only: unat_drop_bit_eq) (simp add: drop_bit_eq_div)
    then have "drop_bit 24 (offset ?h) = 0" by (simp add: unat_eq_zero)
    then show ?thesis by simp
  qed
  ultimately have st: "take 2 ?buf \<noteq> [1, 1]" by simp
  have rs: "\<not> length ?bytes < MSG_HEADER_SIZE" using hl by simp
  have pk: "fec_pkt stack ?bytes = (?h, ?buf, int MSG_HEADER_SIZE + int ?l1, int (length ?rest))"
    unfolding fec_pkt_def Let_def d lph n by (rule refl)
  show ?thesis
    unfolding w pk prod.case fec_recv_pkg_def option.case Let_def d lph n
    using st bad rs ty assms(8) by (simp add: fec_handle_msg_def ML_CON_MSG_def ML_NACK_MSG_def)
qed

lemma fec_recv_pkgs_all:
  assumes "\<And>k s. k \<in> set ks \<Longrightarrow> fec_recv_pkg env H (stacks k) (Some (d k, addrs k)) s
      = Some (case fec_pkt (stacks k) (d k) of (h, buf, pos, n) \<Rightarrow> fec_recv_data_msg env h buf pos n s)"
  shows "fec_recv_pkgs env H (map (\<lambda>k. (d k, stacks k, addrs k)) ks) s = Some (fec_recv_all env (map (\<lambda>k. fec_pkt (stacks k) (d k)) ks) s)"
  using assms
proof (induction ks arbitrary: s)
  case (Cons k ks)
  obtain h buf pos n where pk: "fec_pkt (stacks k) (d k) = (h, buf, pos, n)" by (metis prod_cases4)
  have "fec_recv_pkg env H (stacks k) (Some (d k, addrs k)) s = Some (fec_recv_data_msg env h buf pos n s)"
    using Cons.prems [of k s] pk by simp
  moreover have "fec_recv_pkgs env H (map (\<lambda>k. (d k, stacks k, addrs k)) ks) s'
      = Some (fec_recv_all env (map (\<lambda>k. fec_pkt (stacks k) (d k)) ks) s')" for s'
    using Cons.prems by (intro Cons.IH) simp
  ultimately show ?case
    by (cases "fec_recv_data_msg env h buf pos n s") (simp_all add: pk)
qed simp

lemma fec_dgram_fits:
  assumes "hooks_ok env" "length h_data = 20" "length b = p" "p + 75 \<le> MAX_PKT"
  shows "length (wire_bytes (frag_dgram env sock job c h_data (o', b))) \<le> MAX_PKT"
proof -
  have "pkt_hdr_len env job c \<le> 32" using pkt_hdr_len_le [OF assms(1), of job c] by (simp add: MON_HEADER_SPACE_def)
  moreover have "length (encode_header h) = 23" for h by (simp add: encode_header_def)
  ultimately show ?thesis using assms(2-4) by (auto simp: wire_bytes_def frag_dgram_def Let_def min_def)
qed

text \<open>With a path MTU of 1464 or 1472 no datagram of an encoded message fits into the receive buffer.\<close>

theorem fec_dgram_too_long:
  assumes "1449 < length b"
  shows "MAX_PKT < length (wire_bytes (frag_dgram env sock job c h_data (o', b)))"
proof -
  have "length (encode_header h) = 23" for h by (simp add: encode_header_def)
  then show ?thesis using assms by (auto simp: wire_bytes_def frag_dgram_def Let_def MAX_PKT_def)
qed

text \<open>
  C6: In the build with \<open>FEC\<close> a message of type 17 survives the loss of half its packets. The sender pads the
  message with zeros to \<open>npaks\<close> pieces of the path MTU and, with an unlimited rate, puts \<open>2 * npaks\<close> datagrams on the
  wire, each of which fits into the receiver's buffer; any \<open>npaks\<close> of them, of the first 256, handed to \<open>recv_pkg\<close> of a
  receiver with the same path MTU in any order, give one call of the receiver's callback, after the last of them, with
  the padded message. The monitoring data header must have the 20 bytes that \<open>recv_data_msg\<close> has fixed in its code, and
  the path MTU must leave room for the headers, which the sender adds to it.
\<close>

theorem fec_end_to_end:
  fixes t :: "'b fec_ml_scheme"
  assumes "hooks_ok env" "conn cid s = Inr c" "pmtusize c = int p" "20 < p" "p + 75 \<le> MAX_PKT" "unlimited env s" "p + 87 \<le> nat (RTXmaxSize s)"
    and "set_Monitoring_header_data_cb env = Some g" "0 < g (external_socketID c) 17" "get_Send_data_inf_cb env \<noteq> None"
    and "p < length msg" "npaks = length msg div p + 1" "npaks \<le> 256"
    and "ms = msg @ replicate (p - length msg mod p) 0" "job = make_job c cid 17 ms (int (npaks * p)) False"
    and "data_header env job sp c = Inr h_data" "length h_data = 20"
    and "connectbuf t (rx_con (job_rx job h_data)) = Some cd" "pmtusize cd = int p"
    and "rx_ready env2 (job_rx job h_data) f t" "rx_slot (job_rx job h_data) [] t"
    and "npaks * p \<le> 0x20000" "\<not> get_Recv_pkt_inf_cb env2"
  shows "\<exists>s1 ds. fec_send_msg env cid 17 msg (int (length msg)) False sp s = Some (Inr s1) \<and> wire s1 = wire s @ ds
    \<and> length ds = 2 * npaks \<and> (\<forall>d \<in> set ds. length (wire_bytes d) \<le> MAX_PKT)
    \<and> (\<forall>ks stacks addrs. length ks = npaks \<longrightarrow> distinct ks \<longrightarrow> (\<forall>k \<in> set ks. k < 2 * npaks \<and> k < 256) \<longrightarrow>
        (\<exists>t1 q. fec_recv_pkgs env2 H (map (\<lambda>k. (wire_bytes (ds ! k), stacks k, addrs k)) ks) t = Some (Inr t1)
          \<and> trace t1 = trace t @ [Recv_data f ms 17 q] \<and> nrMissingBytes q = 0 \<and> rp_recvFragments q = int npaks))"
proof -
  let ?m = "job_rx job h_data"
  have p0: "0 < p" using assms(4) by simp
  obtain code where code: "fec_new npaks 256 = Some code" using assms(13) by (simp add: fec_new_def GF_SIZE_def Let_def)
  let ?buf = "\<lambda>i. junk_buf env (2 * npaks + i)"
  let ?pl = "encoded code (data_packets p ms) ?buf p"
  let ?D = "\<lambda>i. frag_dgram env (socketfd s) job c h_data (i * p, ?pl i)"
  obtain s1 where s1: "fec_send_msg env cid 17 msg (int (length msg)) False sp s = Some (Inr s1)"
    "wire s1 = wire s @ map ?D [0 ..< 2 * npaks]"
    using fec_send_packets [OF assms(1-3) p0 assms(6-13) code assms(14-16)] by blast
  have lms: "length ms = npaks * p"
    by (rule fec_encode_msg_ok [OF p0 refl assms(12,13), of env]) (simp add: assms(14))
  have j: "\<not> sj_truncable job" "sj_msg job = ms" "sj_msg_len job = int (length (sj_msg job))"
    using lms by (simp_all add: assms(15) make_job_def)
  have small: "length (sj_msg job) < 2 ^ 32" and len: "length (sj_msg job) \<le> 0x20000" "sj_msg job \<noteq> []"
    using lms j(2) assms(12,22) p0 by auto
  have ty: "sj_msg_type job = 17" by (simp add: assms(15) make_job_def)
  have p1: "p \<le> 1472" using assms(5) by (simp add: MAX_PKT_def)
  have m: "fec_msg ?m p npaks" "rx_data ?m = ms" "rx_type ?m = 17"
  proof -
    have "rx_mon ?m = h_data" "rx_data ?m = ms" "rx_type ?m = word_of_int 17" "0 < npaks"
      by (simp_all add: job_rx_def assms(12,15) make_job_def)
    then show "fec_msg ?m p npaks" "rx_data ?m = ms" "rx_type ?m = 17"
      unfolding fec_msg_def using lms assms(4,13,17) by (simp_all only:, simp_all)
  qed
  have slot: "fec_rx_slot ?m p npaks ?pl [] t" using assms(21) by (simp add: fec_rx_slot_def rx_slot_def)
  have off: "k * p < 2 ^ 24" if "k < 256" for k
  proof -
    have "k * p \<le> 256 * 1472" using that p1 by (intro mult_le_mono) auto
    then show ?thesis by simp
  qed
  have got: "\<exists>t1 q. fec_recv_pkgs env2 H (map (\<lambda>k. (wire_bytes (map ?D [0 ..< 2 * npaks] ! k), stacks k, addrs k)) ks) t = Some (Inr t1)
      \<and> trace t1 = trace t @ [Recv_data f ms 17 q] \<and> nrMissingBytes q = 0 \<and> rp_recvFragments q = int npaks"
    if ks: "length ks = npaks" "distinct ks" "\<forall>k \<in> set ks. k < 2 * npaks \<and> k < 256" for ks stacks addrs
  proof -
    have D: "map ?D [0 ..< 2 * npaks] ! k = ?D k" if "k \<in> set ks" for k using ks(3) that by (simp del: upt_Suc)
    have la: "list_all2 (fec_carries ?m p ?pl) (map (\<lambda>k. fec_pkt (stacks k) (wire_bytes (map ?D [0 ..< 2 * npaks] ! k))) ks) ks"
      unfolding list_all2_map1
    proof (rule list.rel_refl_strong)
      fix k assume k: "k \<in> set ks"
      then have "k * p < 2 ^ 32" using off [of k] ks(3) by auto
      then show "fec_carries ?m p ?pl (fec_pkt (stacks k) (wire_bytes (map ?D [0 ..< 2 * npaks] ! k))) k"
        unfolding D [OF k] using fec_dgram_carries [OF assms(1) j(1,3) small assms(17) _ p0] by simp
    qed
    have lt: "\<forall>k \<in> set ks. k < 256" using ks(3) by blast
    have pl: "?pl = encoded code (data_packets p (rx_data ?m)) ?buf p" by (simp only: m(2))
    obtain t1 q where r: "fec_recv_all env2 (map (\<lambda>k. fec_pkt (stacks k) (wire_bytes (map ?D [0 ..< 2 * npaks] ! k))) ks) t = Inr t1"
      "trace t1 = trace t @ [Recv_data f (rx_data ?m) (rx_type ?m) q]" "nrMissingBytes q = 0" "rp_recvFragments q = int npaks"
      using fec_message_recovered [OF m(1) code pl la ks(1,2) lt assms(18-20) slot] by blast
    have "fec_recv_pkgs env2 H (map (\<lambda>k. (wire_bytes (map ?D [0 ..< 2 * npaks] ! k), stacks k, addrs k)) ks) t
        = Some (fec_recv_all env2 (map (\<lambda>k. fec_pkt (stacks k) (wire_bytes (map ?D [0 ..< 2 * npaks] ! k))) ks) t)"
    proof (rule fec_recv_pkgs_all)
      fix k and u :: "'b fec_ml_scheme" assume k: "k \<in> set ks"
      show "fec_recv_pkg env2 H (stacks k) (Some (wire_bytes (map ?D [0 ..< 2 * npaks] ! k), addrs k)) u
        = Some (case fec_pkt (stacks k) (wire_bytes (map ?D [0 ..< 2 * npaks] ! k)) of
            (h, buf, pos, n) \<Rightarrow> fec_recv_data_msg env2 h buf pos n u)"
        unfolding D [OF k] by (rule fec_dgram_received [OF assms(1) j(1,3) len ty off assms(23)]) (use ks(3) k in blast)
    qed
    then show ?thesis using r unfolding m(2,3) by (intro exI [of _ t1] exI [of _ q] conjI) simp_all
  qed
  have fits: "\<forall>d \<in> set (map ?D [0 ..< 2 * npaks]). length (wire_bytes d) \<le> MAX_PKT"
    using fec_dgram_fits [OF assms(1,17) encoded_length assms(5)] by auto
  show ?thesis
    using s1 got fits by (intro exI [of _ s1] exI [of _ "map ?D [0 ..< 2 * npaks]"]) (simp del: upt_Suc)
qed

text \<open>An environment with a monitoring layer that asks for 20 bytes, and a receiver, for the witnesses.\<close>

definition fec_env0 :: "errno option \<Rightarrow> fec_env" where
  "fec_env0 e = ml_env.extend (menv0\<lparr> net := (\<lambda>_ _. e), set_Monitoring_header_data_cb := Some (\<lambda>_ _. 20),
       get_Send_data_inf_cb := Some (\<lambda>_ _ _ _. replicate 20 7) \<rparr>) \<lparr> junk_ix = (\<lambda>_. 0), junk_buf = (\<lambda>_ _. 0) \<rparr>"

definition fec_ml0 :: fec_ml where
  "fec_ml0 = ml.extend (ml0\<lparr> recvcbbuf := [17 \<mapsto> 77] \<rparr>) \<lparr> fec_slots = (\<lambda>_. None) \<rparr>"

lemma fec_env0_simps [simp]:
  "set_Monitoring_header_pkt_cb (fec_env0 e) = None" "set_Monitoring_header_data_cb (fec_env0 e) = Some (\<lambda>_ _. 20)"
  "get_Send_data_inf_cb (fec_env0 e) = Some (\<lambda>_ _ _ _. replicate 20 7)" "get_Recv_data_inf_cb (fec_env0 e) = False" "\<not> get_Recv_pkt_inf_cb (fec_env0 e)"
  "stack_h_pkt (fec_env0 e) = replicate 32 0" "stack_h_data (fec_env0 e) = replicate 32 0"
  "send_pkt_inf (fec_env0 e) = None" "net (fec_env0 e) w d = e"
  by (simp_all add: fec_env0_def ml_env.defs)

lemma fec_env0_hooks: "hooks_ok (fec_env0 e)"
  by (simp add: hooks_ok_def MON_HEADER_SPACE_def)

lemma fec_env0_unlimited: "unlimited (fec_env0 None) ml0"
  using ml0_safe by (simp add: unlimited_def)

lemma fec_ml0_simps [simp]:
  "connectbuf fec_ml0 = [0 \<mapsto> conn0]" "recvdatabuf fec_ml0 = (\<lambda>_. None)" "recvcbbuf fec_ml0 = [17 \<mapsto> 77]"
  "recv_data_callback fec_ml0 = True" "trace fec_ml0 = []"
  by (simp_all add: fec_ml0_def ml.defs)

definition other0 :: "fec_ml other_handlers" where
  "other0 = \<lparr> on_stun = (\<lambda>_ _ s. Some (Inr s)), on_conn = (\<lambda>_ _ _ _ _ s. Some (Inr s)), on_nack = (\<lambda>_ _ _ s. Some (Inr s)) \<rparr>"

theorem fec_end_to_end_witness:
  "\<exists>s1 ds t1 q. fec_send_msg (fec_env0 None) 0 17 (replicate 2000 7) 2000 False params0 ml0 = Some (Inr s1) \<and> wire s1 = ds
    \<and> fec_recv_pkgs (fec_env0 None) other0 [(wire_bytes (ds ! 3), [], zero_sockaddr), (wire_bytes (ds ! 2), [], zero_sockaddr)] fec_ml0
        = Some (Inr t1)
    \<and> trace t1 = [Recv_data 77 (replicate 2000 7 @ replicate 744 0) 17 q]"
proof -
  let ?msg = "replicate 2000 (7 :: byte)" and ?ms = "replicate 2000 (7 :: byte) @ replicate 744 0"
  let ?job = "make_job conn0 0 17 ?ms (int (2 * 1372)) False" and ?h = "replicate 20 (7 :: byte)"
  have h: "data_header (fec_env0 None) ?job params0 conn0 = Inr ?h" by (simp add: data_header_def)
  have rx: "rx_ready (fec_env0 None) (job_rx ?job ?h) 77 fec_ml0"
    by (simp add: rx_ready_def job_rx_def make_job_def conn0_def in_table_def CONNECTBUFSIZE_def MSGMULTIPLEXSIZE_def)
  have "\<exists>i. in_table RECVDATABUFSIZE i" by (rule exI [of _ 0]) (simp add: in_table_def RECVDATABUFSIZE_def)
  then have "in_table RECVDATABUFSIZE (first_free RECVDATABUFSIZE (\<lambda>_. None :: recvdata option))"
    using first_free_cases [of RECVDATABUFSIZE "\<lambda>_. None :: recvdata option"] by auto
  then have sl: "rx_slot (job_rx ?job ?h) [] fec_ml0" by (simp add: rx_slot_def first_match_None)
  have np: "(2 :: nat) = length ?msg div 1372 + 1" and ms: "?ms = ?msg @ replicate (1372 - length ?msg mod 1372) 0" by simp_all
  have cd: "connectbuf fec_ml0 (rx_con (job_rx ?job ?h)) = Some conn0" by (simp add: job_rx_def make_job_def conn0_def)
  have pm: "pmtusize conn0 = int 1372" by (simp add: conn0_def)
  have "\<exists>s1 ds. fec_send_msg (fec_env0 None) 0 17 ?msg (int (length ?msg)) False params0 ml0 = Some (Inr s1) \<and> wire s1 = wire ml0 @ ds
    \<and> length ds = 2 * 2 \<and> (\<forall>d \<in> set ds. length (wire_bytes d) \<le> MAX_PKT)
    \<and> (\<forall>ks stacks addrs. length ks = 2 \<longrightarrow> distinct ks \<longrightarrow> (\<forall>k \<in> set ks. k < 2 * 2 \<and> k < 256) \<longrightarrow>
        (\<exists>t1 q. fec_recv_pkgs (fec_env0 None) other0 (map (\<lambda>k. (wire_bytes (ds ! k), stacks k, addrs k)) ks) fec_ml0 = Some (Inr t1)
          \<and> trace t1 = trace fec_ml0 @ [Recv_data 77 ?ms 17 q] \<and> nrMissingBytes q = 0 \<and> rp_recvFragments q = int 2))"
    by (rule fec_end_to_end [where H = other0 and p = 1372 and npaks = 2 and g = "\<lambda>_ _. 20" and c = conn0 and cd = conn0 and h_data = ?h and job = ?job])
      (rule fec_env0_hooks conn_ml0 pm fec_env0_unlimited np ms refl h cd rx sl | simp add: MAX_PKT_def)+
  then obtain s1 ds where e: "fec_send_msg (fec_env0 None) 0 17 ?msg (int (length ?msg)) False params0 ml0 = Some (Inr s1)" "wire s1 = wire ml0 @ ds"
    and r: "\<And>ks stacks addrs. length ks = 2 \<Longrightarrow> distinct ks \<Longrightarrow> (\<forall>k \<in> set ks. k < 2 * 2 \<and> k < 256) \<Longrightarrow>
        (\<exists>t1 q. fec_recv_pkgs (fec_env0 None) other0 (map (\<lambda>k. (wire_bytes (ds ! k), stacks k, addrs k)) ks) fec_ml0 = Some (Inr t1)
          \<and> trace t1 = trace fec_ml0 @ [Recv_data 77 ?ms 17 q] \<and> nrMissingBytes q = 0 \<and> rp_recvFragments q = int 2)"
    by blast
  from r [of "[3, 2]" "\<lambda>_. []" "\<lambda>_. zero_sockaddr"] show ?thesis using e by auto
qed

lemma fec_send_frag_too_long:
  assumes "hooks_ok env" "tx_safe s" "tx_head s = None" "drain_rate s \<le> 0" "p + 87 \<le> nat (RTXmaxSize s)"
    and "send_pkt_inf env = None" "\<forall>w d. net env w d = Some EMSGSIZE" "conn (sj_con_id job) s = Inr c"
    and "pmtusize c = int p" "sj_msg_type job = 17" "int p < sj_msg_len job" "length hdr \<le> MON_HEADER_SPACE"
    and "i < length pkts" "length (pkts ! i) = p" "int p \<le> chk - off" "0 < pmtu_decrement (int p)"
  obtains s1 chk1 lcnt1 where "fec_send_frag env job pkts ld hdr chk i off s = Some (Inr (Give_up True, chk1, lcnt1, s1))"
    "conn (sj_con_id job) s1 = Inr (c\<lparr> pmtusize := pmtu_decrement (int p), delay := True \<rparr>)"
proof -
  obtain v where v: "fec_frag_iov env job pkts ld hdr chk i off c = Inr v" "length v = 4" "iov_len v \<le> RTXmaxSize s"
    by (rule fec_frag_iov_ok [OF assms(1,9-15,5)])
  have prio: "job_priority job AND HP = 0" by (rule job_priority_low)
  have net: "\<And>w d. net env w d = Some EMSGSIZE" using assms(7) by blast
  obtain s1 where q: "queueOrSendPacket env (socketfd s) v 4 (sj_addr job) (job_priority job) s = Some (Inr (MSGLEN, s1))"
    by (rule queueOrSendPacket_too_long [OF assms(2-4,6) net v(2,3) prio])
  have c1: "conn (sj_con_id job) s1 = Inr c" using assms(8) queueOrSendPacket_ml [OF q] by (simp add: conn_Inr)
  have a: "after_submit job off v MSGLEN s1
      = Inr (Give_up True, set_conn (sj_con_id job) (c\<lparr> pmtusize := pmtu_decrement (int p), delay := True \<rparr>) s1)"
    using c1 assms(9,16) by (simp add: after_submit_def Let_def)
  have cs: "conn (sj_con_id job) (set_conn (sj_con_id job) (c\<lparr> pmtusize := pmtu_decrement (int p), delay := True \<rparr>) s1)
      = Inr (c\<lparr> pmtusize := pmtu_decrement (int p), delay := True \<rparr>)" by (rule conn_set_conn [OF c1])
  have "\<exists>chk1 lcnt1. fec_send_frag env job pkts ld hdr chk i off s = Some (Inr (Give_up True, chk1, lcnt1,
      set_conn (sj_con_id job) (c\<lparr> pmtusize := pmtu_decrement (int p), delay := True \<rparr>) s1))"
    using assms(8) v(1) q a by (simp add: fec_send_frag_def Let_def)
  then show ?thesis using cs that by blast
qed

text \<open>
  C38: A refused datagram is fatal for an encoded message. When the system answers that the first datagram is too
  long, the path MTU is lowered, the padded message is freed with the code, and the second attempt reads it.
\<close>

theorem fec_retry_reads_freed:
  assumes "hooks_ok env" "conn cid s = Inr c" "pmtusize c = int p" "0 < p" "p + 87 \<le> nat (RTXmaxSize s)"
    and "tx_safe s" "tx_head s = None" "drain_rate s \<le> 0" "send_pkt_inf env = None" "\<forall>w d. net env w d = Some EMSGSIZE"
    and "set_Monitoring_header_data_cb env = Some g" "0 < g (external_socketID c) 17" "get_Send_data_inf_cb env \<noteq> None"
    and "p < length msg" "length msg div p < 256" "0 < pmtu_decrement (int p)" "pmtu_decrement (int p) \<le> int p"
  shows "fec_send_msg env cid 17 msg (int (length msg)) False sp s = Some (Inl UseAfterFree)"
proof -
  let ?c = "c\<lparr> seqnr := seqnr c + 1 \<rparr>" and ?s = "set_conn cid (c\<lparr> seqnr := seqnr c + 1 \<rparr>) s"
  let ?job0 = "make_job c cid 17 msg (int (length msg)) False"
  define npaks where "npaks = length msg div p + 1"
  define ms where "ms = msg @ replicate (p - length msg mod p) 0"
  define job where "job = make_job c cid 17 ms (int (npaks * p)) False"
  have np: "npaks \<le> 256" using assms(15) by (simp add: npaks_def)
  obtain code where code: "fec_new npaks 256 = Some code" using np by (simp add: fec_new_def GF_SIZE_def Let_def)
  let ?pkts = "map (encoded code (data_packets p ms) (\<lambda>i. junk_buf env (2 * npaks + i)) p) [0 ..< 2 * npaks]"
  have j: "sj_con_id job = cid" "sj_msg_type job = 17" "sj_msg_len job = int (npaks * p)" by (simp_all add: job_def make_job_def)
  have big: "int p < sj_msg_len job" using padded_length [OF assms(4,14)] j(3) by (simp add: npaks_def)
  have c1: "conn (sj_con_id job) ?s = Inr ?c" using conn_set_conn [OF assms(2)] j by simp
  have prep: "fec_prepare env ?job0 ?c = Inr (job, ?pkts)"
    unfolding job_def by (rule fec_prepare_ok [OF assms(3,4,11-14) npaks_def np code ms_def refl])
  obtain h where h: "data_header env job sp ?c = Inr h" "length h \<le> MON_HEADER_SPACE"
    using data_header_ok [OF assms(1)] by blast
  have ne: "0 < length ?pkts" "length (?pkts ! 0) = p" by (simp add: npaks_def, simp add: npaks_def nth_append)
  have s': "tx_safe ?s" "tx_head ?s = None" "drain_rate ?s \<le> 0" "p + 87 \<le> nat (RTXmaxSize ?s)"
    using assms(5-8) by (simp_all add: set_conn_ready, simp_all add: set_conn_def)
  have pm: "pmtusize ?c = int p" using assms(3) by simp
  have room: "int p \<le> int (length msg) - 0" using assms(14) by simp
  obtain s1 chk1 lcnt1 where f0: "fec_send_frag env job ?pkts (word_of_nat (length h)) h (int (length msg)) 0 0 ?s
      = Some (Inr (Give_up True, chk1, lcnt1, s1))"
      "conn (sj_con_id job) s1 = Inr (?c\<lparr> pmtusize := pmtu_decrement (int p), delay := True \<rparr>)"
    by (rule fec_send_frag_too_long [OF assms(1) s' assms(9,10) c1 pm j(2) big h(2) ne room assms(16)])
  note f = f0(1) f0(2) [unfolded j(1)]
  have cl: "fec_clean_up job ?pkts s1 = Inr True"
    using f(2) j(1,2) big assms(17) ne(1) by (auto simp: fec_clean_up_def)
  have fr: "fec_send_frags env job ?pkts (word_of_nat (length h)) h (int (length msg)) 0 0 ?s = Some (Inr (True, chk1, lcnt1, s1))"
    using f(1) by (subst fec_send_frags.simps) simp
  have "conn (sj_con_id ?job0) ?s = Inr ?c" using c1 j(1) by (simp add: make_job_def)
  then have "fec_send_loop env ?job0 sp (int (length msg)) 0 ?s = Some (Inl UseAfterFree)"
    using prep h(1) fr cl by (subst fec_send_loop.simps) simp
  then show ?thesis using assms(2) by (simp add: fec_send_msg_def)
qed

theorem fec_retry_reads_freed_witness:
  "fec_send_msg (fec_env0 (Some EMSGSIZE)) 0 17 (replicate 2000 7) 2000 False params0 ml0 = Some (Inl UseAfterFree)"
proof -
  have pm: "pmtusize conn0 = int 1372" by (simp add: conn0_def)
  have ml: "tx_head ml0 = None" "drain_rate ml0 \<le> 0" "1372 + 87 \<le> nat (RTXmaxSize ml0)"
    by (simp_all add: ml0_def rate.defs bucket0_def queues.defs init_queues_def)
  have "fec_send_msg (fec_env0 (Some EMSGSIZE)) 0 17 (replicate 2000 7) (int (length (replicate 2000 (7 :: byte)))) False params0 ml0
      = Some (Inl UseAfterFree)"
    by (rule fec_retry_reads_freed [where p = 1372 and g = "\<lambda>_ _. 20" and c = conn0])
      (rule fec_env0_hooks conn_ml0 pm ml ml0_safe(1) | simp add: pmtu_decrement_def)+
  then show ?thesis by simp
qed

end
