(* ===== verification/Alto_Db.thy ===== *)
theory Alto_Db
  imports Sock_Addr
begin

text \<open>
  The data base of the ALTO client (\<open>ALTOclient/ALTOclient.c\<close>): hosts in a doubly linked list whose elements point back
  to the list they are in, and the search for the rating of a host among the addresses of a list. Elements and
  lists live on a heap, a pointer is an address or \<open>None\<close>. An IPv4 address is the number its four bytes make in network
  byte order, so that masking it is \<open>compute_subnet\<close>, which swaps the bytes of its mask.
\<close>

section \<open>The heap\<close>

type_synonym aptr = "nat option"

record alto_elem =
  el_db :: aptr
  el_next :: aptr
  el_prev :: aptr
  el_stamp :: int
  el_host :: u32
  el_mask :: int
  el_rating :: int

record alto_db =
  num_of_elements :: int
  db_first :: aptr
  db_last :: aptr

record alto_heap =
  elems :: "nat \<Rightarrow> alto_elem option"
  dbs :: "nat \<Rightarrow> alto_db option"
  brk :: nat

definition at :: "(nat \<Rightarrow> 'o option) \<Rightarrow> aptr \<Rightarrow> 'o res" where
  "at m p = (case p of None \<Rightarrow> Inl NullDeref | Some a \<Rightarrow> (case m a of None \<Rightarrow> Inl UseAfterFree | Some x \<Rightarrow> Inr x))"

definition upd_el :: "aptr \<Rightarrow> (alto_elem \<Rightarrow> alto_elem) \<Rightarrow> alto_heap \<Rightarrow> alto_heap res" where
  "upd_el p f s = res_map (\<lambda>k. s\<lparr> elems := (elems s)(the p \<mapsto> f k) \<rparr>) (at (elems s) p)"

definition upd_db :: "aptr \<Rightarrow> (alto_db \<Rightarrow> alto_db) \<Rightarrow> alto_heap \<Rightarrow> alto_heap res" where
  "upd_db p f s = res_map (\<lambda>d. s\<lparr> dbs := (dbs s)(the p \<mapsto> f d) \<rparr>) (at (dbs s) p)"

definition free_el :: "aptr \<Rightarrow> alto_heap \<Rightarrow> alto_heap" where
  "free_el p s = s\<lparr> elems := (elems s)(the p := None) \<rparr>"

definition malloc_el :: "alto_elem \<Rightarrow> alto_heap \<Rightarrow> aptr \<times> alto_heap" where
  "malloc_el k s = (Some (brk s), s\<lparr> elems := (elems s)(brk s \<mapsto> k), brk := brk s + 1 \<rparr>)"

lemma at_simps [simp]: "at m None = Inl NullDeref" "m a = Some x \<Longrightarrow> at m (Some a) = Inr x"
  by (simp_all add: at_def)

lemma upd_el_Some [simp]: "elems s a = Some k \<Longrightarrow> upd_el (Some a) f s = Inr (s\<lparr> elems := (elems s)(a \<mapsto> f k) \<rparr>)"
  by (simp add: upd_el_def)

lemma upd_db_Some [simp]: "dbs s a = Some d \<Longrightarrow> upd_db (Some a) f s = Inr (s\<lparr> dbs := (dbs s)(a \<mapsto> f d) \<rparr>)"
  by (simp add: upd_db_def)

section \<open>Managing a data base\<close>

definition alto_db_init :: "alto_heap \<Rightarrow> aptr \<times> alto_heap" where
  "alto_db_init s =
     (Some (brk s), s\<lparr> dbs := (dbs s)(brk s \<mapsto> \<lparr> num_of_elements = 0, db_first = None, db_last = None \<rparr>), brk := brk s + 1 \<rparr>)"

text \<open>The first argument is the answer of \<open>time\<close>.\<close>

definition alto_add_element :: "int \<Rightarrow> aptr \<Rightarrow> aptr \<Rightarrow> alto_heap \<Rightarrow> (int \<times> alto_heap) res" where
  "alto_add_element now db e s =
     (if db = None \<or> e = None then Inr (-1, s)
      else res_bind (at (dbs s) db) (\<lambda>d.
        if db_first d = None \<and> db_last d = None then
          res_bind (upd_db db (\<lambda>d. d\<lparr> db_first := e, db_last := e, num_of_elements := 1 \<rparr>) s) (\<lambda>s1.
          res_map (\<lambda>s2. (1, s2)) (upd_el e (\<lambda>k. k\<lparr> el_next := None, el_prev := None, el_db := db, el_stamp := now \<rparr>) s1))
        else
          res_bind (upd_el (db_last d) (\<lambda>k. k\<lparr> el_next := e \<rparr>) s) (\<lambda>s1.
          res_bind (upd_el e (\<lambda>k. k\<lparr> el_prev := db_last d, el_next := None, el_db := db, el_stamp := now \<rparr>) s1) (\<lambda>s2.
          res_map (\<lambda>s3. (1, s3)) (upd_db db (\<lambda>d. d\<lparr> db_last := e, num_of_elements := num_of_elements d + 1 \<rparr>) s2)))))"

definition alto_rem_element :: "aptr \<Rightarrow> alto_heap \<Rightarrow> (int \<times> alto_heap) res" where
  "alto_rem_element e s =
     (if e = None then Inr (-1, s)
      else res_bind (at (elems s) e) (\<lambda>k. res_bind (at (dbs s) (el_db k)) (\<lambda>d.
        if db_first d = e \<and> db_last d = e then
          res_map (\<lambda>s1. (1, free_el e s1))
            (upd_db (el_db k) (\<lambda>d. d\<lparr> db_first := None, db_last := None, num_of_elements := 0 \<rparr>) s)
        else if db_first d = e then
          res_bind (upd_el (el_next k) (\<lambda>j. j\<lparr> el_prev := None \<rparr>) s) (\<lambda>s1.
          res_map (\<lambda>s2. (1, free_el e s2))
            (upd_db (el_db k) (\<lambda>d. d\<lparr> db_first := el_next k, num_of_elements := num_of_elements d - 1 \<rparr>) s1))
        else if db_last d = e then
          res_bind (upd_el (el_prev k) (\<lambda>j. j\<lparr> el_next := None \<rparr>) s) (\<lambda>s1.
          res_map (\<lambda>s2. (1, free_el e s2))
            (upd_db (el_db k) (\<lambda>d. d\<lparr> db_last := el_prev k, num_of_elements := num_of_elements d - 1 \<rparr>) s1))
        else
          res_bind (upd_el (el_prev k) (\<lambda>j. j\<lparr> el_next := el_next k \<rparr>) s) (\<lambda>s1.
          res_bind (upd_el (el_next k) (\<lambda>j. j\<lparr> el_prev := el_prev k \<rparr>) s1) (\<lambda>s2.
          res_map (\<lambda>s3. (1, free_el e s3))
            (upd_db (el_db k) (\<lambda>d. d\<lparr> num_of_elements := num_of_elements d - 1 \<rparr>) s2))))))"

partial_function (option) purge_loop :: "aptr \<Rightarrow> aptr \<Rightarrow> alto_heap \<Rightarrow> alto_heap res option" where
  "purge_loop db cur s =
     (if cur = None then Some (Inr s)
      else opt_bind (Some (alto_rem_element cur s)) (\<lambda>(_, s1).
           opt_bind (Some (at (dbs s1) db)) (\<lambda>d. purge_loop db (db_first d) s1)))"

definition alto_purge_db :: "aptr \<Rightarrow> alto_heap \<Rightarrow> (int \<times> alto_heap) res option" where
  "alto_purge_db db s =
     (if db = None then Some (Inr (-1, s))
      else opt_bind (Some (at (dbs s) db)) (\<lambda>d. opt_bind (purge_loop db (db_first d) s) (\<lambda>s1. Some (Inr (1, s1)))))"

definition alto_free_db :: "aptr \<Rightarrow> alto_heap \<Rightarrow> (int \<times> alto_heap) res option" where
  "alto_free_db db s =
     (if db = None then Some (Inr (-1, s))
      else opt_bind (alto_purge_db db s) (\<lambda>(r, s1). Some (Inr (r, s1\<lparr> dbs := (dbs s1)(the db := None) \<rparr>))))"

text \<open>A fresh element is filled in and appended; the result of \<open>alto_add_element\<close> is not looked at.\<close>

definition alto_append :: "int \<Rightarrow> aptr \<Rightarrow> alto_elem \<Rightarrow> alto_heap \<Rightarrow> alto_heap res" where
  "alto_append now db k s = (let (e, s1) = malloc_el k s in res_map snd (alto_add_element now db e s1))"

section \<open>Searching\<close>

partial_function (option) rating_walk :: "u32 \<Rightarrow> alto_heap \<Rightarrow> aptr \<Rightarrow> int res option" where
  "rating_walk a s cur =
     (if cur = None then Some (Inr 0)
      else opt_bind (Some (at (elems s) cur)) (\<lambda>k.
        if el_host k = a then Some (Inr (el_rating k)) else rating_walk a s (el_next k)))"

definition get_ALTO_rating_for_host :: "u32 \<Rightarrow> aptr \<Rightarrow> alto_heap \<Rightarrow> int res option" where
  "get_ALTO_rating_for_host a db s =
     (if a = 0 \<or> db = None then Some (Inr 0)
      else opt_bind (Some (at (dbs s) db)) (\<lambda>d. rating_walk a s (db_first d)))"

definition ask_helper_func :: "u32 \<Rightarrow> aptr \<Rightarrow> alto_heap \<Rightarrow> int res option" where
  "ask_helper_func subnet db s = opt_bind (Some (at (dbs s) db)) (\<lambda>d. rating_walk subnet s (db_first d))"

text \<open>A shift of a 32-bit value by 32 or more, or by a negative count, is undefined.\<close>

definition compute_subnet :: "u32 \<Rightarrow> int \<Rightarrow> u32 res" where
  "compute_subnet a prefix =
     (if 0 < prefix \<and> prefix \<le> 32 then Inr (a AND push_bit (nat (32 - prefix)) 0xFFFFFFFF) else Inl BadShift)"

text \<open>The loop counts \<open>i\<close> down to 1; \<open>m\<close> is its variable \<open>mask\<close>, decremented after use.\<close>

fun rating_loop :: "nat \<Rightarrow> u32 \<Rightarrow> int \<Rightarrow> u32 \<Rightarrow> aptr \<Rightarrow> alto_heap \<Rightarrow> int res option" where
  "rating_loop 0 a m subnet db s = Some (Inr 0)"
| "rating_loop (Suc i) a m subnet db s =
     opt_bind (ask_helper_func subnet db s) (\<lambda>c.
       if c = 0 then opt_bind (Some (compute_subnet a m)) (\<lambda>sub. rating_loop i a (m - 1) sub db s)
       else Some (Inr c))"

definition get_alto_rating :: "aptr \<Rightarrow> aptr \<Rightarrow> alto_heap \<Rightarrow> int res option" where
  "get_alto_rating e db s =
     opt_bind (Some (at (elems s) e)) (\<lambda>k.
     opt_bind (Some (compute_subnet (el_host k) (el_mask k))) (\<lambda>sub.
       rating_loop (nat (el_mask k)) (el_host k) (el_mask k) sub db s))"

fun subnet_mask_loop :: "nat \<Rightarrow> int \<Rightarrow> u32 \<Rightarrow> aptr \<Rightarrow> alto_heap \<Rightarrow> int res option" where
  "subnet_mask_loop 0 m subnet db s = Some (Inr 0)"
| "subnet_mask_loop (Suc i) m subnet db s =
     opt_bind (ask_helper_func subnet db s) (\<lambda>c.
       if c = 0 then Some (Inr m) else subnet_mask_loop i (m - 1) subnet db s)"

definition get_alto_subnet_mask :: "aptr \<Rightarrow> aptr \<Rightarrow> alto_heap \<Rightarrow> int res option" where
  "get_alto_subnet_mask e db s =
     opt_bind (Some (at (elems s) e)) (\<lambda>k.
     opt_bind (Some (compute_subnet (el_host k) (el_mask k))) (\<lambda>sub.
       subnet_mask_loop (nat (el_mask k)) (el_mask k) sub db s))"

partial_function (option) magic_walk :: "aptr \<Rightarrow> aptr \<Rightarrow> alto_heap \<Rightarrow> alto_heap res option" where
  "magic_walk db_res cur s =
     (if cur = None then Some (Inr s)
      else opt_bind (get_alto_rating cur db_res s) (\<lambda>r.
           opt_bind (Some (upd_el cur (\<lambda>k. k\<lparr> el_rating := r \<rparr>) s)) (\<lambda>s1.
           opt_bind (Some (at (elems s1) cur)) (\<lambda>k. magic_walk db_res (el_next k) s1))))"

definition alto_do_the_magic :: "aptr \<Rightarrow> aptr \<Rightarrow> alto_heap \<Rightarrow> (int \<times> alto_heap) res option" where
  "alto_do_the_magic db_req db_res s =
     (if db_req = None \<or> db_res = None then Some (Inr (0, s))
      else opt_bind (Some (at (dbs s) db_req)) (\<lambda>d.
           opt_bind (magic_walk db_res (db_first d) s) (\<lambda>s1. Some (Inr (1, s1)))))"

section \<open>Doubly linked lists\<close>

text \<open>\<open>dseg h d q p as r\<close>: from \<open>p\<close> the elements \<open>as\<close> of the list \<open>d\<close> lead to \<open>r\<close>; the first one has \<open>q\<close> before it.\<close>

fun dseg :: "(nat \<Rightarrow> alto_elem option) \<Rightarrow> nat \<Rightarrow> aptr \<Rightarrow> aptr \<Rightarrow> nat list \<Rightarrow> aptr \<Rightarrow> bool" where
  "dseg h d q p [] r \<longleftrightarrow> p = r"
| "dseg h d q p (a # as) r \<longleftrightarrow>
     p = Some a \<and> (\<exists>k. h a = Some k \<and> el_db k = Some d \<and> el_prev k = q \<and> dseg h d (Some a) (el_next k) as r)"

definition ptr_last :: "aptr \<Rightarrow> nat list \<Rightarrow> aptr" where "ptr_last q as = (if as = [] then q else Some (last as))"

lemma ptr_last_simps [simp]: "ptr_last q [] = q" "ptr_last q (a # as) = ptr_last (Some a) as"
  by (simp_all add: ptr_last_def)

lemma dseg_append: "dseg h d q p (as @ bs) r \<longleftrightarrow> (\<exists>m. dseg h d q p as m \<and> dseg h d (ptr_last q as) m bs r)"
  by (induction as arbitrary: q p) auto

lemma dseg_cong: "(\<And>a. a \<in> set as \<Longrightarrow> h' a = h a) \<Longrightarrow> dseg h' d q p as r = dseg h d q p as r"
  by (induction as arbitrary: q p) auto

lemma dseg_upd_other [simp]: "a \<notin> set as \<Longrightarrow> dseg (h(a := v)) d q p as r = dseg h d q p as r"
  by (rule dseg_cong) auto

lemma dseg_alloc: "dseg h d q p as r \<Longrightarrow> a \<in> set as \<Longrightarrow> \<exists>k. h a = Some k \<and> el_db k = Some d"
  by (induction as arbitrary: q p) auto

definition ent :: "alto_elem \<Rightarrow> u32 \<times> int \<times> int" where "ent k = (el_host k, el_mask k, el_rating k)"

lemma ent_link [simp]:
  "ent (k\<lparr> el_next := x \<rparr>) = ent k" "ent (k\<lparr> el_prev := x \<rparr>) = ent k" "ent (k\<lparr> el_db := y \<rparr>) = ent k"
  "ent (k\<lparr> el_stamp := t \<rparr>) = ent k"
  by (simp_all add: ent_def)

definition entries :: "(nat \<Rightarrow> alto_elem option) \<Rightarrow> nat list \<Rightarrow> (u32 \<times> int \<times> int) list" where
  "entries h as = map (\<lambda>a. ent (the (h a))) as"

lemma entries_simps [simp]:
  "entries h [] = []" "entries h (a # as) = ent (the (h a)) # entries h as"
  "entries h (as @ bs) = entries h as @ entries h bs"
  by (simp_all add: entries_def)

lemma entries_upd_other [simp]: "a \<notin> set as \<Longrightarrow> entries (h(a := v)) as = entries h as"
  by (auto simp: entries_def)

lemma entries_upd_same [simp]: "h a = Some k \<Longrightarrow> ent k' = ent k \<Longrightarrow> entries (h(a \<mapsto> k')) as = entries h as"
  by (auto simp: entries_def)

text \<open>The data base at \<open>d\<close> has the elements \<open>as\<close>; addresses from \<open>brk\<close> on are not used.\<close>

definition db_list :: "alto_heap \<Rightarrow> nat \<Rightarrow> nat list \<Rightarrow> bool" where
  "db_list s d as \<longleftrightarrow>
     (\<exists>db. dbs s d = Some db \<and> dseg (elems s) d None (db_first db) as None \<and> db_last db = ptr_last None as
        \<and> distinct as \<and> num_of_elements db = int (length as))"

definition heap_ok :: "alto_heap \<Rightarrow> bool" where
  "heap_ok s \<longleftrightarrow> (\<forall>a. brk s \<le> a \<longrightarrow> elems s a = None \<and> dbs s a = None)"

text \<open>What an operation on the data base \<open>d\<close> leaves alone.\<close>

definition keeps :: "nat \<Rightarrow> alto_heap \<Rightarrow> alto_heap \<Rightarrow> bool" where
  "keeps d s s' \<longleftrightarrow> (\<forall>a k. elems s a = Some k \<longrightarrow> el_db k \<noteq> Some d \<longrightarrow> elems s' a = Some k) \<and> (\<forall>d'. d' \<noteq> d \<longrightarrow> dbs s' d' = dbs s d')"

lemma keeps_refl [simp]: "keeps d s s"
  by (simp add: keeps_def)

lemma alto_keeps_trans: "keeps d s s' \<Longrightarrow> keeps d s' s'' \<Longrightarrow> keeps d s s''"
  unfolding keeps_def by metis

lemma keeps_list:
  assumes "keeps d s s'" "d' \<noteq> d" "db_list s d' bs"
  shows "db_list s' d' bs" "entries (elems s') bs = entries (elems s) bs"
proof -
  obtain db where db: "dbs s d' = Some db" "dseg (elems s) d' None (db_first db) bs None" "db_last db = ptr_last None bs"
      "distinct bs" "num_of_elements db = int (length bs)"
    using assms(3) by (auto simp: db_list_def)
  have same: "elems s' a = elems s a" if "a \<in> set bs" for a
    using dseg_alloc [OF db(2) that] assms(1,2) by (auto simp: keeps_def)
  have "dbs s' d' = Some db" using assms(1,2) db(1) by (simp add: keeps_def)
  then show "db_list s' d' bs" using db(2-5) dseg_cong [OF same] by (simp add: db_list_def)
  show "entries (elems s') bs = entries (elems s) bs" by (simp add: entries_def same)
qed

lemma ptr_last_append [simp]: "ptr_last q (as @ bs) = ptr_last (ptr_last q as) bs"
  by (simp add: ptr_last_def)

lemma db_list_alloc: "db_list s d as \<Longrightarrow> a \<in> set as \<Longrightarrow> \<exists>k. elems s a = Some k \<and> el_db k = Some d"
  by (auto simp: db_list_def dest: dseg_alloc)

lemma alto_append_ok:
  assumes "heap_ok s" "db_list s d as"
  obtains s' where "alto_append now (Some d) k s = Inr s'" "heap_ok s'" "keeps d s s'" "db_list s' d (as @ [brk s])"
    "entries (elems s') (as @ [brk s]) = entries (elems s) as @ [ent k]"
proof -
  obtain db where db: "dbs s d = Some db" "dseg (elems s) d None (db_first db) as None" "db_last db = ptr_last None as"
      "distinct as" "num_of_elements db = int (length as)"
    using assms(2) by (auto simp: db_list_def)
  have free: "elems s (brk s) = None" using assms(1) by (simp add: heap_ok_def)
  then have "brk s \<notin> set as" using db_list_alloc [OF assms(2), of "brk s"] by auto
  note fresh = free this
  have d: "d < brk s" using assms(1) db(1) by (metis heap_ok_def not_le option.distinct(1))
  let ?k = "\<lambda>q. k\<lparr> el_prev := q, el_next := None, el_db := Some d, el_stamp := now \<rparr>"
  show ?thesis
  proof (cases as rule: rev_cases)
    case Nil
    let ?s = "s\<lparr> brk := brk s + 1, elems := (elems s)(brk s \<mapsto> ?k None),
      dbs := (dbs s)(d \<mapsto> db\<lparr> db_first := Some (brk s), db_last := Some (brk s), num_of_elements := 1 \<rparr>) \<rparr>"
    have "alto_append now (Some d) k s = Inr ?s"
      using db Nil by (cases s; cases k) (simp add: alto_append_def malloc_el_def alto_add_element_def)
    then show ?thesis
      by (rule that) (use db fresh d assms(1) Nil in \<open>auto simp: heap_ok_def keeps_def db_list_def\<close>)
  next
    case (snoc xs b)
    obtain kb where kb: "elems s b = Some kb" "el_db kb = Some d" "el_next kb = None" "b \<notin> set xs" "b \<noteq> brk s"
        and xs: "dseg (elems s) d None (db_first db) xs (Some b)" "el_prev kb = ptr_last None xs" "distinct xs" "brk s \<notin> set xs"
      using db(2,4) fresh(2) snoc by (auto simp: dseg_append)
    let ?s = "s\<lparr> brk := brk s + 1, elems := (elems s)(b \<mapsto> kb\<lparr> el_next := Some (brk s) \<rparr>, brk s \<mapsto> ?k (Some b)),
      dbs := (dbs s)(d \<mapsto> db\<lparr> db_last := Some (brk s), num_of_elements := num_of_elements db + 1 \<rparr>) \<rparr>"
    have "alto_append now (Some d) k s = Inr ?s"
      using db snoc kb by (cases s; cases k) (simp add: alto_append_def malloc_el_def alto_add_element_def fun_upd_twist)
    then show ?thesis
      by (rule that) (use db fresh d assms(1) snoc kb xs in \<open>auto simp: heap_ok_def keeps_def db_list_def dseg_append\<close>)
  qed
qed

lemma alto_rem_element_ok:
  assumes "heap_ok s" "db_list s d (xs @ a # ys)"
  obtains s' where "alto_rem_element (Some a) s = Inr (1, s')" "heap_ok s'" "keeps d s s'" "db_list s' d (xs @ ys)"
    "entries (elems s') (xs @ ys) = entries (elems s) (xs @ ys)" "elems s' a = None" "\<forall>b. elems s b = None \<longrightarrow> elems s' b = None"
proof -
  obtain db k where db: "dbs s d = Some db" "dseg (elems s) d None (db_first db) xs (Some a)" "db_last db = ptr_last None (xs @ a # ys)"
      "distinct (xs @ a # ys)" "num_of_elements db = int (length (xs @ a # ys))"
    and k: "elems s a = Some k" "el_db k = Some d" "el_prev k = ptr_last None xs" "dseg (elems s) d (Some a) (el_next k) ys None"
    using assms(2) by (auto simp: db_list_def dseg_append)
  note facts = db k assms(1)
  show ?thesis
  proof (cases xs rule: rev_cases; cases ys)
    assume c: "xs = []" "ys = []"
    let ?s = "s\<lparr> elems := (elems s)(a := None), dbs := (dbs s)(d \<mapsto> db\<lparr> db_first := None, db_last := None, num_of_elements := 0 \<rparr>) \<rparr>"
    have "alto_rem_element (Some a) s = Inr (1, ?s)"
      using facts c by (cases s) (simp add: alto_rem_element_def free_el_def)
    then show ?thesis
      by (rule that) (use facts c in \<open>auto simp: heap_ok_def keeps_def db_list_def\<close>)
  next
    fix y zs assume c: "xs = []" "ys = y # zs"
    obtain ky where ky: "elems s y = Some ky" "el_db ky = Some d" "el_next k = Some y" "y \<noteq> a" "a \<notin> set zs" "y \<notin> set zs"
        "dseg (elems s) d (Some y) (el_next ky) zs None" "distinct zs"
      using facts c by auto
    let ?s = "s\<lparr> elems := (elems s)(y \<mapsto> ky\<lparr> el_prev := None \<rparr>, a := None),
      dbs := (dbs s)(d \<mapsto> db\<lparr> db_first := Some y, num_of_elements := num_of_elements db - 1 \<rparr>) \<rparr>"
    have last: "ptr_last (Some y) zs \<noteq> Some a" using ky(4,5) by (auto simp: ptr_last_def split: if_splits)
    have "alto_rem_element (Some a) s = Inr (1, ?s)"
      using facts c ky last by (cases s) (simp add: alto_rem_element_def free_el_def)
    then show ?thesis
      by (rule that) (use facts c ky in \<open>auto simp: heap_ok_def keeps_def db_list_def\<close>)
  next
    fix ws w assume c: "xs = ws @ [w]" "ys = []"
    obtain kw where kw: "elems s w = Some kw" "el_db kw = Some d" "el_prev k = Some w" "w \<noteq> a" "a \<notin> set ws" "w \<notin> set ws"
        "dseg (elems s) d None (db_first db) ws (Some w)" "el_prev kw = ptr_last None ws" "distinct ws"
      using facts c by (auto simp: dseg_append)
    have first: "db_first db \<noteq> Some a" using kw(4,5,7) by (cases ws) auto
    let ?s = "s\<lparr> elems := (elems s)(w \<mapsto> kw\<lparr> el_next := None \<rparr>, a := None),
      dbs := (dbs s)(d \<mapsto> db\<lparr> db_last := Some w, num_of_elements := num_of_elements db - 1 \<rparr>) \<rparr>"
    have "alto_rem_element (Some a) s = Inr (1, ?s)"
      using facts c kw first by (cases s) (simp add: alto_rem_element_def free_el_def)
    then show ?thesis
      by (rule that) (use facts c kw in \<open>auto simp: heap_ok_def keeps_def db_list_def dseg_append\<close>)
  next
    fix ws w y zs assume c: "xs = ws @ [w]" "ys = y # zs"
    obtain kw where kw: "elems s w = Some kw" "el_db kw = Some d" "el_prev k = Some w" "w \<noteq> a" "a \<notin> set ws" "w \<notin> set ws"
        "dseg (elems s) d None (db_first db) ws (Some w)" "el_prev kw = ptr_last None ws" "distinct ws"
      using facts c by (auto simp: dseg_append)
    obtain ky where ky: "elems s y = Some ky" "el_db ky = Some d" "el_next k = Some y" "y \<noteq> a" "a \<notin> set zs" "y \<notin> set zs"
        "dseg (elems s) d (Some y) (el_next ky) zs None" "distinct zs" "y \<noteq> w" "y \<notin> set ws" "w \<notin> set zs" "set ws \<inter> set zs = {}"
      using facts c by auto
    have first: "db_first db \<noteq> Some a" using kw(4,5,7) by (cases ws) auto
    have last: "ptr_last (Some y) zs \<noteq> Some a" using ky(4,5) by (auto simp: ptr_last_def split: if_splits)
    let ?s = "s\<lparr> elems := (elems s)(w \<mapsto> kw\<lparr> el_next := Some y \<rparr>, y \<mapsto> ky\<lparr> el_prev := Some w \<rparr>, a := None),
      dbs := (dbs s)(d \<mapsto> db\<lparr> num_of_elements := num_of_elements db - 1 \<rparr>) \<rparr>"
    have "alto_rem_element (Some a) s = Inr (1, ?s)"
      using facts c kw ky first last by (cases s) (simp add: alto_rem_element_def free_el_def)
    then show ?thesis
      by (rule that) (use facts c kw ky in \<open>auto simp: heap_ok_def keeps_def db_list_def dseg_append\<close>)
  qed
qed

lemma db_list_Nil: "db_list s d [] \<Longrightarrow> \<exists>db. dbs s d = Some db \<and> db_first db = None"
  by (auto simp: db_list_def)

lemma db_list_Cons: "db_list s d (a # as) \<Longrightarrow> \<exists>db. dbs s d = Some db \<and> db_first db = Some a"
  by (auto simp: db_list_def)

lemma purge_loop_ok:
  assumes "heap_ok s" "db_list s d as"
  shows "\<exists>db s'. dbs s d = Some db \<and> purge_loop (Some d) (db_first db) s = Some (Inr s') \<and> heap_ok s' \<and> keeps d s s'
    \<and> db_list s' d [] \<and> (\<forall>a \<in> set as. elems s' a = None) \<and> (\<forall>b. elems s b = None \<longrightarrow> elems s' b = None)"
  using assms
proof (induction as arbitrary: s)
  case Nil
  then obtain db where "dbs s d = Some db" "db_first db = None" by (auto dest: db_list_Nil)
  then show ?case using Nil by (subst purge_loop.simps) auto
next
  case (Cons a as)
  obtain db where db: "dbs s d = Some db" "db_first db = Some a" using db_list_Cons [OF Cons.prems(2)] by blast
  obtain s1 where s1: "alto_rem_element (Some a) s = Inr (1, s1)" "heap_ok s1" "keeps d s s1" "db_list s1 d as"
      "elems s1 a = None" "\<forall>b. elems s b = None \<longrightarrow> elems s1 b = None"
    using alto_rem_element_ok [OF Cons.prems(1), of d "[]" a as] Cons.prems(2) by auto
  obtain db1 s' where s': "dbs s1 d = Some db1" "purge_loop (Some d) (db_first db1) s1 = Some (Inr s')" "heap_ok s'" "keeps d s1 s'"
      "db_list s' d []" "\<forall>a \<in> set as. elems s' a = None" "\<forall>b. elems s1 b = None \<longrightarrow> elems s' b = None"
    using Cons.IH [OF s1(2,4)] by blast
  have "purge_loop (Some d) (Some a) s = Some (Inr s')"
    using s1(1) s'(1,2) by (subst purge_loop.simps) simp
  then show ?case using db s1 s' alto_keeps_trans [OF s1(3) s'(4)] by auto
qed

lemma alto_purge_db_ok:
  assumes "heap_ok s" "db_list s d as"
  obtains s' where "alto_purge_db (Some d) s = Some (Inr (1, s'))" "heap_ok s'" "keeps d s s'" "db_list s' d []"
    "\<forall>a \<in> set as. elems s' a = None"
  using purge_loop_ok [OF assms] that by (auto simp: alto_purge_db_def)

lemma alto_db_init_ok:
  assumes "heap_ok s" "alto_db_init s = (p, s')"
  shows "p = Some (brk s)" "heap_ok s'" "keeps (brk s) s s'" "db_list s' (brk s) []"
  using assms by (auto simp: alto_db_init_def heap_ok_def keeps_def db_list_def)

section \<open>The interface of a data base\<close>

text \<open>
  What the client of the data bases relies on: appending and purging act on the list of entries of one data base and
  leave the others as they are. The parsers of host lists are clients of it.
\<close>

fun append_all :: "('d \<Rightarrow> 'e \<Rightarrow> 's \<Rightarrow> 's res) \<Rightarrow> 'd \<Rightarrow> 'e list \<Rightarrow> 's \<Rightarrow> 's res" where
  "append_all app d [] s = Inr s"
| "append_all app d (e # es) s = res_bind (app d e s) (append_all app d es)"

locale host_db =
  fixes rep :: "'s \<Rightarrow> 'd \<Rightarrow> 'c list \<Rightarrow> bool" and content_of :: "'e \<Rightarrow> 'c" and app :: "'d \<Rightarrow> 'e \<Rightarrow> 's \<Rightarrow> 's res"
    and purge :: "'d \<Rightarrow> 's \<Rightarrow> 's res option"
  assumes app_ok: "rep s d es \<Longrightarrow> \<exists>s'. app d e s = Inr s' \<and> rep s' d (es @ [content_of e])"
    and app_frame: "rep s d es \<Longrightarrow> rep s d' es' \<Longrightarrow> d' \<noteq> d \<Longrightarrow> app d e s = Inr s' \<Longrightarrow> rep s' d' es'"
    and purge_ok: "rep s d es \<Longrightarrow> \<exists>s'. purge d s = Some (Inr s') \<and> rep s' d []"
    and purge_frame: "rep s d es \<Longrightarrow> rep s d' es' \<Longrightarrow> d' \<noteq> d \<Longrightarrow> purge d s = Some (Inr s') \<Longrightarrow> rep s' d' es'"
begin

lemma append_all_ok:
  assumes "rep s d es"
  shows "\<exists>s'. append_all app d xs s = Inr s' \<and> rep s' d (es @ map content_of xs)
    \<and> (\<forall>d' es'. d' \<noteq> d \<longrightarrow> rep s d' es' \<longrightarrow> rep s' d' es')"
  using assms
proof (induction xs arbitrary: s es)
  case Nil
  then show ?case by auto
next
  case (Cons x xs)
  obtain s1 where s1: "app d x s = Inr s1" "rep s1 d (es @ [content_of x])" using app_ok [OF Cons.prems] by blast
  have frame: "rep s1 d' es'" if "d' \<noteq> d" "rep s d' es'" for d' es'
    by (rule app_frame [OF Cons.prems that(2,1) s1(1)])
  from Cons.IH [OF s1(2)] show ?case using s1(1) frame by auto
qed

text \<open>Refilling a data base.\<close>

lemma refill_ok:
  assumes "rep s d es"
  obtains s1 s2 where "purge d s = Some (Inr s1)" "append_all app d xs s1 = Inr s2" "rep s2 d (map content_of xs)"
    "\<forall>d' es'. d' \<noteq> d \<longrightarrow> rep s d' es' \<longrightarrow> rep s2 d' es'"
proof -
  obtain s1 where s1: "purge d s = Some (Inr s1)" "rep s1 d []" using purge_ok [OF assms] by blast
  obtain s2 where s2: "append_all app d xs s1 = Inr s2" "rep s2 d (map content_of xs)"
      "\<forall>d' es'. d' \<noteq> d \<longrightarrow> rep s1 d' es' \<longrightarrow> rep s2 d' es'"
    using append_all_ok [OF s1(2), of xs] by auto
  show ?thesis using that [OF s1(1) s2(1,2)] s2(3) purge_frame [OF assms _ _ s1(1)] by blast
qed

end

definition db_rep :: "alto_heap \<Rightarrow> nat \<Rightarrow> (u32 \<times> int \<times> int) list \<Rightarrow> bool" where
  "db_rep s d es \<longleftrightarrow> heap_ok s \<and> (\<exists>as. db_list s d as \<and> es = entries (elems s) as)"

definition append_to :: "int \<Rightarrow> nat \<Rightarrow> alto_elem \<Rightarrow> alto_heap \<Rightarrow> alto_heap res" where
  "append_to now d = alto_append now (Some d)"

definition purge_of :: "nat \<Rightarrow> alto_heap \<Rightarrow> alto_heap res option" where
  "purge_of d s = opt_bind (alto_purge_db (Some d) s) (\<lambda>(_, s1). Some (Inr s1))"

lemma db_rep_keeps: "db_rep s d' es \<Longrightarrow> keeps d s s' \<Longrightarrow> heap_ok s' \<Longrightarrow> d' \<noteq> d \<Longrightarrow> db_rep s' d' es"
  unfolding db_rep_def using keeps_list by metis

interpretation adb: host_db db_rep ent "append_to now" purge_of for now
proof
  fix s d es e assume r: "db_rep s d es"
  then obtain as where as: "heap_ok s" "db_list s d as" "es = entries (elems s) as" by (auto simp: db_rep_def)
  obtain s' where s': "alto_append now (Some d) e s = Inr s'" "heap_ok s'" "keeps d s s'" "db_list s' d (as @ [brk s])"
      "entries (elems s') (as @ [brk s]) = entries (elems s) as @ [ent e]"
    by (rule alto_append_ok [OF as(1,2)])
  have "db_rep s' d (es @ [ent e])" unfolding db_rep_def using s'(2,4,5) as(3) by metis
  then show "\<exists>s'. append_to now d e s = Inr s' \<and> db_rep s' d (es @ [ent e])" using s'(1) by (auto simp: append_to_def)
  { fix d' es' s'' assume "db_rep s d' es'" "d' \<noteq> d" "append_to now d e s = Inr s''"
    then show "db_rep s'' d' es'" using s' by (auto simp: append_to_def intro: db_rep_keeps) }
next
  fix s d es assume r: "db_rep s d es"
  then obtain as where as: "heap_ok s" "db_list s d as" "es = entries (elems s) as" by (auto simp: db_rep_def)
  obtain s' where s': "alto_purge_db (Some d) s = Some (Inr (1, s'))" "heap_ok s'" "keeps d s s'" "db_list s' d []"
    by (rule alto_purge_db_ok [OF as(1,2)])
  have "db_rep s' d []" unfolding db_rep_def using s'(2,4) by (metis entries_simps(1))
  then show "\<exists>s'. purge_of d s = Some (Inr s') \<and> db_rep s' d []" using s'(1) by (auto simp: purge_of_def)
  { fix d' es' s'' assume "db_rep s d' es'" "d' \<noteq> d" "purge_of d s = Some (Inr s'')"
    then show "db_rep s'' d' es'" using s' by (auto simp: purge_of_def intro: db_rep_keeps) }
qed

section \<open>What a search finds\<close>

text \<open>The rating of the first entry with an address, 0 when there is none.\<close>

definition rating_in :: "(u32 \<times> int \<times> int) list \<Rightarrow> u32 \<Rightarrow> int" where
  "rating_in es a = (case find (\<lambda>(h, _). h = a) es of None \<Rightarrow> 0 | Some (_, _, r) \<Rightarrow> r)"

lemma rating_in_simps [simp]:
  "rating_in [] a = 0" "rating_in ((h, m, r) # es) a = (if h = a then r else rating_in es a)"
  by (simp_all add: rating_in_def)

lemma rating_walk_ok: "dseg (elems s) d q p as None \<Longrightarrow> rating_walk a s p = Some (Inr (rating_in (entries (elems s) as) a))"
proof (induction as arbitrary: q p)
  case Nil
  then show ?case by (subst rating_walk.simps) simp
next
  case (Cons b as)
  then obtain k where "p = Some b" "elems s b = Some k" "dseg (elems s) d (Some b) (el_next k) as None" by auto
  with Cons.IH show ?case by (subst rating_walk.simps) (simp add: ent_def)
qed

lemma ask_helper_ok: "db_rep s d es \<Longrightarrow> ask_helper_func a (Some d) s = Some (Inr (rating_in es a))"
  by (auto simp: db_rep_def db_list_def ask_helper_func_def rating_walk_ok)

lemma get_ALTO_rating_for_host_ok:
  "db_rep s d es \<Longrightarrow> get_ALTO_rating_for_host a (Some d) s = Some (Inr (if a = 0 then 0 else rating_in es a))"
  by (auto simp: db_rep_def db_list_def get_ALTO_rating_for_host_def rating_walk_ok)

text \<open>
  The network addresses that \<open>get_alto_rating\<close> asks for, from the longest length to the shortest: it asks twice for the
  first one and never for the one of a single bit, unless the first is it. \<open>prefix_rating\<close> is the first rating other than 0 on the
  way. \<open>rating_in\<close> compares whole addresses: an entry counts whenever its address is the one asked for, whatever prefix
  length the entry itself has.
\<close>

definition prefix_of :: "u32 \<Rightarrow> nat \<Rightarrow> u32" where
  "prefix_of a l = a AND push_bit (32 - l) 0xFFFFFFFF"

definition tried :: "nat \<Rightarrow> nat list" where
  "tried m = (if m = 1 then [1] else rev [2 ..< Suc m])"

definition prefix_rating :: "(u32 \<times> int \<times> int) list \<Rightarrow> u32 \<Rightarrow> nat \<Rightarrow> int" where
  "prefix_rating es a m =
     (case find (\<lambda>l. rating_in es (prefix_of a l) \<noteq> 0) (tried m) of None \<Rightarrow> 0 | Some l \<Rightarrow> rating_in es (prefix_of a l))"

lemma compute_subnet_ok: "0 < l \<Longrightarrow> l \<le> 32 \<Longrightarrow> compute_subnet a (int l) = Inr (prefix_of a l)"
  by (simp add: compute_subnet_def prefix_of_def nat_diff_distrib)

text \<open>With \<open>i\<close> rounds to go the loop asks for \<open>l\<close>, then for \<open>i\<close>, \<open>i - 1\<close>, \<open>..\<close>, 2.\<close>

lemma rating_loop_ok:
  assumes "db_rep s d es" "i \<le> 32"
  shows "rating_loop i a (int i) (prefix_of a l) (Some d) s =
    Some (Inr (if i = 0 then 0 else case find (\<lambda>l. rating_in es (prefix_of a l) \<noteq> 0) (l # rev [2 ..< Suc i]) of
      None \<Rightarrow> 0 | Some l \<Rightarrow> rating_in es (prefix_of a l)))"
  using assms(2)
proof (induction i arbitrary: l)
  case 0
  then show ?case by simp
next
  case (Suc i)
  have sub: "compute_subnet a (int (Suc i)) = Inr (prefix_of a (Suc i))" using Suc.prems by (intro compute_subnet_ok) auto
  have m: "int (Suc i) - 1 = int i" by simp
  show ?case
  proof (cases "rating_in es (prefix_of a l) = 0")
    case False
    then show ?thesis by (simp add: ask_helper_ok [OF assms(1)])
  next
    case True
    have ind: "rating_loop i a (int i) (prefix_of a (Suc i)) (Some d) s = Some (Inr (if i = 0 then 0 else
        case find (\<lambda>l. rating_in es (prefix_of a l) \<noteq> 0) (Suc i # rev [2 ..< Suc i]) of
          None \<Rightarrow> 0 | Some l \<Rightarrow> rating_in es (prefix_of a l)))"
      by (rule Suc.IH) (use Suc.prems in simp)
    have up: "i \<noteq> 0 \<Longrightarrow> rev [2 ..< Suc (Suc i)] = Suc i # rev [2 ..< Suc i]" by simp
    show ?thesis
      unfolding rating_loop.simps ask_helper_ok [OF assms(1)] opt_bind_simps True sub m ind
      using True up by (cases "i = 0") auto
  qed
qed

lemma get_alto_rating_ok:
  assumes "db_rep s d es" "elems s e = Some k" "0 < el_mask k" "el_mask k \<le> 32"
  shows "get_alto_rating (Some e) (Some d) s = Some (Inr (prefix_rating es (el_host k) (nat (el_mask k))))"
proof -
  obtain m where m: "el_mask k = int m" "0 < m" "m \<le> 32" using assms(3,4) by (metis nat_int zero_less_imp_eq_int of_nat_le_iff of_nat_numeral)
  have t: "find P (m # rev [2 ..< Suc m]) = find P (tried m)" for P
    using m(2) by (cases "m = 1") (simp_all add: tried_def)
  have n: "m \<noteq> 0" using m(2) by simp
  have "rating_loop m (el_host k) (int m) (prefix_of (el_host k) m) (Some d) s = Some (Inr (prefix_rating es (el_host k) m))"
    using rating_loop_ok [OF assms(1) m(3), where l = m] by (simp only: t prefix_rating_def n if_False)
  then show ?thesis using assms(2) m by (simp add: get_alto_rating_def compute_subnet_ok)
qed

lemma mask_out_of_range:
  assumes "elems s e = Some k" "el_mask k \<le> 0 \<or> 32 < el_mask k"
  shows "get_alto_rating (Some e) db s = Some (Inl BadShift)"
  using assms by (auto simp: get_alto_rating_def compute_subnet_def)

text \<open>The other search stops at once when nothing is found and counts down to 0 when something is.\<close>

lemma get_alto_subnet_mask_ok:
  assumes "db_rep s d es" "elems s e = Some k" "el_mask k = int m" "0 < m" "m \<le> 32"
  shows "get_alto_subnet_mask (Some e) (Some d) s =
    Some (Inr (if rating_in es (prefix_of (el_host k) m) = 0 then int m else 0))"
proof -
  have loop: "subnet_mask_loop i j b (Some d) s = Some (Inr (if i = 0 \<or> rating_in es b \<noteq> 0 then 0 else j))" for i j b
    by (induction i arbitrary: j) (auto simp: ask_helper_ok [OF assms(1)])
  show ?thesis
    using assms(2-5) by (simp add: get_alto_subnet_mask_def compute_subnet_ok loop)
qed

text \<open>
  The search is not a longest prefix match. 10.0.1.5 gets the rating of 10.0.0.0/24, which it is not in: cut to 22 bits it
  is 10.0.0.0.
\<close>

theorem rating_outside_prefix:
  "prefix_rating [(0x0A000000, 24, 7)] 0x0A000105 32 = 7" "prefix_of 0x0A000105 24 \<noteq> 0x0A000000"
  by code_simp+

text \<open>192.0.0.1 is in 128.0.0.0/1 and gets no rating from it.\<close>

theorem one_bit_never_tried:
  "prefix_rating [(0x80000000, 1, 7)] 0xC0000001 32 = 0" "prefix_of 0xC0000001 1 = 0x80000000"
  by code_simp+

text \<open>A prefix rated 0 is passed over for a shorter one.\<close>

theorem zero_rating_skipped:
  "prefix_rating [(0x0A010000, 16, 0), (0x0A000000, 8, 3)] 0x0A010203 32 = 3" "prefix_of 0x0A010203 16 = 0x0A010000"
  by code_simp+

section \<open>Rating a list of hosts\<close>

definition rate :: "(u32 \<times> int \<times> int) list \<Rightarrow> u32 \<times> int \<times> int \<Rightarrow> u32 \<times> int \<times> int" where
  "rate es = (\<lambda>(a, m, r). (a, m, prefix_rating es a (nat m)))"

definition mask_ok :: "u32 \<times> int \<times> int \<Rightarrow> bool" where
  "mask_ok = (\<lambda>(a, m, r). 0 < m \<and> m \<le> 32)"

lemma db_rep_rated:
  assumes "db_rep s q es" "elems s a = Some k" "el_db k = Some d" "d \<noteq> q"
  shows "db_rep (s\<lparr> elems := (elems s)(a \<mapsto> k\<lparr> el_rating := r \<rparr>) \<rparr>) q es"
proof -
  have "keeps d s (s\<lparr> elems := (elems s)(a \<mapsto> k\<lparr> el_rating := r \<rparr>) \<rparr>)"
    using assms(2,3) by (auto simp: keeps_def)
  moreover have "heap_ok (s\<lparr> elems := (elems s)(a \<mapsto> k\<lparr> el_rating := r \<rparr>) \<rparr>)"
    using assms(1,2) by (auto simp: db_rep_def heap_ok_def)
  ultimately show ?thesis using db_rep_keeps [OF assms(1)] assms(4) by simp
qed

lemma magic_walk_ok:
  assumes "db_rep s q rs" "d \<noteq> q" "dseg (elems s) d pr p as None" "distinct as" "list_all mask_ok (entries (elems s) as)"
  shows "\<exists>s'. magic_walk (Some q) p s = Some (Inr s') \<and> db_rep s' q rs \<and> dbs s' = dbs s \<and> brk s' = brk s
    \<and> dseg (elems s') d pr p as None \<and> entries (elems s') as = map (rate rs) (entries (elems s) as)
    \<and> (\<forall>b. b \<notin> set as \<longrightarrow> elems s' b = elems s b)"
  using assms
proof (induction as arbitrary: s pr p)
  case Nil
  then show ?case by (subst magic_walk.simps) simp
next
  case (Cons a as)
  then obtain k where k: "p = Some a" "elems s a = Some k" "el_db k = Some d" "el_prev k = pr" "dseg (elems s) d (Some a) (el_next k) as None"
    and d: "a \<notin> set as" "distinct as" and m: "0 < el_mask k" "el_mask k \<le> 32" "list_all mask_ok (entries (elems s) as)"
    by (auto simp: mask_ok_def ent_def)
  let ?k = "k\<lparr> el_rating := prefix_rating rs (el_host k) (nat (el_mask k)) \<rparr>"
  let ?s = "s\<lparr> elems := (elems s)(a \<mapsto> ?k) \<rparr>"
  have r: "get_alto_rating (Some a) (Some q) s = Some (Inr (prefix_rating rs (el_host k) (nat (el_mask k))))"
    by (rule get_alto_rating_ok [OF Cons.prems(1) k(2) m(1,2)])
  have rep: "db_rep ?s q rs" by (rule db_rep_rated [OF Cons.prems(1) k(2,3) Cons.prems(2)])
  have seg: "dseg (elems ?s) d (Some a) (el_next k) as None" and lm: "list_all mask_ok (entries (elems ?s) as)"
    using k(5) d m(3) by simp_all
  obtain s' where s': "magic_walk (Some q) (el_next k) ?s = Some (Inr s')" "db_rep s' q rs" "dbs s' = dbs ?s" "brk s' = brk ?s"
      "dseg (elems s') d (Some a) (el_next k) as None" "entries (elems s') as = map (rate rs) (entries (elems ?s) as)"
      "\<forall>b. b \<notin> set as \<longrightarrow> elems s' b = elems ?s b"
    using Cons.IH [OF rep Cons.prems(2) seg d(2) lm] by blast
  have a: "elems s' a = Some ?k" using s'(7) d(1) by simp
  have "magic_walk (Some q) p s = Some (Inr s')"
    using s'(1) k(1,2) by (subst magic_walk.simps) (simp add: r)
  moreover have "dseg (elems s') d pr p (a # as) None" using s'(5) a k by simp
  moreover have "entries (elems s') (a # as) = map (rate rs) (entries (elems s) (a # as))"
    using s'(6) a k(2) d(1) by (simp add: rate_def ent_def)
  ultimately show ?case using s'(2-4,7) by auto
qed

lemma alto_do_the_magic_ok:
  assumes "db_rep s d es" "db_rep s q rs" "d \<noteq> q" "list_all mask_ok es"
  obtains s' where "alto_do_the_magic (Some d) (Some q) s = Some (Inr (1, s'))" "db_rep s' d (map (rate rs) es)" "db_rep s' q rs"
proof -
  obtain as db where as: "heap_ok s" "dbs s d = Some db" "dseg (elems s) d None (db_first db) as None" "db_last db = ptr_last None as"
      "distinct as" "num_of_elements db = int (length as)" "es = entries (elems s) as"
    using assms(1) by (auto simp: db_rep_def db_list_def)
  obtain s' where s': "magic_walk (Some q) (db_first db) s = Some (Inr s')" "db_rep s' q rs" "dbs s' = dbs s" "brk s' = brk s"
      "dseg (elems s') d None (db_first db) as None" "entries (elems s') as = map (rate rs) (entries (elems s) as)"
    using magic_walk_ok [OF assms(2,3) as(3,5)] assms(4) as(7) by auto
  have l: "db_list s' d as" using s'(3,5) as(2,4-6) by (simp add: db_list_def)
  have h: "heap_ok s'" using s'(2) by (simp add: db_rep_def)
  have "db_rep s' d (map (rate rs) es)" unfolding db_rep_def using l h s'(6) as(7) by metis
  moreover have "alto_do_the_magic (Some d) (Some q) s = Some (Inr (1, s'))"
    using as(2) s'(1) by (simp add: alto_do_the_magic_def)
  ultimately show ?thesis using that s'(2) by blast
qed

end
