(* ===== verification/Alto_Client.thy ===== *)
theory Alto_Client
  imports Alto_Db
begin

text \<open>
  The ALTO client (\<open>ALTOclient/ALTOclient.c\<close>): it asks a server to rate hosts. The hosts become a request document,
  the reply of the server is walked for rated address prefixes, and every host gets a rating found by looking its network addresses up among them. Documents
  are trees; printing and parsing them and the HTTP client are functions of libxml2, fields of \<open>alto_env\<close>. Strings are C
  strings without their NUL. Messages to \<open>stderr\<close> are left out, but for the check that they fit the buffer of
  \<open>alto_debugf\<close>. Files and the lists of the callers are part of the state.
\<close>

section \<open>Addresses as text\<close>

text \<open>\<open>inet_addr\<close> of the C library: one to four numbers, decimal, octal or hexadecimal, the last one filling the rest.\<close>

fun scan_base :: "(char \<Rightarrow> nat option) \<Rightarrow> nat \<Rightarrow> string \<Rightarrow> nat \<Rightarrow> nat \<times> string" where
  "scan_base val b [] n = (n, [])"
| "scan_base val b (c # cs) n = (case val c of Some d \<Rightarrow> scan_base val b cs (n * b + d) | None \<Rightarrow> (n, c # cs))"

definition octal_val :: "char \<Rightarrow> nat option" where
  "octal_val c = (case digit_val c of Some d \<Rightarrow> if d < 8 then Some d else None | None \<Rightarrow> None)"

definition strtoul0 :: "string \<Rightarrow> nat \<times> string" where
  "strtoul0 s =
     (case s of
        CHR ''0'' # x # c # cs \<Rightarrow>
          (if x \<in> {CHR ''x'', CHR ''X''} \<and> xdigit_val c \<noteq> None then scan_base xdigit_val 16 (c # cs) 0
           else scan_base octal_val 8 s 0)
      | CHR ''0'' # cs \<Rightarrow> scan_base octal_val 8 s 0
      | _ \<Rightarrow> scan_base digit_val 10 s 0)"

definition inet_join :: "nat list \<Rightarrow> nat \<Rightarrow> u32 option" where
  "inet_join parts v =
     (if int v < 256 ^ (4 - length parts)
      then Some (word_of_int (foldl (\<lambda>n p. n * 256 + int p) 0 parts * 256 ^ (4 - length parts) + int v)) else None)"

definition inet_part :: "(string \<Rightarrow> nat list \<Rightarrow> u32 option) \<Rightarrow> string \<Rightarrow> nat list \<Rightarrow> u32 option" where
  "inet_part further s parts =
     (if s = [] \<or> digit_val (hd s) = None then None
      else case strtoul0 s of
        (v, []) \<Rightarrow> inet_join parts v
      | (v, c # cs) \<Rightarrow>
          if c = CHR ''.'' then (if v < 256 then further cs (parts @ [v]) else None)
          else if is_blank c then inet_join parts v else None)"

primrec inet_parts :: "nat \<Rightarrow> string \<Rightarrow> nat list \<Rightarrow> u32 option" where
  "inet_parts 0 = inet_part (\<lambda>_ _. None)"
| "inet_parts (Suc dots) = inet_part (inet_parts dots)"

definition inet_addr :: "string \<Rightarrow> u32" where
  "inet_addr s = (case inet_parts 3 s [] of None \<Rightarrow> 0xFFFFFFFF | Some w \<Rightarrow> w)"

definition inet_ntoa :: "u32 \<Rightarrow> string" where
  "inet_ntoa a = dotted (map unat (be32 a))"

definition atoi :: "string \<Rightarrow> int" where
  "atoi s = (case scan_int s of None \<Rightarrow> 0 | Some (n, _) \<Rightarrow> sint (word_of_int (clamp n) :: 32 word))"

text \<open>
  \<open>get_ALTO_host_IP\<close> copies its argument without the NUL into an array that has no room for it, so a text without a
  slash is searched beyond the array. \<open>get_ALTO_host_mask\<close> copies it into 256 characters.
\<close>

definition get_ALTO_host_IP :: "string \<Rightarrow> u32 res" where
  "get_ALTO_host_IP s = (if CHR ''/'' \<in> set s then Inr (inet_addr (takeWhile (\<lambda>c. c \<noteq> CHR ''/'') s)) else Inl OutOfBounds)"

definition get_ALTO_host_mask :: "string \<Rightarrow> int res" where
  "get_ALTO_host_mask s =
     (if 256 \<le> length s then Inl OutOfBounds
      else Inr (case dropWhile (\<lambda>c. c \<noteq> CHR ''/'') s of [] \<Rightarrow> 32 | _ # t \<Rightarrow> sint (word_of_int (atoi t) :: 16 word)))"

section \<open>State\<close>

datatype xml = Elem string "(string \<times> string) list" "xml list" | Leaf string string

record guidance =
  alto_host :: u32
  g_prefix :: int
  g_rating :: int

record thread_args =
  ta_list :: "nat option"
  ta_num :: int
  ta_rc_host :: u32
  ta_pri_rat :: int
  ta_sec_rat :: int

record alto_client =
  mem :: alto_heap
  ALTO_DB_req :: aptr
  ALTO_DB_res :: aptr
  alto_server_url :: string
  user_lists :: "nat \<Rightarrow> guidance list option"
  in_progress :: bool
  threadArgs :: thread_args
  threads :: nat
  files :: "string \<Rightarrow> string option"
  posted :: "(string \<times> string) list"

text \<open>
  \<open>http\<close> is the answer to the n-th request of the run, to an address with a body: the blocks that
  \<open>xmlNanoHTTPRead\<close> returns until its first 0, or \<open>None\<close> for no connection. \<open>xml_parse\<close> is \<open>xmlRecoverMemory\<close>: the nodes
  at the top of the document. \<open>junk_rating\<close> is what \<open>malloc\<close> leaves in the rating of a host read from a file.
\<close>

record alto_env =
  alto_now :: int
  xml_dump :: "xml \<Rightarrow> string"
  http :: "nat \<Rightarrow> string \<Rightarrow> string \<Rightarrow> string list option"
  xml_parse :: "string \<Rightarrow> xml list option"
  junk_rating :: int
  can_append :: "string \<Rightarrow> bool"
  thread_starts :: bool

definition debugf :: "string \<Rightarrow> unit res" where
  "debugf msg = check OutOfBounds (length msg < 1024)"

text \<open>The URL is kept in 256 characters, of which \<open>strncpy\<close> with the length of the argument overwrites only the first.\<close>

definition set_ALTO_server :: "string option \<Rightarrow> alto_client \<Rightarrow> (int \<times> alto_client) res" where
  "set_ALTO_server str st =
     (case str of None \<Rightarrow> Inr (-1, st)
      | Some u \<Rightarrow> if length u \<le> 256 then Inr (1, st\<lparr> alto_server_url := u @ drop (length u) (alto_server_url st) \<rparr>)
                  else Inl OutOfBounds)"

definition c_string :: "string \<Rightarrow> string res" where
  "c_string buf = (if CHR 0x00 \<in> set buf then Inr (takeWhile (\<lambda>c. c \<noteq> CHR 0x00) buf) else Inl OutOfBounds)"

definition get_ALTO_server :: "alto_client \<Rightarrow> string res" where
  "get_ALTO_server st = c_string (alto_server_url st)"

section \<open>The request\<close>

definition crit :: "string \<Rightarrow> string \<Rightarrow> xml" where
  "crit name c = Elem name [(''crit'', c)] []"

definition ipprefix_node :: "string \<Rightarrow> xml" where
  "ipprefix_node t = Elem ''ipprefix'' [(''version'', ''4''), (''prefix'', t)] []"

partial_function (option) host_nodes :: "alto_heap \<Rightarrow> aptr \<Rightarrow> xml list \<Rightarrow> xml list res option" where
  "host_nodes s cur acc =
     (if cur = None then Some (Inr acc)
      else opt_bind (Some (at (elems s) cur)) (\<lambda>k.
        host_nodes s (el_next k) (acc @ [ipprefix_node (inet_ntoa (el_host k) @ ''/'' @ dec_int (el_mask k))])))"

definition request_doc :: "u32 \<Rightarrow> int \<Rightarrow> int \<Rightarrow> xml list \<Rightarrow> xml" where
  "request_doc rc_host pri_rat sec_rat hosts =
     Elem ''alto'' [(''xmlns'', ''urn:ietf:params:xml:ns:p2p:alto'')]
       [Elem ''group_rating_request'' [(''db_version'', ''1234'')]
          ([Elem ''pri_ratcrit'' (if pri_rat = 1 then [(''crit'', ''pref'')] else if pri_rat = 2 then [(''crit'', ''dist'')]
                                   else if pri_rat = 4 then [(''crit'', ''lat'')] else []) []]
           @ (if sec_rat AND 1 = 1 then [crit ''fur_ratcrit'' ''pref''] else [])
           @ (if sec_rat AND 2 = 2 then [crit ''fur_ratcrit'' ''dist''] else [])
           @ (if sec_rat AND 4 = 4 then [crit ''fur_ratcrit'' ''lat''] else [])
           @ [Elem ''rc_hla'' [] [ipprefix_node (inet_ntoa rc_host @ ''/32'')],
              Elem ''cnd_hla'' [] hosts])]"

definition alto_create_request_XML :: "aptr \<Rightarrow> u32 \<Rightarrow> int \<Rightarrow> int \<Rightarrow> alto_heap \<Rightarrow> xml option res option" where
  "alto_create_request_XML db rc_host pri_rat sec_rat s =
     (if db = None then Some (Inr None)
      else opt_bind (Some (at (dbs s) db)) (\<lambda>d. opt_bind (host_nodes s (db_first d) []) (\<lambda>hosts.
        Some (Inr (Some (request_doc rc_host pri_rat sec_rat hosts))))))"

text \<open>The request is posted as a form, put together in a buffer of the length of the document and 2048 more.\<close>

definition POST_BOUNDARY :: string where "POST_BOUNDARY = ''---------------------------12408751047121013601852724877''"
definition crlf :: string where "crlf = [CHR 0x0D, CHR 0x0A]"
definition dquote :: string where "dquote = [CHR 0x22]"

definition POST_add :: "nat \<Rightarrow> string \<Rightarrow> string \<Rightarrow> string \<Rightarrow> string res" where
  "POST_add n name v buf =
     (let b = buf @ ''--'' @ POST_BOUNDARY @ crlf @ ''Content-Disposition: form-data; name='' @ dquote @ name @ dquote
                @ crlf @ crlf @ v @ crlf
      in if length b < n then Inr b else Inl OutOfBounds)"

definition POST_end :: "nat \<Rightarrow> string \<Rightarrow> string res" where
  "POST_end n buf =
     (let b = buf @ ''--'' @ POST_BOUNDARY @ ''--'' @ crlf @ crlf in if length b < n then Inr b else Inl OutOfBounds)"

definition post_data :: "string \<Rightarrow> string res" where
  "post_data doctxt =
     (let n = length doctxt + 2048 in
      res_bind (POST_add n ''alto_xml_request'' doctxt []) (\<lambda>b. res_bind (POST_add n ''action'' ''submit'' b) (POST_end n)))"

text \<open>Three attempts.\<close>

fun POST_send :: "nat \<Rightarrow> alto_env \<Rightarrow> string \<Rightarrow> string \<Rightarrow> alto_client \<Rightarrow> string list option \<times> alto_client" where
  "POST_send 0 env url data st = (None, st)"
| "POST_send (Suc n) env url data st =
     (let st1 = st\<lparr> posted := posted st @ [(url, data)] \<rparr> in
      case http env (length (posted st)) url data of
        Some blocks \<Rightarrow> (Some blocks, st1)
      | None \<Rightarrow> POST_send n env url data st1)"

definition ALTO_REP_BUF_SIZE :: nat where "ALTO_REP_BUF_SIZE = 524288"

text \<open>
  The reply is read block by block, of at most 4096 characters each, without a look at the size of the buffer it goes
  to: \<open>out\<close> is what the buffer has.
\<close>

fun read_reply :: "string list \<Rightarrow> string \<Rightarrow> string res" where
  "read_reply [] out = Inr out"
| "read_reply (b # bs) out =
     (if b = [] then Inr out
      else let out1 = out @ take 4096 b in
           if length out1 \<le> ALTO_REP_BUF_SIZE then read_reply bs out1 else Inl OutOfBounds)"

definition ALTO_request_to_server :: "alto_env \<Rightarrow> xml option \<Rightarrow> alto_client \<Rightarrow> (xml list option \<times> alto_client) res" where
  "ALTO_request_to_server env doc st =
     (case doc of None \<Rightarrow> Inr (None, st)
      | Some d \<Rightarrow>
          res_bind (c_string (alto_server_url st)) (\<lambda>url. res_bind (post_data (xml_dump env d)) (\<lambda>data.
            case POST_send 3 env url data st of
              (None, st1) \<Rightarrow> Inr (None, st1)
            | (Some blocks, st1) \<Rightarrow> res_map (\<lambda>t. (xml_parse env t, st1)) (read_reply blocks []))))"

section \<open>The reply\<close>

fun xml_tag :: "xml \<Rightarrow> string" where
  "xml_tag (Elem n ps ks) = n"
| "xml_tag (Leaf n c) = n"

fun xml_kids :: "xml \<Rightarrow> xml list" where
  "xml_kids (Elem n ps ks) = ks"
| "xml_kids (Leaf n c) = []"

fun xml_prop :: "xml \<Rightarrow> string \<Rightarrow> string option" where
  "xml_prop (Elem n ps ks) p = map_of ps p"
| "xml_prop (Leaf n c) p = None"

text \<open>\<open>xmlNodeListGetString\<close>: the text of the children, NULL without children, which \<open>printf\<close> prints as \<open>(null)\<close>.\<close>

definition kids_text :: "xml \<Rightarrow> string" where
  "kids_text n =
     (if xml_kids n = [] then ''(null)''
      else concat (map (\<lambda>k. case k of Leaf t c \<Rightarrow> if t = ''text'' then c else [] | _ \<Rightarrow> []) (xml_kids n)))"

text \<open>
  The pointer \<open>cur\<close> into the document: the first list is \<open>cur\<close> with the nodes after it, the second one its parent with
  the nodes after that, and so on up to the document; \<open>cur\<close> is NULL when the first list is empty. The three tests
  at the end of the loop follow each other, so that more than one of them may move \<open>cur\<close>.
\<close>

fun to_children :: "xml list list \<Rightarrow> xml list list" where
  "to_children ((c # cs) # ups) = (if xml_kids c \<noteq> [] then xml_kids c # (c # cs) # ups else (c # cs) # ups)"
| "to_children stk = stk"

fun to_next :: "xml list list \<Rightarrow> xml list list" where
  "to_next ((c # cs) # ups) = (if xml_kids c = [] \<and> cs \<noteq> [] then cs # ups else (c # cs) # ups)"
| "to_next stk = stk"

fun to_parent_next :: "xml list list \<Rightarrow> xml list list res" where
  "to_parent_next ((c # cs) # ups) =
     (if xml_kids c = [] \<and> cs = [] then (case ups of (p # ps) # upss \<Rightarrow> Inr (ps # upss) | _ \<Rightarrow> Inl NullDeref)
      else Inr ((c # cs) # ups))"
| "to_parent_next stk = Inl NullDeref"

definition xml_advance :: "xml list list \<Rightarrow> xml list list res" where
  "xml_advance stk = to_parent_next (to_next (to_children stk))"

record parse_st =
  overall_rating :: "string option"
  ratings_done :: bool
  p_mem :: alto_heap

definition rating_msg :: "string \<Rightarrow> int \<Rightarrow> bool \<Rightarrow> string" where
  "rating_msg t r rated = ''rating '' @ t @ '' = '' @ dec_int r @ (if rated then [] else '' (DEFAULT, host not in DB!)'') @ [CHR 0x0A]"

definition parse_ipprefix :: "alto_env \<Rightarrow> aptr \<Rightarrow> xml \<Rightarrow> parse_st \<Rightarrow> (bool \<times> parse_st) res" where
  "parse_ipprefix env db n st =
     (case xml_prop n ''prefix'' of
        None \<Rightarrow> Inr (True, st)
      | Some t \<Rightarrow>
          (let r = (case overall_rating st of Some v \<Rightarrow> atoi v | None \<Rightarrow> 0) in
           res_bind (get_ALTO_host_IP t) (\<lambda>a. res_bind (get_ALTO_host_mask t) (\<lambda>m.
           res_bind (debugf (rating_msg t r (overall_rating st \<noteq> None))) (\<lambda>_.
             res_map (\<lambda>s. (False, st\<lparr> p_mem := s, ratings_done := True \<rparr>))
               (alto_append (alto_now env) db
                  \<lparr> el_db = None, el_next = None, el_prev = None, el_stamp = 0, el_host = a, el_mask = m, el_rating = r \<rparr>
                  (p_mem st)))))))"

definition parse_node :: "alto_env \<Rightarrow> aptr \<Rightarrow> xml \<Rightarrow> parse_st \<Rightarrow> (bool \<times> parse_st) res" where
  "parse_node env db n st =
     res_bind (case xml_prop n ''statuscode'' of
         Some c \<Rightarrow> if xml_tag n = ''group_rating_reply'' then debugf (''*** ALTO reply statuscode = '' @ c @ [CHR 0x0A]) else Inr ()
       | None \<Rightarrow> Inr ()) (\<lambda>_.
     res_bind (if xml_tag n = ''statustext'' then debugf (''*** ALTO reply statustext = '' @ [CHR 0x27] @ kids_text n @ [CHR 0x27, CHR 0x0A]) else Inr ()) (\<lambda>_.
       let st1 = (if xml_tag n = ''cnd_hla'' then st\<lparr> overall_rating := xml_prop n ''overall_rating'' \<rparr> else st) in
       if xml_tag n = ''ipprefix'' then parse_ipprefix env db n st1 else Inr (False, st1)))"

text \<open>The nodes that are still to come.\<close>

primrec xml_nodes :: "xml \<Rightarrow> nat" where
  "xml_nodes (Elem n ps ks) = Suc (sum_list (map xml_nodes ks))"
| "xml_nodes (Leaf n c) = 1"

definition nodes_left :: "xml list list \<Rightarrow> nat" where
  "nodes_left stk = (case stk of [] \<Rightarrow> 0 | xs # ups \<Rightarrow>
     sum_list (map xml_nodes xs) + sum_list (map (\<lambda>l. sum_list (map xml_nodes (tl l))) ups))"

lemma xml_nodes_kids: "xml_nodes c = Suc (sum_list (map xml_nodes (xml_kids c)))"
  by (cases c) simp_all

lemma nodes_left_next: "nodes_left (to_next stk) \<le> nodes_left stk"
  by (cases stk rule: to_next.cases) (auto simp: nodes_left_def)

lemma nodes_left_parent_next: "to_parent_next stk = Inr stk' \<Longrightarrow> nodes_left stk' \<le> nodes_left stk"
  by (cases stk rule: to_parent_next.cases) (auto simp: nodes_left_def split: if_splits list.splits)

lemma xml_advance_less:
  assumes "xml_advance ((c # cs) # ups) = Inr stk'"
  shows "nodes_left stk' < nodes_left ((c # cs) # ups)"
proof (cases "xml_kids c")
  case (Cons k ks)
  let ?stk = "(k # ks) # (c # cs) # ups"
  have "nodes_left stk' \<le> nodes_left ?stk"
    using assms Cons nodes_left_parent_next nodes_left_next [of ?stk] by (fastforce simp: xml_advance_def intro: le_trans)
  also have "\<dots> < nodes_left ((c # cs) # ups)"
    using xml_nodes_kids [of c] Cons by (simp add: nodes_left_def)
  finally show ?thesis .
next
  case Nil
  have "0 < xml_nodes c" by (simp add: xml_nodes_kids)
  then show ?thesis
    using assms Nil by (cases cs) (auto simp: xml_advance_def nodes_left_def split: list.splits if_splits dest!: nodes_left_parent_next)
qed

function parse_loop :: "alto_env \<Rightarrow> aptr \<Rightarrow> xml list list \<Rightarrow> parse_st \<Rightarrow> parse_st res" where
  "parse_loop env db stk st =
     (case stk of
        (c # cs) # ups \<Rightarrow>
          (case parse_node env db c st of
             Inl e \<Rightarrow> Inl e
           | Inr (True, st1) \<Rightarrow> Inr st1
           | Inr (False, st1) \<Rightarrow>
               (case xml_advance ((c # cs) # ups) of Inl e \<Rightarrow> Inl e | Inr stk1 \<Rightarrow> parse_loop env db stk1 st1))
      | _ \<Rightarrow> Inr st)"
  by pat_completeness auto
termination by (relation "measure (\<lambda>(_, _, stk, _). nodes_left stk)") (auto dest: xml_advance_less)

declare parse_loop.simps [simp del]

fun is_elem :: "xml \<Rightarrow> bool" where
  "is_elem (Elem n ps ks) = True"
| "is_elem (Leaf n c) = False"

text \<open>The root element is the first element at the top of the document; the document is its parent.\<close>

definition root_stack :: "xml list \<Rightarrow> xml list list" where
  "root_stack ns = (let r = dropWhile (\<lambda>n. \<not> is_elem n) ns in if r = [] then [] else [r, [Elem [] [] ns]])"

definition alto_parse_from_XML :: "alto_env \<Rightarrow> aptr \<Rightarrow> xml list option \<Rightarrow> alto_heap \<Rightarrow> (int \<times> alto_heap) res" where
  "alto_parse_from_XML env db doc s =
     (case doc of None \<Rightarrow> Inr (-1, s)
      | Some ns \<Rightarrow>
          if db = None then Inr (-1, s)
          else res_map (\<lambda>st. (1, p_mem st))
                 (parse_loop env db (root_stack ns) \<lparr> overall_rating = None, ratings_done = False, p_mem = s \<rparr>))"

section \<open>What the walk visits\<close>

text \<open>
  A text node that is the first or the last child of an element is passed over; in a document whose elements begin and
  end with white space no element is. \<open>pend\<close> has the elements to come, in the order of the document.
\<close>

definition is_text :: "xml \<Rightarrow> bool" where
  "is_text n = (case n of Leaf t c \<Rightarrow> t = ''text'' \<or> t = ''comment'' | _ \<Rightarrow> False)"

primrec laid_out :: "xml \<Rightarrow> bool" where
  "laid_out (Elem n ps ks) \<longleftrightarrow> (ks = [] \<or> is_text (hd ks) \<and> is_text (last ks)) \<and> list_all id (map laid_out ks)"
| "laid_out (Leaf n c) \<longleftrightarrow> is_text (Leaf n c)"

primrec elements :: "xml \<Rightarrow> xml list" where
  "elements (Elem n ps ks) = Elem n ps ks # concat (map elements ks)"
| "elements (Leaf n c) = []"

definition pend :: "xml list list \<Rightarrow> xml list" where
  "pend stk = (case stk of [] \<Rightarrow> [] | xs # ups \<Rightarrow>
     concat (map elements xs) @ concat (map (\<lambda>l. concat (map elements (tl l))) ups))"

lemma pend_simps [simp]:
  "pend [] = []" "pend ([] # ups) = concat (map (\<lambda>l. concat (map elements (tl l))) ups)"
  "pend ((c # cs) # ups) = elements c @ pend (cs # ups)"
  by (simp_all add: pend_def)

lemma pend_up: "pend (xs # (p # ps) # ups) = concat (map elements xs) @ pend (ps # ups)"
  by (simp add: pend_def)

text \<open>
  Every list ends with text, unless it has the root element only, which nothing but the document is above; when the
  walk ends, nothing is to come.
\<close>

fun ups_ok :: "xml list list \<Rightarrow> bool" where
  "ups_ok [] = False"
| "ups_ok (l # r) \<longleftrightarrow> l \<noteq> [] \<and>
     (if r = [] then tl l = []
      else list_all laid_out l \<and> (if tl l = [] then tl r = [] else is_text (last l)) \<and> ups_ok r)"

fun laid_stack :: "xml list list \<Rightarrow> bool" where
  "laid_stack [] = True"
| "laid_stack (xs # ups) =
     (if xs = [] then pend (xs # ups) = []
      else list_all laid_out xs \<and> ups_ok ups \<and> (is_text (last xs) \<or> tl xs = [] \<and> tl ups = []))"

lemma is_text_nodes [simp]: "is_text n \<Longrightarrow> xml_kids n = []" "is_text n \<Longrightarrow> elements n = []" "is_text n \<Longrightarrow> \<not> is_elem n"
  by (auto simp: is_text_def split: xml.splits)

lemma laid_kids: "laid_out c \<Longrightarrow> xml_kids c \<noteq> [] \<Longrightarrow> is_text (hd (xml_kids c)) \<and> is_text (last (xml_kids c)) \<and> list_all laid_out (xml_kids c)"
  by (cases c) (auto simp: list_all_iff)

lemma elements_kids: "laid_out c \<Longrightarrow> elements c = (if is_elem c then [c] else []) @ concat (map elements (xml_kids c))"
  by (cases c) auto

text \<open>The last node of a list of siblings, reached from before, is left again.\<close>

lemma laid_pop:
  assumes "ups_ok ups" "xml_kids c = []"
  shows "\<exists>stk'. to_parent_next ([c] # ups) = Inr stk' \<and> laid_stack stk' \<and> pend ([] # ups) = pend stk'"
proof -
  obtain p ps upss where u: "ups = (p # ps) # upss"
    using assms(1) by (cases ups rule: ups_ok.cases) (auto simp: neq_Nil_conv)
  have "pend ([] # upss) = []" if "ps = []"
    using assms(1) that u by (cases upss; cases "tl upss") (auto simp: neq_Nil_conv)
  moreover have "list_all laid_out ps \<and> ups_ok upss \<and> is_text (last ps)" if "ps \<noteq> []"
    using assms(1) that u by (cases upss) auto
  ultimately have "laid_stack (ps # upss)" by (cases "ps = []") simp_all
  then show ?thesis using assms(2) u by (simp add: pend_def)
qed

lemma laid_next:
  assumes "laid_stack ((c # cs) # ups)" "xml_kids c = []"
  shows "\<exists>stk'. to_parent_next (to_next ((c # cs) # ups)) = Inr stk' \<and> laid_stack stk' \<and> pend (cs # ups) = pend stk'"
proof (cases cs)
  case Nil
  then show ?thesis using laid_pop [OF _ assms(2), of ups] assms by simp
next
  case (Cons c' cs')
  have l: "laid_stack (cs # ups)" using assms(1) Cons by simp
  show ?thesis
  proof (cases "xml_kids c' = [] \<and> cs' = []")
    case False
    then show ?thesis using assms(2) Cons l by auto
  next
    case True
    have "is_text c'" using assms(1) Cons True by simp
    then show ?thesis using laid_pop [of ups c'] l True Cons assms(2) by simp
  qed
qed

lemma advance_pend:
  assumes "laid_stack ((c # cs) # ups)"
  shows "\<exists>stk'. xml_advance ((c # cs) # ups) = Inr stk' \<and> laid_stack stk'
    \<and> pend ((c # cs) # ups) = (if is_elem c then [c] else []) @ pend stk'"
proof -
  have c: "laid_out c" using assms by simp
  show ?thesis
  proof (cases "xml_kids c")
    case Nil
    then show ?thesis using laid_next [OF assms Nil] elements_kids [OF c] by (simp add: xml_advance_def)
  next
    case (Cons k ks)
    have k: "is_text k" "is_text (last (k # ks))" "list_all laid_out (k # ks)" using laid_kids [OF c] Cons by simp_all
    have "\<not> is_text c" using Cons by auto
    then have l: "laid_stack ((k # ks) # (c # cs) # ups)"
      using assms k by (cases ups) (auto split: if_splits)
    obtain stk' where "to_parent_next (to_next ((k # ks) # (c # cs) # ups)) = Inr stk'" "laid_stack stk'"
        "pend (ks # (c # cs) # ups) = pend stk'"
      using laid_next [OF l] k(1) by auto
    then show ?thesis using Cons elements_kids [OF c] k(1) by (simp add: xml_advance_def pend_up)
  qed
qed

fun parse_all :: "alto_env \<Rightarrow> aptr \<Rightarrow> xml list \<Rightarrow> parse_st \<Rightarrow> parse_st res" where
  "parse_all env db [] st = Inr st"
| "parse_all env db (n # ns) st =
     (case parse_node env db n st of
        Inl e \<Rightarrow> Inl e
      | Inr (True, st1) \<Rightarrow> Inr st1
      | Inr (False, st1) \<Rightarrow> parse_all env db ns st1)"

lemma parse_text [simp]: "is_text n \<Longrightarrow> parse_node env db n st = Inr (False, st)"
  by (auto simp: is_text_def parse_node_def split: xml.splits)

lemma parse_loop_all: "laid_stack stk \<Longrightarrow> parse_loop env db stk st = parse_all env db (pend stk) st"
proof (induction "nodes_left stk" arbitrary: stk st rule: less_induct)
  case less
  show ?case
  proof (cases "\<exists>c cs ups. stk = (c # cs) # ups")
    case False
    then have "stk = [] \<or> (\<exists>ups. stk = [] # ups)" by (metis list.exhaust)
    then have "pend stk = []" "parse_loop env db stk st = Inr st" using less.prems by (auto simp: parse_loop.simps split: if_splits)
    then show ?thesis by simp
  next
    case True
    then obtain c cs ups where stk: "stk = (c # cs) # ups" by blast
    obtain stk' where a: "xml_advance stk = Inr stk'" "laid_stack stk'" "pend stk = (if is_elem c then [c] else []) @ pend stk'"
      using advance_pend less.prems unfolding stk by blast
    have ind: "parse_loop env db stk' st1 = parse_all env db (pend stk') st1" if "parse_node env db c st = Inr (False, st1)" for st1
      by (rule less.hyps [OF _ a(2)]) (use xml_advance_less a(1) stk in blast)
    show ?thesis
    proof (cases "is_elem c")
      case e: True
      show ?thesis
        using ind e a by (subst parse_loop.simps) (auto simp: stk split: sum.split bool.split)
    next
      case False
      then have "is_text c" using less.prems stk by (cases c) auto
      then show ?thesis using ind False a by (subst parse_loop.simps) (simp add: stk)
    qed
  qed
qed

section \<open>The ratings of a reply\<close>

text \<open>A prefix has the overall rating of the group that was begun last.\<close>

definition rating_of :: "string option \<Rightarrow> int" where
  "rating_of ov = (case ov of Some v \<Rightarrow> atoi v | None \<Rightarrow> 0)"

fun ratings_of :: "xml list \<Rightarrow> string option \<Rightarrow> (u32 \<times> int \<times> int) list" where
  "ratings_of [] ov = []"
| "ratings_of (n # ns) ov =
     (let ov1 = (if xml_tag n = ''cnd_hla'' then xml_prop n ''overall_rating'' else ov) in
      (if xml_tag n = ''ipprefix'' then
         (case xml_prop n ''prefix'' of None \<Rightarrow> []
          | Some t \<Rightarrow> [(inet_addr (takeWhile (\<lambda>c. c \<noteq> CHR ''/'') t),
                      sint (word_of_int (atoi (tl (dropWhile (\<lambda>c. c \<noteq> CHR ''/'') t))) :: 16 word), rating_of ov1)])
       else []) @ ratings_of ns ov1)"

text \<open>Nodes that are no trouble: what is printed is short, and every prefix has a slash.\<close>

definition node_ok :: "xml \<Rightarrow> bool" where
  "node_ok n \<longleftrightarrow>
     (case xml_prop n ''statuscode'' of Some c \<Rightarrow> length c < 900 | None \<Rightarrow> True)
     \<and> (xml_tag n = ''statustext'' \<longrightarrow> length (kids_text n) < 900)
     \<and> (xml_tag n = ''ipprefix'' \<longrightarrow>
         (case xml_prop n ''prefix'' of Some t \<Rightarrow> CHR ''/'' \<in> set t \<and> length t < 256 | None \<Rightarrow> False))"

lemma length_dec: "n < 10 ^ k \<Longrightarrow> 0 < k \<Longrightarrow> length (dec n) \<le> k"
proof (induction n arbitrary: k rule: dec.induct)
  case (1 n)
  show ?case
  proof (cases "n < 10")
    case True
    then show ?thesis using 1 by (subst dec.simps) simp
  next
    case False
    obtain k' where k: "k = Suc k'" "0 < k'" using 1(2,3) False by (cases k; cases "k - 1") auto
    have "length (dec (n div 10)) \<le> k'" by (rule 1(1)) (use False k 1(2) in auto)
    then show ?thesis using False k by (subst dec.simps) simp
  qed
qed

lemma atoi_bounds: "- (2 ^ 31) \<le> atoi s" "atoi s < 2 ^ 31"
proof -
  have w: "- (2 ^ 31) \<le> sint (w :: 32 word) \<and> sint w < 2 ^ 31" for w
    using sint_ge [of w] sint_lt [of w] by simp
  show "- (2 ^ 31) \<le> atoi s" "atoi s < 2 ^ 31" using w by (auto simp: atoi_def split: option.split)
qed

lemma rating_bounds: "- (2 ^ 31) \<le> rating_of ov" "rating_of ov < 2 ^ 31"
proof -
  show "- (2 ^ 31) \<le> rating_of ov" using atoi_bounds(1) by (cases ov) (simp_all add: rating_of_def)
  show "rating_of ov < 2 ^ 31" using atoi_bounds(2) by (cases ov) (simp_all add: rating_of_def)
qed

lemma length_dec_int: "- (2 ^ 31) \<le> i \<Longrightarrow> i < 2 ^ 31 \<Longrightarrow> length (dec_int i) \<le> 11"
  using length_dec [of "nat i" 10] length_dec [of "nat (- i)" 10] by (auto simp: dec_int_def nat_less_iff)

lemma parse_node_ok:
  assumes "node_ok n" "db_rep (p_mem st) d es"
  shows "\<exists>st'. parse_node env (Some d) n st = Inr (False, st')
    \<and> db_rep (p_mem st') d (es @ ratings_of [n] (overall_rating st))
    \<and> overall_rating st' = (if xml_tag n = ''cnd_hla'' then xml_prop n ''overall_rating'' else overall_rating st)
    \<and> (\<forall>d' es'. d' \<noteq> d \<longrightarrow> db_rep (p_mem st) d' es' \<longrightarrow> db_rep (p_mem st') d' es')"
proof -
  have status: "(case xml_prop n ''statuscode'' of
      Some c \<Rightarrow> if xml_tag n = ''group_rating_reply'' then debugf (''*** ALTO reply statuscode = '' @ c @ [CHR 0x0A]) else Inr ()
    | None \<Rightarrow> Inr ()) = Inr ()"
    using assms(1) by (auto simp: node_ok_def debugf_def split: option.splits)
  have stext: "(if xml_tag n = ''statustext'' then debugf (''*** ALTO reply statustext = '' @ [CHR 0x27] @ kids_text n @ [CHR 0x27, CHR 0x0A])
      else Inr ()) = Inr ()"
    using assms(1) by (auto simp: node_ok_def debugf_def)
  show ?thesis
  proof (cases "xml_tag n = ''ipprefix''")
    case False
    then show ?thesis unfolding parse_node_def status stext using assms(2) by auto
  next
    case True
    then obtain t where t: "xml_prop n ''prefix'' = Some t" "CHR ''/'' \<in> set t" "length t < 256"
      using assms(1) by (auto simp: node_ok_def split: option.splits)
    let ?r = "rating_of (overall_rating st)"
    have r: "length (dec_int ?r) \<le> 11" by (rule length_dec_int [OF rating_bounds])
    have db: "debugf (rating_msg t ?r b) = Inr ()" for b
      using r t(3) by (auto simp: debugf_def rating_msg_def)
    let ?a = "inet_addr (takeWhile (\<lambda>c. c \<noteq> CHR ''/'') t)"
      and ?m = "sint (word_of_int (atoi (tl (dropWhile (\<lambda>c. c \<noteq> CHR ''/'') t))) :: 16 word)"
    have d: "dropWhile (\<lambda>c. c \<noteq> CHR ''/'') t \<noteq> []" using t(2) by (auto simp: dropWhile_eq_Nil_conv)
    have ip: "get_ALTO_host_IP t = Inr ?a" and m: "get_ALTO_host_mask t = Inr ?m"
      using t d by (auto simp: get_ALTO_host_IP_def get_ALTO_host_mask_def split: list.split)
    let ?k = "\<lparr> el_db = None, el_next = None, el_prev = None, el_stamp = 0, el_host = ?a, el_mask = ?m, el_rating = ?r \<rparr>"
    obtain s' where s': "append_to (alto_now env) d ?k (p_mem st) = Inr s'" "db_rep s' d (es @ [ent ?k])"
      using adb.app_ok [OF assms(2)] by blast
    have frame: "db_rep s' d' es'" if "d' \<noteq> d" "db_rep (p_mem st) d' es'" for d' es'
      by (rule adb.app_frame [OF assms(2) that(2,1) s'(1)])
    have "parse_node env (Some d) n st = Inr (False, st\<lparr> p_mem := s', ratings_done := True \<rparr>)"
      unfolding parse_node_def status stext
      using True t(1) ip m db s'(1) by (simp add: parse_ipprefix_def rating_of_def append_to_def)
    then show ?thesis using True t(1) s'(2) frame by (auto simp: ent_def)
  qed
qed

lemma ratings_of_append1: "ratings_of (n # ns) ov =
    ratings_of [n] ov @ ratings_of ns (if xml_tag n = ''cnd_hla'' then xml_prop n ''overall_rating'' else ov)"
  by (simp add: Let_def)

lemma parse_all_ok:
  assumes "list_all node_ok ns" "db_rep (p_mem st) d es"
  shows "\<exists>st'. parse_all env (Some d) ns st = Inr st' \<and> db_rep (p_mem st') d (es @ ratings_of ns (overall_rating st))
    \<and> (\<forall>d' es'. d' \<noteq> d \<longrightarrow> db_rep (p_mem st) d' es' \<longrightarrow> db_rep (p_mem st') d' es')"
  using assms
proof (induction ns arbitrary: st es)
  case Nil
  then show ?case by simp
next
  case (Cons n ns)
  have n: "node_ok n" "list_all node_ok ns" using Cons.prems(1) by simp_all
  obtain st1 where st1: "parse_node env (Some d) n st = Inr (False, st1)"
      "db_rep (p_mem st1) d (es @ ratings_of [n] (overall_rating st))"
      "overall_rating st1 = (if xml_tag n = ''cnd_hla'' then xml_prop n ''overall_rating'' else overall_rating st)"
      "\<forall>d' es'. d' \<noteq> d \<longrightarrow> db_rep (p_mem st) d' es' \<longrightarrow> db_rep (p_mem st1) d' es'"
    using parse_node_ok [OF n(1) Cons.prems(2)] by blast
  obtain st2 where st2: "parse_all env (Some d) ns st1 = Inr st2"
      "db_rep (p_mem st2) d ((es @ ratings_of [n] (overall_rating st)) @ ratings_of ns (overall_rating st1))"
      "\<forall>d' es'. d' \<noteq> d \<longrightarrow> db_rep (p_mem st1) d' es' \<longrightarrow> db_rep (p_mem st2) d' es'"
    using Cons.IH [OF n(2) st1(2)] by blast
  show ?case using st1(1,4) st2 unfolding ratings_of_append1 [of n ns] st1(3) append_assoc by auto
qed

text \<open>The reply: a root element that begins and ends with white space and is followed by comments only.\<close>

definition reply_ok :: "xml list \<Rightarrow> bool" where
  "reply_ok ns \<longleftrightarrow>
     (case dropWhile (\<lambda>n. \<not> is_elem n) ns of [] \<Rightarrow> False
      | r # sibs \<Rightarrow> laid_out r \<and> list_all is_text sibs \<and> list_all node_ok (elements r))"

definition reply_ratings :: "xml list \<Rightarrow> (u32 \<times> int \<times> int) list" where
  "reply_ratings ns = (case dropWhile (\<lambda>n. \<not> is_elem n) ns of [] \<Rightarrow> [] | r # _ \<Rightarrow> ratings_of (elements r) None)"

lemma alto_parse_from_XML_ok:
  assumes "reply_ok ns" "db_rep s d es"
  obtains s' where "alto_parse_from_XML env (Some d) (Some ns) s = Inr (1, s')" "db_rep s' d (es @ reply_ratings ns)"
    "\<forall>d' es'. d' \<noteq> d \<longrightarrow> db_rep s d' es' \<longrightarrow> db_rep s' d' es'"
proof -
  obtain r sibs where r: "dropWhile (\<lambda>n. \<not> is_elem n) ns = r # sibs" "laid_out r" "list_all is_text sibs" "list_all node_ok (elements r)"
    using assms(1) by (auto simp: reply_ok_def split: list.splits)
  have "laid_out n" if "is_text n" for n using that by (cases n) (auto simp: is_text_def)
  then have laid: "list_all laid_out sibs" using r(3) by (auto simp: list_all_iff)
  have sib: "concat (map elements sibs) = []" using r(3) by (auto simp: list_all_iff)
  have stk: "laid_stack (root_stack ns)" "pend (root_stack ns) = elements r"
    using r laid sib by (auto simp: root_stack_def pend_def list_all_iff)
  let ?st = "\<lparr> overall_rating = None, ratings_done = False, p_mem = s \<rparr>"
  obtain st' where st': "parse_all env (Some d) (elements r) ?st = Inr st'"
      "db_rep (p_mem st') d (es @ ratings_of (elements r) None)"
      "\<forall>d' es'. d' \<noteq> d \<longrightarrow> db_rep s d' es' \<longrightarrow> db_rep (p_mem st') d' es'"
    using parse_all_ok [OF r(4), of ?st d es env] assms(2) by auto
  have "alto_parse_from_XML env (Some d) (Some ns) s = Inr (1, p_mem st')"
    using parse_loop_all [OF stk(1)] st'(1) by (simp add: alto_parse_from_XML_def stk(2))
  then show ?thesis using st' r(1) by (intro that) (auto simp: reply_ratings_def)
qed

section \<open>Hosts to rate\<close>

definition fresh_el :: "u32 \<Rightarrow> int \<Rightarrow> int \<Rightarrow> alto_elem" where
  "fresh_el a m r =
     \<lparr> el_db = None, el_next = None, el_prev = None, el_stamp = 0, el_host = a, el_mask = m, el_rating = r \<rparr>"

fun list_loop :: "alto_env \<Rightarrow> aptr \<Rightarrow> guidance list \<Rightarrow> nat \<Rightarrow> nat \<Rightarrow> alto_heap \<Rightarrow> alto_heap res" where
  "list_loop env db gs i 0 s = Inr s"
| "list_loop env db gs i (Suc n) s =
     (if length gs \<le> i then Inl OutOfBounds
      else res_bind (alto_append (alto_now env) db (fresh_el (alto_host (gs ! i)) (g_prefix (gs ! i)) 0) s)
             (list_loop env db gs (Suc i) n))"

definition alto_parse_from_list :: "alto_env \<Rightarrow> aptr \<Rightarrow> guidance list \<Rightarrow> int \<Rightarrow> alto_heap \<Rightarrow> (int \<times> alto_heap) res" where
  "alto_parse_from_list env db gs num s =
     (if db = None then Inr (-1, s) else res_map (\<lambda>s1. (1, s1)) (list_loop env db gs 0 (nat num) s))"

text \<open>
  Lines of a file as \<open>fgets\<close> reads them into 256 characters; the host is the first word, \<open>strtok\<close> being NULL for a
  line of blanks.
\<close>

fun file_loop :: "alto_env \<Rightarrow> aptr \<Rightarrow> string list \<Rightarrow> alto_heap \<Rightarrow> alto_heap res" where
  "file_loop env db [] s = Inr s"
| "file_loop env db (l # ls) s =
     (let w = dropWhile (\<lambda>c. c = CHR '' '') l in
      if w = [] then Inl NullDeref
      else let t = takeWhile (\<lambda>c. c \<noteq> CHR '' '') w in
        res_bind (get_ALTO_host_IP t) (\<lambda>a. res_bind (get_ALTO_host_mask t) (\<lambda>m.
        res_bind (alto_append (alto_now env) db (fresh_el a m (junk_rating env)) s) (file_loop env db ls))))"

definition alto_parse_from_file :: "alto_env \<Rightarrow> aptr \<Rightarrow> string \<Rightarrow> alto_client \<Rightarrow> (int \<times> alto_heap) res" where
  "alto_parse_from_file env db name st =
     res_bind (debugf (''alto_parse_from_file: Read hosts from file ('' @ name @ '') and store it in the Request-DB'' @ [CHR 0x0A])) (\<lambda>_.
       if db = None then Inr (0, mem st)
       else case files st name of None \<Rightarrow> Inr (0, mem st)
       | Some t \<Rightarrow> res_map (\<lambda>s. (1, s)) (file_loop env db (fgets_lines 255 t) (mem st)))"

partial_function (option) write_loop :: "alto_heap \<Rightarrow> aptr \<Rightarrow> string \<Rightarrow> int \<Rightarrow> (string \<times> int) res option" where
  "write_loop s cur out n =
     (if cur = None then Some (Inr (out, n))
      else opt_bind (Some (at (elems s) cur)) (\<lambda>k.
        write_loop s (el_next k)
          (out @ inet_ntoa (el_host k) @ ''/'' @ dec_int (el_mask k) @ '' '' @ [CHR 0x09] @ dec_int (el_rating k) @ '' ''
             @ [CHR 0x09, CHR 0x0A]) (n + 1)))"

definition alto_write_to_file :: "alto_env \<Rightarrow> aptr \<Rightarrow> string \<Rightarrow> alto_client \<Rightarrow> (int \<times> alto_client) res option" where
  "alto_write_to_file env db name st =
     opt_bind (Some (debugf (''alto_write_to_file: Write hosts to file ('' @ name @ ''.out) '' @ [CHR 0x0A]))) (\<lambda>_.
       if db = None then Some (Inr (-1, st))
       else if 256 \<le> length name + 4 then Some (Inl OutOfBounds)
       else let f = name @ ''.out'' in
         if \<not> can_append env f then Some (Inr (0, st))
         else opt_bind (Some (at (dbs (mem st)) db)) (\<lambda>d. opt_bind (write_loop (mem st) (db_first d) [] 0) (\<lambda>(out, n).
           Some (Inr (n, st\<lparr> files := (files st)(f \<mapsto> (case files st f of Some t \<Rightarrow> t | None \<Rightarrow> []) @ out) \<rparr>)))))"

section \<open>The interface\<close>

definition start_ALTO_client :: "alto_client \<Rightarrow> alto_client" where
  "start_ALTO_client st =
     (let (p, s1) = alto_db_init (mem st); (q, s2) = alto_db_init s1
      in st\<lparr> mem := s2, ALTO_DB_req := p, ALTO_DB_res := q \<rparr>)"

text \<open>The pointers are left as they are.\<close>

definition stop_ALTO_client :: "alto_client \<Rightarrow> alto_client res option" where
  "stop_ALTO_client st =
     opt_bind (alto_free_db (ALTO_DB_req st) (mem st)) (\<lambda>(_, s1).
     opt_bind (alto_free_db (ALTO_DB_res st) s1) (\<lambda>(_, s2). Some (Inr (st\<lparr> mem := s2 \<rparr>))))"

definition do_ALTO_update :: "alto_env \<Rightarrow> u32 \<Rightarrow> int \<Rightarrow> int \<Rightarrow> alto_client \<Rightarrow> alto_client res option" where
  "do_ALTO_update env rc_host pri_rat sec_rat st =
     (if ALTO_DB_req st = None then Some (Inr st)
      else opt_bind (alto_create_request_XML (ALTO_DB_req st) rc_host pri_rat sec_rat (mem st)) (\<lambda>doc.
        opt_bind (Some (ALTO_request_to_server env doc st)) (\<lambda>(reply, st1).
        opt_bind
          (case reply of None \<Rightarrow> Some (Inr (mem st1))
           | Some ns \<Rightarrow>
               opt_bind (Some (alto_parse_from_XML env (ALTO_DB_res st1) (Some ns) (mem st1))) (\<lambda>(_, s1).
               opt_bind (alto_do_the_magic (ALTO_DB_req st1) (ALTO_DB_res st1) s1) (\<lambda>(_, s2). Some (Inr s2))))
          (\<lambda>s. opt_bind (alto_purge_db (ALTO_DB_res st1) s) (\<lambda>(_, s1). Some (Inr (st1\<lparr> mem := s1 \<rparr>)))))))"

text \<open>Writing the ratings back into the list of the caller.\<close>

fun write_back :: "alto_client \<Rightarrow> nat \<Rightarrow> nat \<Rightarrow> guidance list \<Rightarrow> guidance list res option" where
  "write_back st i 0 gs = Some (Inr gs)"
| "write_back st i (Suc n) gs =
     (if length gs \<le> i then Some (Inl OutOfBounds)
      else opt_bind (get_ALTO_rating_for_host (alto_host (gs ! i)) (ALTO_DB_req st) (mem st)) (\<lambda>r.
             write_back st (Suc i) n (gs[i := (gs ! i)\<lparr> g_rating := r \<rparr>])))"

definition get_ALTO_guidance_for_list ::
  "alto_env \<Rightarrow> nat option \<Rightarrow> int \<Rightarrow> u32 \<Rightarrow> int \<Rightarrow> int \<Rightarrow> alto_client \<Rightarrow> (int \<times> alto_client) res option" where
  "get_ALTO_guidance_for_list env l num rc_host pri_rat sec_rat st =
     (if l = None then Some (Inr (0, st))
      else if num < 0 then Some (Inr (0, st))
      else opt_bind (alto_purge_db (ALTO_DB_req st) (mem st)) (\<lambda>(_, s1).
           opt_bind (Some (at (user_lists st) l)) (\<lambda>gs.
           opt_bind (Some (alto_parse_from_list env (ALTO_DB_req st) gs num s1)) (\<lambda>(_, s2).
           opt_bind (do_ALTO_update env rc_host pri_rat sec_rat (st\<lparr> mem := s2 \<rparr>)) (\<lambda>st3.
           opt_bind (write_back st3 0 (nat num) gs) (\<lambda>gs1.
             Some (Inr (1, st3\<lparr> user_lists := (user_lists st3)(the l \<mapsto> gs1) \<rparr>))))))))"

definition get_ALTO_guidance_for_txt ::
  "alto_env \<Rightarrow> string option \<Rightarrow> u32 \<Rightarrow> int \<Rightarrow> int \<Rightarrow> alto_client \<Rightarrow> (int \<times> alto_client) res option" where
  "get_ALTO_guidance_for_txt env txt rc_host pri_rat sec_rat st =
     opt_bind (Some (debugf (''get_ALTO_guidance_txt('' @ (case txt of None \<Rightarrow> ''(null)'' | Some t \<Rightarrow> t) @ '') was called '' @ [CHR 0x0A]))) (\<lambda>_.
       case txt of None \<Rightarrow> Some (Inr (0, st))
       | Some name \<Rightarrow>
           if rc_host = 0 \<or> pri_rat < 1 \<or> 3 < pri_rat \<or> sec_rat < 1 \<or> 8 < sec_rat then Some (Inr (0, st))
           else opt_bind (alto_purge_db (ALTO_DB_req st) (mem st)) (\<lambda>(_, s1).
                opt_bind (Some (alto_parse_from_file env (ALTO_DB_req st) name (st\<lparr> mem := s1 \<rparr>))) (\<lambda>(_, s2).
                opt_bind (do_ALTO_update env rc_host pri_rat sec_rat (st\<lparr> mem := s2 \<rparr>)) (\<lambda>st3.
                opt_bind (alto_write_to_file env (ALTO_DB_req st3) name st3) (\<lambda>(_, st4). Some (Inr (1, st4)))))))"

text \<open>
  The query in a thread: only the list and its length are put into \<open>threadArgs\<close>; \<open>threads\<close> counts the threads that
  were started and have not run.
\<close>

definition ALTO_query_exec ::
  "alto_env \<Rightarrow> nat option \<Rightarrow> int \<Rightarrow> u32 \<Rightarrow> int \<Rightarrow> int \<Rightarrow> alto_client \<Rightarrow> (int \<times> alto_client) res option" where
  "ALTO_query_exec env l num rc_host pri_rat sec_rat st =
     (if l = None \<or> num < 0 \<or> in_progress st then Some (Inr (0, st))
      else opt_bind (alto_purge_db (ALTO_DB_req st) (mem st)) (\<lambda>(_, s1).
           opt_bind (Some (at (user_lists st) l)) (\<lambda>gs.
           opt_bind (Some (alto_parse_from_list env (ALTO_DB_req st) gs num s1)) (\<lambda>(_, s2).
             let st1 = st\<lparr> mem := s2, in_progress := True, threadArgs := (threadArgs st)\<lparr> ta_list := l, ta_num := num \<rparr> \<rparr> in
             if thread_starts env then Some (Inr (1, st1\<lparr> threads := threads st1 + 1 \<rparr>))
             else Some (Inr (0, st1\<lparr> in_progress := False \<rparr>))))))"

definition alto_query_thread_func :: "alto_env \<Rightarrow> alto_client \<Rightarrow> alto_client res option" where
  "alto_query_thread_func env st =
     (let ta = threadArgs st in
      opt_bind (do_ALTO_update env (ta_rc_host ta) (ta_pri_rat ta) (ta_sec_rat ta) st) (\<lambda>st1.
      opt_bind (Some (at (user_lists st1) (ta_list ta))) (\<lambda>gs.
      opt_bind (write_back st1 0 (nat (ta_num ta)) gs) (\<lambda>gs1.
        Some (Inr (st1\<lparr> user_lists := (user_lists st1)(the (ta_list ta) \<mapsto> gs1), in_progress := False, threads := threads st1 - 1 \<rparr>))))))"

definition ALTO_query_state :: "alto_client \<Rightarrow> int" where
  "ALTO_query_state st = (if in_progress st then 1 else 0)"

section \<open>An update\<close>

definition host_node :: "u32 \<times> int \<times> int \<Rightarrow> xml" where
  "host_node = (\<lambda>(a, m, _). ipprefix_node (inet_ntoa a @ ''/'' @ dec_int m))"

lemma host_nodes_ok:
  "dseg (elems s) d q p as None \<Longrightarrow> host_nodes s p acc = Some (Inr (acc @ map host_node (entries (elems s) as)))"
proof (induction as arbitrary: q p acc)
  case Nil
  then show ?case by (subst host_nodes.simps) simp
next
  case (Cons a as)
  then obtain k where "p = Some a" "elems s a = Some k" "dseg (elems s) d (Some a) (el_next k) as None" by auto
  with Cons.IH show ?case by (subst host_nodes.simps) (simp add: host_node_def ent_def)
qed

lemma alto_create_request_XML_ok:
  "db_rep s d es \<Longrightarrow> alto_create_request_XML (Some d) rc pri sec s = Some (Inr (Some (request_doc rc pri sec (map host_node es))))"
  by (auto simp: alto_create_request_XML_def db_rep_def db_list_def host_nodes_ok)

text \<open>The buffer of the form is large enough.\<close>

definition post_body :: "string \<Rightarrow> string" where
  "post_body doctxt =
     ''--'' @ POST_BOUNDARY @ crlf @ ''Content-Disposition: form-data; name='' @ dquote @ ''alto_xml_request'' @ dquote
       @ crlf @ crlf @ doctxt @ crlf
     @ ''--'' @ POST_BOUNDARY @ crlf @ ''Content-Disposition: form-data; name='' @ dquote @ ''action'' @ dquote
       @ crlf @ crlf @ ''submit'' @ crlf
     @ ''--'' @ POST_BOUNDARY @ ''--'' @ crlf @ crlf"

lemma post_data_ok: "post_data doctxt = Inr (post_body doctxt)"
  by (simp add: post_data_def POST_add_def POST_end_def post_body_def POST_BOUNDARY_def crlf_def dquote_def Let_def)

lemma read_reply_ok:
  "list_all (\<lambda>b. b \<noteq> [] \<and> length b \<le> 4096) bs \<Longrightarrow> length out + length (concat bs) \<le> ALTO_REP_BUF_SIZE
    \<Longrightarrow> read_reply bs out = Inr (out @ concat bs)"
  by (induction bs arbitrary: out) auto

text \<open>What an answer of the server is for the client: the nodes of the document at the first attempt.\<close>

definition answers :: "alto_env \<Rightarrow> alto_client \<Rightarrow> xml \<Rightarrow> string \<Rightarrow> xml list \<Rightarrow> bool" where
  "answers env st doc url ns \<longleftrightarrow>
     c_string (alto_server_url st) = Inr url
     \<and> (\<exists>bs. http env (length (posted st)) url (post_body (xml_dump env doc)) = Some bs
        \<and> list_all (\<lambda>b. b \<noteq> [] \<and> length b \<le> 4096) bs \<and> length (concat bs) \<le> ALTO_REP_BUF_SIZE
        \<and> xml_parse env (concat bs) = Some ns)"

lemma ALTO_request_to_server_ok:
  assumes "answers env st doc url ns"
  shows "ALTO_request_to_server env (Some doc) st =
    Inr (Some ns, st\<lparr> posted := posted st @ [(url, post_body (xml_dump env doc))] \<rparr>)"
proof -
  obtain bs where b: "c_string (alto_server_url st) = Inr url" "http env (length (posted st)) url (post_body (xml_dump env doc)) = Some bs"
      "list_all (\<lambda>b. b \<noteq> [] \<and> length b \<le> 4096) bs" "length (concat bs) \<le> ALTO_REP_BUF_SIZE" "xml_parse env (concat bs) = Some ns"
    using assms by (auto simp: answers_def)
  have n: "(3 :: nat) = Suc (Suc (Suc 0))" by simp
  have "read_reply bs [] = Inr (concat bs)" using read_reply_ok [OF b(3), of "[]"] b(4) by simp
  then show ?thesis using b by (simp add: ALTO_request_to_server_def post_data_ok n)
qed

lemma purge_rep:
  assumes "db_rep s d es"
  obtains s' where "alto_purge_db (Some d) s = Some (Inr (1, s'))" "db_rep s' d []" "\<forall>d' es'. d' \<noteq> d \<longrightarrow> db_rep s d' es' \<longrightarrow> db_rep s' d' es'"
proof -
  obtain as where as: "heap_ok s" "db_list s d as" using assms by (auto simp: db_rep_def)
  obtain s' where s': "alto_purge_db (Some d) s = Some (Inr (1, s'))" "heap_ok s'" "keeps d s s'" "db_list s' d []"
    by (rule alto_purge_db_ok [OF as])
  have "db_rep s' d []" unfolding db_rep_def using s'(2,4) by (metis entries_simps(1))
  then show ?thesis using that [OF s'(1)] db_rep_keeps s'(2,3) by blast
qed

lemma do_ALTO_update_ok:
  assumes "ALTO_DB_req st = Some d" "ALTO_DB_res st = Some q" "d \<noteq> q" "db_rep (mem st) d es" "db_rep (mem st) q []"
    and "list_all mask_ok es" "answers env st (request_doc rc pri sec (map host_node es)) url ns" "reply_ok ns"
  obtains s' where "do_ALTO_update env rc pri sec st = Some (Inr (st\<lparr> mem := s',
      posted := posted st @ [(url, post_body (xml_dump env (request_doc rc pri sec (map host_node es))))] \<rparr>))"
    "db_rep s' d (map (rate (reply_ratings ns)) es)" "db_rep s' q []"
proof -
  obtain s1 where s1: "alto_parse_from_XML env (Some q) (Some ns) (mem st) = Inr (1, s1)" "db_rep s1 q (reply_ratings ns)" "db_rep s1 d es"
    using alto_parse_from_XML_ok [OF assms(8,5)] assms(3,4) by (metis append_Nil)
  obtain s2 where s2: "alto_do_the_magic (Some d) (Some q) s1 = Some (Inr (1, s2))"
      "db_rep s2 d (map (rate (reply_ratings ns)) es)" "db_rep s2 q (reply_ratings ns)"
    by (rule alto_do_the_magic_ok [OF s1(3,2) assms(3,6)])
  obtain s3 where s3: "alto_purge_db (Some q) s2 = Some (Inr (1, s3))" "db_rep s3 q []" "db_rep s3 d (map (rate (reply_ratings ns)) es)"
    using purge_rep [OF s2(3)] s2(2) assms(3) by metis
  let ?st = "st\<lparr> mem := s3, posted := posted st @ [(url, post_body (xml_dump env (request_doc rc pri sec (map host_node es))))] \<rparr>"
  have "do_ALTO_update env rc pri sec st = Some (Inr ?st)"
    using assms(1,2) alto_create_request_XML_ok [OF assms(4)] ALTO_request_to_server_ok [OF assms(7)] s1(1) s2(1) s3(1)
    by (cases st) (simp add: do_ALTO_update_def)
  then show ?thesis using that s3(2,3) by blast
qed

lemma write_back_ok:
  assumes "ALTO_DB_req st = Some d" "db_rep (mem st) d es" "i + n \<le> length gs"
  shows "write_back st i n gs = Some (Inr (take i gs
    @ map (\<lambda>g. g\<lparr> g_rating := if alto_host g = 0 then 0 else rating_in es (alto_host g) \<rparr>) (take n (drop i gs)) @ drop (i + n) gs))"
  using assms(3)
proof (induction n arbitrary: i gs)
  case 0
  then show ?case by simp
next
  case (Suc n)
  let ?f = "\<lambda>g. g\<lparr> g_rating := if alto_host g = 0 then 0 else rating_in es (alto_host g) \<rparr>"
  let ?gs = "gs[i := ?f (gs ! i)]"
  have i: "i < length gs" "Suc i + n \<le> length ?gs" using Suc.prems by auto
  have r: "get_ALTO_rating_for_host (alto_host (gs ! i)) (Some d) (mem st) =
      Some (Inr (if alto_host (gs ! i) = 0 then 0 else rating_in es (alto_host (gs ! i))))"
    by (rule get_ALTO_rating_for_host_ok [OF assms(2)])
  have "write_back st i (Suc n) gs = write_back st (Suc i) n ?gs"
    using i(1) assms(1) r by simp
  also have "\<dots> = Some (Inr (take (Suc i) ?gs @ map ?f (take n (drop (Suc i) ?gs)) @ drop (Suc i + n) ?gs))"
    by (rule Suc.IH [OF i(2)])
  finally show ?case
    using i(1) by (simp add: take_Suc_conv_app_nth take_update_cancel drop_update_cancel Cons_nth_drop_Suc [symmetric])
qed

lemma list_loop_ok:
  "i + n \<le> length gs \<Longrightarrow> list_loop env (Some d) gs i n s =
    append_all (append_to (alto_now env)) d (map (\<lambda>g. fresh_el (alto_host g) (g_prefix g) 0) (take n (drop i gs))) s"
proof (induction n arbitrary: i s)
  case (Suc n)
  then have "drop i gs = gs ! i # drop (Suc i) gs" "i < length gs" by (simp_all add: Cons_nth_drop_Suc)
  moreover have "list_loop env (Some d) gs (Suc i) n =
      append_all (append_to (alto_now env)) d (map (\<lambda>g. fresh_el (alto_host g) (g_prefix g) 0) (take n (drop (Suc i) gs)))"
    by (rule ext, rule Suc.IH) (use Suc.prems in simp)
  moreover have "append_to now d k s = alto_append now (Some d) k s" for now k by (simp only: append_to_def)
  ultimately show ?case by simp
qed simp

section \<open>Guidance\<close>

definition listed :: "guidance list \<Rightarrow> (u32 \<times> int \<times> int) list" where
  "listed gs = map (\<lambda>g. (alto_host g, g_prefix g, 0)) gs"

definition rated :: "(u32 \<times> int \<times> int) list \<Rightarrow> guidance list \<Rightarrow> guidance list" where
  "rated rs gs = map (\<lambda>g. g\<lparr> g_rating := if alto_host g = 0 then 0 else prefix_rating rs (alto_host g) (nat (g_prefix g)) \<rparr>) gs"

text \<open>A client that was started and has no query running.\<close>

definition client_ok :: "alto_client \<Rightarrow> nat \<Rightarrow> nat \<Rightarrow> bool" where
  "client_ok st d q \<longleftrightarrow> ALTO_DB_req st = Some d \<and> ALTO_DB_res st = Some q \<and> d \<noteq> q
     \<and> (\<exists>es. db_rep (mem st) d es) \<and> db_rep (mem st) q []"

lemma start_ALTO_client_ok:
  assumes "heap_ok (mem st)"
  obtains d q where "client_ok (start_ALTO_client st) d q"
proof -
  obtain p s1 where i1: "alto_db_init (mem st) = (p, s1)" by fastforce
  obtain p2 s2 where i2: "alto_db_init s1 = (p2, s2)" by fastforce
  note a = alto_db_init_ok [OF assms i1]
  note b = alto_db_init_ok [OF a(2) i2]
  have ne: "brk (mem st) \<noteq> brk s1" using i1 by (auto simp: alto_db_init_def)
  have "db_rep s1 (brk (mem st)) []" unfolding db_rep_def using a(2,4) by (metis entries_simps(1))
  then have "db_rep s2 (brk (mem st)) []" using db_rep_keeps b(2,3) ne by blast
  moreover have "db_rep s2 (brk s1) []" unfolding db_rep_def using b(2,4) by (metis entries_simps(1))
  ultimately show ?thesis
    using ne a(1) b(1) i1 i2 by (intro that [of "brk (mem st)" "brk s1"]) (auto simp: client_ok_def start_ALTO_client_def)
qed

lemma fill_request_db:
  assumes "client_ok st d q"
  obtains s1 s2 where "alto_purge_db (Some d) (mem st) = Some (Inr (1, s1))"
    "alto_parse_from_list env (Some d) gs (int (length gs)) s1 = Inr (1, s2)" "db_rep s2 d (listed gs)" "db_rep s2 q []"
proof -
  obtain es where es: "db_rep (mem st) d es" "db_rep (mem st) q []" "d \<noteq> q" using assms by (auto simp: client_ok_def)
  obtain s1 where s1: "alto_purge_db (Some d) (mem st) = Some (Inr (1, s1))" "db_rep s1 d []" "db_rep s1 q []"
    using purge_rep [OF es(1)] es(2,3) by metis
  let ?xs = "map (\<lambda>g. fresh_el (alto_host g) (g_prefix g) 0) gs"
  obtain s2 where s2: "append_all (append_to (alto_now env)) d ?xs s1 = Inr s2" "db_rep s2 d ([] @ map ent ?xs)" "db_rep s2 q []"
    using adb.append_all_ok [OF s1(2), of "alto_now env" ?xs] s1(3) es(3) by auto
  have "map ent ?xs = listed gs" by (simp add: listed_def fresh_el_def ent_def)
  moreover have "alto_parse_from_list env (Some d) gs (int (length gs)) s1 = Inr (1, s2)"
    using list_loop_ok [of 0 "length gs" gs env d s1] s2(1) by (simp add: alto_parse_from_list_def)
  ultimately show ?thesis using that [OF s1(1)] s2(2,3) by simp
qed

lemma rating_in_rated:
  assumes "g \<in> set gs" "distinct (map alto_host gs)"
  shows "rating_in (map (rate rs) (listed gs)) (alto_host g) = prefix_rating rs (alto_host g) (nat (g_prefix g))"
  using assms by (induction gs) (auto simp: listed_def rate_def)

lemma write_back_rated:
  assumes "ALTO_DB_req st = Some d" "db_rep (mem st) d (map (rate rs) (listed gs))" "distinct (map alto_host gs)"
  shows "write_back st 0 (length gs) gs = Some (Inr (rated rs gs))"
  using write_back_ok [OF assms(1,2), of 0 "length gs" gs] rating_in_rated [OF _ assms(3)] by (auto simp: rated_def)

lemma update_list:
  assumes "ALTO_DB_req st = Some d" "ALTO_DB_res st = Some q" "d \<noteq> q" "db_rep (mem st) d (listed gs)" "db_rep (mem st) q []"
    and "distinct (map alto_host gs)" "list_all (\<lambda>g. 0 < g_prefix g \<and> g_prefix g \<le> 32) gs"
    and "doc = request_doc rc pri sec (map host_node (listed gs))" "answers env st doc url ns" "reply_ok ns"
  obtains s where
    "do_ALTO_update env rc pri sec st = Some (Inr (st\<lparr> mem := s, posted := posted st @ [(url, post_body (xml_dump env doc))] \<rparr>))"
    "db_rep s d (map (rate (reply_ratings ns)) (listed gs))" "db_rep s q []"
    "\<And>st'. ALTO_DB_req st' = Some d \<Longrightarrow> mem st' = s \<Longrightarrow> write_back st' 0 (length gs) gs = Some (Inr (rated (reply_ratings ns) gs))"
proof -
  have m: "list_all mask_ok (listed gs)" using assms(7) by (auto simp: listed_def mask_ok_def list_all_iff)
  have ans: "answers env st (request_doc rc pri sec (map host_node (listed gs))) url ns" using assms(8,9) by simp
  obtain s where s: "do_ALTO_update env rc pri sec st = Some (Inr (st\<lparr> mem := s,
      posted := posted st @ [(url, post_body (xml_dump env (request_doc rc pri sec (map host_node (listed gs)))))] \<rparr>))"
    "db_rep s d (map (rate (reply_ratings ns)) (listed gs))" "db_rep s q []"
    by (rule do_ALTO_update_ok [OF assms(1-5) m ans assms(10)])
  show ?thesis
    by (rule that [OF _ s(2,3)]) (use s(1) assms(8) write_back_rated [OF _ _ assms(6)] s(2) in simp_all)
qed

text \<open>
  C19: A list of different hosts is rated by the server's reply: one request, with all hosts and the criteria, is posted; nothing
  but the list, the request and the data base of the client changes; and each host gets the rating that the search of the
  code finds (\<open>prefix_rating\<close>): with the length \<open>m\<close> given for the host, its network addresses for \<open>m\<close>, \<open>m - 1\<close>, \<open>..\<close>, 2 are looked
  up one after the other, each gives the rating of the reply's first entry with that very address, and the first one that
  is not 0 is taken, 0 when there is none. This is not the longest prefix match it is meant to be: the length of an entry plays
  no part, one bit is not tried, and a rating of 0 counts as none (\<open>rating_outside_prefix\<close>, \<open>one_bit_never_tried\<close>,
  \<open>zero_rating_skipped\<close>).
\<close>

theorem alto_guidance:
  assumes "client_ok st d q" "user_lists st l = Some gs" "distinct (map alto_host gs)"
    and "list_all (\<lambda>g. 0 < g_prefix g \<and> g_prefix g \<le> 32) gs" "doc = request_doc rc pri sec (map host_node (listed gs))"
    and "answers env st doc url ns" "reply_ok ns"
  shows "\<exists>s. get_ALTO_guidance_for_list env (Some l) (int (length gs)) rc pri sec st =
      Some (Inr (1, st\<lparr> mem := s, posted := posted st @ [(url, post_body (xml_dump env doc))],
        user_lists := (user_lists st)(l \<mapsto> rated (reply_ratings ns) gs) \<rparr>))
    \<and> db_rep s d (map (rate (reply_ratings ns)) (listed gs)) \<and> db_rep s q []"
proof -
  have c: "ALTO_DB_req st = Some d" "ALTO_DB_res st = Some q" "d \<noteq> q" using assms(1) by (simp_all add: client_ok_def)
  obtain s1 s2 where s: "alto_purge_db (Some d) (mem st) = Some (Inr (1, s1))"
      "alto_parse_from_list env (Some d) gs (int (length gs)) s1 = Inr (1, s2)" "db_rep s2 d (listed gs)" "db_rep s2 q []"
    by (rule fill_request_db [OF assms(1)])
  let ?st = "st\<lparr> mem := s2 \<rparr>"
  have mem: "db_rep (mem ?st) d (listed gs)" "db_rep (mem ?st) q []" "ALTO_DB_req ?st = Some d" "ALTO_DB_res ?st = Some q"
    and ans: "answers env ?st doc url ns"
    using s(3,4) c(1,2) assms(6) by (simp_all add: answers_def)
  obtain s' where u: "do_ALTO_update env rc pri sec ?st = Some (Inr (?st\<lparr> mem := s', posted := posted ?st @ [(url, post_body (xml_dump env doc))] \<rparr>))"
    "db_rep s' d (map (rate (reply_ratings ns)) (listed gs))" "db_rep s' q []"
    "\<And>st'. ALTO_DB_req st' = Some d \<Longrightarrow> mem st' = s' \<Longrightarrow> write_back st' 0 (length gs) gs = Some (Inr (rated (reply_ratings ns) gs))"
    by (rule update_list [OF mem(3,4) c(3) mem(1,2) assms(3-5) ans assms(7)]) blast
  have "get_ALTO_guidance_for_list env (Some l) (int (length gs)) rc pri sec st =
      Some (Inr (1, st\<lparr> mem := s', posted := posted st @ [(url, post_body (xml_dump env doc))],
        user_lists := (user_lists st)(l \<mapsto> rated (reply_ratings ns) gs) \<rparr>))"
    using s(1,2) c(1) u(1,4) assms(2) by (cases st) (simp add: get_ALTO_guidance_for_list_def)
  then show ?thesis using u(2,3) by blast
qed

text \<open>
  A query in a thread rates its list, but not by its own criteria: what is posted has the requesting host and the
  criteria that \<open>threadArgs\<close> already had (zeros at first), whatever the call was given.
\<close>

theorem alto_thread_criteria:
  assumes "client_ok st d q" "user_lists st l = Some gs" "distinct (map alto_host gs)"
    and "list_all (\<lambda>g. 0 < g_prefix g \<and> g_prefix g \<le> 32) gs" "\<not> in_progress st" "thread_starts env" "ta = threadArgs st"
    and "doc = request_doc (ta_rc_host ta) (ta_pri_rat ta) (ta_sec_rat ta) (map host_node (listed gs))"
    and "answers env st doc url ns" "reply_ok ns"
  shows "\<exists>st1 st2. ALTO_query_exec env (Some l) (int (length gs)) rc pri sec st = Some (Inr (1, st1)) \<and> ALTO_query_state st1 = 1
    \<and> alto_query_thread_func env st1 = Some (Inr st2) \<and> ALTO_query_state st2 = 0
    \<and> posted st2 = posted st @ [(url, post_body (xml_dump env doc))] \<and> user_lists st2 l = Some (rated (reply_ratings ns) gs)"
proof -
  have c: "ALTO_DB_req st = Some d" "ALTO_DB_res st = Some q" "d \<noteq> q" using assms(1) by (simp_all add: client_ok_def)
  obtain s1 s2 where s: "alto_purge_db (Some d) (mem st) = Some (Inr (1, s1))"
      "alto_parse_from_list env (Some d) gs (int (length gs)) s1 = Inr (1, s2)" "db_rep s2 d (listed gs)" "db_rep s2 q []"
    by (rule fill_request_db [OF assms(1)])
  let ?st = "st\<lparr> mem := s2, in_progress := True, threadArgs := ta\<lparr> ta_list := Some l, ta_num := int (length gs) \<rparr>,
    threads := threads st + 1 \<rparr>"
  have e: "ALTO_query_exec env (Some l) (int (length gs)) rc pri sec st = Some (Inr (1, ?st))"
    using s(1,2) c(1) assms(2,5,6,7) by (cases st) (simp add: ALTO_query_exec_def)
  have mem: "db_rep (mem ?st) d (listed gs)" "db_rep (mem ?st) q []" "ALTO_DB_req ?st = Some d" "ALTO_DB_res ?st = Some q"
    and ans: "answers env ?st doc url ns"
    using s(3,4) c(1,2) assms(9) by (simp_all add: answers_def)
  obtain s' where u: "do_ALTO_update env (ta_rc_host ta) (ta_pri_rat ta) (ta_sec_rat ta) ?st =
      Some (Inr (?st\<lparr> mem := s', posted := posted ?st @ [(url, post_body (xml_dump env doc))] \<rparr>))"
    "\<And>st'. ALTO_DB_req st' = Some d \<Longrightarrow> mem st' = s' \<Longrightarrow> write_back st' 0 (length gs) gs = Some (Inr (rated (reply_ratings ns) gs))"
    by (rule update_list [OF mem(3,4) c(3) mem(1,2) assms(3,4,8) ans assms(10)]) blast
  show ?thesis
    by (rule exI [of _ ?st], rule exI, intro conjI, rule e, simp add: ALTO_query_state_def)
      (use u c(1) assms(2) in \<open>auto simp: alto_query_thread_func_def ALTO_query_state_def\<close>)
qed

text \<open>
  Stopping the client frees its data bases and leaves the pointers to them: a query after it uses freed memory.
\<close>

theorem alto_query_after_stop:
  assumes "client_ok st d q" "0 \<le> num"
  shows "\<exists>st1. stop_ALTO_client st = Some (Inr st1)
    \<and> get_ALTO_guidance_for_list env (Some l) num rc pri sec st1 = Some (Inl UseAfterFree)"
proof -
  obtain es where c: "ALTO_DB_req st = Some d" "ALTO_DB_res st = Some q" "d \<noteq> q" "db_rep (mem st) d es" "db_rep (mem st) q []"
    using assms(1) by (auto simp: client_ok_def)
  obtain s1 where s1: "alto_purge_db (Some d) (mem st) = Some (Inr (1, s1))" "db_rep s1 d []" "db_rep s1 q []"
    using purge_rep [OF c(4)] c(3,5) by metis
  have "keeps d s1 (s1\<lparr> dbs := (dbs s1)(d := None) \<rparr>)" "heap_ok (s1\<lparr> dbs := (dbs s1)(d := None) \<rparr>)"
    using s1(2) by (auto simp: keeps_def heap_ok_def db_rep_def)
  then have q: "db_rep (s1\<lparr> dbs := (dbs s1)(d := None) \<rparr>) q []" using db_rep_keeps [OF s1(3)] c(3) by metis
  obtain s2 where s2: "alto_purge_db (Some q) (s1\<lparr> dbs := (dbs s1)(d := None) \<rparr>) = Some (Inr (1, s2))" "db_rep s2 q []"
    using purge_rep [OF q] by metis
  obtain as where as: "heap_ok (s1\<lparr> dbs := (dbs s1)(d := None) \<rparr>)" "db_list (s1\<lparr> dbs := (dbs s1)(d := None) \<rparr>) q as"
    using q by (auto simp: db_rep_def)
  obtain s2' where "alto_purge_db (Some q) (s1\<lparr> dbs := (dbs s1)(d := None) \<rparr>) = Some (Inr (1, s2'))"
      "keeps q (s1\<lparr> dbs := (dbs s1)(d := None) \<rparr>) s2'"
    by (rule alto_purge_db_ok [OF as])
  then have gone: "dbs s2 d = None" using s2(1) c(3) by (auto simp: keeps_def)
  have "stop_ALTO_client st = Some (Inr (st\<lparr> mem := s2\<lparr> dbs := (dbs s2)(q := None) \<rparr> \<rparr>))"
    using c(1,2) s1(1) s2(1) by (simp add: stop_ALTO_client_def alto_free_db_def)
  moreover have "get_ALTO_guidance_for_list env (Some l) num rc pri sec (st\<lparr> mem := s2\<lparr> dbs := (dbs s2)(q := None) \<rparr> \<rparr>) = Some (Inl UseAfterFree)"
    using c(1) assms(2) gone by (simp add: get_ALTO_guidance_for_list_def alto_purge_db_def at_def)
  ultimately show ?thesis by blast
qed

text \<open>
  Setting a shorter server address after a longer one keeps the end of the longer one.
\<close>

theorem alto_url_keeps_tail:
  assumes "alto_server_url st = replicate 256 CHR 0x00" "length u < 256" "length v \<le> length u"
    and "CHR 0x00 \<notin> set u" "CHR 0x00 \<notin> set v"
  shows "\<exists>st1 st2. set_ALTO_server (Some u) st = Inr (1, st1) \<and> get_ALTO_server st1 = Inr u
    \<and> set_ALTO_server (Some v) st1 = Inr (1, st2) \<and> get_ALTO_server st2 = Inr (v @ drop (length v) u)"
proof -
  let ?z = "drop (length u) (replicate 256 CHR 0x00)"
  let ?st1 = "st\<lparr> alto_server_url := u @ ?z \<rparr>" and ?st2 = "st\<lparr> alto_server_url := v @ drop (length v) u @ ?z \<rparr>"
  have z: "?z = CHR 0x00 # replicate (255 - length u) CHR 0x00"
    using assms(2) by (simp add: drop_replicate Suc_diff_le [symmetric] replicate_Suc [symmetric] del: replicate_Suc)
  have str: "c_string (w @ ?z) = Inr w" if "CHR 0x00 \<notin> set w" for w
    using that unfolding z by (auto simp: c_string_def takeWhile_append)
  have "set_ALTO_server (Some u) st = Inr (1, ?st1)" using assms(1,2) by (simp add: set_ALTO_server_def)
  moreover have "set_ALTO_server (Some v) ?st1 = Inr (1, ?st2)" using assms(2,3) by (simp add: set_ALTO_server_def)
  moreover have "get_ALTO_server ?st1 = Inr u" using str [OF assms(4)] by (simp add: get_ALTO_server_def)
  moreover have "CHR 0x00 \<notin> set (v @ drop (length v) u)" using assms(4,5) by (auto dest: in_set_dropD)
  then have "c_string ((v @ drop (length v) u) @ ?z) = Inr (v @ drop (length v) u)" by (rule str)
  then have "get_ALTO_server ?st2 = Inr (v @ drop (length v) u)" by (simp add: get_ALTO_server_def)
  ultimately show ?thesis by blast
qed

text \<open>Without an answer all ratings are 0, and the call reports success.\<close>

lemma rating_in_listed: "rating_in (listed gs) a = 0"
  by (induction gs) (auto simp: listed_def)

lemma alto_unanswered:
  assumes "client_ok st d q" "user_lists st l = Some gs" "c_string (alto_server_url st) = Inr url" "\<forall>n u b. http env n u b = None"
  shows "\<exists>st1. get_ALTO_guidance_for_list env (Some l) (int (length gs)) rc pri sec st = Some (Inr (1, st1))
    \<and> user_lists st1 l = Some (map (\<lambda>g. g\<lparr> g_rating := 0 \<rparr>) gs) \<and> length (posted st1) = length (posted st) + 3"
proof -
  have c: "ALTO_DB_req st = Some d" "ALTO_DB_res st = Some q" "d \<noteq> q" using assms(1) by (simp_all add: client_ok_def)
  obtain s1 s2 where s: "alto_purge_db (Some d) (mem st) = Some (Inr (1, s1))"
      "alto_parse_from_list env (Some d) gs (int (length gs)) s1 = Inr (1, s2)" "db_rep s2 d (listed gs)" "db_rep s2 q []"
    by (rule fill_request_db [OF assms(1)])
  obtain s3 where s3: "alto_purge_db (Some q) s2 = Some (Inr (1, s3))" "db_rep s3 d (listed gs)"
    using purge_rep [OF s(4)] s(3) c(3) by metis
  let ?b = "(url, post_body (xml_dump env (request_doc rc pri sec (map host_node (listed gs)))))"
  let ?st = "st\<lparr> mem := s3, posted := posted st @ [?b, ?b, ?b] \<rparr>"
  have n: "(3 :: nat) = Suc (Suc (Suc 0))" by simp
  have u: "do_ALTO_update env rc pri sec (st\<lparr> mem := s2 \<rparr>) = Some (Inr ?st)"
    using c(1,2) alto_create_request_XML_ok [OF s(3)] assms(3,4) s3(1)
    by (cases st) (simp add: do_ALTO_update_def ALTO_request_to_server_def post_data_ok n Let_def)
  have "write_back ?st 0 (length gs) gs = Some (Inr (map (\<lambda>g. g\<lparr> g_rating := 0 \<rparr>) gs))"
    using write_back_ok [of ?st d "listed gs" 0 "length gs" gs] c(1) s3(2) by (simp add: rating_in_listed)
  then have "get_ALTO_guidance_for_list env (Some l) (int (length gs)) rc pri sec st =
      Some (Inr (1, ?st\<lparr> user_lists := (user_lists st)(l \<mapsto> map (\<lambda>g. g\<lparr> g_rating := 0 \<rparr>) gs) \<rparr>))"
    using s(1,2) c(1) u assms(2) by (simp add: get_ALTO_guidance_for_list_def)
  then show ?thesis by auto
qed

text \<open>The criterion 4 for the latency and the absence of further criteria, 0, are refused by the query for a file.\<close>

lemma documented_criteria_refused:
  "length name < 900 \<Longrightarrow> pri_rat = 4 \<or> sec_rat = 0 \<Longrightarrow> get_ALTO_guidance_for_txt env (Some name) rc pri_rat sec_rat st = Some (Inr (0, st))"
  by (auto simp: get_ALTO_guidance_for_txt_def debugf_def)

section \<open>A reply without white space\<close>

lemma parse_loop_step:
  "parse_node env db c st = Inr (False, st1) \<Longrightarrow> xml_advance ((c # cs) # ups) = Inr stk
    \<Longrightarrow> parse_loop env db ((c # cs) # ups) st = parse_loop env db stk st1"
  by (subst parse_loop.simps) simp

text \<open>The elements at the end of a list of siblings are reached from before and left at once.\<close>

lemma parse_siblings:
  "ms \<noteq> [] \<Longrightarrow> list_all (\<lambda>n. xml_kids n = []) (ms @ [z])
    \<Longrightarrow> parse_loop env db ((ms @ [z]) # [p] # ups) st = parse_all env db ms st"
proof (induction ms arbitrary: st)
  case (Cons m ms)
  show ?case
  proof (cases ms)
    case Nil
    then show ?thesis
      using Cons.prems by (subst parse_loop.simps) (auto simp: xml_advance_def parse_loop.simps split: sum.split bool.split)
  next
    case (Cons m' ms')
    have adv: "xml_advance ((m # ms @ [z]) # [p] # ups) = Inr ((ms @ [z]) # [p] # ups)"
      using Cons.prems Cons by (simp add: xml_advance_def)
    have "parse_loop env db ((ms @ [z]) # [p] # ups) st1 = parse_all env db ms st1" for st1
      by (rule Cons.IH) (use Cons.prems Cons in simp_all)
    then show ?thesis using adv by (subst parse_loop.simps) (auto split: sum.split bool.split)
  qed
qed simp

text \<open>
  In a reply without white space the first and the last prefix of a group are lost, and a group of one or two
  prefixes gives no rating at all.
\<close>

theorem alto_compact_reply_loses:
  assumes "db_rep s d es" "list_all (\<lambda>t. CHR ''/'' \<in> set t \<and> length t < 256) ts"
    and "reply = [Elem ''alto'' [] [Elem ''group_rating_reply'' [] [Elem ''cnd_hla'' [(''overall_rating'', v)]
      (map ipprefix_node ([a] @ ts @ [b]))]]]"
  shows "\<exists>s'. alto_parse_from_XML env (Some d) (Some reply) s = Inr (1, s')
    \<and> db_rep s' d (es @ ratings_of (map ipprefix_node ts) (Some v))"
proof -
  let ?ps = "map ipprefix_node ts" and ?st = "\<lparr> overall_rating = None, ratings_done = False, p_mem = s \<rparr>"
  let ?c = "Elem ''cnd_hla'' [(''overall_rating'', v)] (map ipprefix_node ([a] @ ts @ [b]))"
  let ?g = "Elem ''group_rating_reply'' [] [?c]" and ?st1 = "\<lparr> overall_rating = Some v, ratings_done = False, p_mem = s \<rparr>"
  let ?r = "Elem ''alto'' [] [?g]" and ?doc = "Elem [] [] reply"
  have leaf: "xml_kids (ipprefix_node t) = []" for t by (simp add: ipprefix_node_def)
  have walk: "parse_loop env (Some d) [[?r], [?doc]] ?st = parse_loop env (Some d) [[?c], [?g], [?r], [?doc]] ?st"
  proof -
    have n: "parse_node env (Some d) ?r ?st = Inr (False, ?st)" "parse_node env (Some d) ?g ?st = Inr (False, ?st)"
      by (simp_all add: parse_node_def)
    have "xml_advance [[?r], [?doc]] = Inr [[?g], [?r], [?doc]]" "xml_advance [[?g], [?r], [?doc]] = Inr [[?c], [?g], [?r], [?doc]]"
      by (simp_all add: xml_advance_def)
    note adv = this
    show ?thesis
      by (rule trans [OF parse_loop_step [OF n(1) adv(1)] parse_loop_step [OF n(2) adv(2)]])
  qed
  have group: "parse_node env (Some d) ?c ?st = Inr (False, ?st1)" by (simp add: parse_node_def Let_def)
  have inner: "parse_loop env (Some d) [[?c], [?g], [?r], [?doc]] ?st = parse_all env (Some d) ?ps ?st1"
  proof (cases ts)
    case Nil
    then show ?thesis
      using group by (subst parse_loop.simps) (simp add: xml_advance_def leaf parse_loop.simps)
  next
    case (Cons t ts')
    have adv: "xml_advance [[?c], [?g], [?r], [?doc]] = Inr [?ps @ [ipprefix_node b], [?c], [?g], [?r], [?doc]]"
      using Cons by (simp add: xml_advance_def leaf)
    have "parse_loop env (Some d) ((?ps @ [ipprefix_node b]) # [?c] # [[?g], [?r], [?doc]]) ?st1 = parse_all env (Some d) ?ps ?st1"
      by (rule parse_siblings) (use Cons in \<open>simp_all add: leaf list_all_iff\<close>)
    then show ?thesis using group adv by (subst parse_loop.simps) simp
  qed
  have "list_all node_ok ?ps" using assms(2) by (auto simp: list_all_iff node_ok_def ipprefix_node_def)
  then obtain st' where st': "parse_all env (Some d) ?ps ?st1 = Inr st'" "db_rep (p_mem st') d (es @ ratings_of ?ps (Some v))"
    using parse_all_ok [of ?ps ?st1 d es env] assms(1) by auto
  have "root_stack reply = [[?r], [?doc]]" using assms(3) by (simp add: root_stack_def Let_def)
  then have "alto_parse_from_XML env (Some d) (Some reply) s = Inr (1, p_mem st')"
    using walk inner st'(1) by (simp add: alto_parse_from_XML_def)
  then show ?thesis using st'(2) by blast
qed

section \<open>Witnesses\<close>

definition reply0 :: "xml list" where
  "reply0 =
     (let ws = Leaf ''text'' [CHR 0x0A] in
      [Leaf ''comment'' ''reply'',
       Elem ''alto'' []
         [ws, Elem ''group_rating_reply'' [(''statuscode'', ''200'')]
            [ws, Elem ''cnd_hla'' [(''overall_rating'', ''7'')] [ws, ipprefix_node ''10.1.0.0/16'', ws],
             ws, Elem ''cnd_hla'' [(''overall_rating'', ''3'')] [ws, ipprefix_node ''10.0.0.0/8'', ws], ws], ws]])"

definition alto_env0 :: alto_env where
  "alto_env0 = \<lparr> alto_now = 0, xml_dump = (\<lambda>_. ''request''), http = (\<lambda>_ _ _. Some [''reply'']), xml_parse = (\<lambda>_. Some reply0),
     junk_rating = 0, can_append = (\<lambda>_. True), thread_starts = True \<rparr>"

definition guided :: "int \<Rightarrow> int \<Rightarrow> guidance list" where
  "guided r1 r2 = [\<lparr> alto_host = 0x0A010203, g_prefix = 32, g_rating = r1 \<rparr>, \<lparr> alto_host = 0x0A020203, g_prefix = 24, g_rating = r2 \<rparr>]"

definition no_alto :: alto_client where
  "no_alto = \<lparr> mem = \<lparr> elems = (\<lambda>_. None), dbs = (\<lambda>_. None), brk = 0 \<rparr>, ALTO_DB_req = None, ALTO_DB_res = None,
     alto_server_url = replicate 256 CHR 0x00, user_lists = [5 \<mapsto> guided 0 0], in_progress = False,
     threadArgs = \<lparr> ta_list = None, ta_num = 0, ta_rc_host = 0, ta_pri_rat = 0, ta_sec_rat = 0 \<rparr>, threads = 0,
     files = (\<lambda>_. None), posted = [] \<rparr>"

definition alto0 :: alto_client where "alto0 = start_ALTO_client (no_alto\<lparr> alto_server_url := ''http://alto/'' @ [CHR 0x00] \<rparr>)"

lemma alto0_fields:
  "user_lists alto0 5 = Some (guided 0 0)" "posted alto0 = []" "\<not> in_progress alto0" "thread_starts alto_env0"
  "threadArgs alto0 = \<lparr> ta_list = None, ta_num = 0, ta_rc_host = 0, ta_pri_rat = 0, ta_sec_rat = 0 \<rparr>"
  "c_string (alto_server_url alto0) = Inr ''http://alto/''"
  by (simp_all add: alto0_def start_ALTO_client_def no_alto_def alto_db_init_def alto_env0_def c_string_def)

lemma alto0_ok: "client_ok alto0 0 1"
  by (simp add: alto0_def start_ALTO_client_def no_alto_def alto_db_init_def client_ok_def db_rep_def heap_ok_def db_list_def)

lemma alto0_answers: "answers alto_env0 alto0 doc ''http://alto/'' reply0"
  by (simp add: answers_def alto0_fields) (simp add: alto_env0_def ALTO_REP_BUF_SIZE_def)

lemma reply0_ok: "reply_ok reply0"
  by code_simp

lemma reply0_ratings: "reply_ratings reply0 = [(0x0A010000, 16, 7), (0x0A000000, 8, 3)]"
  by code_simp

lemma guided_rated: "rated [(0x0A010000, 16, 7), (0x0A000000, 8, 3)] (guided 0 0) = guided 7 3"
  by code_simp

lemma guided_ok: "distinct (map alto_host (guided 0 0))" "list_all (\<lambda>g. 0 < g_prefix g \<and> g_prefix g \<le> 32) (guided 0 0)"
    "length (guided 0 0) = 2"
  by (simp_all add: guided_def)

theorem alto_guidance_witness:
  "\<exists>st1. get_ALTO_guidance_for_list alto_env0 (Some 5) 2 0x0A000001 1 0 alto0 = Some (Inr (1, st1))
    \<and> user_lists st1 5 = Some (guided 7 3)"
proof -
  have l: "int (length (guided 0 0)) = 2" by (simp add: guided_ok)
  have "\<exists>s. get_ALTO_guidance_for_list alto_env0 (Some 5) (int (length (guided 0 0))) 0x0A000001 1 0 alto0 =
      Some (Inr (1, alto0\<lparr> mem := s, posted := posted alto0
          @ [(''http://alto/'', post_body (xml_dump alto_env0 (request_doc 0x0A000001 1 0 (map host_node (listed (guided 0 0))))))],
        user_lists := (user_lists alto0)(5 \<mapsto> rated (reply_ratings reply0) (guided 0 0)) \<rparr>))
    \<and> db_rep s 0 (map (rate (reply_ratings reply0)) (listed (guided 0 0))) \<and> db_rep s 1 []"
    by (rule alto_guidance [OF alto0_ok alto0_fields(1) guided_ok(1,2) refl alto0_answers reply0_ok])
  then show ?thesis unfolding l reply0_ratings guided_rated by auto
qed

theorem alto_thread_criteria_witness:
  "\<exists>st1 st2. ALTO_query_exec alto_env0 (Some 5) 2 0x0A000001 1 7 alto0 = Some (Inr (1, st1))
    \<and> alto_query_thread_func alto_env0 st1 = Some (Inr st2)
    \<and> posted st2 = [(''http://alto/'', post_body (xml_dump alto_env0 (request_doc 0 0 0 (map host_node (listed (guided 0 0))))))]
    \<and> user_lists st2 5 = Some (guided 7 3)"
proof -
  have l: "int (length (guided 0 0)) = 2" by (simp add: guided_ok)
  have doc: "request_doc (ta_rc_host (threadArgs alto0)) (ta_pri_rat (threadArgs alto0)) (ta_sec_rat (threadArgs alto0)) hs = request_doc 0 0 0 hs" for hs
    by (simp add: alto0_fields)
  from alto_thread_criteria [OF alto0_ok alto0_fields(1) guided_ok(1,2) alto0_fields(3,4) refl refl alto0_answers reply0_ok,
      of "0x0A000001" 1 7]
  show ?thesis unfolding l reply0_ratings guided_rated doc alto0_fields(2) by auto
qed

theorem alto_compact_reply_loses_witness:
  "\<exists>s. alto_parse_from_XML alto_env0 (Some 1)
      (Some [Elem ''alto'' [] [Elem ''group_rating_reply'' [] [Elem ''cnd_hla'' [(''overall_rating'', ''7'')]
        [ipprefix_node ''10.1.0.0/16'', ipprefix_node ''10.2.0.0/16'', ipprefix_node ''10.3.0.0/16'']]]]) (mem alto0) = Inr (1, s)
    \<and> db_rep s 1 [(0x0A020000, 16, 7)]"
proof -
  have r: "ratings_of (map ipprefix_node [''10.2.0.0/16'']) (Some ''7'') = [(0x0A020000, 16, 7)]" by code_simp
  have d: "db_rep (mem alto0) 1 []" using alto0_ok by (simp add: client_ok_def)
  have ts: "list_all (\<lambda>t. CHR ''/'' \<in> set t \<and> length t < 256) [''10.2.0.0/16'']" by simp
  from alto_compact_reply_loses [OF d ts refl, where env = alto_env0 and v = "''7''" and a = "''10.1.0.0/16''" and b = "''10.3.0.0/16''"]
  show ?thesis unfolding r by simp
qed

end
