(* ===== verification/Periodic.thy ===== *)
theory Periodic
  imports Packet_Queue Complex_Main
begin

text \<open>
  Periodic calls (\<open>common/common.c\<close>): \<open>napaInit\<close>, \<open>napaYield\<close>, \<open>napaSchedulePeriodic\<close>, \<open>napaStopPeriodic\<close> and the timer
  callback \<open>schedule_periodic_callback\<close>, which arms its own timer again before it calls the application. A handle is the
  address of a \<open>struct periodic\<close> on a heap; the timers that libevent holds are a list. The state also records which calls
  the application got. A frequency is a rational number, the conversions to seconds and microseconds truncate as in C.
  Any timer whose time has come may fire, so nothing depends on the order in which libevent serves them. Shown: the
  discipline of calls under which no freed handle is used, that every handle has exactly one timer, that a stopped handle
  is silent, the rhythm of the calls, and what stopping twice does.
\<close>

section \<open>State and operations\<close>

record periodic =
  cb :: "nat option"
  cbarg :: nat
  frequency :: rat

record timer =
  once_base :: "nat option"
  due :: rat
  once_arg :: "nat option"

text \<open>\<open>told\<close> is what the callbacks were called with: the time, the callback, its handle and its argument.\<close>

record napa =
  eventbase :: "nat option"
  now :: rat
  objs :: "nat \<Rightarrow> periodic option"
  brk :: nat
  timers :: "timer list"
  told :: "(rat \<times> nat \<times> nat \<times> nat) list"

text \<open>A call of the application: \<open>napaSchedulePeriodic\<close> or \<open>napaStopPeriodic\<close>.\<close>

datatype napa_call = Schedule "timeval option" rat "nat option" nat | Stop "nat option"

text \<open>What a callback of the application does when it is called with its handle and argument.\<close>

type_synonym napa_app = "nat \<Rightarrow> nat \<Rightarrow> nat \<Rightarrow> napa \<Rightarrow> napa_call list"

definition napa0 :: napa where
  "napa0 = \<lparr> eventbase = None, now = 0, objs = (\<lambda>_. None), brk = 0, timers = [], told = [] \<rparr>"

definition napaInit :: "nat option \<Rightarrow> napa \<Rightarrow> napa" where
  "napaInit event2_base s = s\<lparr> eventbase := event2_base \<rparr>"

text \<open>\<open>loop\<close> is \<open>event_base_loop\<close> with \<open>EVLOOP_ONCE\<close>.\<close>

definition napaYield :: "(nat option \<Rightarrow> napa \<Rightarrow> napa res option) \<Rightarrow> napa \<Rightarrow> napa res option" where
  "napaYield loop s = loop (eventbase s) s"

definition tv_time :: "timeval \<Rightarrow> rat" where
  "tv_time t = of_int (tv_sec t) + of_int (tv_usec t) / 1000000"

text \<open>\<open>event_base_once\<close> of libevent: it adds a timer to the base. The program ignores its result; it is taken to succeed, as it
  does for a base that was given to \<open>napaInit\<close>.\<close>

definition event_base_once :: "nat option \<Rightarrow> nat option \<Rightarrow> timeval \<Rightarrow> napa \<Rightarrow> napa" where
  "event_base_once b a t s =
     s\<lparr> timers := timers s @ [\<lparr> once_base = b, due = now s + tv_time t, once_arg = a \<rparr>] \<rparr>"

text \<open>The conversion of a \<open>double\<close> to an integer, and \<open>fmod\<close> with 1.\<close>

definition trunc :: "rat \<Rightarrow> int" where
  "trunc x = (if 0 \<le> x then \<lfloor>x\<rfloor> else \<lceil>x\<rceil>)"

definition fmod1 :: "rat \<Rightarrow> rat" where
  "fmod1 x = x - of_int (trunc x)"

definition period :: "rat \<Rightarrow> timeval" where
  "period f = \<lparr> tv_sec = \<lfloor>1 / f\<rfloor>, tv_usec = trunc (fmod1 (1 / f) * 1000000) \<rparr>"

definition napaSchedulePeriodic :: "timeval option \<Rightarrow> rat \<Rightarrow> nat option \<Rightarrow> nat \<Rightarrow> napa \<Rightarrow> nat option \<times> napa" where
  "napaSchedulePeriodic start f c a s =
     (let t = (case start of None \<Rightarrow> \<lparr> tv_sec = 0, tv_usec = 0 \<rparr> | Some t \<Rightarrow> t);
          h = brk s;
          s1 = s\<lparr> brk := h + 1, objs := (objs s)(h \<mapsto> \<lparr> cb = c, cbarg = a, frequency = f \<rparr>) \<rparr>
      in (Some h, event_base_once (eventbase s1) (Some h) t s1))"

definition napaStopPeriodic :: "nat option \<Rightarrow> napa \<Rightarrow> napa res" where
  "napaStopPeriodic h s =
     (case h of None \<Rightarrow> Inl NullDeref
      | Some a \<Rightarrow> (case objs s a of None \<Rightarrow> Inl UseAfterFree
        | Some p \<Rightarrow> Inr (s\<lparr> objs := (objs s)(a \<mapsto> p\<lparr> frequency := 0 \<rparr>) \<rparr>)))"

definition napa_call :: "napa_call \<Rightarrow> napa \<Rightarrow> napa res" where
  "napa_call c s =
     (case c of Schedule start f k a \<Rightarrow> Inr (snd (napaSchedulePeriodic start f k a s)) | Stop h \<Rightarrow> napaStopPeriodic h s)"

primrec napa_calls :: "napa_call list \<Rightarrow> napa \<Rightarrow> napa res" where
  "napa_calls [] s = Inr s"
| "napa_calls (c # cs) s = res_bind (napa_call c s) (napa_calls cs)"

definition schedule_periodic_callback :: "napa_app \<Rightarrow> nat option \<Rightarrow> napa \<Rightarrow> napa res" where
  "schedule_periodic_callback app arg s =
     (case arg of None \<Rightarrow> Inr s
      | Some h \<Rightarrow> (case objs s h of None \<Rightarrow> Inl UseAfterFree
        | Some p \<Rightarrow>
            if frequency p = 0 then Inr (s\<lparr> objs := (objs s)(h := None) \<rparr>)
            else
              let s1 = event_base_once (eventbase s) arg (period (frequency p)) s in
              (case cb p of None \<Rightarrow> Inr s1
               | Some c \<Rightarrow>
                   let s2 = s1\<lparr> told := told s1 @ [(now s1, c, h, cbarg p)] \<rparr>
                   in napa_calls (app c h (cbarg p) s2) s2)))"

text \<open>libevent takes a timer out of its list before it runs the callback.\<close>

definition fire_timer :: "napa_app \<Rightarrow> nat \<Rightarrow> napa \<Rightarrow> napa res" where
  "fire_timer app i s =
     schedule_periodic_callback app (once_arg (timers s ! i))
       (s\<lparr> timers := take i (timers s) @ drop (Suc i) (timers s) \<rparr>)"

section \<open>Runs\<close>

text \<open>A handle is running from its scheduling until it is stopped; only a running handle may be stopped.\<close>

definition running :: "napa \<Rightarrow> nat \<Rightarrow> bool" where
  "running s h = (case objs s h of None \<Rightarrow> False | Some p \<Rightarrow> frequency p \<noteq> 0)"

definition permitted :: "napa \<Rightarrow> napa_call \<Rightarrow> bool" where
  "permitted s c = (case c of Schedule _ _ _ _ \<Rightarrow> True | Stop h \<Rightarrow> (case h of None \<Rightarrow> False | Some a \<Rightarrow> running s a))"

primrec calls_ok :: "napa_call list \<Rightarrow> napa \<Rightarrow> bool" where
  "calls_ok [] s = True"
| "calls_ok (c # cs) s = (permitted s c \<and> (case napa_call c s of Inl _ \<Rightarrow> True | Inr s' \<Rightarrow> calls_ok cs s'))"

definition app_ok :: "napa_app \<Rightarrow> bool" where
  "app_ok app = (\<forall>c h a s. calls_ok (app c h a s) s)"

text \<open>Time passes, libevent serves a timer whose time has come, or the application makes a call.\<close>

inductive napa_step :: "napa_app \<Rightarrow> napa \<Rightarrow> napa res \<Rightarrow> bool" for app where
  step_tick: "now s \<le> t \<Longrightarrow> napa_step app s (Inr (s\<lparr> now := t \<rparr>))"
| step_fire: "i < length (timers s) \<Longrightarrow> due (timers s ! i) \<le> now s \<Longrightarrow> once_base (timers s ! i) = eventbase s \<Longrightarrow>
    napa_step app s (fire_timer app i s)"
| step_call: "permitted s c \<Longrightarrow> napa_step app s (napa_call c s)"

inductive napa_run :: "napa_app \<Rightarrow> napa \<Rightarrow> napa \<Rightarrow> bool" for app s where
  run_refl: "napa_run app s s"
| run_step: "napa_run app s s' \<Longrightarrow> napa_step app s' (Inr s'') \<Longrightarrow> napa_run app s s''"

definition waiting :: "napa \<Rightarrow> nat \<Rightarrow> nat" where
  "waiting s h = length (filter (\<lambda>t. once_arg t = Some h) (timers s))"

lemma waiting_simps [simp]:
  "waiting (s\<lparr> objs := x \<rparr>) h = waiting s h"
  "waiting (s\<lparr> now := u \<rparr>) h = waiting s h"
  "waiting (s\<lparr> told := y \<rparr>) h = waiting s h"
  "waiting (s\<lparr> brk := n \<rparr>) h = waiting s h"
  "waiting (event_base_once b a t s) h = waiting s h + (if a = Some h then 1 else 0)"
  by (simp_all add: waiting_def event_base_once_def)

lemma event_base_once_simps [simp]:
  "objs (event_base_once b a t s) = objs s" "brk (event_base_once b a t s) = brk s" "now (event_base_once b a t s) = now s"
  "told (event_base_once b a t s) = told s" "eventbase (event_base_once b a t s) = eventbase s"
  "timers (event_base_once b a t s) = timers s @ [\<lparr> once_base = b, due = now s + tv_time t, once_arg = a \<rparr>]"
  by (simp_all add: event_base_once_def)

text \<open>Every handle has one timer, freed handles have none, every timer has a handle, addresses are fresh.\<close>

definition periodic_inv :: "napa \<Rightarrow> bool" where
  "periodic_inv s \<longleftrightarrow>
     (\<forall>h. waiting s h = (if objs s h = None then 0 else 1)) \<and>
     (\<forall>t \<in> set (timers s). once_arg t \<noteq> None \<and> once_base t = eventbase s) \<and>
     (\<forall>h. objs s h \<noteq> None \<longrightarrow> h < brk s)"

lemma periodic_inv_init: "periodic_inv (napaInit b napa0)"
  by (simp add: periodic_inv_def waiting_def napaInit_def napa0_def)

lemma stop_inv:
  assumes "periodic_inv s" "running s h"
  obtains s' where "napaStopPeriodic (Some h) s = Inr s'" "periodic_inv s'" "\<not> running s' h"
    "brk s' = brk s" "timers s' = timers s" "told s' = told s"
proof -
  from assms(2) obtain p where p: "objs s h = Some p" by (auto simp: running_def split: option.splits)
  let ?s = "s\<lparr> objs := (objs s)(h \<mapsto> p\<lparr> frequency := 0 \<rparr>) \<rparr>"
  show ?thesis
  proof (rule that [of ?s])
    show "periodic_inv ?s" using assms(1) p by (simp add: periodic_inv_def)
  qed (simp_all add: napaStopPeriodic_def p running_def)
qed

lemma schedule_inv:
  assumes "periodic_inv s"
  shows "periodic_inv (snd (napaSchedulePeriodic start f c a s))"
proof -
  have "objs s (brk s) = None" "waiting s (brk s) = 0"
    using assms by (auto simp: periodic_inv_def)
  then show ?thesis
    using assms
    by (auto simp: periodic_inv_def napaSchedulePeriodic_def Let_def less_SucI)
qed

lemma call_inv:
  assumes "periodic_inv s" "permitted s c"
  obtains s' where "napa_call c s = Inr s'" "periodic_inv s'"
proof (cases c)
  case (Schedule start f k a)
  then show ?thesis using that schedule_inv [OF assms(1)] by (simp add: napa_call_def)
next
  case (Stop h)
  with assms(2) obtain a where h: "h = Some a" "running s a" by (auto simp: permitted_def split: option.splits)
  from stop_inv [OF assms(1) h(2)] that show ?thesis by (auto simp: napa_call_def Stop h)
qed

lemma calls_inv:
  assumes "periodic_inv s" "calls_ok cs s"
  obtains s' where "napa_calls cs s = Inr s'" "periodic_inv s'"
  using assms
proof (induction cs arbitrary: s thesis)
  case (Cons c cs)
  from Cons.prems obtain s1 where s1: "napa_call c s = Inr s1" "periodic_inv s1" by (auto elim: call_inv)
  from Cons.prems(3) s1(1) have "calls_ok cs s1" by simp
  from Cons.IH [OF _ s1(2) this] Cons.prems(1) s1(1) show ?case by auto
qed simp

text \<open>Serving a timer: the handle of its argument loses it, and gets a new one unless it has been stopped.\<close>

lemma waiting_remove:
  assumes "i < length (timers s)"
  shows "waiting s h = waiting (s\<lparr> timers := take i (timers s) @ drop (Suc i) (timers s) \<rparr>) h
    + (if once_arg (timers s ! i) = Some h then 1 else 0)"
proof -
  have "timers s = take i (timers s) @ timers s ! i # drop (Suc i) (timers s)"
    using assms by (rule id_take_nth_drop)
  then have "filter P (timers s) = filter P (take i (timers s)) @ filter P [timers s ! i] @ filter P (drop (Suc i) (timers s))"
    for P by (metis append_Cons append_Nil filter_append)
  then show ?thesis by (simp add: waiting_def)
qed

lemma fire_inv:
  assumes "periodic_inv s" "i < length (timers s)" "app_ok app"
  obtains s' where "fire_timer app i s = Inr s'" "periodic_inv s'"
proof -
  let ?s = "s\<lparr> timers := take i (timers s) @ drop (Suc i) (timers s) \<rparr>"
  from assms(1,2) obtain h where h: "once_arg (timers s ! i) = Some h"
    unfolding periodic_inv_def by (meson nth_mem option.exhaust)
  have w: "waiting s k = waiting ?s k + (if k = h then 1 else 0)" for k
    using waiting_remove [OF assms(2), of k] h by auto
  have one: "waiting s k = (if objs s k = None then 0 else 1)" and lt: "objs s k \<noteq> None \<Longrightarrow> k < brk s" for k
    using assms(1) by (simp_all add: periodic_inv_def)
  have ts: "\<forall>t \<in> set (timers ?s). once_arg t \<noteq> None \<and> once_base t = eventbase s"
    using assms(1) by (auto simp: periodic_inv_def dest: in_set_takeD in_set_dropD)
  from w [of h] one [of h] obtain p where p: "objs s h = Some p" by (cases "objs s h") auto
  have w': "waiting ?s k = (if objs s k = None \<or> k = h then 0 else 1)" for k
    using w [of k] one [of k] p by (auto split: if_splits)
  show ?thesis
  proof (cases "frequency p = 0")
    case True
    have "periodic_inv (?s\<lparr> objs := (objs s)(h := None) \<rparr>)"
      using w' ts lt by (simp add: periodic_inv_def)
    then show ?thesis using that True p h by (simp add: fire_timer_def schedule_periodic_callback_def)
  next
    case False
    let ?s1 = "event_base_once (eventbase s) (Some h) (period (frequency p)) ?s"
    have i1: "periodic_inv ?s1"
      using w' ts lt p by (auto simp: periodic_inv_def)
    show ?thesis
    proof (cases "cb p")
      case None
      then show ?thesis using that i1 False p h by (simp add: fire_timer_def schedule_periodic_callback_def)
    next
      case (Some c)
      let ?s2 = "?s1\<lparr> told := told ?s1 @ [(now ?s1, c, h, cbarg p)] \<rparr>"
      have "periodic_inv ?s2" using i1 by (simp add: periodic_inv_def)
      moreover have "calls_ok (app c h (cbarg p) ?s2) ?s2" using assms(3) by (simp add: app_ok_def)
      ultimately obtain s' where "napa_calls (app c h (cbarg p) ?s2) ?s2 = Inr s'" "periodic_inv s'" by (rule calls_inv)
      then show ?thesis using that Some False p h by (simp add: fire_timer_def schedule_periodic_callback_def Let_def)
    qed
  qed
qed

lemma step_inv:
  assumes "periodic_inv s" "app_ok app" "napa_step app s r"
  obtains s' where "r = Inr s'" "periodic_inv s'"
  using assms(3)
proof (cases rule: napa_step.cases)
  case (step_tick t)
  then show ?thesis using that [of "s\<lparr> now := t \<rparr>"] assms(1) by (simp add: periodic_inv_def)
next
  case (step_fire i)
  then show ?thesis using fire_inv [OF assms(1) step_fire(2) assms(2)] that by metis
next
  case (step_call c)
  then show ?thesis using call_inv [OF assms(1) step_call(2)] that by metis
qed

lemma run_inv: "napa_run app s s' \<Longrightarrow> periodic_inv s \<Longrightarrow> app_ok app \<Longrightarrow> periodic_inv s'"
  by (induction rule: napa_run.induct) (auto elim: step_inv)

lemma run_trans: "napa_run app s' s'' \<Longrightarrow> napa_run app s s' \<Longrightarrow> napa_run app s s''"
  by (induction rule: napa_run.induct) (auto intro: run_step)

section \<open>Silence after a stop\<close>

definition told_of :: "nat \<Rightarrow> napa \<Rightarrow> (rat \<times> nat \<times> nat \<times> nat) list" where
  "told_of h s = filter (\<lambda>x. fst (snd (snd x)) = h) (told s)"

text \<open>A handle is over (\<open>stopped\<close>) when it has been given out and is not running any more.\<close>

definition stopped :: "napa \<Rightarrow> nat \<Rightarrow> bool" where
  "stopped s h \<longleftrightarrow> h < brk s \<and> \<not> running s h"

definition quiet :: "nat \<Rightarrow> napa \<Rightarrow> napa \<Rightarrow> bool" where
  "quiet h s s' \<longleftrightarrow> stopped s' h \<and> told_of h s' = told_of h s"

lemma silent_trans: "quiet h s s' \<Longrightarrow> quiet h s' s'' \<Longrightarrow> quiet h s s''"
  by (simp add: quiet_def)

lemma call_silent:
  assumes "napa_call c s = Inr s'" "stopped s h"
  shows "quiet h s s'"
proof (cases c)
  case (Schedule start f k a)
  have "s' = snd (napaSchedulePeriodic start f k a s)" using assms(1) by (simp add: napa_call_def Schedule)
  then show ?thesis using assms(2)
    by (auto simp: quiet_def stopped_def running_def told_of_def napaSchedulePeriodic_def Let_def)
next
  case (Stop a)
  with assms(1) obtain k p where "a = Some k" "objs s k = Some p" "s' = s\<lparr> objs := (objs s)(k \<mapsto> p\<lparr> frequency := 0 \<rparr>) \<rparr>"
    by (auto simp: napa_call_def napaStopPeriodic_def split: option.splits)
  then show ?thesis using assms(2) by (auto simp: quiet_def stopped_def running_def told_of_def)
qed

lemma calls_silent: "napa_calls cs s = Inr s' \<Longrightarrow> stopped s h \<Longrightarrow> quiet h s s'"
proof (induction cs arbitrary: s)
  case Nil
  then show ?case by (simp add: quiet_def)
next
  case (Cons c cs)
  from Cons.prems(1) obtain s1 where s1: "napa_call c s = Inr s1" "napa_calls cs s1 = Inr s'"
    by (auto simp: res_bind_Inr)
  from call_silent [OF s1(1) Cons.prems(2)] have "quiet h s s1" .
  with Cons.IH [OF s1(2)] show ?case by (auto simp: quiet_def)
qed

lemma callback_silent:
  assumes "schedule_periodic_callback app a s = Inr s'" "stopped s h"
  shows "quiet h s s'"
proof (cases a)
  case None
  with assms show ?thesis by (simp add: schedule_periodic_callback_def quiet_def)
next
  case (Some k)
  with assms(1) obtain p where p: "objs s k = Some p"
    by (auto simp: schedule_periodic_callback_def split: option.splits)
  show ?thesis
  proof (cases "frequency p = 0")
    case True
    with assms p Some show ?thesis
      by (auto simp: schedule_periodic_callback_def quiet_def stopped_def running_def told_of_def split: option.splits if_splits)
  next
    case False
    with assms(2) p have k: "k \<noteq> h" by (auto simp: stopped_def running_def)
    let ?s1 = "event_base_once (eventbase s) a (period (frequency p)) s"
    have "quiet h s ?s1" using assms(2) by (simp add: quiet_def stopped_def running_def told_of_def)
    moreover have "quiet h ?s1 s'"
    proof (cases "cb p")
      case None
      then show ?thesis using assms False p Some
        by (auto simp: schedule_periodic_callback_def quiet_def stopped_def running_def told_of_def)
    next
      case (Some c)
      let ?s2 = "?s1\<lparr> told := told ?s1 @ [(now ?s1, c, k, cbarg p)] \<rparr>"
      have 2: "quiet h ?s1 ?s2" using assms(2) k by (simp add: quiet_def stopped_def running_def told_of_def)
      have "stopped ?s2 h" using assms(2) by (simp add: stopped_def running_def)
      moreover have "napa_calls (app c k (cbarg p) ?s2) ?s2 = Inr s'"
        using assms(1) \<open>a = Some k\<close> p False Some by (simp add: schedule_periodic_callback_def Let_def)
      ultimately show ?thesis by (intro silent_trans [OF 2] calls_silent)
    qed
    ultimately show ?thesis by (rule silent_trans)
  qed
qed

lemma step_silent:
  assumes "napa_step app s (Inr s')" "stopped s h"
  shows "quiet h s s'"
  using assms(1)
proof (cases rule: napa_step.cases)
  case (step_tick t)
  then show ?thesis using assms(2) by (simp add: quiet_def stopped_def running_def told_of_def)
next
  case (step_fire i)
  let ?s = "s\<lparr> timers := take i (timers s) @ drop (Suc i) (timers s) \<rparr>"
  have "quiet h s ?s" using assms(2) by (simp add: quiet_def stopped_def running_def told_of_def)
  moreover from this have "quiet h ?s s'" using step_fire(1) callback_silent [of app _ ?s s' h] by (simp add: fire_timer_def quiet_def)
  ultimately show ?thesis by (rule silent_trans)
next
  case (step_call c)
  then show ?thesis using call_silent [of c s s' h] assms(2) by simp
qed

lemma run_silent: "napa_run app s s' \<Longrightarrow> stopped s h \<Longrightarrow> quiet h s s'"
  by (induction rule: napa_run.induct) (auto simp: quiet_def dest: step_silent)

section \<open>The rhythm of the calls\<close>

lemma period_bounds:
  assumes "0 < f"
  shows "1 / f - 1 / 1000000 < tv_time (period f)" "tv_time (period f) \<le> 1 / f" "0 \<le> tv_time (period f)"
proof -
  define x where "x = 1 / f"
  define y where "y = x - of_int \<lfloor>x\<rfloor>"
  have x: "0 \<le> x" using assms by (simp add: x_def)
  have y: "0 \<le> y" by (simp add: y_def)
  have t: "tv_time (period f) = of_int \<lfloor>x\<rfloor> + of_int \<lfloor>y * 1000000\<rfloor> / 1000000"
  proof -
    have "fmod1 x = y" using x by (simp add: fmod1_def trunc_def y_def)
    moreover have "trunc (y * 1000000) = \<lfloor>y * 1000000\<rfloor>" using y by (simp add: trunc_def)
    ultimately show ?thesis by (simp add: tv_time_def period_def x_def [symmetric])
  qed
  have l: "y * 1000000 < of_int \<lfloor>y * 1000000\<rfloor> + 1" "of_int \<lfloor>y * 1000000\<rfloor> \<le> y * 1000000"
    by linarith+
  have n: "0 \<le> \<lfloor>x\<rfloor>" "0 \<le> \<lfloor>y * 1000000\<rfloor>" using x y by simp_all
  show "1 / f - 1 / 1000000 < tv_time (period f)" "tv_time (period f) \<le> 1 / f"
    using l unfolding t x_def [symmetric] y_def by (simp_all add: field_simps)
  show "0 \<le> tv_time (period f)" using n unfolding t by simp
qed

text \<open>Serving the first timer as soon as its time has come, \<open>n\<close> times.\<close>

primrec serve :: "napa_app \<Rightarrow> nat \<Rightarrow> napa \<Rightarrow> napa res" where
  "serve app 0 s = Inr s"
| "serve app (Suc n) s =
     (case timers s of [] \<Rightarrow> Inr s
      | t # ts \<Rightarrow> res_bind (fire_timer app 0 (s\<lparr> now := max (now s) (due t) \<rparr>)) (serve app n))"

text \<open>The state between two calls of a periodic call that is alone.\<close>

definition ticking :: "napa \<Rightarrow> nat \<Rightarrow> periodic \<Rightarrow> rat \<Rightarrow> bool" where
  "ticking s h p d \<longleftrightarrow> objs s h = Some p \<and> now s \<le> d \<and> timers s = [\<lparr> once_base = eventbase s, due = d, once_arg = Some h \<rparr>]"

lemma fire_ticking:
  assumes "ticking s h p d" "0 < frequency p" "cb p = Some c" "\<And>s. app c h (cbarg p) s = []"
  shows "\<exists>s'. fire_timer app 0 (s\<lparr> now := max (now s) d \<rparr>) = Inr s' \<and> ticking s' h p (d + tv_time (period (frequency p))) \<and>
    told s' = told s @ [(d, c, h, cbarg p)]"
  using assms period_bounds(3) [OF assms(2)]
  by (auto simp: ticking_def fire_timer_def schedule_periodic_callback_def Let_def)

lemma serve_ticking:
  assumes "ticking s h p d" "0 < frequency p" "cb p = Some c" "\<And>s. app c h (cbarg p) s = []"
  shows "\<exists>s'. serve app n s = Inr s' \<and>
    told s' = told s @ map (\<lambda>k. (d + of_nat k * tv_time (period (frequency p)), c, h, cbarg p)) [0..<n]"
  using assms(1)
proof (induction n arbitrary: s d)
  case 0
  then show ?case by simp
next
  case (Suc n)
  let ?P = "tv_time (period (frequency p))"
  obtain s1 where s1: "fire_timer app 0 (s\<lparr> now := max (now s) d \<rparr>) = Inr s1" "ticking s1 h p (d + ?P)"
    "told s1 = told s @ [(d, c, h, cbarg p)]"
    using fire_ticking [where app = app, OF Suc.prems assms(2,3)] assms(4) by blast
  have r: "map (\<lambda>k. (d + of_nat k * ?P, c, h, cbarg p)) [0..<Suc n]
    = (d, c, h, cbarg p) # map (\<lambda>k. (d + ?P + of_nat k * ?P, c, h, cbarg p)) [0..<n]"
    unfolding upt_conv_Cons [OF zero_less_Suc] map_Suc_upt [symmetric] by (simp add: algebra_simps)
  show ?case using Suc.IH [OF s1(2)] Suc.prems s1(1,3) unfolding r by (auto simp: ticking_def)
qed

section \<open>Properties\<close>

text \<open>
  C21: In every state reached by time, timers and calls, when only running handles are stopped: each handle has exactly
  one timer and a freed handle has none, and whatever happens next, no freed handle is used.
\<close>

theorem periodic_safe:
  assumes "app_ok app" "napa_run app (napaInit b napa0) s"
  shows "waiting s h = (if objs s h = None then 0 else 1) \<and> (napa_step app s r \<longrightarrow> ok r)"
proof -
  from run_inv [OF assms(2) periodic_inv_init assms(1)] have i: "periodic_inv s" .
  then show ?thesis using step_inv [OF i assms(1)] by (fastforce simp: periodic_inv_def)
qed

text \<open>
  C20: A running handle can be stopped, and after that its callback is never called again, whatever timers are still
  pending and whatever the application and its other callbacks do.
\<close>

theorem stopped_is_silent:
  assumes "app_ok app" "napa_run app (napaInit b napa0) s" "running s h"
  shows "\<exists>s1. napaStopPeriodic (Some h) s = Inr s1 \<and>
    (\<forall>s2. napa_run app s1 s2 \<longrightarrow> told_of h s2 = told_of h s \<and> \<not> running s2 h)"
proof -
  from run_inv [OF assms(2) periodic_inv_init assms(1)] have i: "periodic_inv s" .
  then obtain s1 where s1: "napaStopPeriodic (Some h) s = Inr s1" "\<not> running s1 h" "brk s1 = brk s" "told s1 = told s"
    using assms(3) by (rule stop_inv)
  have "h < brk s" using i assms(3) by (auto simp: periodic_inv_def running_def split: option.splits)
  then have "stopped s1 h" using s1 by (simp add: stopped_def)
  from run_silent [OF _ this] s1 show ?thesis by (auto simp: quiet_def stopped_def told_of_def)
qed

text \<open>
  A periodic call of frequency \<open>f\<close> is made at its start and then once in every period, and the period is \<open>1 / f\<close>
  rounded down to microseconds.
\<close>

theorem periodic_rhythm:
  assumes "0 < f" "0 \<le> tv_time st" "timers s = []" "\<And>s'. app c (brk s) a s' = []"
  shows "\<exists>s'. serve app n (snd (napaSchedulePeriodic (Some st) f (Some c) a s)) = Inr s' \<and>
      told s' = told s @ map (\<lambda>k. (now s + tv_time st + of_nat k * tv_time (period f), c, brk s, a)) [0..<n] \<and>
      1 / f - 1 / 1000000 < tv_time (period f) \<and> tv_time (period f) \<le> 1 / f"
proof -
  let ?s = "snd (napaSchedulePeriodic (Some st) f (Some c) a s)"
  let ?p = "\<lparr> cb = Some c, cbarg = a, frequency = f \<rparr>"
  have "ticking ?s (brk s) ?p (now s + tv_time st)" "told ?s = told s"
    using assms(2,3) by (simp_all add: ticking_def napaSchedulePeriodic_def Let_def)
  with serve_ticking [of ?s "brk s" ?p _ c app n] assms(1,4) period_bounds [OF assms(1)] show ?thesis by simp
qed

text \<open>
  The handle of a stopped call is freed by its last timer, of which nobody is told: stopping it again then writes to
  freed memory. A call of frequency 0 is freed by its first timer without ever being made.
\<close>

theorem second_stop_uses_freed:
  assumes "napaStopPeriodic (Some h) s = Inr s1" "i < length (timers s1)" "once_arg (timers s1 ! i) = Some h"
  shows "res_bind (fire_timer app i s1) (napaStopPeriodic (Some h)) = Inl UseAfterFree"
proof -
  from assms(1) obtain p where "objs s1 h = Some p" "frequency p = 0"
    by (auto simp: napaStopPeriodic_def split: option.splits)
  then show ?thesis using assms(3) by (simp add: fire_timer_def schedule_periodic_callback_def napaStopPeriodic_def)
qed

lemma zero_frequency_never_called:
  assumes "timers s = []"
  shows "\<exists>s'. serve app 1 (snd (napaSchedulePeriodic st 0 k a s)) = Inr s' \<and> told s' = told s \<and> objs s' (brk s) = None"
  using assms by (simp add: napaSchedulePeriodic_def fire_timer_def schedule_periodic_callback_def Let_def)

section \<open>Witnesses\<close>

text \<open>An application whose callback stops itself at its third call, and a call scheduled twice a second.\<close>

definition demo_app :: napa_app where
  "demo_app c h a s = (if 3 \<le> length (told s) \<and> running s h then [Stop (Some h)] else [])"

definition demo_start :: napa where
  "demo_start = snd (napaSchedulePeriodic None 2 (Some 7) 5 (napaInit (Some 1) napa0))"

lemma demo_app_ok: "app_ok demo_app"
  by (simp add: app_ok_def demo_app_def permitted_def split: sum.split)

lemma demo_start_simps:
  "running demo_start 0" "timers demo_start = [\<lparr> once_base = Some 1, due = 0, once_arg = Some 0 \<rparr>]"
  "objs demo_start 0 = Some \<lparr> cb = Some 7, cbarg = 5, frequency = 2 \<rparr>" "eventbase demo_start = Some 1"
  "now demo_start = 0" "told demo_start = []"
  by (simp_all add: demo_start_def running_def napaSchedulePeriodic_def napaInit_def napa0_def tv_time_def Let_def)

lemma demo_run: "napa_run demo_app (napaInit (Some 1) napa0) demo_start"
proof -
  have "napa_call (Schedule None 2 (Some 7) 5) (napaInit (Some 1) napa0) = Inr demo_start"
    by (simp add: napa_call_def demo_start_def)
  moreover have "napa_step demo_app (napaInit (Some 1) napa0)
    (napa_call (Schedule None 2 (Some 7) 5) (napaInit (Some 1) napa0))"
    by (rule step_call) (simp add: permitted_def)
  ultimately show ?thesis by (intro run_step [OF run_refl]) simp
qed

theorem periodic_safe_witness:
  "app_ok demo_app \<and> napa_run demo_app (napaInit (Some 1) napa0) demo_start \<and>
   waiting demo_start 0 = 1 \<and> ok (fire_timer demo_app 0 demo_start)"
proof -
  have "napa_step demo_app demo_start (fire_timer demo_app 0 demo_start)"
    by (rule step_fire) (simp_all add: demo_start_simps)
  then show ?thesis
    using periodic_safe [OF demo_app_ok demo_run, of 0 "fire_timer demo_app 0 demo_start"] demo_app_ok demo_run
    by (simp add: demo_start_simps)
qed

theorem stopped_is_silent_witness:
  "\<exists>s1 s2. napaStopPeriodic (Some 0) demo_start = Inr s1 \<and> fire_timer demo_app 0 s1 = Inr s2 \<and> told_of 0 s2 = []"
proof -
  obtain s1 where s1: "napaStopPeriodic (Some 0) demo_start = Inr s1"
    and quiet: "\<And>s2. napa_run demo_app s1 s2 \<Longrightarrow> told_of 0 s2 = told_of 0 demo_start"
    using stopped_is_silent [OF demo_app_ok demo_run demo_start_simps(1)] by blast
  have t: "timers s1 = timers demo_start" "now s1 = 0" "eventbase s1 = Some 1" "objs s1 0 \<noteq> None"
    using s1 by (auto simp: napaStopPeriodic_def demo_start_simps)
  obtain s2 where s2: "fire_timer demo_app 0 s1 = Inr s2"
    using s1 by (auto simp: napaStopPeriodic_def demo_start_simps fire_timer_def schedule_periodic_callback_def)
  have "napa_step demo_app s1 (fire_timer demo_app 0 s1)" by (rule step_fire) (simp_all add: t demo_start_simps)
  then have "told_of 0 s2 = told_of 0 demo_start" using s2 by (intro quiet run_step [OF run_refl]) simp
  then have "told_of 0 s2 = []" by (simp add: told_of_def demo_start_simps)
  then show ?thesis using s1 s2 by blast
qed

theorem periodic_rhythm_witness:
  "\<exists>s'. serve (\<lambda>_ _ _ _. []) 3 (snd (napaSchedulePeriodic (Some \<lparr> tv_sec = 1, tv_usec = 0 \<rparr>) 2 (Some 7) 5 napa0)) = Inr s' \<and>
     told s' = [(1, 7, 0, 5), (3 / 2, 7, 0, 5), (2, 7, 0, 5)]"
proof -
  have "\<lfloor>1 / 2 :: rat\<rfloor> = 0" by (rule floor_unique) simp_all
  then have P: "tv_time (period 2) = 1 / 2" by (simp add: tv_time_def period_def fmod1_def trunc_def)
  have S: "tv_time \<lparr> tv_sec = 1, tv_usec = 0 \<rparr> = 1" by (simp add: tv_time_def)
  have N: "brk napa0 = 0" "now napa0 = 0" "told napa0 = []" "timers napa0 = []" by (simp_all add: napa0_def)
  show ?thesis
    using periodic_rhythm [where f = 2 and st = "\<lparr> tv_sec = 1, tv_usec = 0 \<rparr>" and s = napa0 and c = 7 and a = 5
        and app = "\<lambda>_ _ _ _. []" and n = 3]
    unfolding P S N by (simp add: upt_rec)
qed

end
