(* ===== verification/Stun_Helpers.thy ===== *)
theory Stun_Helpers
  imports Sock_Addr Stun
begin

text \<open>
  The functions of \<open>ml/util/stun.c\<close> beside the codec: random numbers and ports, the system time, host and server names,
  hexadecimal digits and error responses. The resolver, the clock, the source of the
  seed and \<open>random\<close> are parameters. Where the C++ original took a reference, this code takes a struct or an integer by
  value: \<open>stunParseHostName\<close>, \<open>stunParseServerName\<close> and \<open>stunCreateErrorResponse\<close> change copies only, and their
  results here are all that the caller sees.
\<close>

section \<open>Random numbers\<close>

text \<open>
  \<open>tick\<close> is what the counter or \<open>/dev/random\<close> gives at the first call, \<open>random_no seed i\<close> the \<open>i\<close>-th value of \<open>random\<close>
  after \<open>srandom(seed)\<close>.
\<close>

record rand_env =
  tick :: "64 word"
  random_no :: "u32 \<Rightarrow> nat \<Rightarrow> u32"

record rand_state =
  rand_init :: bool
  rand_seed :: u32
  rand_pos :: nat

definition stun_Rand :: "rand_env \<Rightarrow> rand_state \<Rightarrow> u32 \<times> rand_state" where
  "stun_Rand env r =
     (let r1 = (if rand_init r then r else \<lparr> rand_init = True, rand_seed = ucast (tick env), rand_pos = 0 \<rparr>)
      in (random_no env (rand_seed r1) (rand_pos r1), r1\<lparr> rand_pos := rand_pos r1 + 1 \<rparr>))"

definition stunRandomPort :: "rand_env \<Rightarrow> rand_state \<Rightarrow> u32 \<times> rand_state" where
  "stunRandomPort env r = (let (n, r1) = stun_Rand env r in ((n OR 0x4000) AND 0x7FFF, r1))"

definition stunGetSystemTimeSecs :: "timeval \<Rightarrow> 64 word" where
  "stunGetSystemTimeSecs tv = word_of_int (tv_sec tv)"

text \<open>The values of \<open>n\<close> calls in a row.\<close>

primrec rands :: "rand_env \<Rightarrow> nat \<Rightarrow> rand_state \<Rightarrow> u32 list \<times> rand_state" where
  "rands env 0 r = ([], r)"
| "rands env (Suc n) r = (let (x, r1) = stun_Rand env r; (xs, r2) = rands env n r1 in (x # xs, r2))"

lemma rands_seeded:
  "rand_init r \<Longrightarrow> rands env n r =
     (map (\<lambda>i. random_no env (rand_seed r) (rand_pos r + i)) [0..<n], r\<lparr> rand_pos := rand_pos r + n \<rparr>)"
proof (induction n arbitrary: r)
  case (Suc n)
  have m: "map f [0..<Suc n] = f 0 # map (\<lambda>i. f (Suc i)) [0..<n]" for f :: "nat \<Rightarrow> u32"
    unfolding upt_conv_Cons [OF zero_less_Suc] map_Suc_upt [symmetric] by simp
  show ?case using Suc.prems by (simp add: stun_Rand_def Suc.IH m del: upt_Suc)
qed simp

text \<open>The generator is seeded once, at the first call: \<open>n\<close> calls give the first \<open>n\<close> values after that seed.\<close>

theorem rands_seeded_once:
  "\<not> rand_init r \<Longrightarrow> fst (rands env n r) = map (random_no env (ucast (tick env))) [0..<n]"
proof (cases n)
  case (Suc m)
  have e: "map f [0..<Suc m] = f 0 # map (\<lambda>i. f (Suc i)) [0..<m]" for f :: "nat \<Rightarrow> u32"
    unfolding upt_conv_Cons [OF zero_less_Suc] map_Suc_upt [symmetric] by simp
  assume "\<not> rand_init r"
  then show ?thesis by (simp add: Suc stun_Rand_def rands_seeded e del: upt_Suc)
qed simp

text \<open>The ports are those from 16384 to 32767.\<close>

theorem random_port_range: "0x4000 \<le> fst (stunRandomPort env r) \<and> fst (stunRandomPort env r) \<le> 0x7FFF"
proof -
  define n where "n = fst (stun_Rand env r)"
  have "fst (stunRandomPort env r) = (n OR 0x4000) AND 0x7FFF"
    by (simp add: stunRandomPort_def n_def split_beta Let_def)
  moreover have "(n OR 0x4000) AND 0x7FFF \<le> 0x7FFF" by (rule word_and_le1)
  moreover have "0x4000 \<le> (n OR 0x4000) AND (0x7FFF :: u32)"
  proof -
    have "(n OR 0x4000) AND 0x7FFF = (n AND 0x3FFF) OR (0x4000 :: u32)"
      by (rule bit_word_eqI) (auto simp: bit_simps numeral_eq_Suc less_Suc_eq)
    also have "(0x4000 :: u32) \<le> \<dots>" by (metis le_word_or1 or.commute)
    finally show ?thesis .
  qed
  ultimately show ?thesis by simp
qed

section \<open>Names of hosts and servers\<close>

text \<open>\<open>strtol(s, &end, 10)\<close> with what \<open>end\<close> points to; without digits \<open>end\<close> is \<open>s\<close>.\<close>

definition strtol10 :: "string \<Rightarrow> int \<times> string" where
  "strtol10 s = (case scan_int s of None \<Rightarrow> (0, s) | Some (n, rest) \<Rightarrow> (clamp n, rest))"

text \<open>The port after a colon, the default port when something follows its digits.\<close>

definition port_num :: "string option \<Rightarrow> u16 \<Rightarrow> int" where
  "port_num port defaultPort =
     (case port of None \<Rightarrow> uint defaultPort
      | Some s \<Rightarrow> let (n, rest) = strtol10 s in if rest \<noteq> [] then uint defaultPort else sint (word_of_int n :: 32 word))"

definition split_host :: "string \<Rightarrow> string \<times> string option" where
  "split_host peerName =
     (let host = take 511 peerName in
      case dropWhile (\<lambda>c. c \<noteq> CHR '':'') host of
        [] \<Rightarrow> (host, None)
      | _ # port \<Rightarrow> (takeWhile (\<lambda>c. c \<noteq> CHR '':'') host, Some port))"

definition stunParseHostName ::
    "(string \<Rightarrow> u32 option) \<Rightarrow> string option \<Rightarrow> u32 \<Rightarrow> u16 \<Rightarrow> u16 \<Rightarrow> bool res" where
  "stunParseHostName gethostbyname peerName ip portVal defaultPort =
     (case peerName of None \<Rightarrow> Inl NullDeref
      | Some name \<Rightarrow>
          let (host, port) = split_host name; portNum = port_num port defaultPort in
          Inr (if portNum < 1024 then False
               else if portNum \<ge> 0xFFFF then False
               else case gethostbyname host of None \<Rightarrow> False | Some _ \<Rightarrow> True))"

definition stunParseServerName :: "(string \<Rightarrow> u32 option) \<Rightarrow> string option \<Rightarrow> stun_addr \<Rightarrow> bool res" where
  "stunParseServerName gethostbyname name addr =
     res_bind (check AssertFail (name \<noteq> None)) (\<lambda>_.
       stunParseHostName gethostbyname name (sa_addr addr) (sa_port addr) 3478)"

text \<open>
  The host part has no colon, and a name with a colon is the host, the colon and the port, up to the 511 characters
  that are looked at.
\<close>

lemma split_host_parts:
  "split_host name = (host, port) \<Longrightarrow>
     CHR '':'' \<notin> set host \<and> take 511 name = host @ (case port of None \<Rightarrow> [] | Some p \<Rightarrow> CHR '':'' # p)"
proof -
  let ?P = "\<lambda>c. c \<noteq> CHR '':''"
  have t: "take 511 name = takeWhile ?P (take 511 name) @ dropWhile ?P (take 511 name)" by simp
  assume s: "split_host name = (host, port)"
  show ?thesis
  proof (cases "dropWhile ?P (take 511 name)")
    case Nil
    then have "CHR '':'' \<notin> set (take 511 name)" by (auto simp: dropWhile_eq_Nil_conv)
    then show ?thesis using s Nil by (auto simp: split_host_def Let_def)
  next
    case (Cons c cs)
    then have "c = CHR '':''" using hd_dropWhile [of ?P "take 511 name"] by auto
    with Cons t have "take 511 name = takeWhile ?P (take 511 name) @ CHR '':'' # cs" by metis
    moreover have "host = takeWhile ?P (take 511 name)" "port = Some cs"
      using s Cons by (simp_all add: split_host_def Let_def)
    ultimately show ?thesis using set_takeWhileD by fastforce
  qed
qed

text \<open>A name with a written port is accepted exactly for the ports 1024 to 65534 of a host that resolves.\<close>

theorem host_with_port:
  assumes "CHR '':'' \<notin> set host" "length host + length (dec p) < 511" "p < 2 ^ 31"
  shows "stunParseHostName dns (Some (host @ CHR '':'' # dec p)) ip pv d =
    Inr (1024 \<le> p \<and> p < 0xFFFF \<and> dns host \<noteq> None)"
proof -
  let ?P = "\<lambda>c. c \<noteq> CHR '':''"
  have d: "dropWhile ?P (host @ CHR '':'' # dec p) = CHR '':'' # dec p" "takeWhile ?P (host @ CHR '':'' # dec p) = host"
    using assms(1) by (induction host) auto
  have "take 511 (host @ CHR '':'' # dec p) = host @ CHR '':'' # dec p" using assms(2) by simp
  then have s: "split_host (host @ CHR '':'' # dec p) = (host, Some (dec p))"
    unfolding split_host_def Let_def by (simp only: d) simp
  have "scan_int (dec p) = scan_int (CHR '' '' # dec p @ [])" by (simp add: scan_int_def is_blank_def)
  then have "scan_int (dec p) = Some (int p, [])" using scan_int_dec [of "[]" p] by simp
  then have "strtol10 (dec p) = (int p, [])" using assms(3) by (simp add: strtol10_def clamp_def)
  moreover have "sint (word_of_int i :: 32 word) = i" if "0 \<le> i" "i < 2 ^ 31" for i
    using that by (simp add: sint_sbintrunc' signed_take_bit_int_eq_self)
  from this [of "int p"] have "sint (word_of_int (int p) :: 32 word) = int p" using assms(3) by (simp del: of_int_of_nat_eq)
  ultimately have "port_num (Some (dec p)) d = int p" by (simp add: port_num_def)
  then show ?thesis by (auto simp: stunParseHostName_def s split: option.split)
qed

text \<open>An empty port is port 0, not the default one, and a port beyond 32 bits is cut to them.\<close>

lemma port_num_odd: "port_num (Some '''') 3478 = 0" "port_num (Some ''4294970774'') 80 = 3478"
proof -
  have 1: "scan_int '''' = None" by (simp add: scan_int_def)
  show "port_num (Some '''') 3478 = 0" by (simp add: port_num_def strtol10_def 1)
  show "port_num (Some ''4294970774'') 80 = 3478"
    by (simp add: port_num_def strtol10_def clamp_def scan_int_def is_blank_def digit_val_def Let_def)
qed

section \<open>Error responses and hexadecimal digits\<close>

text \<open>\<open>strcpy\<close> into the reason of the copy; the copy is dropped on return.\<close>

definition stunCreateErrorResponse :: "stun_msg \<Rightarrow> byte \<Rightarrow> byte \<Rightarrow> byte list \<Rightarrow> unit res" where
  "stunCreateErrorResponse response cl number msg =
     res_bind (mem_write (reason (errorCode response)) 0 (msg @ [0])) (\<lambda>_. Inr ())"

definition hexmap :: "byte list" where
  "hexmap = map of_char ''0123456789abcdef''"

primrec toHex_loop :: "nat \<Rightarrow> byte list \<Rightarrow> int \<Rightarrow> int \<Rightarrow> byte list \<Rightarrow> (int \<times> byte list) res" where
  "toHex_loop 0 buf p r dest = Inr (r, dest)"
| "toHex_loop (Suc n) buf p r dest =
     res_bind (mem_read buf p 1) (\<lambda>temp.
       let hi = unat (drop_bit 4 (hd temp AND 0xf0)); low = unat (hd temp AND 0xf) in
       res_bind (mem_write dest r [hexmap ! hi]) (\<lambda>dest1.
       res_bind (mem_write dest1 (r + 1) [hexmap ! low]) (\<lambda>dest2.
       toHex_loop n buf (p + 1) (r + 2) dest2)))"

definition toHex :: "byte list \<Rightarrow> int \<Rightarrow> byte list \<Rightarrow> byte list res" where
  "toHex buf bufferSize dest =
     res_bind (toHex_loop (nat bufferSize) buf 0 0 dest) (\<lambda>(r, dest1). mem_write dest1 r [0])"

definition hex_text :: "byte list \<Rightarrow> byte list" where
  "hex_text bs = concat (map (\<lambda>b. [hexmap ! (unat b div 16), hexmap ! (unat b mod 16)]) bs)"

lemma hex_text_simps [simp]:
  "hex_text [] = []"
  "hex_text (b # bs) = hexmap ! (unat b div 16) # hexmap ! (unat b mod 16) # hex_text bs"
  "length (hex_text bs) = 2 * length bs"
  by (simp_all add: hex_text_def) (induction bs, simp_all)

lemma nibbles: "unat (drop_bit 4 (b AND 0xf0)) = unat b div 16" "unat (b AND 0xf) = unat (b :: byte) mod 16"
proof -
  have "drop_bit 4 (b AND 0xf0) = drop_bit 4 b"
    by (rule bit_word_eqI) (auto simp: bit_simps numeral_eq_Suc less_Suc_eq)
  then show "unat (drop_bit 4 (b AND 0xf0)) = unat b div 16" by (simp only: unat_drop_bit_eq) (simp add: drop_bit_eq_div)
  have "(0xf :: byte) = mask 4" by (simp add: mask_eq_exp_minus_1)
  then have "b AND 0xf = take_bit 4 b" by (simp only: take_bit_eq_mask)
  moreover have "unat (take_bit 4 b) = unat b mod 16" by (simp only: unsigned_take_bit_eq) (simp add: take_bit_eq_mod)
  ultimately show "unat (b AND 0xf) = unat b mod 16" by (simp only:)
qed

lemma toHex_loop_Suc:
  "toHex_loop (Suc n) buf p r dest =
     res_bind (mem_read buf p 1) (\<lambda>temp.
       res_bind (mem_write dest r [hexmap ! (unat (hd temp) div 16)]) (\<lambda>dest1.
       res_bind (mem_write dest1 (r + 1) [hexmap ! (unat (hd temp) mod 16)]) (\<lambda>dest2.
       toHex_loop n buf (p + 1) (r + 2) dest2)))"
  by (simp only: toHex_loop.simps nibbles Let_def)

text \<open>The digits go to the buffer one byte after the other, and what is behind them stays.\<close>

lemma toHex_loop_ok:
  assumes "pre = take (nat r) dest" "0 \<le> r" "length bs = n" "buf = front @ bs @ rest" "p = int (length front)"
    "nat r + 2 * n \<le> length dest"
  shows "toHex_loop n buf p r dest = Inr (r + 2 * int n, pre @ hex_text bs @ drop (nat r + 2 * n) dest)"
  using assms
proof (induction n arbitrary: pre r dest bs front p)
  case 0
  then show ?case by simp
next
  case (Suc n)
  then obtain b cs where bs: "bs = b # cs" "length cs = n" by (cases bs) auto
  let ?d = "[hexmap ! (unat b div 16)]" and ?e = "[hexmap ! (unat b mod 16)]"
  let ?o1 = "take (nat r) dest @ ?d @ drop (nat r + 1) dest"
  let ?o2 = "take (nat r + 1) ?o1 @ ?e @ drop (nat r + 2) ?o1"
  have rd: "mem_read buf p 1 = Inr [b]" using Suc.prems bs by (simp add: mem_read_def)
  have w1: "mem_write dest r ?d = Inr ?o1" using Suc.prems by (simp add: mem_write_def)
  have w2: "mem_write ?o1 (r + 1) ?e = Inr ?o2" using Suc.prems by (simp add: mem_write_def nat_add_distrib)
  have o2: "?o2 = take (nat r) dest @ ?d @ ?e @ drop (nat r + 2) dest" using Suc.prems by simp
  have "toHex_loop n buf (p + 1) (r + 2) ?o2
      = Inr (r + 2 + 2 * int n, take (nat (r + 2)) ?o2 @ hex_text cs @ drop (nat (r + 2) + 2 * n) ?o2)"
    by (rule Suc.IH [where front = "front @ [b]"]) (use Suc.prems bs in \<open>simp_all add: nat_add_distrib\<close>)
  moreover have "take (nat (r + 2)) ?o2 = pre @ ?d @ ?e" "drop (nat (r + 2) + 2 * n) ?o2 = drop (nat r + 2 * Suc n) dest"
    unfolding o2 using Suc.prems by (simp_all add: nat_add_distrib add.commute)
  ultimately have "toHex_loop n buf (p + 1) (r + 2) ?o2
      = Inr (r + 2 + 2 * int n, (pre @ ?d @ ?e) @ hex_text cs @ drop (nat r + 2 * Suc n) dest)"
    by (simp only:)
  then show ?case
    unfolding toHex_loop_Suc rd res_bind_simps list.sel w1 w2 bs by simp
qed

text \<open>
  \<open>toHex\<close> writes two digits for every byte and a NUL, in an output of at least \<open>2 n + 1\<close> bytes, and the digits
  determine the bytes.
\<close>

theorem toHex_writes_digits:
  assumes "n \<le> length buf" "2 * n + 1 \<le> length dest"
  shows "toHex buf (int n) dest = Inr (hex_text (take n buf) @ [0] @ drop (2 * n + 1) dest)"
proof -
  have "toHex_loop n buf 0 0 dest = Inr (2 * int n, hex_text (take n buf) @ drop (2 * n) dest)"
    using toHex_loop_ok [where pre = "[]" and r = 0 and bs = "take n buf" and front = "[]" and rest = "drop n buf"
        and n = n and buf = buf and dest = dest and p = 0] assms by simp
  then show ?thesis using assms by (simp add: toHex_def mem_write_def nat_mult_distrib)
qed

lemma hexmap_inj: "i < 16 \<Longrightarrow> j < 16 \<Longrightarrow> hexmap ! i = hexmap ! j \<Longrightarrow> i = j"
proof -
  have "distinct hexmap" "length hexmap = 16" by (simp_all add: hexmap_def)
  then show "i < 16 \<Longrightarrow> j < 16 \<Longrightarrow> hexmap ! i = hexmap ! j \<Longrightarrow> i = j" by (simp add: nth_eq_iff_index_eq)
qed

theorem hex_text_inj: "hex_text bs = hex_text cs \<Longrightarrow> bs = cs"
proof (induction bs arbitrary: cs)
  case Nil
  then show ?case by (cases cs) auto
next
  case (Cons b bs)
  then obtain c ds where cs: "cs = c # ds" by (cases cs) auto
  have lt: "unat x div 16 < 16" for x :: byte using unat_byte_less [of x] by simp
  from Cons.prems cs have "unat b div 16 = unat c div 16" "unat b mod 16 = unat c mod 16"
    by (auto intro!: hexmap_inj lt)
  then have "unat b = unat c" by (metis div_mult_mod_eq)
  then have "b = c" by (simp only: word_unat_eq_iff)
  with Cons cs show ?case by simp
qed

text \<open>A reason of 256 characters or more overruns the array of the copy.\<close>

lemma error_reason_overrun:
  "length (reason (errorCode m)) = STUN_MAX_STRING \<Longrightarrow>
     (stunCreateErrorResponse m cl n msg = Inl OutOfBounds \<longleftrightarrow> STUN_MAX_STRING \<le> length msg)"
  by (auto simp: stunCreateErrorResponse_def mem_write_def STUN_MAX_STRING_def)

end
