(* ===== verification/Udp_Socket.thy ===== *)
theory Udp_Socket
  imports Recv_Pkg
begin

text \<open>
  Receiving from the socket and guessing the own address (\<open>ml/util/udpSocket.c\<close>): \<open>recvPacket\<close>, \<open>handleSocketError\<close>,
  \<open>getTTL\<close> and \<open>mlAutodetectIPAddress\<close>. What \<open>recvmsg\<close>, \<open>getsockopt\<close>, \<open>getifaddrs\<close> and the routing table of the
  kernel give are arguments. Shown: what \<open>recv_pkg\<close> gets of a datagram, which errors reach the callback for the path MTU
  and with which size, and which interface the address is taken from.
\<close>

section \<open>Receiving\<close>

text \<open>A control message: level and type, the integer in it, and the extended error in it.\<close>

record ext_err =
  ee_errno :: int
  ee_origin :: int
  ee_type :: int
  ee_code :: int

record cmsg =
  cmsg_level :: int
  cmsg_type :: int
  cmsg_int :: int
  cmsg_err :: ext_err

definition IPPROTO_IP :: int where "IPPROTO_IP = 0"
definition IP_TTL :: int where "IP_TTL = 2"
definition IP_RECVERR :: int where "IP_RECVERR = 11"
definition SO_EE_ORIGIN_ICMP :: int where "SO_EE_ORIGIN_ICMP = 2"

text \<open>
  What a call of \<open>recvmsg\<close> gives: its result, the bytes it has put into the buffer, and the control messages. \<open>errq\<close>
  is the answer of the second call, with \<open>MSG_ERRQUEUE\<close>.
\<close>

record recv_answer =
  ret :: int
  payload :: "byte list"
  control :: "cmsg list"

text \<open>The callback for the path MTU is called with the buffer and a size; the calls are recorded.\<close>

definition pmtu_err :: "cmsg \<Rightarrow> bool" where
  "pmtu_err c \<longleftrightarrow> cmsg_level c = IPPROTO_IP \<and> cmsg_type c = IP_RECVERR \<and> ee_origin (cmsg_err c) = SO_EE_ORIGIN_ICMP \<and>
     ee_type (cmsg_err c) = 3 \<and> ee_code (cmsg_err c) = 4"

primrec err_loop :: "byte list \<Rightarrow> int \<Rightarrow> cmsg list \<Rightarrow> (byte list \<times> int) list" where
  "err_loop buf sz [] = []"
| "err_loop buf sz (c # cs) = (if pmtu_err c then [(buf, sz)] else []) @ err_loop buf sz cs"

definition handleSocketError :: "recv_answer \<Rightarrow> byte list \<Rightarrow> int \<Rightarrow> int \<times> (byte list \<times> int) list" where
  "handleSocketError errq buf sz = (if ret errq \<le> 0 then (- 1, []) else (0, err_loop buf sz (control errq)))"

primrec ttl_loop :: "cmsg list \<Rightarrow> int \<Rightarrow> int" where
  "ttl_loop [] ttl = ttl"
| "ttl_loop (c # cs) ttl = (if cmsg_level c = IPPROTO_IP \<and> cmsg_type c = IP_TTL then cmsg_int c else ttl_loop cs ttl)"

text \<open>Buffer, size, time to live, and the calls of the callback.\<close>

definition recvPacket :: "recv_answer \<Rightarrow> recv_answer \<Rightarrow> byte list \<Rightarrow> int \<Rightarrow> int \<Rightarrow>
    (byte list \<times> int \<times> int \<times> (byte list \<times> int) list) res" where
  "recvPacket msg errq buffer recvSize ttl =
     res_bind (mem_write buffer 0 (if ret msg < 0 then [] else take (nat recvSize) (payload msg))) (\<lambda>buf.
       Inr (if ret msg < 0 then (buf, ret msg, ttl, snd (handleSocketError errq buf (ret msg)))
            else (buf, ret msg, ttl_loop (control msg) ttl, [])))"

text \<open>\<open>pmtu_error_cb_th\<close> returns before it looks at the message.\<close>

definition pmtu_error_cb_th :: "byte list \<Rightarrow> int \<Rightarrow> 'a ml_scheme \<Rightarrow> 'a ml_scheme" where
  "pmtu_error_cb_th msg msglen s = s"

text \<open>\<open>recv_pkg\<close> on a stack buffer of \<open>MAX\<close> bytes, from the system call on.\<close>

definition PMTU_MAX :: int where "PMTU_MAX = 1472"

definition recv_pkg_fd :: "'e os_env_scheme \<Rightarrow> byte list \<Rightarrow> recv_answer \<Rightarrow> recv_answer \<Rightarrow> sockaddr \<Rightarrow> int \<Rightarrow> 'a ml_scheme
    \<Rightarrow> 'a ml_scheme res option" where
  "recv_pkg_fd env stack msg errq recv_addr ttl s =
     opt_bind (Some (recvPacket msg errq stack PMTU_MAX ttl)) (\<lambda>(buf, recvSize, _, calls).
       let s1 = fold (\<lambda>(m, n). pmtu_error_cb_th m n) calls s in
       if recvSize < 0 then Some (Inr s1) else recv_pkg env buf (Some (take (nat recvSize) buf, recv_addr)) s1)"

text \<open>\<open>value\<close> is what \<open>getsockopt\<close> finds, cut to a byte.\<close>

definition getTTL :: "u32 option \<Rightarrow> byte \<Rightarrow> int \<times> byte" where
  "getTTL sockopt ttl = (case sockopt of None \<Rightarrow> (0, ttl) | Some v \<Rightarrow> (1, ucast v))"

definition mlGetStandardTTL :: "u32 option \<Rightarrow> byte \<Rightarrow> int \<times> byte" where
  "mlGetStandardTTL sockopt ttl = getTTL sockopt ttl"

section \<open>The own address\<close>

record ifaddr =
  ifa_name :: "string option"
  ifa_addr :: "sockaddr option"

definition IFNAMSIZ :: nat where "IFNAMSIZ = 16"

text \<open>
  One line of the table: \<open>sscanf\<close> reads the interface and the destination without looking at the sizes of their arrays.
  The test for the default route copies its address over the destination instead of comparing the two; \<open>strcpy\<close> is
  never NULL, so the loop does not stop there.
\<close>

definition route_line :: "string \<Rightarrow> string \<Rightarrow> string res" where
  "route_line line iface =
     (case scan_word line of None \<Rightarrow> Inr iface
      | Some (w, rest) \<Rightarrow>
          res_bind (check OutOfBounds (length w < IFNAMSIZ)) (\<lambda>_.
          (case scan_word rest of None \<Rightarrow> Inr w
           | Some (d, _) \<Rightarrow> res_bind (check OutOfBounds (length d < 32)) (\<lambda>_. Inr w))))"

text \<open>A line that \<open>fgets\<close> has read up to the end of the file, without a newline, is not looked at.\<close>

definition whole_line :: "string \<Rightarrow> bool" where
  "whole_line l \<longleftrightarrow> l \<noteq> [] \<and> (last l = CHR 0x0A \<or> length l = 126)"

primrec route_loop :: "string list \<Rightarrow> string \<Rightarrow> string res" where
  "route_loop [] iface = Inr iface"
| "route_loop (l # ls) iface = (if whole_line l then res_bind (route_line l iface) (route_loop ls) else Inr iface)"

definition ifa_match :: "string \<Rightarrow> ifaddr \<Rightarrow> bool" where
  "ifa_match iface a \<longleftrightarrow> (case ifa_addr a of None \<Rightarrow> False | Some sa \<Rightarrow> ss_family sa = AF_INET) \<and> ifa_name a = Some iface"

primrec ifa_loop :: "string \<Rightarrow> ifaddr list \<Rightarrow> string option" where
  "ifa_loop iface [] = None"
| "ifa_loop iface (a # as) =
     (if ifa_match iface a then
        (case ifa_addr a of None \<Rightarrow> None | Some sa \<Rightarrow> inet_ntop4 (take 4 (drop 2 (ss_data sa))) 127)
      else ifa_loop iface as)"

text \<open>\<open>routes\<close> is \<open>/proc/net/route\<close>, if it can be opened, \<open>ifaddrs\<close> the list from \<open>getifaddrs\<close>, if it succeeds.\<close>

definition mlAutodetectIPAddress :: "string option \<Rightarrow> ifaddr list option \<Rightarrow> string option res" where
  "mlAutodetectIPAddress routes ifaddrs =
     (case routes of None \<Rightarrow> Inr None
      | Some t \<Rightarrow> res_bind (route_loop (fgets_lines 126 t) '''') (\<lambda>iface.
          if iface = '''' then Inr None
          else case ifaddrs of None \<Rightarrow> Inr None | Some as \<Rightarrow> Inr (ifa_loop iface as)))"

section \<open>What recv_pkg gets\<close>

text \<open>Of a datagram that fits, the handler gets the buffer and length the model of \<open>recv_pkg\<close> starts from.\<close>

theorem recv_pkg_fd_datagram:
  assumes "ret msg = int (length (payload msg))" "length (payload msg) \<le> nat PMTU_MAX" "length stack = nat PMTU_MAX"
  shows "recv_pkg_fd env stack msg errq a ttl s = recv_pkg env (packet_buf stack (payload msg)) (Some (payload msg, a)) s"
proof -
  have sz: "int (length (payload msg)) \<le> PMTU_MAX" using assms(2) by (simp add: PMTU_MAX_def)
  have "mem_write stack 0 (payload msg) = Inr (packet_buf stack (payload msg))"
    using assms sz by (simp add: mem_write_def packet_buf_def)
  then have "recvPacket msg errq stack PMTU_MAX ttl
      = Inr (packet_buf stack (payload msg), int (length (payload msg)), ttl_loop (control msg) ttl, [])"
    using assms sz by (simp add: recvPacket_def)
  then show ?thesis by (simp add: recv_pkg_fd_def packet_buf_def)
qed

text \<open>
  When \<open>recvmsg\<close> fails, \<open>recv_pkg\<close> changes nothing, whatever errors the socket reports: the callback for the path MTU is
  called once for every ICMP message \<open>fragmentation needed\<close>, with the failed result \<open>-1\<close> as the size of the packet, and
  does nothing.
\<close>

lemma err_loop_filter: "err_loop buf n cs = map (\<lambda>_. (buf, n)) (filter pmtu_err cs)"
  by (induction cs) simp_all

theorem recv_pkg_fd_error:
  assumes "ret msg < 0"
  shows "recvPacket msg errq stack sz ttl
      = Inr (stack, ret msg, ttl, if ret errq \<le> 0 then [] else map (\<lambda>_. (stack, ret msg)) (filter pmtu_err (control errq)))"
    and "recv_pkg_fd env stack msg errq a ttl s = Some (Inr s)"
proof -
  have w: "mem_write stack 0 [] = Inr stack" by (simp add: mem_write_def)
  show r: "recvPacket msg errq stack sz ttl
      = Inr (stack, ret msg, ttl, if ret errq \<le> 0 then [] else map (\<lambda>_. (stack, ret msg)) (filter pmtu_err (control errq)))"
    for sz using assms by (simp add: recvPacket_def w handleSocketError_def err_loop_filter)
  have "fold (\<lambda>(m, n). pmtu_error_cb_th m n) calls s = s" for calls
    by (induction calls) (auto simp: pmtu_error_cb_th_def)
  then show "recv_pkg_fd env stack msg errq a ttl s = Some (Inr s)"
    using assms by (simp add: recv_pkg_fd_def r)
qed

section \<open>Which interface is taken\<close>

lemma fgets_line:
  assumes "CHR 0x0A \<notin> set l" "length l < k"
  shows "fgets_lines k (l @ CHR 0x0A # t) = (l @ [CHR 0x0A]) # fgets_lines k t"
proof -
  have "takeWhile (\<lambda>c. c \<noteq> CHR 0x0A) (l @ CHR 0x0A # t) = l"
    using assms(1) by (induction l) auto
  then show ?thesis using assms(2) by (simp add: fgets_lines.simps [of k "l @ CHR 0x0A # t"] Let_def)
qed

lemma scan_word_blank:
  assumes "w \<noteq> []" "\<forall>c \<in> set w. \<not> is_blank c" "is_blank b"
  shows "scan_word (w @ b # r) = Some (w, b # r)" "scan_word (b # w @ r') = scan_word (w @ r')"
proof -
  from assms(1,2) have "dropWhile is_blank (w @ b # r) = w @ b # r" by (cases w) auto
  then show "scan_word (w @ b # r) = Some (w, b # r)"
    using assms takeWhile_no [of w "\<lambda>c. \<not> is_blank c" b] dropWhile_no [of w "\<lambda>c. \<not> is_blank c" b]
    by (simp add: scan_word_def Let_def)
  show "scan_word (b # w @ r') = scan_word (w @ r')" using assms(3) by (simp add: scan_word_def)
qed

lemma fgets_chunk:
  assumes "CHR 0x0A \<notin> set l" "k \<le> length l" "0 < k"
  shows "fgets_lines k (l @ CHR 0x0A # t) = take k l # fgets_lines k (drop k l @ CHR 0x0A # t)"
proof -
  have "takeWhile (\<lambda>c. c \<noteq> CHR 0x0A) (l @ CHR 0x0A # t) = l"
    using assms(1) by (induction l) auto
  then show ?thesis using assms(2,3) by (simp add: fgets_lines.simps [of k "l @ CHR 0x0A # t"] Let_def)
qed

text \<open>What is left of a line when \<open>fgets\<close> has filled its buffer is read as lines of their own; blanks change nothing.\<close>

lemma route_line_blank: "list_all is_blank l \<Longrightarrow> route_line l iface = Inr iface"
proof -
  assume "list_all is_blank l"
  then have "dropWhile is_blank l = []" by (simp add: list_all_iff)
  from scan_word_def [of l, unfolded this] show ?thesis by (simp add: route_line_def Let_def)
qed

lemma route_loop_blanks:
  assumes "CHR 0x0A \<notin> set l" "list_all is_blank l"
  shows "route_loop (fgets_lines 126 (l @ CHR 0x0A # t)) iface = route_loop (fgets_lines 126 t) iface"
  using assms
proof (induction "length l" arbitrary: l rule: less_induct)
  case less
  show ?case
  proof (cases "length l < 126")
    case True
    have "list_all is_blank (l @ [CHR 0x0A])" using less.prems(2) by (simp add: is_blank_def)
    then show ?thesis
      using fgets_line [OF less.prems(1) True] route_line_blank by (simp add: whole_line_def)
  next
    case False
    then have l: "126 \<le> length l" by simp
    have b: "list_all is_blank (take 126 l)" "list_all is_blank (drop 126 l)" "CHR 0x0A \<notin> set (drop 126 l)"
      using less.prems by (auto simp: list_all_iff dest: in_set_takeD in_set_dropD)
    have "route_loop (fgets_lines 126 (drop 126 l @ CHR 0x0A # t)) iface = route_loop (fgets_lines 126 t) iface"
      by (rule less.hyps) (use l b in auto)
    moreover have "whole_line (take 126 l)" using l by (auto simp: whole_line_def)
    ultimately show ?thesis
      using fgets_chunk [OF less.prems(1) l] route_line_blank [OF b(1)] by simp
  qed
qed

text \<open>
  A routing table: interface, destination, and the rest of each line. Linux pads its lines, the heading too, with blanks to 127
  characters and a newline, one more than \<open>fgets\<close> reads at once: \<open>row_ok\<close> allows any number of blanks behind the first
  126 characters.
\<close>

definition row_line :: "string \<times> string \<times> string \<Rightarrow> string" where
  "row_line = (\<lambda>(i, d, r). i @ [CHR 0x09] @ d @ [CHR 0x09] @ r)"

definition row_text :: "string \<times> string \<times> string \<Rightarrow> string" where
  "row_text x = row_line x @ [CHR 0x0A]"

definition row_ok :: "string \<times> string \<times> string \<Rightarrow> bool" where
  "row_ok x \<longleftrightarrow> (case x of (i, d, r) \<Rightarrow> i \<noteq> [] \<and> length i < 16 \<and> list_all (\<lambda>c. \<not> is_blank c) i
     \<and> d \<noteq> [] \<and> length d < 32 \<and> list_all (\<lambda>c. \<not> is_blank c) d \<and> CHR 0x0A \<notin> set r)
     \<and> list_all is_blank (drop 126 (row_line x))"

lemma route_line_row:
  assumes "row_ok (i, d, r)" shows "route_line (i @ CHR 0x09 # d @ CHR 0x09 # q) iface = Inr i"
proof -
  have b: "is_blank CHR 0x09" by (simp add: is_blank_def)
  have nb: "\<forall>c \<in> set i. \<not> is_blank c" "\<forall>c \<in> set d. \<not> is_blank c" "i \<noteq> []" "d \<noteq> []"
    using assms by (simp_all add: row_ok_def list_all_iff)
  have "scan_word (i @ CHR 0x09 # d @ CHR 0x09 # q) = Some (i, CHR 0x09 # d @ CHR 0x09 # q)"
    by (rule scan_word_blank(1) [OF nb(3,1) b])
  moreover have "scan_word (CHR 0x09 # d @ CHR 0x09 # q) = Some (d, CHR 0x09 # q)"
    using scan_word_blank [OF nb(4,2) b] by simp
  ultimately show ?thesis using assms by (simp add: route_line_def row_ok_def IFNAMSIZ_def)
qed

lemma route_row:
  assumes "row_ok x"
  shows "route_loop (fgets_lines 126 (row_text x @ t)) iface = route_loop (fgets_lines 126 t) (fst x)"
proof -
  obtain i d r where x: "x = (i, d, r)" by (cases x)
  note ok = assms [unfolded x]
  have "is_blank CHR 0x0A" by (simp add: is_blank_def)
  then have nl: "CHR 0x0A \<notin> set (row_line x)" using ok by (auto simp: row_line_def row_ok_def list_all_iff x)
  have tx: "row_text x @ t = row_line x @ CHR 0x0A # t" by (simp add: row_text_def)
  show ?thesis
  proof (cases "length (row_line x) < 126")
    case True
    have "row_line x @ [CHR 0x0A] = i @ CHR 0x09 # d @ CHR 0x09 # (r @ [CHR 0x0A])" by (simp add: row_line_def x)
    then have "route_line (row_line x @ [CHR 0x0A]) iface = Inr i" by (simp only: route_line_row [OF ok])
    then show ?thesis unfolding tx fgets_line [OF nl True] by (simp add: whole_line_def x)
  next
    case False
    then have l: "126 \<le> length (row_line x)" by simp
    have short: "length i + length d < 47" using ok by (simp add: row_ok_def)
    then have "take 126 (row_line x) = i @ CHR 0x09 # d @ CHR 0x09 # take (124 - length i - length d) r"
      by (simp add: row_line_def x take_Cons' diff_diff_add)
    then have "route_line (take 126 (row_line x)) iface = Inr i" by (simp only: route_line_row [OF ok])
    moreover have "whole_line (take 126 (row_line x))" using l by (auto simp: whole_line_def)
    moreover have "route_loop (fgets_lines 126 (drop 126 (row_line x) @ CHR 0x0A # t)) i = route_loop (fgets_lines 126 t) i"
      by (rule route_loop_blanks) (use nl assms in \<open>auto simp: row_ok_def dest: in_set_dropD\<close>)
    ultimately show ?thesis unfolding tx fgets_chunk [OF nl l zero_less_numeral] by (simp add: x)
  qed
qed

lemma route_loop_rows:
  "list_all row_ok rows \<Longrightarrow> route_loop (fgets_lines 126 (concat (map row_text rows))) iface
     = Inr (if rows = [] then iface else fst (last rows))"
proof (induction rows arbitrary: iface)
  case Nil
  then show ?case by (simp add: fgets_lines.simps)
next
  case (Cons x rows)
  then show ?case by (simp add: route_row)
qed

text \<open>
  C37: The address returned is that of the interface of the last line of the routing table, whichever line is the default
  route. This is for a table whose lines, the heading counted as one, each begin with a name of less than 16 and a destination of
  less than 32 characters without blanks, a tab behind each, and have nothing but blanks beyond their first 126
  characters, as the lines of Linux have.
\<close>

theorem autodetect_last_route:
  assumes "list_all row_ok rows" "rows \<noteq> []"
  shows "mlAutodetectIPAddress (Some (concat (map row_text rows))) (Some as) = Inr (ifa_loop (fst (last rows)) as)"
proof -
  have "row_ok (last rows)" using assms by (simp add: list_all_iff)
  then have "fst (last rows) \<noteq> ''''" by (cases "last rows") (simp add: row_ok_def)
  then show ?thesis using assms by (simp add: mlAutodetectIPAddress_def route_loop_rows)
qed

text \<open>
  A host with a default route through \<open>eth0\<close> and a bridge \<open>docker0\<close> gets the address of the bridge. The lines are those of
  Linux, with all their columns and 127 characters each.
\<close>

definition padded :: "string \<times> string \<times> string \<Rightarrow> string \<times> string \<times> string" where
  "padded = (\<lambda>(i, d, r). (i, d, r @ replicate (127 - length (row_line (i, d, r))) CHR '' ''))"

definition columns :: "string list \<Rightarrow> string" where
  "columns = concat \<circ> map (\<lambda>c. c @ [CHR 0x09])"

definition demo_routes :: "(string \<times> string \<times> string) list" where
  "demo_routes = map padded
    [(''Iface'', ''Destination'', columns [''Gateway '', ''Flags'', ''RefCnt'', ''Use'', ''Metric'', ''Mask'', [], ''MTU'', ''Window''] @ ''IRTT''),
     (''eth0'', ''00000000'', columns [''0101A8C0'', ''0003'', ''0'', ''0'', ''0'', ''00000000'', ''0'', ''0''] @ ''0''),
     (''docker0'', ''000011AC'', columns [''00000000'', ''0001'', ''0'', ''0'', ''0'', ''0000FFFF'', ''0'', ''0''] @ ''0'')]"

definition demo_ifaddrs :: "ifaddr list" where
  "demo_ifaddrs = [\<lparr> ifa_name = Some ''eth0'', ifa_addr = Some \<lparr> ss_family = AF_INET, ss_data = [0, 0, 192, 168, 1, 2] \<rparr> \<rparr>,
     \<lparr> ifa_name = Some ''docker0'', ifa_addr = Some \<lparr> ss_family = AF_INET, ss_data = [0, 0, 172, 17, 0, 1] \<rparr> \<rparr>]"

theorem autodetect_last_route_witness:
  "map length (map row_text demo_routes) = [128, 128, 128]
   \<and> mlAutodetectIPAddress (Some (concat (map row_text demo_routes))) (Some demo_ifaddrs) = Inr (Some ''172.17.0.1'')"
proof
  show "map length (map row_text demo_routes) = [128, 128, 128]"
    by (simp add: demo_routes_def padded_def row_text_def row_line_def columns_def)
  have "list_all row_ok demo_routes"
    by (simp add: demo_routes_def padded_def row_ok_def row_line_def columns_def is_blank_def)
  moreover have "demo_routes \<noteq> []" by (simp add: demo_routes_def)
  moreover have "fst (last demo_routes) = ''docker0''" by (simp add: demo_routes_def padded_def)
  moreover have "ifa_loop ''docker0'' demo_ifaddrs = Some ''172.17.0.1''" by code_simp
  ultimately show "mlAutodetectIPAddress (Some (concat (map row_text demo_routes))) (Some demo_ifaddrs) = Inr (Some ''172.17.0.1'')"
    using autodetect_last_route [of demo_routes demo_ifaddrs] by simp
qed

end
