(* ===== verification/Dissector.thy ===== *)
theory Dissector
  imports Send_Msg
begin

text \<open>
  The Wireshark dissector of the messaging layer (\<open>wireshark-dissector/grapes/packet-grapes.c\<close>). Wireshark's buffer is a
  record of the functions the code calls on it; what it documents of them for a complete packet is \<open>tvb_holds\<close>. The
  display tree is the list of what the code adds to it, in order. Shown: of every fragment that \<open>send_msg\<close> builds the
  dissector shows the header fields that were sent and finds the payload; one field of the data header is never shown,
  and a truncated packet header is skipped at the wrong offset.
\<close>

section \<open>The display\<close>

datatype hf =
    Hf_ml_offset | Hf_ml_msg_length | Hf_ml_local_con_id | Hf_ml_remote_con_id | Hf_ml_msg_seq_num | Hf_ml_msg_type
  | Hf_ml_len_mon_data_hdr | Hf_ml_len_mon_packet_hdr
  | Hf_monl_p_seq_num | Hf_monl_p_ts_s | Hf_monl_p_ts_us | Hf_monl_p_ans_ts_s | Hf_monl_p_ans_ts_us | Hf_monl_p_initial_ttl
  | Hf_monl_d_seq_num | Hf_monl_d_ts_s | Hf_monl_d_ts_us | Hf_monl_d_ans_ts_s | Hf_monl_d_ans_ts_us

text \<open>A field, a text, the protocol itself with their offset and length, and the payload, from an offset to the end.\<close>

datatype shown = Item hf int int | Label int int string | Protocol int int | Payload int

record tvb =
  tvb_length :: int
  tvb_reported_length_remaining :: "int \<Rightarrow> int"
  tvb_get_guint8 :: "int \<Rightarrow> byte"
  tvb_get_ntohl :: "int \<Rightarrow> u32"

definition tvb_holds :: "tvb \<Rightarrow> byte list \<Rightarrow> bool" where
  "tvb_holds t bs \<longleftrightarrow> tvb_length t = int (length bs) \<and>
     (\<forall>off. 0 \<le> off \<and> off \<le> int (length bs) \<longrightarrow> tvb_reported_length_remaining t off = int (length bs) - off) \<and>
     (\<forall>off. 0 \<le> off \<and> off < int (length bs) \<longrightarrow> tvb_get_guint8 t off = bs ! nat off) \<and>
     (\<forall>off. 0 \<le> off \<and> off + 4 \<le> int (length bs) \<longrightarrow> tvb_get_ntohl t off = of_be32 (drop (nat off) bs))"

definition GRAPES_ML_HDR_SIZE :: int where "GRAPES_ML_HDR_SIZE = 23"
definition GRAPES_MONL_PKT_HDR_SIZE :: int where "GRAPES_MONL_PKT_HDR_SIZE = 21"
definition GRAPES_MONL_DATA_HDR_SIZE :: int where "GRAPES_MONL_DATA_HDR_SIZE = 20"

section \<open>The dissector\<close>

text \<open>The result is what the caller adds to its offset. \<open>tree\<close> tells whether there is a tree to fill.\<close>

definition dissect_grapes_monl_packet :: "tvb \<Rightarrow> int \<Rightarrow> int \<Rightarrow> bool \<Rightarrow> int \<times> shown list" where
  "dissect_grapes_monl_packet tvb off sz tree =
     (if \<not> tree then (off, [])
      else if sz < GRAPES_MONL_PKT_HDR_SIZE then (0, [])
      else if tvb_reported_length_remaining tvb off < GRAPES_MONL_PKT_HDR_SIZE then
        (off, [Label off (tvb_reported_length_remaining tvb off) ''MONL packet header (truncated)''])
      else (sz, [Label off GRAPES_MONL_PKT_HDR_SIZE ''MONL packet header'',
        Item Hf_monl_p_seq_num off 4, Item Hf_monl_p_ts_s (off + 4) 4, Item Hf_monl_p_ts_us (off + 8) 4,
        Item Hf_monl_p_ans_ts_s (off + 12) 4, Item Hf_monl_p_ans_ts_us (off + 16) 4, Item Hf_monl_p_initial_ttl (off + 20) 1]))"

definition dissect_grapes_monl_data :: "tvb \<Rightarrow> int \<Rightarrow> int \<Rightarrow> bool \<Rightarrow> int \<times> shown list" where
  "dissect_grapes_monl_data tvb off sz tree =
     (if \<not> tree then (0, [])
      else if sz < GRAPES_MONL_DATA_HDR_SIZE then (0, [])
      else if tvb_reported_length_remaining tvb off < GRAPES_MONL_DATA_HDR_SIZE then
        (0, [Label off (tvb_reported_length_remaining tvb off) ''MONL data header (truncated)''])
      else (sz, [Label off GRAPES_MONL_DATA_HDR_SIZE ''MONL data header'',
        Item Hf_monl_d_seq_num off 4, Item Hf_monl_d_ts_s (off + 4) 4, Item Hf_monl_d_ts_us (off + 8) 4,
        Item Hf_monl_d_ans_ts_s (off + 12) 4, Item Hf_monl_d_ans_ts_s (off + 16) 4]))"

definition ml_items :: "shown list" where
  "ml_items = [Item Hf_ml_offset 0 4, Item Hf_ml_msg_length 4 4, Item Hf_ml_local_con_id 8 4, Item Hf_ml_remote_con_id 12 4,
     Item Hf_ml_msg_seq_num 16 4, Item Hf_ml_msg_type 20 1, Item Hf_ml_len_mon_data_hdr 21 1, Item Hf_ml_len_mon_packet_hdr 22 1]"

text \<open>The result, the three numbers of the summary line, and the display.\<close>

definition dissect_grapes :: "tvb \<Rightarrow> bool \<Rightarrow> int \<times> (byte \<times> u32 \<times> u32) option \<times> shown list" where
  "dissect_grapes tvb tree =
     (if tvb_length tvb < GRAPES_ML_HDR_SIZE then (0, None, [])
      else let info = Some (tvb_get_guint8 tvb 20, tvb_get_ntohl tvb 16, tvb_get_ntohl tvb 0) in
        if \<not> tree then (tvb_length tvb, info, [])
        else
          let off = GRAPES_ML_HDR_SIZE;
              p_size = uint (tvb_get_guint8 tvb 22);
              (p_add, p_items) = (if p_size \<noteq> 0 then dissect_grapes_monl_packet tvb off p_size tree else (0, []));
              off1 = off + p_add;
              d_size = uint (tvb_get_guint8 tvb 21);
              (d_add, d_items) = (if d_size \<noteq> 0 \<and> tvb_get_ntohl tvb 0 = 0 then dissect_grapes_monl_data tvb off1 d_size tree
                                  else (0, []))
          in (tvb_length tvb, info,
              Protocol 0 GRAPES_ML_HDR_SIZE # ml_items @ p_items @ d_items @ [Payload (off1 + d_add)]))"

section \<open>What it shows of a fragment\<close>

text \<open>The field an item stands for and its bytes.\<close>

definition field_of :: "byte list \<Rightarrow> shown \<Rightarrow> (hf \<times> byte list) option" where
  "field_of bs x = (case x of Item f off n \<Rightarrow> Some (f, take (nat n) (drop (nat off) bs)) | _ \<Rightarrow> None)"

definition ml_fields :: "msg_header \<Rightarrow> (hf \<times> byte list) list" where
  "ml_fields h = [(Hf_ml_offset, be32 (offset h)), (Hf_ml_msg_length, be32 (msg_length h)),
     (Hf_ml_local_con_id, be32 (local_con_id h)), (Hf_ml_remote_con_id, be32 (remote_con_id h)),
     (Hf_ml_msg_seq_num, be32 (msg_seq_num h)), (Hf_ml_msg_type, [msg_type h]),
     (Hf_ml_len_mon_data_hdr, [len_mon_data_hdr h]), (Hf_ml_len_mon_packet_hdr, [len_mon_packet_hdr h])]"

lemma ml_items_fields: "map (field_of (encode_header h @ rest)) ml_items = map Some (ml_fields h)"
proof -
  have d: "drop k (be32 a @ r) = drop (k - 4) r" "take k (be32 a @ r) = be32 a @ take (k - 4) r" if "4 \<le> k" for k a r
    using that by simp_all
  show ?thesis by (simp add: ml_items_def ml_fields_def field_of_def encode_header_def d)
qed

lemma header_numbers:
  assumes "tvb_holds t (encode_header h @ rest)"
  shows "tvb_length t = 23 + int (length rest)" "tvb_get_ntohl t 0 = offset h" "tvb_get_ntohl t 16 = msg_seq_num h"
    "tvb_get_guint8 t 20 = msg_type h" "tvb_get_guint8 t 21 = len_mon_data_hdr h" "tvb_get_guint8 t 22 = len_mon_packet_hdr h"
proof -
  have l: "length (encode_header h) = 23" by (simp add: encode_header_def)
  have d: "drop k (be32 a @ r) = drop (k - 4) r" if "4 \<le> k" for k a r using that by simp
  have i: "(be32 a @ r) ! k = r ! (k - 4)" if "4 \<le> k" for k a r using that by (simp add: nth_append)
  show "tvb_length t = 23 + int (length rest)" "tvb_get_ntohl t 0 = offset h" "tvb_get_ntohl t 16 = msg_seq_num h"
    "tvb_get_guint8 t 20 = msg_type h" "tvb_get_guint8 t 21 = len_mon_data_hdr h" "tvb_get_guint8 t 22 = len_mon_packet_hdr h"
    using assms l by (simp_all add: tvb_holds_def encode_header_def d i)
qed

text \<open>The monitoring headers have the sizes of \<open>mon.h\<close> or more, or are absent.\<close>

definition mon_sizes :: "byte list \<Rightarrow> byte list \<Rightarrow> bool" where
  "mon_sizes ph dh \<longleftrightarrow> (ph = [] \<or> 21 \<le> length ph) \<and> length ph < 256 \<and> (dh = [] \<or> 20 \<le> length dh) \<and> length dh < 256"

lemma dissect_packet:
  assumes "tvb_holds t (encode_header h @ ph @ dh @ pl)" "mon_sizes ph dh"
    and "len_mon_packet_hdr h = word_of_nat (length ph)" "offset h = 0 \<Longrightarrow> len_mon_data_hdr h = word_of_nat (length dh)"
    and "offset h \<noteq> 0 \<Longrightarrow> dh = []"
  shows "\<exists>mon. dissect_grapes t True = (int (23 + length ph + length dh + length pl),
      Some (msg_type h, msg_seq_num h, offset h),
      Protocol 0 23 # ml_items @ mon @ [Payload (int (23 + length ph + length dh))])"
proof -
  note n = header_numbers [OF assms(1)]
  have len: "length (encode_header h) = 23" by (simp add: encode_header_def)
  have w: "uint (word_of_nat k :: byte) = int k" if "k < 256" for k
    using that by (simp add: unsigned_of_nat take_bit_nat_eq_self flip: uint_nat)
  have rem: "tvb_reported_length_remaining t off = int (23 + length ph + length dh + length pl) - off"
    if "0 \<le> off" "off \<le> int (23 + length ph + length dh + length pl)" for off
    using assms(1) that len by (simp add: tvb_holds_def add.assoc)
  have p: "uint (len_mon_packet_hdr h) = int (length ph)" using assms(2,3) w by (simp add: mon_sizes_def)
  have d0: "uint (len_mon_data_hdr h) = int (length dh)" if "offset h = 0"
    using assms(2) w [of "length dh"] assms(4) [OF that] by (simp only: mon_sizes_def)
  have d: "(uint (len_mon_data_hdr h) \<noteq> 0 \<and> offset h = 0) = (dh \<noteq> [])"
    using d0 assms(5) by (cases "offset h = 0") auto
  have d1: "uint (len_mon_data_hdr h) = int (length dh)" if "dh \<noteq> []" using d0 assms(5) that by blast
  have P: "\<exists>xs. (if uint (len_mon_packet_hdr h) \<noteq> 0 then dissect_grapes_monl_packet t 23 (uint (len_mon_packet_hdr h)) True
      else (0, [])) = (int (length ph), xs)"
    using assms(2) rem [of 23] p
    by (auto simp: dissect_grapes_monl_packet_def GRAPES_MONL_PKT_HDR_SIZE_def mon_sizes_def)
  have D: "\<exists>ys. (if uint (len_mon_data_hdr h) \<noteq> 0 \<and> offset h = 0
      then dissect_grapes_monl_data t (23 + int (length ph)) (uint (len_mon_data_hdr h)) True else (0, [])) = (int (length dh), ys)"
    using assms(2) rem [of "23 + int (length ph)"] d d1
    by (cases "dh = []") (auto simp: dissect_grapes_monl_data_def GRAPES_MONL_DATA_HDR_SIZE_def mon_sizes_def)
  from P obtain xs where xs: "(if uint (len_mon_packet_hdr h) \<noteq> 0
      then dissect_grapes_monl_packet t 23 (uint (len_mon_packet_hdr h)) True else (0, [])) = (int (length ph), xs)" ..
  from D obtain ys where ys: "(if uint (len_mon_data_hdr h) \<noteq> 0 \<and> offset h = 0
      then dissect_grapes_monl_data t (23 + int (length ph)) (uint (len_mon_data_hdr h)) True else (0, []))
      = (int (length dh), ys)" ..
  have "dissect_grapes t True = (int (23 + length ph + length dh + length pl),
      Some (msg_type h, msg_seq_num h, offset h),
      Protocol 0 23 # ml_items @ (xs @ ys) @ [Payload (int (23 + length ph + length dh))])"
    unfolding dissect_grapes_def n GRAPES_ML_HDR_SIZE_def Let_def xs prod.case ys by simp
  then show ?thesis by blast
qed

text \<open>
  C16: Of every fragment that \<open>send_msg\<close> builds, with monitoring headers of the sizes of \<open>mon.h\<close>, the dissector shows the
  eight fields of the message header that the receiver decodes, and takes as the payload the bytes of the message. The
  data header \<open>hdr\<close> is in the first fragment only; the later ones go on announcing its length \<open>ld\<close>, and the dissector must not
  look for it there.
\<close>

theorem dissect_fragment:
  assumes "frag_iov env job ld hdr off c = Inr v" "tvb_holds t (concat v)" "mon_sizes (v ! 1) hdr"
    and "off = 0 \<Longrightarrow> ld = word_of_nat (length hdr)" "0 \<le> off" "off < 2 ^ 32" "off \<noteq> 0 \<Longrightarrow> hdr = []"
    and "h = decode_header (concat v)" "k = 23 + length (v ! 1) + length hdr"
  shows "\<exists>mon. dissect_grapes t True = (int (length (concat v)), Some (msg_type h, msg_seq_num h, offset h),
      Protocol 0 23 # ml_items @ mon @ [Payload (int k)]) \<and>
    map (field_of (concat v)) ml_items = map Some (ml_fields h) \<and> drop k (concat v) = v ! 3"
proof -
  define n where "n = min (pkt_room (pmtusize c) (length hdr) (pkt_hdr_len env job c)) (sj_msg_len job - off)"
  define h' where "h' = frag_header job ld (pkt_hdr_len env job c) off n"
  from assms(1) obtain pl where v: "v = [encode_header h', take (pkt_hdr_len env job c) (stack_h_pkt env), hdr, pl]"
    and l: "pkt_hdr_len env job c \<le> length (stack_h_pkt env)"
    by (auto simp: frag_iov_def h'_def n_def Let_def res_map_Inr split: if_splits)
  let ?ph = "take (pkt_hdr_len env job c) (stack_h_pkt env)"
  have ph: "length ?ph = pkt_hdr_len env job c" using l by simp
  have hh: "h = h'" using assms(8) header.dec_enc [of h' "?ph @ hdr @ pl"] v by simp
  have t: "tvb_holds t (encode_header h @ ?ph @ hdr @ pl)" using assms(2) v hh by simp
  have m: "mon_sizes ?ph hdr" using assms(3) v by simp
  have h: "len_mon_packet_hdr h = word_of_nat (length ?ph)" "len_mon_data_hdr h = ld" "offset h = word_of_int off"
    unfolding ph hh by (simp_all add: h'_def frag_header_def)
  have z: "off = 0" if "(word_of_int off :: u32) = 0"
  proof -
    have "uint (word_of_int off :: u32) = off" using assms(5,6) by (simp add: uint_word_of_int_eq take_bit_int_eq_self)
    with that show ?thesis by simp
  qed
  obtain mon where d: "dissect_grapes t True = (int (23 + length ?ph + length hdr + length pl),
      Some (msg_type h, msg_seq_num h, offset h),
      Protocol 0 23 # ml_items @ mon @ [Payload (int (23 + length ?ph + length hdr))])"
  proof -
    have "len_mon_data_hdr h = word_of_nat (length hdr)" if "offset h = 0" using z h(2,3) that assms(4) by auto
    moreover have "hdr = []" if "offset h \<noteq> 0" using h(3) that assms(7) by (cases "off = 0") auto
    ultimately show thesis using dissect_packet [OF t m h(1)] that by blast
  qed
  have len: "length (encode_header h) = 23" by (simp add: encode_header_def)
  have k: "k = 23 + length ?ph + length hdr" using assms(9) v by simp
  have "length (concat v) = 23 + length ?ph + length hdr + length pl" using v len hh by simp
  moreover have "drop k (concat v) = v ! 3" using v len hh k by simp
  moreover have "map (field_of (concat v)) ml_items = map Some (ml_fields h)"
    using ml_items_fields [of h "?ph @ hdr @ pl"] v hh by simp
  ultimately show ?thesis using d k by metis
qed

text \<open>The microseconds of the answer in the data header are never shown: the seconds are shown twice.\<close>

theorem data_answer_usec_never_shown: "Item Hf_monl_d_ans_ts_us o' n \<notin> set (snd (snd (dissect_grapes t tree)))"
  by (auto simp: dissect_grapes_def dissect_grapes_monl_packet_def dissect_grapes_monl_data_def ml_items_def Let_def
      split: if_splits)

text \<open>A packet that ends within its packet header: the offset is added to itself, so that the payload is looked for at 46.\<close>

theorem truncated_header_offset:
  assumes "tvb_holds t (encode_header h @ ph)" "length ph < 21" "21 \<le> uint (len_mon_packet_hdr h)" "len_mon_data_hdr h = 0"
  shows "last (snd (snd (dissect_grapes t True))) = Payload 46"
proof -
  note n = header_numbers [OF assms(1)]
  have "length (encode_header h) = 23" by (simp add: encode_header_def)
  then have "tvb_reported_length_remaining t 23 = int (length ph)" using assms(1) by (simp add: tvb_holds_def)
  then show ?thesis using assms(2-4)
    by (simp add: dissect_grapes_def n GRAPES_ML_HDR_SIZE_def dissect_grapes_monl_packet_def GRAPES_MONL_PKT_HDR_SIZE_def Let_def)
qed

text \<open>A complete packet, as Wireshark holds it, and a fragment with both monitoring headers.\<close>

definition tvb_of :: "byte list \<Rightarrow> tvb" where
  "tvb_of bs = \<lparr> tvb_length = int (length bs), tvb_reported_length_remaining = (\<lambda>off. int (length bs) - off),
     tvb_get_guint8 = (\<lambda>off. bs ! nat off), tvb_get_ntohl = (\<lambda>off. of_be32 (drop (nat off) bs)) \<rparr>"

lemma tvb_of_holds: "tvb_holds (tvb_of bs) bs"
  by (simp add: tvb_holds_def tvb_of_def)

definition mon_env :: ml_env where
  "mon_env = menv0\<lparr> set_Monitoring_header_pkt_cb := Some (\<lambda>_ _. 21) \<rparr>"

definition mon_packet :: "byte list list" where
  "mon_packet = [encode_header \<lparr> offset = 0, msg_length = 3, local_con_id = 0, remote_con_id = word_of_int (external_connectionID conn0),
       msg_seq_num = seqnr conn0, msg_type = 5, len_mon_data_hdr = 20, len_mon_packet_hdr = 21 \<rparr>,
     take 21 (stack_h_pkt menv0), replicate 20 9, [1, 2, 3]]"

text \<open>A later fragment of the same message: it announces the data header but does not have it.\<close>

definition mon_packet_later :: "byte list list" where
  "mon_packet_later = [encode_header \<lparr> offset = 2, msg_length = 3, local_con_id = 0,
       remote_con_id = word_of_int (external_connectionID conn0), msg_seq_num = seqnr conn0, msg_type = 5,
       len_mon_data_hdr = 20, len_mon_packet_hdr = 21 \<rparr>,
     take 21 (stack_h_pkt menv0), [], [3]]"

lemma mon_packet_frag:
  "frag_iov mon_env (make_job conn0 0 5 [1, 2, 3] 3 False) 20 (replicate 20 9) 0 conn0 = Inr mon_packet"
  "frag_iov mon_env (make_job conn0 0 5 [1, 2, 3] 3 False) 20 [] 2 conn0 = Inr mon_packet_later"
proof -
  define job where "job = make_job conn0 0 5 [1, 2, 3] 3 False"
  have j: "sj_con_id job = 0" "sj_msg_type job = 5" "sj_msg job = [1, 2, 3]" "sj_msg_len job = 3" "\<not> sj_truncable job"
    "sj_seq job = seqnr conn0" "sj_remote job = word_of_int (external_connectionID conn0)"
    by (simp_all add: job_def make_job_def)
  have l1: "pkt_hdr_len mon_env job conn0 = 21" by (simp add: pkt_hdr_len_def mon_env_def)
  have room: "pkt_room (pmtusize conn0) 20 21 = pmtusize conn0 - 64" "pkt_room (pmtusize conn0) 0 21 = pmtusize conn0 - 44"
    "472 \<le> pmtusize conn0"
    using pkt_room_value [of "pmtusize conn0" 20 21] pkt_room_value [of "pmtusize conn0" 0 21] pmtu_bounds [OF conn0_pmtu] by simp_all
  have st: "stack_h_pkt mon_env = stack_h_pkt menv0" "length (stack_h_pkt menv0) = 32"
    using menv0_hooks by (simp_all add: mon_env_def hooks_ok_def MON_HEADER_SPACE_def)
  show "frag_iov mon_env job 20 (replicate 20 9) 0 conn0 = Inr mon_packet"
    using room(3) by (simp add: frag_iov_def l1 room(1) st Let_def j mem_read_def mon_packet_def frag_header_def)
  show "frag_iov mon_env job 20 [] 2 conn0 = Inr mon_packet_later"
    using room(3) by (simp add: frag_iov_def l1 room(2) st Let_def j mem_read_def mon_packet_later_def frag_header_def)
qed

theorem dissect_fragment_witness:
  "(\<exists>mon. dissect_grapes (tvb_of (concat mon_packet)) True = (67, Some (5, seqnr conn0, 0), Protocol 0 23 # ml_items @ mon @ [Payload 64])
     \<and> drop 64 (concat mon_packet) = [1, 2, 3])
   \<and> (\<exists>mon. dissect_grapes (tvb_of (concat mon_packet_later)) True
       = (45, Some (5, seqnr conn0, 2), Protocol 0 23 # ml_items @ mon @ [Payload 44])
     \<and> drop 44 (concat mon_packet_later) = [3])"
proof
  have st: "length (stack_h_pkt menv0) = 32" using menv0_hooks by (simp add: hooks_ok_def MON_HEADER_SPACE_def)
  then have m: "mon_sizes (mon_packet ! 1) (replicate 20 9)" "length (mon_packet ! 1) = 21" "mon_packet ! 3 = [1, 2, 3]"
    "length (concat mon_packet) = 67"
    and n: "mon_sizes (mon_packet_later ! 1) []" "length (mon_packet_later ! 1) = 21" "mon_packet_later ! 3 = [3]"
    "length (concat mon_packet_later) = 45"
    by (simp_all add: mon_packet_def mon_packet_later_def mon_sizes_def encode_header_def eval_nat_numeral)
  have h: "msg_type (decode_header (concat mon_packet)) = 5" "msg_seq_num (decode_header (concat mon_packet)) = seqnr conn0"
    "offset (decode_header (concat mon_packet)) = 0"
    by (simp_all add: mon_packet_def header.dec_enc)
  have h': "msg_type (decode_header (concat mon_packet_later)) = 5"
    "msg_seq_num (decode_header (concat mon_packet_later)) = seqnr conn0" "offset (decode_header (concat mon_packet_later)) = 2"
    by (simp_all add: mon_packet_later_def header.dec_enc)
  show "\<exists>mon. dissect_grapes (tvb_of (concat mon_packet)) True = (67, Some (5, seqnr conn0, 0), Protocol 0 23 # ml_items @ mon @ [Payload 64])
     \<and> drop 64 (concat mon_packet) = [1, 2, 3]"
    using dissect_fragment [OF mon_packet_frag(1) tvb_of_holds m(1) _ _ _ _ refl refl] m(2-4) h by auto
  show "\<exists>mon. dissect_grapes (tvb_of (concat mon_packet_later)) True
       = (45, Some (5, seqnr conn0, 2), Protocol 0 23 # ml_items @ mon @ [Payload 44]) \<and> drop 44 (concat mon_packet_later) = [3]"
    using dissect_fragment [OF mon_packet_frag(2) tvb_of_holds n(1) _ _ _ _ refl refl] n(2-4) h' by auto
qed

section \<open>Registration\<close>

text \<open>
  \<open>proto_reg_handoff_grapes\<close> runs at start and after every change of the preferences; \<open>port_table\<close> is Wireshark's table of
  UDP ports, with the ports this dissector is entered for.
\<close>

record handoff =
  initialized :: bool
  currentPort :: u32
  port_table :: "u32 list"

definition proto_reg_handoff_grapes :: "u32 \<Rightarrow> handoff \<Rightarrow> handoff" where
  "proto_reg_handoff_grapes udp_port s =
     (let table = (if initialized s then remove1 (currentPort s) (port_table s) else port_table s)
      in \<lparr> initialized = True, currentPort = udp_port, port_table = table @ [udp_port] \<rparr>)"

text \<open>However often the preference changes, the dissector is entered once, for the port chosen last.\<close>

theorem handoff_one_port:
  assumes "ports \<noteq> []"
  shows "port_table (fold proto_reg_handoff_grapes ports \<lparr> initialized = False, currentPort = 0, port_table = [] \<rparr>) = [last ports]"
proof -
  let ?s0 = "\<lparr> initialized = False, currentPort = 0, port_table = [] \<rparr>"
  have "fold proto_reg_handoff_grapes ps ?s0 =
      (if ps = [] then ?s0 else \<lparr> initialized = True, currentPort = last ps, port_table = [last ps] \<rparr>)" for ps
    by (induction ps rule: rev_induct) (simp_all add: proto_reg_handoff_grapes_def Let_def)
  from this [of ports] have "fold proto_reg_handoff_grapes ports ?s0
      = \<lparr> initialized = True, currentPort = last ports, port_table = [last ports] \<rparr>"
    using assms by simp
  then show ?thesis by simp
qed

end
