(* ===== verification/Spec2Isabelle.thy ===== *)
theory Spec2Isabelle
  imports Ml_Told Handshake Rep_Client Dclog Fec_Message Alto_Client Periodic Stun_Helpers Udp_Socket Dissector
begin

text \<open>
  A verification development for the PeerStreamer / NAPA base libraries (\<open>src/\<close>): the messaging layer \<open>ml/\<close>, the
  repository client \<open>rep/\<close>, the log library \<open>dclog/\<close>, the erasure code \<open>ml/fec/\<close>, and the ALTO client \<open>ALTOclient/\<close>.

  \<^bold>\<open>The program.\<close> An application opens connections to peers and sends them messages over UDP through the
  messaging layer (\<open>ml/ml.c\<close>). \<open>mlSendData\<close> and the timers end in \<open>send_msg\<close>, which cuts a message into
  fragments of the path MTU; each fragment is a packet that passes the token bucket (\<open>ml/util/rateLimiter.c\<close>) or
  waits in the transmit queue (\<open>ml/util/queueManagement.c\<close>), and is kept in the retransmit queue once it is sent.
  \<open>recv_pkg\<close> takes every datagram from libevent and gives it to the handler of its type: data to \<open>recv_data_msg\<close>,
  which reassembles messages and asks for missing ranges with NACKs; connection messages to \<open>recv_conn_msg\<close>, which runs
  the INVITE / CONNECT / READY handshake; NACKs to \<open>recv_nack_msg\<close>; answers of the STUN server to \<open>recv_stun_msg\<close>,
  which learns the external address. The application is told what happens through callbacks. Monitoring code hooks into
  sending and receiving. The repository client publishes measurement records to an HTTP server and queries it; all of
  it writes a log through \<open>dclog\<close>. The ALTO client has a server rate the peers of a list: it posts their addresses as an
  XML document, collects the entries of the reply in a data base and looks the network addresses of each peer up in it.

  \<^bold>\<open>Theories and code.\<close>

  \<^item> \<open>Ml_Prelude\<close>: machine types, memory faults as values (\<open>fault + 'a\<close>), checked buffer access, byte order.
  \<^item> \<open>Inet_Text\<close>: \<open>inet_ntop4\<close>, \<open>inet_ntop6\<close>, \<open>inet_pton4\<close>, \<open>inet_pton6\<close> of \<open>ml/util/inet_functions/\<close>.
  \<^item> \<open>Sock_Addr\<close>: \<open>sockaddr_storage\<close> and socket IDs (\<open>ml/util/udpSocket.c\<close>, \<open>ml/ml.c\<close>): text form, comparison, hash.
  \<^item> \<open>Packet_Queue\<close>: the linked transmit and retransmit queues on an explicit heap (\<open>ml/util/queueManagement.c\<close>), with
    the interface of a bounded queue as a locale and its interpretation on the code's operations.
  \<^item> \<open>Rate_Limiter\<close>: token bucket, \<open>queueOrSendPacket\<close>, the free-space event (\<open>ml/util/rateLimiter.c\<close>), \<open>sendPacket\<close>.
  \<^item> \<open>Wire\<close>: message header, NACK and connection message as bytes (\<open>ml/transmissionHandler.h\<close>).
  \<^item> \<open>Retransmit\<close>: \<open>searchPacketInRTX\<close>, \<open>rtxPacketsFromTo\<close>, \<open>recv_nack_msg\<close>.
  \<^item> \<open>Ml_State\<close>: the state of the layer: \<open>connectbuf\<close>, \<open>recvdatabuf\<close>, \<open>recvcbbuf\<close>, timers, trace of callbacks.
  \<^item> \<open>Send_Msg\<close>: \<open>send_msg\<close>, \<open>pmtu_decrement\<close>. \<open>Recv_Data\<close>: \<open>recv_data_msg\<close> and the receive timers.
  \<^item> \<open>Connection\<close>: \<open>send_conn_msg\<close>, \<open>recv_conn_msg\<close>, \<open>pmtu_timeout_cb\<close>, \<open>mlOpenConnection\<close>, \<open>mlCloseConnection\<close>,
    \<open>keepalive_fn\<close>, \<open>mlSendData\<close>.
  \<^item> \<open>Stun\<close>: the STUN codec (\<open>ml/util/stun.c\<close>). \<open>Ml_Init\<close>: \<open>mlInit\<close>, \<open>create_socket\<close>, \<open>try_stun\<close>, \<open>recv_stun_msg\<close>,
    the setters, the registration functions, \<open>mlSendAllData\<close>.
  \<^item> \<open>Recv_Pkg\<close>: \<open>recv_pkg\<close>, and a message from \<open>send_msg\<close> of one host to the callback of another.
  \<^item> \<open>Ml_Step\<close>, \<open>Ml_Told\<close>: datagrams, timers and calls as an \<open>inductive\<close> step relation, its invariant, and what
    the callbacks tell. \<open>Handshake\<close>: two hosts establish a connection.
  \<^item> \<open>Fec_Field\<close>, \<open>Fec_Matrix\<close>, \<open>Fec\<close>: the field of 256 elements, Gauss-Jordan and Vandermonde inversion, encoding and
    decoding (\<open>ml/fec/RSfec.c\<close>). \<open>Fec_Message\<close>: \<open>send_msg\<close>, \<open>recv_pkg\<close> and \<open>recv_data_msg\<close> as
    compiled with \<open>FEC\<close>.
  \<^item> \<open>Rep_Record\<close>, \<open>Rep_Client\<close>: measurement records and their text; opening, closing, publishing, batches, queries
    (\<open>rep/\<close>). \<open>Dclog\<close>: \<open>dclog/dclog.c\<close> and the interface \<open>dclog/log.c\<close>, on an explicit file system.
  \<^item> \<open>Alto_Db\<close>: the doubly linked data base of hosts on a heap and the search by network address, with a data base of
    hosts as a locale; \<open>Alto_Client\<close>: the request document, \<open>POST\<close>, the walk through the reply, queries for lists and
    files, and the query in a thread (\<open>ALTOclient/ALTOclient.c\<close>).
  \<^item> \<open>Periodic\<close>: start-up and periodic calls (\<open>common/common.c\<close>) as an \<open>inductive\<close> step relation. \<open>Stun_Helpers\<close>: what
    \<open>ml/util/stun.c\<close> has beside the codec. \<open>Udp_Socket\<close>: \<open>recvPacket\<close>, the error queue and the guess of the own address
    (\<open>ml/util/udpSocket.c\<close>). \<open>Dissector\<close>: \<open>wireshark-dissector/grapes/packet-grapes.c\<close> against the fragments of \<open>send_msg\<close>.

  \<^bold>\<open>How the code is modelled.\<close> A struct is a \<open>record\<close> with the names of the source; records of the layers extend each
  other (\<open>queues\<close>, \<open>rate\<close>, \<open>ml\<close>, \<open>fec_ml\<close>), and an operation is a function of the state that returns the new one. An
  access outside an object, through NULL or to freed memory is \<open>Inl\<close> of a \<open>fault\<close>. Linked structures live on a heap of
  addresses. A loop that may not end is a \<open>partial_function (option)\<close>, \<open>None\<close> being a run that does not return; there is no
  fuel, and that a call returns is stated as such. What the operating system answers (clock, \<open>sendmsg\<close>, resolver,
  \<open>fopen\<close>), what an uninitialised buffer holds, the monitoring hooks, and libxml2 (printing, parsing, HTTP) are fields of
  an environment over which everything is quantified. Integers have their width where they can wrap (the token bucket,
  header fields, STUN lengths), a wider value cut to an \<open>int\<close> is \<open>c_int\<close> (seconds of draining, size of the log); elsewhere they are \<open>int\<close>, the sizes being bounded by the checks of the code.

  \<^bold>\<open>What is shown.\<close> For each component: its invariant and that the operations keep it without faults
  (\<open>transmit_path_safe\<close>, for packets that fit the retransmit queue, and \<open>tables_invariant\<close>); what its operations do, on the error branches too; refinement of an abstract
  specification (queues, end-to-end delivery, handshake, erasure code); bounds (token bucket, while
  the bucket drains in less than \<open>2 ^ 31 - 1\<close> seconds); round trips (addresses,
  STUN messages, records, encoded packets); returning (\<open>send_msg_returns\<close>). Where the code does not do what it means to,
  a theorem with its witness shows the behaviour it has.

  \<^bold>\<open>Assumptions.\<close> The host is little-endian with 8-byte pointers and \<open>size_t\<close>; the build is the default one for Linux
  (\<open>RTX\<close> defined, \<open>FEC\<close> not, except in \<open>Fec_Message\<close>). Allocation succeeds. Callbacks of the application do not call the
  library again, and monitoring hooks do not change the state. Timers of libevent are fields of their owner or
  elements of a list, and firing them is a step at any time. Values of type \<open>double\<close> are exact or of a type parameter.

  \<^bold>\<open>Not modelled.\<close> \<open>monl/\<close> (C++, called through hooks), \<open>ml/stun_server/\<close> (a third-party C++ program), the
  headers of Wireshark, tests and examples; the branches for Windows and Mac OS; of the \<open>FEC\<close> build the connection handlers, which
  only change through \<open>send_msg\<close> and are arguments of its \<open>recv_pkg\<close>; \<open>mlRecvData\<close>, a stub that returns 0; the transfer of the
  ALTO client with libcurl, which is not compiled in; the functions that only print.
\<close>

end
